(* ===== verification/Mhi_Prelude.thy ===== *)
theory Mhi_Prelude
  imports Main "HOL-Library.Word"
begin

text \<open>
  Shared ground of the development: the machine integers of the driver, the error numbers
  its functions return, the result type that carries them, and the word and list facts that
  several components use. The collections \<open>ring_simps\<close>, \<open>tre_simps\<close>, \<open>pm_simps\<close> and
  \<open>frame_simps\<close> are filled by the component theories.
\<close>

unbundle bit_operations_syntax

named_theorems ring_simps \<open>index arithmetic of descriptor rings\<close>
named_theorems tre_simps \<open>field access of transfer ring elements\<close>
named_theorems pm_simps \<open>power state masks and the transition table\<close>
named_theorems frame_simps \<open>fields an operation leaves alone\<close>

section \<open>Machine integers\<close>

type_synonym u8 = "8 word"
type_synonym u16 = "16 word"
type_synonym u32 = "32 word"
type_synonym u64 = "64 word"

definition lower_32_bits :: "u64 \<Rightarrow> u32" where
  "lower_32_bits x = ucast x"

definition upper_32_bits :: "u64 \<Rightarrow> u32" where
  "upper_32_bits x = ucast (drop_bit 32 x)"

lemma split_join_64:
  "push_bit 32 (ucast (upper_32_bits x) :: u64) OR (ucast (lower_32_bits x) :: u64) = x"
proof (rule bit_word_eqI)
  fix n assume "n < LENGTH(64)"
  then show "bit (push_bit 32 (ucast (upper_32_bits x) :: u64) OR (ucast (lower_32_bits x) :: u64)) n
    = bit x n"
    by (cases "n < 32")
       (auto simp: lower_32_bits_def upper_32_bits_def bit_or_iff bit_push_bit_iff
          bit_unsigned_iff bit_drop_bit_eq)
qed

lemma upper_lower_inject:
  assumes "upper_32_bits x = upper_32_bits y" and "lower_32_bits x = lower_32_bits y"
  shows "x = y"
proof -
  have "x = push_bit 32 (ucast (upper_32_bits x) :: u64) OR (ucast (lower_32_bits x) :: u64)"
    by (rule split_join_64 [symmetric])
  also have "\<dots> = y" unfolding assms by (rule split_join_64)
  finally show ?thesis .
qed

section \<open>Results\<close>

text \<open>
  The error numbers the modelled functions return as negative values. A function that
  returns 0 or a negative error number has the result type \<open>unit res\<close>.
\<close>

datatype errno =
    EIO | ENOMEM | EINVAL | ENXIO | ETIMEDOUT | EBUSY | ENOTCONN | EOVERFLOW | EFAULT
  | ERESTARTSYS | ENODEV | EAGAIN | ENOENT | ENETDOWN | EOPNOTSUPP | ENOSPC | EINTR

type_synonym 'a res = "errno + 'a"

fun is_ok :: "'a res \<Rightarrow> bool" where
  "is_ok (Inl e) = False"
| "is_ok (Inr x) = True"

lemma is_okE: "is_ok r \<Longrightarrow> (\<And>x. r = Inr x \<Longrightarrow> P) \<Longrightarrow> P"
  by (cases r) auto

section \<open>Words\<close>

lemma unat_plus_nowrap:
  fixes a b :: "'a::len word"
  assumes "unat a + unat b < 2 ^ LENGTH('a)"
  shows "unat (a + b) = unat a + unat b"
  using assms by (simp add: unat_word_ariths)

lemma unat_minus_le:
  fixes a b :: "'a::len word"
  assumes "unat b \<le> unat a"
  shows "unat (a - b) = unat a - unat b"
  using assms by (simp add: unat_sub word_le_nat_alt)

lemma word_of_unat_plus:
  fixes a :: "'a::len word"
  shows "a + of_nat n = of_nat (unat a + n)"
  by simp

lemma unat_inj:
  fixes a b :: "'a::len word"
  shows "unat a = unat b \<Longrightarrow> a = b"
  by (simp add: word_unat_eq_iff)

lemma unat_of_nat_less:
  "n < 2 ^ LENGTH('a::len) \<Longrightarrow> unat (of_nat n :: 'a word) = n"
  by (simp add: unat_of_nat)

lemma unat_ucast32_small:
  fixes x :: u64
  shows "unat x < 2 ^ 32 \<Longrightarrow> unat (ucast x :: u32) = unat x"
  by (simp add: unsigned_ucast_eq take_bit_nat_eq_self)

lemma not_bit_above:
  fixes x :: "'a::len word"
  assumes "unat x < 2 ^ n" and "n \<le> k"
  shows "\<not> bit x k"
proof -
  have "unat x < 2 ^ k"
    using assms by (meson less_le_trans one_le_numeral power_increasing)
  then have "\<not> bit (unat x) k" by (simp add: bit_iff_odd)
  then show ?thesis by (simp add: bit_unsigned_iff)
qed

section \<open>Modular index arithmetic\<close>

lemma mod_succ_less: "i < n \<Longrightarrow> Suc i mod n = (if Suc i = n then 0 else Suc i)" for i n :: nat
  by (auto simp: mod_Suc)

lemma mod_add_diff:
  fixes i j n :: nat
  assumes "i \<le> j" "j < n"
  shows "(j + n - i) mod n = j - i"
proof -
  have e: "j + n - i = (j - i) + n" using assms by simp
  have "j - i < n" using assms by simp
  then show ?thesis unfolding e by (simp only: mod_add_self2 mod_less)
qed

lemma mod_sub_diff:
  fixes i j n :: nat
  assumes "j < i" "i \<le> n"
  shows "(j + n - i) mod n = j + n - i"
  using assms by simp

lemma mod_distance_succ:
  fixes i j n :: nat
  assumes "i < n" "j < n" "Suc j mod n \<noteq> i"
  shows "(Suc j mod n + n - i) mod n = Suc ((j + n - i) mod n)"
proof (cases "i \<le> j")
  case True
  show ?thesis
  proof (cases "Suc j = n")
    case w: True
    with assms have "0 < i" by auto
    with w True assms show ?thesis using mod_add_diff [of i j n] by auto
  next
    case False
    with True assms show ?thesis
      using mod_add_diff [of i j n] mod_add_diff [of i "Suc j" n] by (auto simp: Suc_diff_le)
  qed
next
  case False
  with assms have "Suc j < i" by (auto simp: mod_succ_less split: if_splits)
  with assms show ?thesis
    using mod_sub_diff [of j i n] mod_sub_diff [of "Suc j" i n] by (auto simp: Suc_diff_le)
qed

lemma mod_distance_pred:
  fixes i j n :: nat
  assumes "i < n" "j < n" "i \<noteq> j"
  shows "Suc ((j + n - Suc i mod n) mod n) = (j + n - i) mod n"
proof (cases "i < j")
  case True
  with assms show ?thesis
    using mod_add_diff [of "Suc i" j n] mod_add_diff [of i j n] by auto
next
  case False
  with assms have ji: "j < i" by simp
  show ?thesis
  proof (cases "Suc i = n")
    case True
    with assms ji show ?thesis using mod_sub_diff [of j i n] by auto
  next
    case False
    with assms ji show ?thesis
      using mod_sub_diff [of j i n] mod_sub_diff [of j "Suc i" n] by auto
  qed
qed

section \<open>Function update\<close>

lemma fun_upd_same_val: "f x = y \<Longrightarrow> f(x := y) = f"
  by auto

end
