(* ===== verification/Mhi_Types.thy ===== *)
theory Mhi_Types
  imports Mhi_Prelude
begin

text \<open>
  The constant vocabulary of the driver: the enumerations of \<open>core/mhi.h\<close> and
  \<open>core/mhi_internal.h\<close>, the transfer ring element with the macros that build and read its
  fields, the buffer descriptor and the doorbell configuration. An enumeration whose value
  can come from the device (an execution environment, a device state, a packet type, a
  completion code) is a datatype with one more constructor for the values the header does
  not name, and a pair of functions to and from the 32-bit value.
\<close>

section \<open>Enumerations read from the device\<close>

datatype mhi_ee =
    MHI_EE_PBL | MHI_EE_SBL | MHI_EE_AMSS | MHI_EE_RDDM | MHI_EE_WFW | MHI_EE_PTHRU
  | MHI_EE_EDL | MHI_EE_FP | MHI_EE_DISABLE_TRANSITION | MHI_EE_MAX | MHI_EE_OTHER u32

fun ee_val :: "mhi_ee \<Rightarrow> u32" where
  "ee_val MHI_EE_PBL = 0"
| "ee_val MHI_EE_SBL = 1"
| "ee_val MHI_EE_AMSS = 2"
| "ee_val MHI_EE_RDDM = 3"
| "ee_val MHI_EE_WFW = 4"
| "ee_val MHI_EE_PTHRU = 5"
| "ee_val MHI_EE_EDL = 6"
| "ee_val MHI_EE_FP = 7"
| "ee_val MHI_EE_DISABLE_TRANSITION = 8"
| "ee_val MHI_EE_MAX = 9"
| "ee_val (MHI_EE_OTHER v) = v"

definition ee_of :: "u32 \<Rightarrow> mhi_ee" where
  "ee_of v =
     (if v = 0 then MHI_EE_PBL else if v = 1 then MHI_EE_SBL else if v = 2 then MHI_EE_AMSS
      else if v = 3 then MHI_EE_RDDM else if v = 4 then MHI_EE_WFW
      else if v = 5 then MHI_EE_PTHRU else if v = 6 then MHI_EE_EDL
      else if v = 7 then MHI_EE_FP else if v = 8 then MHI_EE_DISABLE_TRANSITION
      else if v = 9 then MHI_EE_MAX else MHI_EE_OTHER v)"

definition MHI_IN_PBL :: "mhi_ee \<Rightarrow> bool" where
  "MHI_IN_PBL ee \<longleftrightarrow> ee = MHI_EE_PBL \<or> ee = MHI_EE_PTHRU \<or> ee = MHI_EE_EDL"

definition MHI_IN_MISSION_MODE :: "mhi_ee \<Rightarrow> bool" where
  "MHI_IN_MISSION_MODE ee \<longleftrightarrow> ee = MHI_EE_AMSS \<or> ee = MHI_EE_WFW"

datatype mhi_dev_state =
    MHI_STATE_RESET | MHI_STATE_READY | MHI_STATE_M0 | MHI_STATE_M1 | MHI_STATE_M2
  | MHI_STATE_M3 | MHI_STATE_BHI | MHI_STATE_SYS_ERR | MHI_STATE_MAX | MHI_STATE_OTHER u32

fun dev_state_val :: "mhi_dev_state \<Rightarrow> u32" where
  "dev_state_val MHI_STATE_RESET = 0x0"
| "dev_state_val MHI_STATE_READY = 0x1"
| "dev_state_val MHI_STATE_M0 = 0x2"
| "dev_state_val MHI_STATE_M1 = 0x3"
| "dev_state_val MHI_STATE_M2 = 0x4"
| "dev_state_val MHI_STATE_M3 = 0x5"
| "dev_state_val MHI_STATE_BHI = 0x7"
| "dev_state_val MHI_STATE_SYS_ERR = 0xFF"
| "dev_state_val MHI_STATE_MAX = 0x100"
| "dev_state_val (MHI_STATE_OTHER v) = v"

definition dev_state_of :: "u32 \<Rightarrow> mhi_dev_state" where
  "dev_state_of v =
     (if v = 0x0 then MHI_STATE_RESET else if v = 0x1 then MHI_STATE_READY
      else if v = 0x2 then MHI_STATE_M0 else if v = 0x3 then MHI_STATE_M1
      else if v = 0x4 then MHI_STATE_M2 else if v = 0x5 then MHI_STATE_M3
      else if v = 0x7 then MHI_STATE_BHI else if v = 0xFF then MHI_STATE_SYS_ERR
      else if v = 0x100 then MHI_STATE_MAX else MHI_STATE_OTHER v)"

datatype MHI_PKT_TYPE =
    MHI_PKT_TYPE_INVALID | MHI_PKT_TYPE_NOOP_CMD | MHI_PKT_TYPE_TRANSFER
  | MHI_PKT_TYPE_COALESCING | MHI_PKT_TYPE_RESET_CHAN_CMD | MHI_PKT_TYPE_STOP_CHAN_CMD
  | MHI_PKT_TYPE_START_CHAN_CMD | MHI_PKT_TYPE_STATE_CHANGE_EVENT
  | MHI_PKT_TYPE_CMD_COMPLETION_EVENT | MHI_PKT_TYPE_TX_EVENT | MHI_PKT_TYPE_RSC_TX_EVENT
  | MHI_PKT_TYPE_EE_EVENT | MHI_PKT_TYPE_TSYNC_EVENT | MHI_PKT_TYPE_STALE_EVENT
  | MHI_PKT_TYPE_OTHER u32

fun pkt_type_val :: "MHI_PKT_TYPE \<Rightarrow> u32" where
  "pkt_type_val MHI_PKT_TYPE_INVALID = 0x0"
| "pkt_type_val MHI_PKT_TYPE_NOOP_CMD = 0x1"
| "pkt_type_val MHI_PKT_TYPE_TRANSFER = 0x2"
| "pkt_type_val MHI_PKT_TYPE_COALESCING = 0x8"
| "pkt_type_val MHI_PKT_TYPE_RESET_CHAN_CMD = 0x10"
| "pkt_type_val MHI_PKT_TYPE_STOP_CHAN_CMD = 0x11"
| "pkt_type_val MHI_PKT_TYPE_START_CHAN_CMD = 0x12"
| "pkt_type_val MHI_PKT_TYPE_STATE_CHANGE_EVENT = 0x20"
| "pkt_type_val MHI_PKT_TYPE_CMD_COMPLETION_EVENT = 0x21"
| "pkt_type_val MHI_PKT_TYPE_TX_EVENT = 0x22"
| "pkt_type_val MHI_PKT_TYPE_RSC_TX_EVENT = 0x28"
| "pkt_type_val MHI_PKT_TYPE_EE_EVENT = 0x40"
| "pkt_type_val MHI_PKT_TYPE_TSYNC_EVENT = 0x48"
| "pkt_type_val MHI_PKT_TYPE_STALE_EVENT = 0x49"
| "pkt_type_val (MHI_PKT_TYPE_OTHER v) = v"

definition pkt_type_of :: "u32 \<Rightarrow> MHI_PKT_TYPE" where
  "pkt_type_of v =
     (if v = 0x0 then MHI_PKT_TYPE_INVALID else if v = 0x1 then MHI_PKT_TYPE_NOOP_CMD
      else if v = 0x2 then MHI_PKT_TYPE_TRANSFER else if v = 0x8 then MHI_PKT_TYPE_COALESCING
      else if v = 0x10 then MHI_PKT_TYPE_RESET_CHAN_CMD
      else if v = 0x11 then MHI_PKT_TYPE_STOP_CHAN_CMD
      else if v = 0x12 then MHI_PKT_TYPE_START_CHAN_CMD
      else if v = 0x20 then MHI_PKT_TYPE_STATE_CHANGE_EVENT
      else if v = 0x21 then MHI_PKT_TYPE_CMD_COMPLETION_EVENT
      else if v = 0x22 then MHI_PKT_TYPE_TX_EVENT else if v = 0x28 then MHI_PKT_TYPE_RSC_TX_EVENT
      else if v = 0x40 then MHI_PKT_TYPE_EE_EVENT else if v = 0x48 then MHI_PKT_TYPE_TSYNC_EVENT
      else if v = 0x49 then MHI_PKT_TYPE_STALE_EVENT else MHI_PKT_TYPE_OTHER v)"

datatype MHI_EV_CCS =
    MHI_EV_CC_INVALID | MHI_EV_CC_SUCCESS | MHI_EV_CC_EOT | MHI_EV_CC_OVERFLOW | MHI_EV_CC_EOB
  | MHI_EV_CC_OOB | MHI_EV_CC_DB_MODE | MHI_EV_CC_UNDEFINED_ERR | MHI_EV_CC_BAD_TRE
  | MHI_EV_CC_OTHER u32

fun ccs_val :: "MHI_EV_CCS \<Rightarrow> u32" where
  "ccs_val MHI_EV_CC_INVALID = 0x0"
| "ccs_val MHI_EV_CC_SUCCESS = 0x1"
| "ccs_val MHI_EV_CC_EOT = 0x2"
| "ccs_val MHI_EV_CC_OVERFLOW = 0x3"
| "ccs_val MHI_EV_CC_EOB = 0x4"
| "ccs_val MHI_EV_CC_OOB = 0x5"
| "ccs_val MHI_EV_CC_DB_MODE = 0x6"
| "ccs_val MHI_EV_CC_UNDEFINED_ERR = 0x10"
| "ccs_val MHI_EV_CC_BAD_TRE = 0x11"
| "ccs_val (MHI_EV_CC_OTHER v) = v"

definition ccs_of :: "u32 \<Rightarrow> MHI_EV_CCS" where
  "ccs_of v =
     (if v = 0x0 then MHI_EV_CC_INVALID else if v = 0x1 then MHI_EV_CC_SUCCESS
      else if v = 0x2 then MHI_EV_CC_EOT else if v = 0x3 then MHI_EV_CC_OVERFLOW
      else if v = 0x4 then MHI_EV_CC_EOB else if v = 0x5 then MHI_EV_CC_OOB
      else if v = 0x6 then MHI_EV_CC_DB_MODE else if v = 0x10 then MHI_EV_CC_UNDEFINED_ERR
      else if v = 0x11 then MHI_EV_CC_BAD_TRE else MHI_EV_CC_OTHER v)"

datatype mhi_cmd_type =
    MHI_CMD_TYPE_NOP | MHI_CMD_TYPE_RESET | MHI_CMD_TYPE_STOP | MHI_CMD_TYPE_START
  | MHI_CMD_TYPE_TSYNC | MHI_CMD_TYPE_OTHER u32

fun cmd_type_val :: "mhi_cmd_type \<Rightarrow> u32" where
  "cmd_type_val MHI_CMD_TYPE_NOP = 1"
| "cmd_type_val MHI_CMD_TYPE_RESET = 16"
| "cmd_type_val MHI_CMD_TYPE_STOP = 17"
| "cmd_type_val MHI_CMD_TYPE_START = 18"
| "cmd_type_val MHI_CMD_TYPE_TSYNC = 24"
| "cmd_type_val (MHI_CMD_TYPE_OTHER v) = v"

definition cmd_type_of :: "u32 \<Rightarrow> mhi_cmd_type" where
  "cmd_type_of v =
     (if v = 1 then MHI_CMD_TYPE_NOP else if v = 16 then MHI_CMD_TYPE_RESET
      else if v = 17 then MHI_CMD_TYPE_STOP else if v = 18 then MHI_CMD_TYPE_START
      else if v = 24 then MHI_CMD_TYPE_TSYNC else MHI_CMD_TYPE_OTHER v)"

lemma ee_val_of [simp]: "ee_val (ee_of v) = v"
  by (simp add: ee_of_def)

lemma dev_state_val_of [simp]: "dev_state_val (dev_state_of v) = v"
  by (simp add: dev_state_of_def)

lemma pkt_type_val_of [simp]: "pkt_type_val (pkt_type_of v) = v"
  by (simp add: pkt_type_of_def)

lemma ccs_val_of [simp]: "ccs_val (ccs_of v) = v"
  by (simp add: ccs_of_def)

lemma cmd_type_val_of [simp]: "cmd_type_val (cmd_type_of v) = v"
  by (simp add: cmd_type_of_def)

section \<open>Enumerations private to the host\<close>

datatype dma_data_direction = DMA_BIDIRECTIONAL | DMA_TO_DEVICE | DMA_FROM_DEVICE | DMA_NONE

datatype MHI_CMD = MHI_CMD_RESET_CHAN | MHI_CMD_START_CHAN | MHI_CMD_TIMSYNC_CFG

datatype MHI_CH_STATE =
    MHI_CH_STATE_DISABLED | MHI_CH_STATE_ENABLED | MHI_CH_STATE_RUNNING
  | MHI_CH_STATE_SUSPENDED | MHI_CH_STATE_STOP | MHI_CH_STATE_ERROR

fun ch_state_val :: "MHI_CH_STATE \<Rightarrow> u32" where
  "ch_state_val MHI_CH_STATE_DISABLED = 0x0"
| "ch_state_val MHI_CH_STATE_ENABLED = 0x1"
| "ch_state_val MHI_CH_STATE_RUNNING = 0x2"
| "ch_state_val MHI_CH_STATE_SUSPENDED = 0x3"
| "ch_state_val MHI_CH_STATE_STOP = 0x4"
| "ch_state_val MHI_CH_STATE_ERROR = 0x5"

datatype MHI_ST_TRANSITION =
    MHI_ST_TRANSITION_PBL | MHI_ST_TRANSITION_READY | MHI_ST_TRANSITION_SBL
  | MHI_ST_TRANSITION_MISSION_MODE | MHI_ST_TRANSITION_FP | MHI_ST_TRANSITION_MAX

datatype MHI_XFER_TYPE =
    MHI_XFER_BUFFER | MHI_XFER_SKB | MHI_XFER_SCLIST | MHI_XFER_NOP | MHI_XFER_DMA
  | MHI_XFER_RSC_DMA

datatype mhi_er_data_type =
    MHI_ER_DATA_ELEMENT_TYPE | MHI_ER_CTRL_ELEMENT_TYPE | MHI_ER_TSYNC_ELEMENT_TYPE

datatype MHI_CB =
    MHI_CB_IDLE | MHI_CB_PENDING_DATA | MHI_CB_LPM_ENTER | MHI_CB_LPM_EXIT | MHI_CB_EE_RDDM
  | MHI_CB_EE_MISSION_MODE | MHI_CB_SYS_ERROR | MHI_CB_FATAL_ERROR

datatype mhi_device_type = MHI_XFER_TYPE | MHI_TIMESYNC_TYPE | MHI_CONTROLLER_TYPE

text \<open>
  \<open>enum MHI_FLAGS\<close> numbers its members 0, 1, 2, and the transfer functions take the
  member's value as a bit mask.
\<close>

datatype MHI_FLAGS = MHI_EOB | MHI_EOT | MHI_CHAIN

fun mhi_flags_val :: "MHI_FLAGS \<Rightarrow> u32" where
  "mhi_flags_val MHI_EOB = 0"
| "mhi_flags_val MHI_EOT = 1"
| "mhi_flags_val MHI_CHAIN = 2"

section \<open>Transfer ring elements\<close>

record mhi_tre =
  tre_ptr :: u64
  dword0 :: u32
  dword1 :: u32

definition MHI_MAX_MTU :: u32 where
  "MHI_MAX_MTU = 0xffff"

text \<open>Commands the host puts on the command ring.\<close>

definition MHI_TRE_CMD_RESET_DWORD1 :: "u32 \<Rightarrow> u32" where
  "MHI_TRE_CMD_RESET_DWORD1 chid = push_bit 24 chid OR push_bit 16 (cmd_type_val MHI_CMD_TYPE_RESET)"

definition MHI_TRE_CMD_START_DWORD1 :: "u32 \<Rightarrow> u32" where
  "MHI_TRE_CMD_START_DWORD1 chid = push_bit 24 chid OR push_bit 16 (cmd_type_val MHI_CMD_TYPE_START)"

definition MHI_TRE_CMD_TSYNC_CFG_DWORD1 :: "u32 \<Rightarrow> u32" where
  "MHI_TRE_CMD_TSYNC_CFG_DWORD1 er =
     push_bit 16 (cmd_type_val MHI_CMD_TYPE_TSYNC) OR push_bit 24 er"

definition MHI_TRE_GET_CMD_CHID :: "mhi_tre \<Rightarrow> u32" where
  "MHI_TRE_GET_CMD_CHID tre = drop_bit 24 (dword1 tre) AND 0xFF"

definition MHI_TRE_GET_CMD_TYPE :: "mhi_tre \<Rightarrow> mhi_cmd_type" where
  "MHI_TRE_GET_CMD_TYPE tre = cmd_type_of (drop_bit 16 (dword1 tre) AND 0xFF)"

text \<open>Events the device puts on the event rings.\<close>

definition MHI_TRE_EV_DWORD0 :: "u32 \<Rightarrow> u32 \<Rightarrow> u32" where
  "MHI_TRE_EV_DWORD0 code ln = push_bit 24 code OR ln"

definition MHI_TRE_EV_DWORD1 :: "u32 \<Rightarrow> u32 \<Rightarrow> u32" where
  "MHI_TRE_EV_DWORD1 chid ty = push_bit 24 chid OR push_bit 16 ty"

definition MHI_TRE_GET_EV_PTR :: "mhi_tre \<Rightarrow> u64" where
  "MHI_TRE_GET_EV_PTR tre = tre_ptr tre"

definition MHI_TRE_GET_EV_CODE :: "mhi_tre \<Rightarrow> MHI_EV_CCS" where
  "MHI_TRE_GET_EV_CODE tre = ccs_of (drop_bit 24 (dword0 tre) AND 0xFF)"

definition MHI_TRE_GET_EV_LEN :: "mhi_tre \<Rightarrow> u32" where
  "MHI_TRE_GET_EV_LEN tre = dword0 tre AND 0xFFFF"

definition MHI_TRE_GET_EV_CHID :: "mhi_tre \<Rightarrow> u32" where
  "MHI_TRE_GET_EV_CHID tre = drop_bit 24 (dword1 tre) AND 0xFF"

definition MHI_TRE_GET_EV_TYPE :: "mhi_tre \<Rightarrow> MHI_PKT_TYPE" where
  "MHI_TRE_GET_EV_TYPE tre = pkt_type_of (drop_bit 16 (dword1 tre) AND 0xFF)"

definition MHI_TRE_GET_EV_STATE :: "mhi_tre \<Rightarrow> mhi_dev_state" where
  "MHI_TRE_GET_EV_STATE tre = dev_state_of (drop_bit 24 (dword0 tre) AND 0xFF)"

definition MHI_TRE_GET_EV_EXECENV :: "mhi_tre \<Rightarrow> mhi_ee" where
  "MHI_TRE_GET_EV_EXECENV tre = ee_of (drop_bit 24 (dword0 tre) AND 0xFF)"

definition MHI_TRE_GET_EV_SEQ :: "mhi_tre \<Rightarrow> u32" where
  "MHI_TRE_GET_EV_SEQ tre = dword0 tre"

definition MHI_TRE_GET_EV_TIME :: "mhi_tre \<Rightarrow> u64" where
  "MHI_TRE_GET_EV_TIME tre = tre_ptr tre"

definition MHI_TRE_GET_EV_COOKIE :: "mhi_tre \<Rightarrow> u32" where
  "MHI_TRE_GET_EV_COOKIE tre = lower_32_bits (tre_ptr tre)"

text \<open>Transfer descriptors of the data rings.\<close>

definition MHI_TRE_DATA_DWORD0 :: "u64 \<Rightarrow> u32" where
  "MHI_TRE_DATA_DWORD0 ln = ucast ln AND MHI_MAX_MTU"

definition MHI_TRE_DATA_DWORD1 :: "u32 \<Rightarrow> u32 \<Rightarrow> u32 \<Rightarrow> u32 \<Rightarrow> u32" where
  "MHI_TRE_DATA_DWORD1 bei ieot ieob chain =
     push_bit 16 2 OR push_bit 10 bei OR push_bit 9 ieot OR push_bit 8 ieob OR chain"

definition MHI_RSCTRE_DATA_PTR :: "u64 \<Rightarrow> u64 \<Rightarrow> u64" where
  "MHI_RSCTRE_DATA_PTR p ln = push_bit 48 ln OR p"

definition MHI_RSCTRE_DATA_DWORD0 :: "u64 \<Rightarrow> u32" where
  "MHI_RSCTRE_DATA_DWORD0 cookie = ucast cookie"

definition MHI_RSCTRE_DATA_DWORD1 :: u32 where
  "MHI_RSCTRE_DATA_DWORD1 = push_bit 16 (pkt_type_val MHI_PKT_TYPE_COALESCING)"

section \<open>Buffer descriptors and doorbell configuration\<close>

record mhi_buf_info =
  p_addr :: u64
  v_addr :: u64
  bb_addr :: u64
  bi_wp :: u64
  bi_len :: u64
  cb_buf :: u64
  bi_used :: bool
  pre_mapped :: bool
  bi_dir :: dma_data_direction

text \<open>The two doorbell functions \<open>process_db\<close> can point to.\<close>

datatype process_db_fn = mhi_db_brstmode_fn | mhi_db_brstmode_disable_fn

record db_cfg =
  reset_req :: bool
  db_mode :: bool
  pollcfg :: u32
  brstmode :: u32
  db_val :: u64
  process_db :: process_db_fn

text \<open>The result a transfer callback is given.\<close>

record mhi_result =
  buf_addr :: u64
  res_dir :: dma_data_direction
  bytes_xferd :: u64
  transaction_status :: "errno option"

section \<open>Field access\<close>

lemma field_hi8:
  fixes hi mid :: u32
  assumes "mid < 0x100"
  shows "drop_bit 24 (push_bit 24 hi OR push_bit 16 mid) AND 0xFF = hi AND 0xFF"
proof (rule bit_word_eqI)
  fix n assume n: "n < LENGTH(32)"
  have m: "\<not> bit mid k" if "8 \<le> k" for k
    using not_bit_above [of mid 8 k] assms that by (simp add: word_less_nat_alt)
  have mask: "(0xFF :: u32) = mask 8" by (simp add: mask_eq_exp_minus_1)
  show "bit (drop_bit 24 (push_bit 24 hi OR push_bit 16 mid) AND 0xFF) n = bit (hi AND 0xFF) n"
    using n m [of "8 + n"] unfolding mask
    by (auto simp: bit_simps)
qed

lemma field_mid8:
  fixes hi mid :: u32
  assumes "mid < 0x100"
  shows "drop_bit 16 (push_bit 24 hi OR push_bit 16 mid) AND 0xFF = mid"
proof (rule bit_word_eqI)
  fix n assume n: "n < LENGTH(32)"
  have m: "\<not> bit mid k" if "8 \<le> k" for k
    using not_bit_above [of mid 8 k] assms that by (simp add: word_less_nat_alt)
  have mask: "(0xFF :: u32) = mask 8" by (simp add: mask_eq_exp_minus_1)
  show "bit (drop_bit 16 (push_bit 24 hi OR push_bit 16 mid) AND 0xFF) n = bit mid n"
    using n m [of n] unfolding mask
    by (cases "n < 8") (auto simp: bit_simps)
qed

lemma cmd_type_of_val [simp]:
  "cmd_type_of 1 = MHI_CMD_TYPE_NOP" "cmd_type_of 16 = MHI_CMD_TYPE_RESET"
  "cmd_type_of 17 = MHI_CMD_TYPE_STOP" "cmd_type_of 18 = MHI_CMD_TYPE_START"
  "cmd_type_of 24 = MHI_CMD_TYPE_TSYNC"
  by (simp_all add: cmd_type_of_def)

lemma cmd_fields [tre_simps]:
  "dword1 t = MHI_TRE_CMD_RESET_DWORD1 chid \<Longrightarrow> MHI_TRE_GET_CMD_CHID t = chid AND 0xFF"
  "dword1 t = MHI_TRE_CMD_RESET_DWORD1 chid \<Longrightarrow> MHI_TRE_GET_CMD_TYPE t = MHI_CMD_TYPE_RESET"
  "dword1 t = MHI_TRE_CMD_START_DWORD1 chid \<Longrightarrow> MHI_TRE_GET_CMD_CHID t = chid AND 0xFF"
  "dword1 t = MHI_TRE_CMD_START_DWORD1 chid \<Longrightarrow> MHI_TRE_GET_CMD_TYPE t = MHI_CMD_TYPE_START"
  "dword1 t = MHI_TRE_CMD_TSYNC_CFG_DWORD1 er \<Longrightarrow> MHI_TRE_GET_CMD_TYPE t = MHI_CMD_TYPE_TSYNC"
  using field_hi8 [of 16 chid] field_mid8 [of 16 chid]
    field_hi8 [of 18 chid] field_mid8 [of 18 chid] field_mid8 [of 24 er]
  by (simp_all add: MHI_TRE_CMD_RESET_DWORD1_def MHI_TRE_CMD_START_DWORD1_def
        MHI_TRE_CMD_TSYNC_CFG_DWORD1_def MHI_TRE_GET_CMD_CHID_def MHI_TRE_GET_CMD_TYPE_def
        or.commute)

lemma ev_fields [tre_simps]:
  assumes "dword1 t = MHI_TRE_EV_DWORD1 chid ty" and "ty < 0x100"
  shows "MHI_TRE_GET_EV_CHID t = chid AND 0xFF" and "MHI_TRE_GET_EV_TYPE t = pkt_type_of ty"
  using assms field_hi8 [of ty chid] field_mid8 [of ty chid]
  by (simp_all add: MHI_TRE_EV_DWORD1_def MHI_TRE_GET_EV_CHID_def MHI_TRE_GET_EV_TYPE_def)

end
