(* ===== verification/Mhi_Ring.thy ===== *)
theory Mhi_Ring
  imports Mhi_Types
begin

text \<open>
  Descriptor rings (\<open>struct mhi_ring\<close> of \<open>core/mhi_internal.h\<close> and the ring helpers of
  \<open>core/mhi_main.c\<close>). A ring is the address range \<open>[base, base + ring_len)\<close> cut into
  \<open>elements\<close> slots of \<open>el_size\<close> bytes; \<open>rp\<close> and \<open>wp\<close> are addresses of slots. The field
  \<open>slots\<close> is the memory behind the ring, by address, and \<open>ctxt_wp\<close> is the word of the
  device context the C field of that name points to. Addresses are 64-bit words and the
  operations compute on them as the C pointer arithmetic does.

  The abstraction of a ring is the list of the elements queued between \<open>rp\<close> and \<open>wp\<close>
  (\<open>ring_content\<close>). The locale \<open>bounded_fifo\<close> states what a bounded queue promises; the
  ring operations interpret it for every well-formed ring.
\<close>

record 'a mhi_ring =
  dma_handle :: u64
  iommu_base :: u64
  ctxt_wp :: u64
  pre_aligned :: u64
  base :: u64
  rp :: u64
  wp :: u64
  el_size :: u64
  ring_len :: u64
  elements :: u64
  ring_alloc_size :: u64
  db_addr :: u64
  slots :: "u64 \<Rightarrow> 'a"

section \<open>The operations\<close>

text \<open>The next slot, as every helper computes it: one element on, or back to the base.\<close>

definition ring_step :: "'a mhi_ring \<Rightarrow> u64 \<Rightarrow> u64" where
  "ring_step r p =
     (let q = p + el_size r in if base r + ring_len r \<le> q then base r else q)"

definition mhi_add_ring_element :: "'a mhi_ring \<Rightarrow> 'a mhi_ring" where
  "mhi_add_ring_element r =
     (let w = wp r + el_size r;
          w = (if base r + ring_len r \<le> w then base r else w)
      in r\<lparr>wp := w\<rparr>)"

definition mhi_del_ring_element :: "'a mhi_ring \<Rightarrow> 'a mhi_ring" where
  "mhi_del_ring_element r =
     (let p = rp r + el_size r;
          p = (if base r + ring_len r \<le> p then base r else p)
      in r\<lparr>rp := p\<rparr>)"

text \<open>
  The count of free elements. The quotients are unsigned 64-bit (\<open>el_size\<close> is a
  \<open>size_t\<close>) and the result is stored in an \<open>int\<close>.
\<close>

definition to_c_int :: "u64 \<Rightarrow> int" where
  "to_c_int x = sint (ucast x :: u32)"

definition get_nr_avail_ring_elements :: "'a mhi_ring \<Rightarrow> int" where
  "get_nr_avail_ring_elements r =
     (if wp r < rp r then to_c_int ((rp r - wp r) div el_size r - 1)
      else to_c_int ((rp r - base r) div el_size r +
                     ((base r + ring_len r - wp r) div el_size r - 1)))"

definition sizeof_mhi_tre :: u64 where
  "sizeof_mhi_tre = 16"

definition get_used_ring_elements :: "u64 \<Rightarrow> u64 \<Rightarrow> u32 \<Rightarrow> u32" where
  "get_used_ring_elements rp' wp' el_num =
     (if rp' \<le> wp' then ucast ((wp' - rp') div sizeof_mhi_tre)
      else el_num - ucast ((rp' - wp') div sizeof_mhi_tre))"

definition mhi_to_virtual :: "'a mhi_ring \<Rightarrow> u64 \<Rightarrow> u64" where
  "mhi_to_virtual r addr = (addr - iommu_base r) + base r"

definition mhi_to_physical :: "'a mhi_ring \<Rightarrow> u64 \<Rightarrow> u64" where
  "mhi_to_physical r addr = (addr - base r) + iommu_base r"

definition mhi_recycle_ev_ring_element :: "'a mhi_ring \<Rightarrow> 'a mhi_ring" where
  "mhi_recycle_ev_ring_element r =
     (let w = wp r + el_size r;
          w = (if base r + ring_len r \<le> w then base r else w);
          p = rp r + el_size r;
          p = (if base r + ring_len r \<le> p then base r else p)
      in r\<lparr>wp := w, ctxt_wp := iommu_base r + (w - base r), rp := p\<rparr>)"

definition mhi_is_ring_full :: "'a mhi_ring \<Rightarrow> bool" where
  "mhi_is_ring_full r =
     (let tmp = wp r + el_size r;
          tmp = (if base r + ring_len r \<le> tmp then base r else tmp)
      in tmp = rp r)"

text \<open>Storing an element at the write pointer, and both together.\<close>

definition ring_write :: "'a mhi_ring \<Rightarrow> 'a \<Rightarrow> 'a mhi_ring" where
  "ring_write r x = r\<lparr>slots := (slots r)(wp r := x)\<rparr>"

definition ring_put :: "'a \<Rightarrow> 'a mhi_ring \<Rightarrow> 'a mhi_ring" where
  "ring_put x r = mhi_add_ring_element (ring_write r x)"

section \<open>Well-formed rings\<close>

definition ring_geom :: "'a mhi_ring \<Rightarrow> bool" where
  "ring_geom r \<longleftrightarrow>
     0 < unat (el_size r) \<and> 0 < unat (elements r)
     \<and> unat (ring_len r) = unat (elements r) * unat (el_size r)
     \<and> unat (base r) + unat (ring_len r) < 2 ^ 64"

definition on_ring :: "'a mhi_ring \<Rightarrow> u64 \<Rightarrow> bool" where
  "on_ring r a \<longleftrightarrow>
     unat (base r) \<le> unat a \<and> unat a < unat (base r) + unat (ring_len r)
     \<and> unat (el_size r) dvd unat a - unat (base r)"

definition ring_wf :: "'a mhi_ring \<Rightarrow> bool" where
  "ring_wf r \<longleftrightarrow> ring_geom r \<and> on_ring r (rp r) \<and> on_ring r (wp r)"

definition slot_addr :: "'a mhi_ring \<Rightarrow> nat \<Rightarrow> u64" where
  "slot_addr r i = base r + of_nat (i * unat (el_size r))"

definition slot_idx :: "'a mhi_ring \<Rightarrow> u64 \<Rightarrow> nat" where
  "slot_idx r a = (unat a - unat (base r)) div unat (el_size r)"

definition ring_count :: "'a mhi_ring \<Rightarrow> nat" where
  "ring_count r =
     (let n = unat (elements r) in (slot_idx r (wp r) + n - slot_idx r (rp r)) mod n)"

definition ring_content :: "'a mhi_ring \<Rightarrow> 'a list" where
  "ring_content r =
     map (\<lambda>k. slots r (slot_addr r ((slot_idx r (rp r) + k) mod unat (elements r))))
       [0..<ring_count r]"

definition ring_room :: "'a mhi_ring \<Rightarrow> nat" where
  "ring_room r = unat (elements r) - 1 - ring_count r"

section \<open>Slots and addresses\<close>

lemma add_step: "mhi_add_ring_element r = r\<lparr>wp := ring_step r (wp r)\<rparr>"
  and del_step: "mhi_del_ring_element r = r\<lparr>rp := ring_step r (rp r)\<rparr>"
  and full_step: "mhi_is_ring_full r \<longleftrightarrow> ring_step r (wp r) = rp r"
  by (simp_all add: mhi_add_ring_element_def mhi_del_ring_element_def mhi_is_ring_full_def
        ring_step_def Let_def)

lemma recycle_step:
  "mhi_recycle_ev_ring_element r =
     r\<lparr>wp := ring_step r (wp r), ctxt_wp := iommu_base r + (ring_step r (wp r) - base r),
       rp := ring_step r (rp r)\<rparr>"
  by (simp add: mhi_recycle_ev_ring_element_def ring_step_def Let_def)

lemma on_ring_slot:
  assumes g: "ring_geom r" and a: "on_ring r a"
  obtains i where "i < unat (elements r)" and "unat a = unat (base r) + i * unat (el_size r)"
    and "slot_idx r a = i"
proof -
  from a obtain i where i: "unat a - unat (base r) = unat (el_size r) * i"
    by (auto simp: on_ring_def elim: dvdE)
  then have u: "unat a = unat (base r) + i * unat (el_size r)"
    using a by (auto simp: on_ring_def mult.commute)
  moreover have "i < unat (elements r)"
  proof -
    have "i * unat (el_size r) < unat (elements r) * unat (el_size r)"
      using a g u by (simp add: on_ring_def ring_geom_def)
    then show ?thesis by simp
  qed
  moreover have "slot_idx r a = i"
    using u g by (simp add: slot_idx_def ring_geom_def)
  ultimately show ?thesis using that by blast
qed

lemma slot_idx_less [ring_simps]:
  "ring_geom r \<Longrightarrow> on_ring r a \<Longrightarrow> slot_idx r a < unat (elements r)"
  by (metis on_ring_slot)

lemma slot_addr_bound:
  assumes "ring_geom r" "i < unat (elements r)"
  shows "unat (base r) + i * unat (el_size r) + unat (el_size r) \<le> unat (base r) + unat (ring_len r)"
proof -
  have "Suc i * unat (el_size r) \<le> unat (elements r) * unat (el_size r)"
    using assms by (intro mult_le_mono1) simp
  then show ?thesis using assms by (simp add: ring_geom_def)
qed

lemma unat_slot_addr [ring_simps]:
  assumes "ring_geom r" "i < unat (elements r)"
  shows "unat (slot_addr r i) = unat (base r) + i * unat (el_size r)"
proof -
  have b: "unat (base r) + i * unat (el_size r) < 2 ^ 64"
    using slot_addr_bound [OF assms] assms by (simp add: ring_geom_def)
  then have "unat (of_nat (i * unat (el_size r)) :: u64) = i * unat (el_size r)"
    by (intro unat_of_nat_less) simp
  with b show ?thesis unfolding slot_addr_def by (simp add: unat_plus_nowrap)
qed

lemma on_ring_slot_addr [ring_simps]:
  assumes "ring_geom r" "i < unat (elements r)"
  shows "on_ring r (slot_addr r i)"
  using unat_slot_addr [OF assms] slot_addr_bound [OF assms] assms
  by (simp add: on_ring_def ring_geom_def)

lemma slot_idx_addr [ring_simps]:
  assumes "ring_geom r" "i < unat (elements r)"
  shows "slot_idx r (slot_addr r i) = i"
  using unat_slot_addr [OF assms] assms by (simp add: slot_idx_def ring_geom_def)

lemma slot_addr_idx [ring_simps]:
  assumes "ring_geom r" "on_ring r a"
  shows "slot_addr r (slot_idx r a) = a"
proof -
  obtain i where i: "i < unat (elements r)" "unat a = unat (base r) + i * unat (el_size r)"
    "slot_idx r a = i"
    using on_ring_slot [OF assms] .
  then have "unat (slot_addr r (slot_idx r a)) = unat a"
    using unat_slot_addr [OF assms(1)] by simp
  then show ?thesis by (rule unat_inj)
qed

lemma slot_idx_inject:
  assumes "ring_geom r" "on_ring r a" "on_ring r b" "slot_idx r a = slot_idx r b"
  shows "a = b"
  using assms by (metis slot_addr_idx)

text \<open>The pointer step is the successor of the index, modulo the number of elements.\<close>

lemma ring_step_slot [ring_simps]:
  assumes g: "ring_geom r" and a: "on_ring r a"
  shows "on_ring r (ring_step r a)"
    and "slot_idx r (ring_step r a) = Suc (slot_idx r a) mod unat (elements r)"
proof -
  obtain i where i: "i < unat (elements r)" "unat a = unat (base r) + i * unat (el_size r)"
    "slot_idx r a = i"
    using on_ring_slot [OF g a] .
  have sz: "unat (ring_len r) = unat (elements r) * unat (el_size r)"
    and es: "0 < unat (el_size r)" and top: "unat (base r) + unat (ring_len r) < 2 ^ 64"
    using g by (auto simp: ring_geom_def)
  have q: "unat (a + el_size r) = unat (base r) + Suc i * unat (el_size r)"
    using slot_addr_bound [OF g i(1)] top i(2) by (subst unat_plus_nowrap) simp_all
  have e: "unat (base r + ring_len r) = unat (base r) + unat (ring_len r)"
    using top by (simp add: unat_plus_nowrap)
  have wrap: "base r + ring_len r \<le> a + el_size r \<longleftrightarrow> Suc i = unat (elements r)"
  proof -
    have "base r + ring_len r \<le> a + el_size r
        \<longleftrightarrow> unat (elements r) * unat (el_size r) \<le> Suc i * unat (el_size r)"
      unfolding word_le_nat_alt e q sz by simp
    also have "\<dots> \<longleftrightarrow> unat (elements r) \<le> Suc i"
      using es by (simp only: mult_le_cancel2 simp_thms)
    finally show ?thesis using i(1) by auto
  qed
  have "ring_step r a = slot_addr r (Suc i mod unat (elements r))"
  proof (cases "Suc i = unat (elements r)")
    case True
    then show ?thesis using wrap by (simp add: ring_step_def Let_def slot_addr_def)
  next
    case False
    then have si: "Suc i < unat (elements r)" using i(1) by simp
    have "unat (a + el_size r) = unat (slot_addr r (Suc i))"
      using q unat_slot_addr [OF g si] by simp
    then have "a + el_size r = slot_addr r (Suc i)" by (rule unat_inj)
    then show ?thesis using wrap False si by (simp add: ring_step_def Let_def)
  qed
  moreover have "Suc i mod unat (elements r) < unat (elements r)"
    using i(1) by (intro mod_less_divisor) simp
  ultimately show "on_ring r (ring_step r a)"
    and "slot_idx r (ring_step r a) = Suc (slot_idx r a) mod unat (elements r)"
    using g i(3) by (simp_all add: on_ring_slot_addr slot_idx_addr)
qed

section \<open>The invariant is kept\<close>

lemma ring_fields [frame_simps]:
  "base (mhi_add_ring_element r) = base r" "rp (mhi_add_ring_element r) = rp r"
  "el_size (mhi_add_ring_element r) = el_size r" "ring_len (mhi_add_ring_element r) = ring_len r"
  "elements (mhi_add_ring_element r) = elements r" "slots (mhi_add_ring_element r) = slots r"
  "iommu_base (mhi_add_ring_element r) = iommu_base r"
  "base (mhi_del_ring_element r) = base r" "wp (mhi_del_ring_element r) = wp r"
  "el_size (mhi_del_ring_element r) = el_size r" "ring_len (mhi_del_ring_element r) = ring_len r"
  "elements (mhi_del_ring_element r) = elements r" "slots (mhi_del_ring_element r) = slots r"
  "iommu_base (mhi_del_ring_element r) = iommu_base r"
  by (simp_all add: mhi_add_ring_element_def mhi_del_ring_element_def Let_def)

lemma geom_cong:
  "base r' = base r \<Longrightarrow> el_size r' = el_size r \<Longrightarrow> ring_len r' = ring_len r \<Longrightarrow>
   elements r' = elements r \<Longrightarrow> ring_geom r' = ring_geom r"
  by (simp add: ring_geom_def)

lemma on_ring_cong:
  "base r' = base r \<Longrightarrow> el_size r' = el_size r \<Longrightarrow> ring_len r' = ring_len r \<Longrightarrow>
   on_ring r' a = on_ring r a"
  by (simp add: on_ring_def)

lemma slot_cong:
  assumes "base r' = base r" "el_size r' = el_size r"
  shows "slot_idx r' a = slot_idx r a" and "slot_addr r' i = slot_addr r i"
  using assms by (simp_all add: slot_idx_def slot_addr_def)

text \<open>Updates of the pointers and of the memory leave the geometry alone.\<close>

lemma ring_upd_simps [simp]:
  "ring_geom (r\<lparr>wp := a\<rparr>) = ring_geom r" "ring_geom (r\<lparr>rp := a\<rparr>) = ring_geom r"
  "ring_geom (r\<lparr>slots := m\<rparr>) = ring_geom r" "ring_geom (r\<lparr>ctxt_wp := x\<rparr>) = ring_geom r"
  "on_ring (r\<lparr>wp := a\<rparr>) b = on_ring r b" "on_ring (r\<lparr>rp := a\<rparr>) b = on_ring r b"
  "on_ring (r\<lparr>slots := m\<rparr>) b = on_ring r b" "on_ring (r\<lparr>ctxt_wp := x\<rparr>) b = on_ring r b"
  "slot_idx (r\<lparr>wp := a\<rparr>) b = slot_idx r b" "slot_idx (r\<lparr>rp := a\<rparr>) b = slot_idx r b"
  "slot_idx (r\<lparr>slots := m\<rparr>) b = slot_idx r b" "slot_idx (r\<lparr>ctxt_wp := x\<rparr>) b = slot_idx r b"
  "slot_addr (r\<lparr>wp := a\<rparr>) i = slot_addr r i" "slot_addr (r\<lparr>rp := a\<rparr>) i = slot_addr r i"
  "slot_addr (r\<lparr>slots := m\<rparr>) i = slot_addr r i" "slot_addr (r\<lparr>ctxt_wp := x\<rparr>) i = slot_addr r i"
  "ring_step (r\<lparr>wp := a\<rparr>) p = ring_step r p" "ring_step (r\<lparr>rp := a\<rparr>) p = ring_step r p"
  "ring_step (r\<lparr>slots := m\<rparr>) p = ring_step r p" "ring_step (r\<lparr>ctxt_wp := x\<rparr>) p = ring_step r p"
  by (simp_all add: ring_geom_def on_ring_def slot_idx_def slot_addr_def ring_step_def Let_def)

lemma ring_wf_add [intro]: "ring_wf r \<Longrightarrow> ring_wf (mhi_add_ring_element r)"
  by (simp add: ring_wf_def add_step ring_step_slot)

lemma ring_wf_del [intro]: "ring_wf r \<Longrightarrow> ring_wf (mhi_del_ring_element r)"
  by (simp add: ring_wf_def del_step ring_step_slot)

lemma ring_wf_recycle [intro]: "ring_wf r \<Longrightarrow> ring_wf (mhi_recycle_ev_ring_element r)"
  by (simp add: ring_wf_def recycle_step ring_step_slot)

lemma ring_wf_write [intro]: "ring_wf r \<Longrightarrow> ring_wf (ring_write r x)"
  by (simp add: ring_wf_def ring_write_def)

lemma ring_wf_ctxt [simp]: "ring_wf (r\<lparr>ctxt_wp := x\<rparr>) = ring_wf r"
  by (simp add: ring_wf_def)

lemma ring_wf_slots [simp]: "ring_wf (r\<lparr>slots := m\<rparr>) = ring_wf r"
  by (simp add: ring_wf_def)

section \<open>Counting\<close>

lemma ring_wfD:
  assumes "ring_wf r"
  shows "ring_geom r" "on_ring r (rp r)" "on_ring r (wp r)"
    "slot_idx r (rp r) < unat (elements r)" "slot_idx r (wp r) < unat (elements r)"
    "0 < unat (elements r)"
  using assms by (auto simp: ring_wf_def slot_idx_less ring_geom_def)

lemma ring_count_less: "ring_wf r \<Longrightarrow> ring_count r < unat (elements r)"
  by (simp add: ring_count_def Let_def ring_wfD)

lemma ring_empty_iff: 
  assumes "ring_wf r"
  shows "ring_count r = 0 \<longleftrightarrow> rp r = wp r"
proof
  assume "rp r = wp r"
  then show "ring_count r = 0" by (simp add: ring_count_def Let_def)
next
  note w = ring_wfD [OF assms]
  assume z: "ring_count r = 0"
  have "slot_idx r (rp r) = slot_idx r (wp r)"
  proof (rule ccontr)
    assume "slot_idx r (rp r) \<noteq> slot_idx r (wp r)"
    then have "Suc ((slot_idx r (wp r) + unat (elements r) - Suc (slot_idx r (rp r)) mod unat (elements r))
        mod unat (elements r)) = ring_count r"
      using mod_distance_pred [OF w(4,5)] by (simp add: ring_count_def Let_def)
    with z show False by simp
  qed
  then show "rp r = wp r" using w by (blast intro: slot_idx_inject)
qed

lemma ring_full_iff:
  assumes "ring_wf r"
  shows "mhi_is_ring_full r \<longleftrightarrow> ring_count r = unat (elements r) - 1"
proof
  note w = ring_wfD [OF assms]
  let ?n = "unat (elements r)" and ?i = "slot_idx r (rp r)" and ?j = "slot_idx r (wp r)"
  have idx: "slot_idx r (ring_step r (wp r)) = Suc ?j mod ?n"
    using w by (simp add: ring_step_slot)
  {
    assume "mhi_is_ring_full r"
    then have i: "?i = Suc ?j mod ?n" using idx by (simp add: full_step)
    show "ring_count r = ?n - 1"
    proof (cases "Suc ?j = ?n")
      case True
      with i w show ?thesis by (simp add: ring_count_def Let_def)
    next
      case False
      with i w have "?i = Suc ?j" by simp
      with w show ?thesis by (simp add: ring_count_def Let_def)
    qed
  }
  {
    assume c: "ring_count r = ?n - 1"
    show "mhi_is_ring_full r"
    proof (rule ccontr)
      assume "\<not> mhi_is_ring_full r"
      then have "Suc ?j mod ?n \<noteq> ?i"
        using idx w by (metis full_step ring_step_slot(1) slot_idx_inject)
      from mod_distance_succ [OF w(4,5) this]
      have "(Suc ?j mod ?n + ?n - ?i) mod ?n = Suc (?n - 1)"
        using c by (simp add: ring_count_def Let_def)
      moreover have "(Suc ?j mod ?n + ?n - ?i) mod ?n < ?n" using w by simp
      ultimately show False by simp
    qed
  }
qed

lemma ring_room_pos_iff: "ring_wf r \<Longrightarrow> 0 < ring_room r \<longleftrightarrow> \<not> mhi_is_ring_full r"
  using ring_count_less [of r] ring_full_iff [of r] by (auto simp: ring_room_def)

lemma ring_count_add:
  assumes "ring_wf r" "\<not> mhi_is_ring_full r"
  shows "ring_count (mhi_add_ring_element r) = Suc (ring_count r)"
proof -
  note w = ring_wfD [OF assms(1)]
  have idx: "slot_idx r (ring_step r (wp r)) = Suc (slot_idx r (wp r)) mod unat (elements r)"
    using w by (simp add: ring_step_slot)
  have "Suc (slot_idx r (wp r)) mod unat (elements r) \<noteq> slot_idx r (rp r)"
    using assms(2) idx w by (metis full_step ring_step_slot(1) slot_idx_inject)
  from mod_distance_succ [OF w(4,5) this] show ?thesis
    by (simp add: ring_count_def Let_def add_step idx)
qed

lemma ring_count_del:
  assumes "ring_wf r" "rp r \<noteq> wp r"
  shows "Suc (ring_count (mhi_del_ring_element r)) = ring_count r"
proof -
  note w = ring_wfD [OF assms(1)]
  have idx: "slot_idx r (ring_step r (rp r)) = Suc (slot_idx r (rp r)) mod unat (elements r)"
    using w by (simp add: ring_step_slot)
  have "slot_idx r (rp r) \<noteq> slot_idx r (wp r)"
    using assms(2) w by (metis slot_idx_inject)
  from mod_distance_pred [OF w(4,5) this] show ?thesis
    by (simp add: ring_count_def Let_def del_step idx)
qed

lemma ring_count_cong [simp]:
  "ring_count (r\<lparr>slots := m\<rparr>) = ring_count r" "ring_count (r\<lparr>ctxt_wp := x\<rparr>) = ring_count r"
  by (simp_all add: ring_count_def)

section \<open>The content as a queue\<close>

lemma length_ring_content [simp]: "length (ring_content r) = ring_count r"
  by (simp add: ring_content_def)

lemma ring_put_fields:
  "slots (ring_put x r) = (slots r)(wp r := x)" "rp (ring_put x r) = rp r"
  "wp (ring_put x r) = ring_step r (wp r)" "elements (ring_put x r) = elements r"
  "slot_idx (ring_put x r) a = slot_idx r a" "slot_addr (ring_put x r) i = slot_addr r i"
  by (simp_all add: ring_put_def ring_write_def add_step)

lemma ring_wf_put [intro]: "ring_wf r \<Longrightarrow> ring_wf (ring_put x r)"
  by (simp add: ring_put_def ring_wf_add ring_wf_write)

lemma ring_count_put:
  assumes "ring_wf r" "\<not> mhi_is_ring_full r"
  shows "ring_count (ring_put x r) = Suc (ring_count r)"
proof -
  have "\<not> mhi_is_ring_full (ring_write r x)"
    using assms(2) by (simp add: full_step ring_write_def)
  from ring_count_add [OF ring_wf_write [OF assms(1)] this] show ?thesis
    by (simp add: ring_put_def ring_write_def)
qed

text \<open>The slot at the write pointer is the one just behind the queued elements.\<close>

lemma wp_after_content:
  assumes "ring_wf r"
  shows "(slot_idx r (rp r) + ring_count r) mod unat (elements r) = slot_idx r (wp r)"
proof -
  note w = ring_wfD [OF assms]
  let ?n = "unat (elements r)" and ?i = "slot_idx r (rp r)" and ?j = "slot_idx r (wp r)"
  show ?thesis
  proof (cases "?i \<le> ?j")
    case True
    then have "ring_count r = ?j - ?i"
      using w mod_add_diff [of ?i ?j ?n] by (simp add: ring_count_def Let_def)
    with True w show ?thesis by simp
  next
    case False
    then have "ring_count r = ?j + ?n - ?i"
      using w mod_sub_diff [of ?j ?i ?n] by (simp add: ring_count_def Let_def)
    with False w show ?thesis by simp
  qed
qed

lemma content_idx_neq:
  assumes "k < c" "c < n" "i < n"
  shows "(i + k) mod n \<noteq> (i + c) mod (n::nat)"
proof
  assume "(i + k) mod n = (i + c) mod n"
  then have "n dvd (i + c) - (i + k)"
    using assms mod_eq_dvd_iff_nat [of "i + k" "i + c" n] by simp
  then have "n dvd c - k" by simp
  with assms show False by (auto dest: dvd_imp_le)
qed

lemma ring_content_put:
  assumes wf: "ring_wf r" and nf: "\<not> mhi_is_ring_full r"
  shows "ring_content (ring_put x r) = ring_content r @ [x]"
proof -
  note w = ring_wfD [OF wf]
  let ?n = "unat (elements r)" and ?i = "slot_idx r (rp r)" and ?c = "ring_count r"
  let ?a = "\<lambda>k. slot_addr r ((?i + k) mod ?n)"
  have wa: "?a ?c = wp r"
    using wp_after_content [OF wf] w by (simp add: slot_addr_idx)
  have other: "?a k \<noteq> wp r" if "k < ?c" for k
  proof
    assume eq: "?a k = wp r"
    have "(?i + k) mod ?n = slot_idx r (?a k)"
      using w by (simp add: slot_idx_addr)
    also have "\<dots> = (?i + ?c) mod ?n" using eq wp_after_content [OF wf] by simp
    finally show False
      using content_idx_neq [OF that ring_count_less [OF wf] w(4)] by simp
  qed
  have "map (\<lambda>k. ((slots r)(wp r := x)) (?a k)) [0..<?c] = ring_content r"
    unfolding ring_content_def by (rule map_cong) (simp_all add: other)
  then show ?thesis
    by (simp add: ring_content_def [of "ring_put x r"] ring_put_fields ring_count_put [OF wf nf] wa)
qed

lemma ring_content_del:
  assumes wf: "ring_wf r" and ne: "rp r \<noteq> wp r"
  shows "ring_content (mhi_del_ring_element r) = tl (ring_content r)"
proof -
  note w = ring_wfD [OF wf]
  let ?n = "unat (elements r)" and ?i = "slot_idx r (rp r)"
  have c: "ring_count r = Suc (ring_count (mhi_del_ring_element r))"
    using ring_count_del [OF wf ne] by simp
  have idx: "slot_idx r (ring_step r (rp r)) = Suc ?i mod ?n"
    using w by (simp add: ring_step_slot)
  have "tl (ring_content r) = map (\<lambda>k. slots r (slot_addr r ((?i + k) mod ?n)))
      [Suc 0..<Suc (ring_count (mhi_del_ring_element r))]"
    unfolding ring_content_def c by (simp add: upt_rec map_tl)
  also have "\<dots> = map (\<lambda>k. slots r (slot_addr r ((?i + Suc k) mod ?n)))
      [0..<ring_count (mhi_del_ring_element r)]"
    by (simp only: map_Suc_upt [symmetric] map_map o_def)
  finally show ?thesis
    by (simp add: ring_content_def del_step idx mod_add_left_eq)
qed

lemma ring_content_hd:
  assumes wf: "ring_wf r" and ne: "rp r \<noteq> wp r"
  shows "hd (ring_content r) = slots r (rp r)"
proof -
  note w = ring_wfD [OF wf]
  have "0 < ring_count r" using ring_empty_iff [OF wf] ne by simp
  then show ?thesis using w by (simp add: ring_content_def upt_rec slot_addr_idx)
qed

section \<open>Free and used elements\<close>

lemma to_c_int_small:
  assumes "unat x < 2 ^ 31"
  shows "to_c_int x = int (unat x)"
proof -
  have u: "uint (ucast x :: u32) = int (unat x)"
    using assms unat_ucast32_small [of x] by (simp add: uint_nat del: of_nat_unat)
  have "sint (ucast x :: u32) = signed_take_bit 31 (uint (ucast x :: u32))"
    by (simp add: sint_uint)
  also have "\<dots> = int (unat x)"
    unfolding u using assms by (intro signed_take_bit_int_eq_self) (simp_all del: of_nat_unat)
  finally show ?thesis by (simp add: to_c_int_def)
qed

lemma slot_distance:
  assumes g: "ring_geom r" and a: "on_ring r a" and b: "on_ring r b" and le: "a \<le> b"
  shows "unat ((b - a) div el_size r) = slot_idx r b - slot_idx r a"
    and "slot_idx r a \<le> slot_idx r b"
proof -
  obtain i where i: "i < unat (elements r)" "unat a = unat (base r) + i * unat (el_size r)"
    "slot_idx r a = i" using on_ring_slot [OF g a] .
  obtain j where j: "j < unat (elements r)" "unat b = unat (base r) + j * unat (el_size r)"
    "slot_idx r b = j" using on_ring_slot [OF g b] .
  have es: "0 < unat (el_size r)" using g by (simp add: ring_geom_def)
  have "i * unat (el_size r) \<le> j * unat (el_size r)"
    using le i j by (simp add: word_le_nat_alt)
  then have ij: "i \<le> j" using es by simp
  have "unat (b - a) = (j - i) * unat (el_size r)"
    using le i j by (simp add: unat_minus_le word_le_nat_alt diff_mult_distrib)
  then show "unat ((b - a) div el_size r) = slot_idx r b - slot_idx r a"
    using es i j by (simp add: unat_div)
  show "slot_idx r a \<le> slot_idx r b" using ij i j by simp
qed

lemma base_on_ring:
  assumes "ring_geom r"
  shows "on_ring r (base r)" and "slot_idx r (base r) = 0"
  using assms by (auto simp: on_ring_def ring_geom_def slot_idx_def)

lemma slots_to_end:
  assumes g: "ring_geom r" and a: "on_ring r a"
  shows "unat ((base r + ring_len r - a) div el_size r) = unat (elements r) - slot_idx r a"
proof -
  obtain i where i: "i < unat (elements r)" "unat a = unat (base r) + i * unat (el_size r)"
    "slot_idx r a = i" using on_ring_slot [OF g a] .
  have gs: "0 < unat (el_size r)" "unat (ring_len r) = unat (elements r) * unat (el_size r)"
    "unat (base r) + unat (ring_len r) < 2 ^ 64" using g by (auto simp: ring_geom_def)
  have e: "unat (base r + ring_len r) = unat (base r) + unat (ring_len r)"
    using gs by (simp add: unat_plus_nowrap)
  have "unat (base r + ring_len r - a) = (unat (elements r) - i) * unat (el_size r)"
    using e i gs slot_addr_bound [OF g i(1)]
    by (subst unat_minus_le) (simp_all add: diff_mult_distrib)
  then show ?thesis using gs i by (simp add: unat_div)
qed

lemma nr_avail_is_room:
  assumes wf: "ring_wf r" and n: "unat (elements r) < 2 ^ 31"
  shows "get_nr_avail_ring_elements r = int (ring_room r)"
proof -
  note w = ring_wfD [OF wf]
  let ?n = "unat (elements r)" and ?i = "slot_idx r (rp r)" and ?j = "slot_idx r (wp r)"
  have one: "unat (x - 1) = unat x - 1" if "0 < unat x" for x :: u64
    using that by (subst unat_minus_le) simp_all
  show ?thesis
  proof (cases "wp r < rp r")
    case True
    then have d: "unat ((rp r - wp r) div el_size r) = ?i - ?j" and le: "?j \<le> ?i"
      using slot_distance [OF w(1) w(3) w(2)] by auto
    moreover have "?j \<noteq> ?i" using True w by (metis less_irrefl slot_idx_inject)
    ultimately have "unat ((rp r - wp r) div el_size r - 1) = ?i - ?j - 1" by (simp add: one)
    moreover have "ring_count r = ?j + ?n - ?i"
      using le \<open>?j \<noteq> ?i\<close> w mod_sub_diff [of ?j ?i ?n] by (simp add: ring_count_def Let_def)
    ultimately show ?thesis
      using True w n le \<open>?j \<noteq> ?i\<close>
      by (simp add: get_nr_avail_ring_elements_def to_c_int_small ring_room_def)
  next
    case False
    then have le: "?i \<le> ?j" using slot_distance [OF w(1) w(2) w(3)] by auto
    have "unat ((base r + ring_len r - wp r) div el_size r - 1) = ?n - ?j - 1"
      using slots_to_end [OF w(1) w(3)] w by (simp add: one)
    moreover have "unat ((rp r - base r) div el_size r) = ?i"
      using slot_distance [OF w(1) base_on_ring(1) [OF w(1)] w(2)] base_on_ring [OF w(1)] w(2)
      by (simp add: on_ring_def word_le_nat_alt)
    ultimately have s: "unat ((rp r - base r) div el_size r +
        ((base r + ring_len r - wp r) div el_size r - 1)) = ?i + (?n - ?j - 1)"
      using w n by (subst unat_plus_nowrap) simp_all
    have "ring_count r = ?j - ?i"
      using le w mod_add_diff [of ?i ?j ?n] by (simp add: ring_count_def Let_def)
    moreover have "unat ((rp r - base r) div el_size r +
        ((base r + ring_len r - wp r) div el_size r - 1)) < 2 ^ 31"
      unfolding s using w n le by simp
    ultimately show ?thesis
      using False s w le by (simp add: get_nr_avail_ring_elements_def to_c_int_small ring_room_def)
  qed
qed

lemma used_is_distance:
  assumes g: "ring_geom r" and a: "on_ring r a" and b: "on_ring r b"
    and es: "el_size r = sizeof_mhi_tre" and n: "unat (elements r) < 2 ^ 32"
  shows "unat (get_used_ring_elements a b (ucast (elements r)))
    = (slot_idx r b + unat (elements r) - slot_idx r a) mod unat (elements r)"
proof -
  let ?n = "unat (elements r)" and ?i = "slot_idx r a" and ?j = "slot_idx r b"
  have lt: "?i < ?n" "?j < ?n" using g a b by (auto simp: slot_idx_less)
  note small = unat_ucast32_small
  show ?thesis
  proof (cases "a \<le> b")
    case True
    have d: "unat ((b - a) div el_size r) = ?j - ?i" "?i \<le> ?j"
      using slot_distance [OF g a b True] by auto
    with lt n have "unat (ucast ((b - a) div el_size r) :: u32) = ?j - ?i"
      by (subst small) simp_all
    then show ?thesis
      using True d lt mod_add_diff [of ?i ?j ?n] es by (simp add: get_used_ring_elements_def)
  next
    case False
    then have ba: "b \<le> a" by simp
    have d: "unat ((a - b) div el_size r) = ?i - ?j" "?j \<le> ?i"
      using slot_distance [OF g b a ba] by auto
    have "?i \<noteq> ?j" using False slot_idx_inject [OF g a b] by auto
    have u: "unat (ucast ((a - b) div el_size r) :: u32) = ?i - ?j"
      using d lt n by (subst small) simp_all
    have e: "unat (ucast (elements r) :: u32) = ?n" using n by (rule small)
    have "unat (ucast (elements r) - ucast ((a - b) div el_size r) :: u32) = ?n - (?i - ?j)"
      using u e lt by (subst unat_minus_le) simp_all
    then show ?thesis
      using False d lt \<open>?i \<noteq> ?j\<close> mod_sub_diff [of ?j ?i ?n] es
      by (simp add: get_used_ring_elements_def)
  qed
qed

section \<open>Bus addresses\<close>

lemma virtual_physical [simp]: "mhi_to_virtual r (mhi_to_physical r a) = a"
  by (simp add: mhi_to_virtual_def mhi_to_physical_def)

lemma physical_virtual [simp]: "mhi_to_physical r (mhi_to_virtual r a) = a"
  by (simp add: mhi_to_virtual_def mhi_to_physical_def)

section \<open>The interface: a bounded queue\<close>

text \<open>
  What the driver relies on when it queues descriptors: a queue with room takes an element
  at its end, a queue with content gives up its first element, and room and content add up
  to the capacity.
\<close>

locale bounded_fifo =
  fixes put :: "'a \<Rightarrow> 'q \<Rightarrow> 'q"
    and take1 :: "'q \<Rightarrow> 'q"
    and content :: "'q \<Rightarrow> 'a list"
    and room :: "'q \<Rightarrow> nat"
    and ok :: "'q \<Rightarrow> bool"
  assumes ok_put: "ok q \<Longrightarrow> 0 < room q \<Longrightarrow> ok (put x q)"
    and content_put: "ok q \<Longrightarrow> 0 < room q \<Longrightarrow> content (put x q) = content q @ [x]"
    and room_put: "ok q \<Longrightarrow> 0 < room q \<Longrightarrow> Suc (room (put x q)) = room q"
    and ok_take: "ok q \<Longrightarrow> content q \<noteq> [] \<Longrightarrow> ok (take1 q)"
    and content_take: "ok q \<Longrightarrow> content q \<noteq> [] \<Longrightarrow> content (take1 q) = tl (content q)"
    and room_take: "ok q \<Longrightarrow> content q \<noteq> [] \<Longrightarrow> room (take1 q) = Suc (room q)"
begin

text \<open>Queueing a list that fits appends it.\<close>

lemma put_all:
  "ok q \<Longrightarrow> length xs \<le> room q \<Longrightarrow>
   ok (foldl (\<lambda>q x. put x q) q xs) \<and>
   content (foldl (\<lambda>q x. put x q) q xs) = content q @ xs \<and>
   room (foldl (\<lambda>q x. put x q) q xs) + length xs = room q"
proof (induction xs arbitrary: q)
  case Nil
  then show ?case by simp
next
  case (Cons x xs)
  then have r: "0 < room q" and l: "length xs \<le> room (put x q)"
    using room_put [of q x] by auto
  with Cons.IH [of "put x q"] Cons.prems show ?case
    using room_put [of q x] by (auto simp: ok_put content_put)
qed

text \<open>Taking as many elements as were there before leaves what was queued after them.\<close>

lemma take_all:
  "ok q \<Longrightarrow> n \<le> length (content q) \<Longrightarrow>
   ok ((take1 ^^ n) q) \<and> content ((take1 ^^ n) q) = drop n (content q) \<and>
   room ((take1 ^^ n) q) = room q + n"
proof (induction n)
  case 0
  then show ?case by simp
next
  case (Suc n)
  then have IH: "ok ((take1 ^^ n) q)" "content ((take1 ^^ n) q) = drop n (content q)"
    "room ((take1 ^^ n) q) = room q + n" by auto
  with Suc.prems have "content ((take1 ^^ n) q) \<noteq> []" by simp
  with IH show ?case by (simp add: ok_take content_take room_take drop_Suc tl_drop)
qed

lemma fifo_order:
  assumes "ok q" "length xs \<le> room q"
  shows "content ((take1 ^^ length (content q)) (foldl (\<lambda>q x. put x q) q xs)) = xs"
  using put_all [OF assms] take_all [of "foldl (\<lambda>q x. put x q) q xs" "length (content q)"]
  by simp

end

interpretation ring_fifo: bounded_fifo ring_put mhi_del_ring_element ring_content ring_room ring_wf
proof
  fix q :: "'a mhi_ring" and x
  {
    assume q: "ring_wf q" "0 < ring_room q"
    then have nf: "\<not> mhi_is_ring_full q" by (simp add: ring_room_pos_iff)
    show "ring_wf (ring_put x q)" using q by blast
    show "ring_content (ring_put x q) = ring_content q @ [x]"
      using q nf by (simp add: ring_content_put)
    show "Suc (ring_room (ring_put x q)) = ring_room q"
      using q nf ring_count_less [OF q(1)]
      by (simp add: ring_room_def ring_put_fields ring_count_put)
  }
  {
    assume q: "ring_wf q" "ring_content q \<noteq> []"
    then have "ring_count q \<noteq> 0" by (metis length_0_conv length_ring_content)
    with q have ne: "rp q \<noteq> wp q" by (simp add: ring_empty_iff)
    show "ring_wf (mhi_del_ring_element q)" using q by blast
    show "ring_content (mhi_del_ring_element q) = tl (ring_content q)"
      using q ne by (simp add: ring_content_del)
    show "ring_room (mhi_del_ring_element q) = Suc (ring_room q)"
      using ring_count_del [OF q(1) ne] ring_count_less [OF q(1)]
      by (simp add: ring_room_def frame_simps)
  }
qed

section \<open>Properties\<close>

text \<open>
  C2: A well-formed descriptor ring is a bounded queue: a list of descriptors that fits,
  written one by one with \<open>mhi_add_ring_element\<close>, is appended to the queue in order, and the
  reader that steps with \<open>mhi_del_ring_element\<close> past the descriptors that were there before
  finds exactly the new ones, in order; the ring stays well-formed and no descriptor is lost,
  overwritten or read twice, however often the pointers wrap.
\<close>

theorem ring_is_fifo:
  assumes "ring_wf r" and "length xs \<le> ring_room r"
  shows "ring_content (foldl (\<lambda>q x. ring_put x q) r xs) = ring_content r @ xs
    \<and> ring_room (foldl (\<lambda>q x. ring_put x q) r xs) + length xs = ring_room r
    \<and> ring_content ((mhi_del_ring_element ^^ length (ring_content r))
        (foldl (\<lambda>q x. ring_put x q) r xs)) = xs
    \<and> ring_wf (foldl (\<lambda>q x. ring_put x q) r xs)"
  using ring_fifo.put_all [OF assms] ring_fifo.fifo_order [OF assms] by blast

definition demo_ring :: "nat mhi_ring" where
  "demo_ring = \<lparr>dma_handle = 0, iommu_base = 0x9000, ctxt_wp = 0, pre_aligned = 0,
     base = 0x1000, rp = 0x1020, wp = 0x1030, el_size = 16, ring_len = 64, elements = 4,
     ring_alloc_size = 0, db_addr = 0, slots = (\<lambda>_. 0)\<rparr>"

lemma demo_ring_wf: "ring_wf demo_ring"
  by (simp add: demo_ring_def ring_wf_def ring_geom_def on_ring_def)

lemma demo_ring_room: "ring_count demo_ring = 1" "ring_room demo_ring = 2"
  by (simp_all add: demo_ring_def ring_room_def ring_count_def slot_idx_def Let_def)

theorem ring_is_fifo_witness:
  "ring_content (mhi_del_ring_element (ring_put 8 (ring_put 7 demo_ring))) = [7, 8]
   \<and> ring_room (ring_put 8 (ring_put 7 demo_ring)) = 0"
  using ring_is_fifo [OF demo_ring_wf, of "[7, 8]"] by (simp add: demo_ring_room)

text \<open>
  C4: The three ways the driver counts a ring agree with the queue: the free elements
  \<open>get_nr_avail_ring_elements\<close> computes are what is left of one less than the ring's
  elements, \<open>mhi_is_ring_full\<close> holds exactly when none is left, and for descriptor rings
  \<open>get_used_ring_elements\<close> is the number of queued elements, with the unsigned 64-bit
  quotients and the conversion to \<open>int\<close> as the code has them.
\<close>

theorem ring_counts_agree:
  assumes "ring_wf r" and "unat (elements r) < 2 ^ 31"
  shows "get_nr_avail_ring_elements r = int (unat (elements r)) - 1 - int (length (ring_content r))
    \<and> (mhi_is_ring_full r \<longleftrightarrow> get_nr_avail_ring_elements r = 0)
    \<and> (el_size r = sizeof_mhi_tre \<longrightarrow>
         unat (get_used_ring_elements (rp r) (wp r) (ucast (elements r))) = length (ring_content r))"
proof (intro conjI impI)
  have less: "ring_count r < unat (elements r)" using assms(1) by (rule ring_count_less)
  show "get_nr_avail_ring_elements r = int (unat (elements r)) - 1 - int (length (ring_content r))"
    using less by (simp add: nr_avail_is_room [OF assms] ring_room_def)
  show "mhi_is_ring_full r \<longleftrightarrow> get_nr_avail_ring_elements r = 0"
    using ring_room_pos_iff [OF assms(1)] by (auto simp: nr_avail_is_room [OF assms])
  assume "el_size r = sizeof_mhi_tre"
  then show "unat (get_used_ring_elements (rp r) (wp r) (ucast (elements r))) = length (ring_content r)"
    using used_is_distance [of r "rp r" "wp r"] ring_wfD [OF assms(1)] assms(2)
    by (simp add: ring_count_def Let_def)
qed

theorem ring_counts_agree_witness:
  "get_nr_avail_ring_elements demo_ring = 2
   \<and> unat (get_used_ring_elements (rp demo_ring) (wp demo_ring) (ucast (elements demo_ring))) = 1"
proof -
  have "unat (elements demo_ring) < 2 ^ 31" "el_size demo_ring = sizeof_mhi_tre"
    "unat (elements demo_ring) = 4"
    by (simp_all add: demo_ring_def sizeof_mhi_tre_def)
  with ring_counts_agree [OF demo_ring_wf] show ?thesis by (simp add: demo_ring_room)
qed

end
