(* ===== verification/Mhi_Ctrl.thy ===== *)
theory Mhi_Ctrl
  imports Mhi_Ring
begin

text \<open>
  The controller: \<open>struct mhi_controller\<close>, \<open>struct mhi_chan\<close>, \<open>struct mhi_event\<close> and the
  contexts shared with the device, and the register and doorbell access of
  \<open>core/mhi_main.c\<close>.

  A C array of structs is a function from indices; an access that the code does not bound
  and that leaves the array (or goes through a null pointer) sets the flag \<open>ub\<close>. Device
  registers are the memory \<open>mmio\<close>;
  what the host does to the world outside its own structures (register writes, power votes,
  callbacks, scheduled work, unmapped buffers, freed memory) is appended to \<open>trace\<close>, oldest
  first. What the kernel answers is the record \<open>mhi_os\<close>, an argument of the operations
  that ask. The addresses of the arrays \<open>mhi_chan\<close>, \<open>mhi_event\<close> and \<open>mhi_cmd\<close> are kept as
  \<open>chan_mem\<close>, \<open>event_mem\<close> and \<open>cmd_mem\<close>, for what frees them. Fields that no modelled operation reads (locks, lists of the driver core,
  names, pointers into the kernel) are left out of the records.
\<close>

section \<open>State\<close>

datatype worker = St_worker | Fw_worker | Syserr_worker | Ready_worker

datatype obs =
    Mmio_write u64 u32
  | Runtime_get | Runtime_put | Mark_last_busy
  | Status_cb MHI_CB
  | Dev_status_cb nat MHI_CB
  | Xfer_cb nat mhi_result
  | Tsync_cb nat u32 u64 u64
  | Schedule_work worker
  | Flush_work worker
  | Wake_up_all
  | Tasklet_schedule nat
  | Tasklet_kill nat
  | Dma_unmap u64 u64
  | Bounce_copy u64 u64 u64
  | Free_coherent u64 u64
  | Dma_fill u64 "u8 list"
  | Kfree u64
  | Mon_submit nat u32 u64 mhi_tre u64 u64
  | Mon_receive nat u32 u64 mhi_tre u64 u64
  | Mon_complete nat u32 u64 mhi_tre
  | Delayed_work worker
  | Tsync_sysfs | Tsync_sysfs_remove
  | Lpm_enable | Lpm_disable
  | Request_irq nat | Free_irq nat
  | Device_add nat | Sysfs_group nat | Sysfs_remove nat | Device_del nat | Device_free nat
  | Client_remove nat

datatype queue_xfer_fn =
    mhi_queue_buf_fn | mhi_queue_skb_fn | mhi_queue_sclist_fn | mhi_queue_nop_fn
  | mhi_queue_dma_fn

record mhi_chan =
  chan :: u32
  ch_name :: string
  buf_ring :: "mhi_buf_info mhi_ring"
  tre_ring :: "mhi_tre mhi_ring"
  ch_used_elements :: u32
  used_events :: "nat \<Rightarrow> u32"
  ch_er_index :: nat
  ch_intmod :: u32
  ch_type :: u32
  dir :: dma_data_direction
  ch_db_cfg :: db_cfg
  ee_mask :: u32
  xfer_type :: MHI_XFER_TYPE
  ch_state :: MHI_CH_STATE
  ccs :: MHI_EV_CCS
  lpm_notify :: bool
  configured :: bool
  offload_ch :: bool
  pre_alloc :: bool
  auto_start :: bool
  wake_capable :: bool
  queue_xfer :: queue_xfer_fn
  ch_mhi_dev :: "nat option"
  ch_completion :: nat
  ch_ring :: u32

record mhi_event =
  er_index :: nat
  ev_intmod :: u32
  ev_msi :: u32
  ev_chan :: nat
  priority :: u32
  data_type :: mhi_er_data_type
  ev_ring :: "mhi_tre mhi_ring"
  ev_db_cfg :: db_cfg
  ev_used_elements :: u32
  hw_ring :: bool
  cl_manage :: bool
  offload_ev :: bool
  ev_mhi_chan :: "nat option"

text \<open>
  The contexts in shared memory. The word a ring's \<open>ctxt_wp\<close> points to, the context's
  \<open>wp\<close>, is the ring's field \<open>ctxt_wp\<close>.
\<close>

record mhi_event_ctxt =
  intmodc :: u32
  intmodt :: u32
  ertype :: u32
  msivec :: u32
  er_rbase :: u64
  er_rlen :: u64
  er_rp :: u64

record mhi_chan_ctxt =
  chstate :: u32
  ctxt_brstmode :: u32
  ctxt_pollcfg :: u32
  chtype :: u32
  erindex :: u32
  cc_rbase :: u64
  cc_rlen :: u64
  cc_rp :: u64

record mhi_cmd_ctxt =
  cmd_rbase :: u64
  cmd_rlen :: u64
  cmd_rp :: u64

record tsync_node =
  ts_sequence :: u32
  local_time :: u64
  ts_mhi_dev :: nat

record mhi_timesync =
  ts_er_index :: u32
  ts_db :: u64
  time_reg :: u64
  ts_ccs :: MHI_EV_CCS
  ts_completion :: nat
  ts_lock :: bool
  ts_head :: "tsync_node list"

text \<open>A device on the MHI bus: a pair of channels with a client, or the controller itself.\<close>

record mhi_device =
  dev_chan_name :: string
  mtu :: u64
  ul_chan_id :: int
  dl_chan_id :: int
  ul_event_id :: int
  dl_event_id :: int
  ul_chan :: "nat option"
  dl_chan :: "nat option"
  ul_xfer :: "queue_xfer_fn option"
  dl_xfer :: "queue_xfer_fn option"
  device_wake :: int
  dev_type :: mhi_device_type

text \<open>
  A firmware image or a ram dump in pieces of DMA memory, with the table of the pieces in the
  last one. \<open>mb_data\<close> and \<open>bhi_vec\<close> are what the memory of a piece and of the table holds.
\<close>

record mhi_buf =
  mb_buf :: u64
  mb_dma :: u64
  mb_len :: u64
  mb_data :: "u8 list"

record bhi_vec_entry =
  vec_dma :: u64
  vec_size :: u64

record image_info =
  img_addr :: u64
  bufs_addr :: u64
  mhi_bufs :: "mhi_buf list"
  bhi_vec :: "bhi_vec_entry list"
  img_entries :: nat

record mhi_controller =
  regs :: u64
  bhi :: u64
  bhie :: u64
  wake_db :: u64
  max_chan :: nat
  mhi_chan :: "nat \<Rightarrow> mhi_chan"
  lpm_chans :: "nat list"
  total_ev_rings :: nat
  msi_irq_base :: u32
  mhi_event :: "nat \<Rightarrow> mhi_event"
  cmd_ring :: "mhi_tre mhi_ring"
  er_ctxt :: "nat \<Rightarrow> mhi_event_ctxt"
  chan_ctxt :: "nat \<Rightarrow> mhi_chan_ctxt"
  cmd_ctxt :: mhi_cmd_ctxt
  pre_init :: bool
  pm_state :: u32
  ee :: mhi_ee
  dev_state :: mhi_dev_state
  dev_wake :: int
  alloc_size :: int
  pending_pkts :: int
  transition_list :: "MHI_ST_TRANSITION list"
  cnt_M0 :: u32
  cnt_M2 :: u32
  cnt_M3 :: u32
  bounce_buf :: bool
  buffer_len :: u64
  mhi_tsync :: "mhi_timesync option"
  mhi_ctxt :: "u64 option"
  chan_mem :: u64
  event_mem :: u64
  cmd_mem :: u64
  ctrl_seg :: u64
  ctrl_seg_addr :: u64
  chan_ctxt_addr :: u64
  er_ctxt_addr :: u64
  cmd_ctxt_addr :: u64
  iova_start :: u64
  iova_stop :: u64
  hw_ev_rings :: u32
  sw_ev_rings :: u32
  msi_required :: u32
  msi_allocated :: u32
  fbc_image :: "image_info option"
  rddm_image :: "image_info option"
  rddm_size :: u64
  fbc_download :: bool
  fw_image :: "string option"
  edl_image :: "string option"
  sbl_size :: u64
  seg_len :: u64
  sequence_id :: u32
  timeout_ms :: u32
  devices :: "nat \<Rightarrow> mhi_device"
  bus_devs :: "nat list"
  tsync_dev :: "nat option"
  r_list :: "nat list"
  cnt_events :: u32
  mmio :: "u64 \<Rightarrow> u32"
  n_alloc :: nat
  ub :: bool
  trace :: "obs list"

section \<open>Zeroed memory\<close>

text \<open>
  The structures as \<open>kzalloc\<close> returns them, every field zero. The controller of a run starts
  from this state; the concrete instances of the theorems use it.
\<close>

definition zero_tre :: mhi_tre where
  "zero_tre = \<lparr>tre_ptr = 0, dword0 = 0, dword1 = 0\<rparr>"

definition zero_buf_info :: mhi_buf_info where
  "zero_buf_info = \<lparr>p_addr = 0, v_addr = 0, bb_addr = 0, bi_wp = 0, bi_len = 0, cb_buf = 0,
     bi_used = False, pre_mapped = False, bi_dir = DMA_BIDIRECTIONAL\<rparr>"

definition zero_ring :: "'a \<Rightarrow> 'a mhi_ring" where
  "zero_ring x = \<lparr>dma_handle = 0, iommu_base = 0, ctxt_wp = 0, pre_aligned = 0, base = 0,
     rp = 0, wp = 0, el_size = 0, ring_len = 0, elements = 0, ring_alloc_size = 0, db_addr = 0,
     slots = (\<lambda>_. x)\<rparr>"

definition zero_db_cfg :: db_cfg where
  "zero_db_cfg = \<lparr>reset_req = False, db_mode = False, pollcfg = 0, brstmode = 0, db_val = 0,
     process_db = mhi_db_brstmode_disable_fn\<rparr>"

definition zero_chan :: mhi_chan where
  "zero_chan = \<lparr>chan = 0, ch_name = [], buf_ring = zero_ring zero_buf_info,
     tre_ring = zero_ring zero_tre, ch_used_elements = 0, used_events = (\<lambda>_. 0), ch_er_index = 0,
     ch_intmod = 0, ch_type = 0, dir = DMA_BIDIRECTIONAL, ch_db_cfg = zero_db_cfg, ee_mask = 0,
     xfer_type = MHI_XFER_BUFFER, ch_state = MHI_CH_STATE_DISABLED, ccs = MHI_EV_CC_INVALID,
     lpm_notify = False, configured = False, offload_ch = False, pre_alloc = False,
     auto_start = False, wake_capable = False, queue_xfer = mhi_queue_buf_fn, ch_mhi_dev = None,
     ch_completion = 0, ch_ring = 0\<rparr>"

definition zero_event :: mhi_event where
  "zero_event = \<lparr>er_index = 0, ev_intmod = 0, ev_msi = 0, ev_chan = 0, priority = 0,
     data_type = MHI_ER_DATA_ELEMENT_TYPE, ev_ring = zero_ring zero_tre, ev_db_cfg = zero_db_cfg,
     ev_used_elements = 0, hw_ring = False, cl_manage = False, offload_ev = False,
     ev_mhi_chan = None\<rparr>"

definition zero_device :: mhi_device where
  "zero_device = \<lparr>dev_chan_name = [], mtu = 0, ul_chan_id = 0, dl_chan_id = 0, ul_event_id = 0,
     dl_event_id = 0, ul_chan = None, dl_chan = None, ul_xfer = None, dl_xfer = None,
     device_wake = 0, dev_type = MHI_XFER_TYPE\<rparr>"

definition zero_controller :: mhi_controller where
  "zero_controller = \<lparr>regs = 0, bhi = 0, bhie = 0, wake_db = 0, max_chan = 0,
     mhi_chan = (\<lambda>_. zero_chan), lpm_chans = [], total_ev_rings = 0, msi_irq_base = 0,
     mhi_event = (\<lambda>_. zero_event), cmd_ring = zero_ring zero_tre,
     er_ctxt = (\<lambda>_. \<lparr>intmodc = 0, intmodt = 0, ertype = 0, msivec = 0, er_rbase = 0,
        er_rlen = 0, er_rp = 0\<rparr>),
     chan_ctxt = (\<lambda>_. \<lparr>chstate = 0, ctxt_brstmode = 0, ctxt_pollcfg = 0, chtype = 0,
        erindex = 0, cc_rbase = 0, cc_rlen = 0, cc_rp = 0\<rparr>),
     cmd_ctxt = \<lparr>cmd_rbase = 0, cmd_rlen = 0, cmd_rp = 0\<rparr>, pre_init = False, pm_state = 0,
     ee = MHI_EE_PBL, dev_state = MHI_STATE_RESET, dev_wake = 0, alloc_size = 0,
     pending_pkts = 0, transition_list = [], cnt_M0 = 0, cnt_M2 = 0, cnt_M3 = 0,
     bounce_buf = False, buffer_len = 0, mhi_tsync = None,
     mhi_ctxt = None, chan_mem = 0, event_mem = 0, cmd_mem = 0, ctrl_seg = 0, ctrl_seg_addr = 0, chan_ctxt_addr = 0, er_ctxt_addr = 0,
     cmd_ctxt_addr = 0, iova_start = 0, iova_stop = 0, hw_ev_rings = 0, sw_ev_rings = 0,
     msi_required = 0, msi_allocated = 0, fbc_image = None, rddm_image = None, rddm_size = 0,
     fbc_download = False, fw_image = None, edl_image = None, sbl_size = 0, seg_len = 0,
     sequence_id = 0, timeout_ms = 0, devices = (\<lambda>_. zero_device), bus_devs = [], tsync_dev = None,
     r_list = [], cnt_events = 0,
     mmio = (\<lambda>_. 0), n_alloc = 0, ub = False, trace = []\<rparr>"

lemmas zero_defs = zero_tre_def zero_buf_info_def zero_ring_def zero_db_cfg_def zero_chan_def
  zero_event_def zero_device_def zero_controller_def

end
