(* ===== verification/Mhi_Reg.thy ===== *)
theory Mhi_Reg
  imports Mhi_Ctrl
begin

text \<open>
  Register access, doorbells and the device wake vote: the first part of
  \<open>core/mhi_main.c\<close> and \<open>mhi_set_mhi_state\<close>, \<open>mhi_assert_dev_wake\<close>,
  \<open>mhi_deassert_dev_wake\<close> of \<open>core/mhi_pm.c\<close>, and waiting on \<open>state_event\<close>.
\<close>

section \<open>What the kernel answers\<close>

text \<open>
  \<open>link_status\<close> is the controller's callback (0 when the link is up); \<open>dma_map\<close> maps a
  buffer address and length to a bus address, \<open>None\<close> for a mapping error; \<open>kmalloc\<close> and
  \<open>dma_alloc\<close> answer the n-th allocation of a run for a size; \<open>drv_status_cb\<close> says
  whether a device has a driver bound to it that wants status notifications;
  \<open>irq_ret\<close> is what requesting an interrupt line returns (\<open>None\<close> is 0), \<open>device_add_ret\<close>
  what adding a device to the bus returns; \<open>sizeof_mhi_chan\<close> and \<open>sizeof_mhi_event\<close> are the
  sizes of two structures that embed kernel types; \<open>stack_dir\<close> is what a result's
  uninitialised field happens to hold; \<open>sync_methods\<close> says
  whether the controller brings the three callbacks that time sync needs, two of which answer
  \<open>lpm_disable_ret\<close> and \<open>host_time\<close>; \<open>get_random_u32\<close> and \<open>firmware\<close> answer a request for a random
  number and for an image by name; \<open>stack_word\<close> is what an uninitialised local word happens
  to hold, and the other three are sizes of structures that embed kernel types.
\<close>

record mhi_os =
  link_status :: int
  dma_map :: "u64 \<Rightarrow> u64 \<Rightarrow> u64 option"
  kmalloc :: "nat \<Rightarrow> u64 \<Rightarrow> u64 option"
  dma_alloc :: "nat \<Rightarrow> u64 \<Rightarrow> (u64 \<times> u64) option"
  drv_status_cb :: "nat \<Rightarrow> bool"
  irq_ret :: "nat \<Rightarrow> errno option"
  device_add_ret :: "nat \<Rightarrow> errno option"
  sizeof_mhi_chan :: u64
  sizeof_mhi_event :: u64
  stack_dir :: dma_data_direction
  lpm_disable_ret :: "errno option"
  sync_methods :: bool
  host_time :: u64
  sizeof_timesync :: u64
  sizeof_mhi_device :: u64
  sizeof_mhi_buf :: u64
  get_random_u32 :: u32
  firmware :: "string \<Rightarrow> u8 list option"
  stack_word :: u32

text \<open>A kernel with the link up, an identity bus mapping and memory to give.\<close>

definition link_up :: mhi_os where
  "link_up = \<lparr>link_status = 0, dma_map = (\<lambda>a n. Some a),
     kmalloc = (\<lambda>k n. Some (0x10000 * of_nat (Suc k))),
     dma_alloc = (\<lambda>k n. Some (0x10000 * of_nat (Suc k), 0x10000 * of_nat (Suc k))),
     drv_status_cb = (\<lambda>d. True), irq_ret = (\<lambda>i. None), device_add_ret = (\<lambda>d. None),
     sizeof_mhi_chan = 512, sizeof_mhi_event = 256, stack_dir = DMA_NONE,
     lpm_disable_ret = None,
     sync_methods = True, host_time = 1000, sizeof_timesync = 128, sizeof_mhi_device = 1024,
     sizeof_mhi_buf = 72, get_random_u32 = 7, firmware = (\<lambda>_. None), stack_word = 0\<rparr>"

definition emit :: "obs \<Rightarrow> mhi_controller \<Rightarrow> mhi_controller" where
  "emit e c = c\<lparr>trace := trace c @ [e]\<rparr>"

definition upd_chan :: "nat \<Rightarrow> (mhi_chan \<Rightarrow> mhi_chan) \<Rightarrow> mhi_controller \<Rightarrow> mhi_controller" where
  "upd_chan i f c = c\<lparr>mhi_chan := (mhi_chan c)(i := f (mhi_chan c i))\<rparr>"

definition upd_event :: "nat \<Rightarrow> (mhi_event \<Rightarrow> mhi_event) \<Rightarrow> mhi_controller \<Rightarrow> mhi_controller" where
  "upd_event i f c = c\<lparr>mhi_event := (mhi_event c)(i := f (mhi_event c i))\<rparr>"

text \<open>An array access at an index the code has not checked.\<close>

definition touch_chan :: "nat \<Rightarrow> mhi_controller \<Rightarrow> mhi_controller" where
  "touch_chan i c = (if i < max_chan c then c else c\<lparr>ub := True\<rparr>)"

section \<open>Registers\<close>

definition PCI_INVALID_READ :: "u32 \<Rightarrow> bool" where
  "PCI_INVALID_READ v \<longleftrightarrow> v = 0xFFFFFFFF"

definition mhi_read_reg :: "mhi_os \<Rightarrow> mhi_controller \<Rightarrow> u64 \<Rightarrow> u32 \<Rightarrow> u32 res" where
  "mhi_read_reg os c b offset =
     (let tmp = mmio c (b + ucast offset)
      in if PCI_INVALID_READ tmp \<and> link_status os \<noteq> 0 then Inl EIO else Inr tmp)"

definition mhi_read_reg_field ::
  "mhi_os \<Rightarrow> mhi_controller \<Rightarrow> u64 \<Rightarrow> u32 \<Rightarrow> u32 \<Rightarrow> nat \<Rightarrow> u32 res" where
  "mhi_read_reg_field os c b offset msk shift =
     (case mhi_read_reg os c b offset of
        Inl e \<Rightarrow> Inl e
      | Inr tmp \<Rightarrow> Inr (drop_bit shift (tmp AND msk)))"

definition mhi_write_reg :: "u64 \<Rightarrow> u32 \<Rightarrow> u32 \<Rightarrow> mhi_controller \<Rightarrow> mhi_controller" where
  "mhi_write_reg b offset v c =
     emit (Mmio_write (b + ucast offset) v) (c\<lparr>mmio := (mmio c)(b + ucast offset := v)\<rparr>)"

definition mhi_write_reg_field ::
  "mhi_os \<Rightarrow> u64 \<Rightarrow> u32 \<Rightarrow> u32 \<Rightarrow> nat \<Rightarrow> u32 \<Rightarrow> mhi_controller \<Rightarrow> mhi_controller" where
  "mhi_write_reg_field os b offset msk shift v c =
     (case mhi_read_reg os c b offset of
        Inl e \<Rightarrow> c
      | Inr tmp \<Rightarrow> mhi_write_reg b offset ((tmp AND NOT msk) OR push_bit shift v) c)"

definition MHICFG :: u32 where "MHICFG = 0x10"
definition MHICFG_NHWER_MASK :: u32 where "MHICFG_NHWER_MASK = 0xFF000000"
definition MHICFG_NER_MASK :: u32 where "MHICFG_NER_MASK = 0xFF0000"
definition BHIOFF :: u32 where "BHIOFF = 0x28"
definition BHIEOFF :: u32 where "BHIEOFF = 0x2C"
definition MHICTRL :: u32 where "MHICTRL = 0x38"
definition MHICTRL_MHISTATE_MASK :: u32 where "MHICTRL_MHISTATE_MASK = 0x0000FF00"
definition MHICTRL_RESET_MASK :: u32 where "MHICTRL_RESET_MASK = 0x2"
definition MHISTATUS :: u32 where "MHISTATUS = 0x48"
definition MHISTATUS_MHISTATE_MASK :: u32 where "MHISTATUS_MHISTATE_MASK = 0x0000FF00"
definition MHISTATUS_READY_MASK :: u32 where "MHISTATUS_READY_MASK = 0x1"
definition MISC_OFFSET :: u32 where "MISC_OFFSET = 0x24"
definition MISC_CAP_MASK :: u32 where "MISC_CAP_MASK = 0xFFFFFFFF"
definition CAP_CAPID_MASK :: u32 where "CAP_CAPID_MASK = 0xFF000000"
definition CAP_NEXT_CAP_MASK :: u32 where "CAP_NEXT_CAP_MASK = 0x00FFF000"
definition BHI_INTVEC :: u32 where "BHI_INTVEC = 0x20"
definition BHI_EXECENV :: u32 where "BHI_EXECENV = 0x28"

lemmas reg_defs = MHICFG_def MHICFG_NHWER_MASK_def MHICFG_NER_MASK_def BHIOFF_def BHIEOFF_def
  MHICTRL_def MHICTRL_MHISTATE_MASK_def MHICTRL_RESET_MASK_def MHISTATUS_def
  MHISTATUS_MHISTATE_MASK_def MHISTATUS_READY_MASK_def MISC_OFFSET_def MISC_CAP_MASK_def
  CAP_CAPID_MASK_def CAP_NEXT_CAP_MASK_def BHI_INTVEC_def BHI_EXECENV_def

text \<open>
  The capability list is a chain of offsets in device memory. The device decides how long
  it is, so the walk is partial: \<open>None\<close> is a walk that does not return.
\<close>

partial_function (option) cap_walk ::
  "mhi_os \<Rightarrow> mhi_controller \<Rightarrow> u32 \<Rightarrow> u32 \<Rightarrow> u32 res option" where
  "cap_walk os c capability offset =
     (case mhi_read_reg_field os c (regs c) offset CAP_CAPID_MASK 24 of
        Inl e \<Rightarrow> Some (Inl e)
      | Inr cur_cap \<Rightarrow>
          if cur_cap = capability then Some (Inr offset)
          else case mhi_read_reg_field os c (regs c) offset CAP_NEXT_CAP_MASK 12 of
              Inl e \<Rightarrow> Some (Inl e)
            | Inr next_offset \<Rightarrow>
                if next_offset \<noteq> 0 then cap_walk os c capability (offset + next_offset)
                else Some (Inl ENXIO))"

definition mhi_get_capability_offset ::
  "mhi_os \<Rightarrow> mhi_controller \<Rightarrow> u32 \<Rightarrow> u32 res option" where
  "mhi_get_capability_offset os c capability =
     (case mhi_read_reg_field os c (regs c) MISC_OFFSET MISC_CAP_MASK 0 of
        Inl e \<Rightarrow> Some (Inl e)
      | Inr offset \<Rightarrow>
          if 0x1000 \<le> offset then Some (Inl ENXIO) else cap_walk os c capability offset)"

definition mhi_get_exec_env :: "mhi_os \<Rightarrow> mhi_controller \<Rightarrow> mhi_ee" where
  "mhi_get_exec_env os c =
     (case mhi_read_reg os c (bhi c) BHI_EXECENV of
        Inl e \<Rightarrow> MHI_EE_MAX | Inr exec \<Rightarrow> ee_of exec)"

definition mhi_get_mhi_state :: "mhi_os \<Rightarrow> mhi_controller \<Rightarrow> mhi_dev_state" where
  "mhi_get_mhi_state os c =
     (case mhi_read_reg_field os c (regs c) MHISTATUS MHISTATUS_MHISTATE_MASK 8 of
        Inl e \<Rightarrow> MHI_STATE_MAX | Inr state \<Rightarrow> dev_state_of state)"

definition mhi_set_mhi_state ::
  "mhi_os \<Rightarrow> mhi_dev_state \<Rightarrow> mhi_controller \<Rightarrow> mhi_controller" where
  "mhi_set_mhi_state os state c =
     (if state = MHI_STATE_RESET
      then mhi_write_reg_field os (regs c) MHICTRL MHICTRL_RESET_MASK 1 1 c
      else mhi_write_reg_field os (regs c) MHICTRL MHICTRL_MHISTATE_MASK 8
             (dev_state_val state) c)"

section \<open>Doorbells\<close>

definition mhi_write_db :: "u64 \<Rightarrow> u64 \<Rightarrow> mhi_controller \<Rightarrow> mhi_controller" where
  "mhi_write_db db w c =
     mhi_write_reg db 0 (lower_32_bits w) (mhi_write_reg db 4 (upper_32_bits w) c)"

definition mhi_db_brstmode ::
  "db_cfg \<Rightarrow> u64 \<Rightarrow> u64 \<Rightarrow> mhi_controller \<Rightarrow> db_cfg \<times> mhi_controller" where
  "mhi_db_brstmode d db w c =
     (if db_mode d
      then (d\<lparr>db_val := w, db_mode := False\<rparr>, mhi_write_db db w c)
      else (d, c))"

definition mhi_db_brstmode_disable ::
  "db_cfg \<Rightarrow> u64 \<Rightarrow> u64 \<Rightarrow> mhi_controller \<Rightarrow> db_cfg \<times> mhi_controller" where
  "mhi_db_brstmode_disable d db w c = (d\<lparr>db_val := w\<rparr>, mhi_write_db db w c)"

text \<open>The call through the function pointer \<open>process_db\<close>.\<close>

definition call_process_db ::
  "db_cfg \<Rightarrow> u64 \<Rightarrow> u64 \<Rightarrow> mhi_controller \<Rightarrow> db_cfg \<times> mhi_controller" where
  "call_process_db d db w c =
     (case process_db d of
        mhi_db_brstmode_fn \<Rightarrow> mhi_db_brstmode d db w c
      | mhi_db_brstmode_disable_fn \<Rightarrow> mhi_db_brstmode_disable d db w c)"

definition mhi_ring_er_db :: "nat \<Rightarrow> mhi_controller \<Rightarrow> mhi_controller" where
  "mhi_ring_er_db i c =
     (let e = mhi_event c i;
          (d, c) = call_process_db (ev_db_cfg e) (db_addr (ev_ring e)) (ctxt_wp (ev_ring e)) c
      in upd_event i (\<lambda>e. e\<lparr>ev_db_cfg := d\<rparr>) c)"

definition mhi_ring_cmd_db :: "mhi_controller \<Rightarrow> mhi_controller" where
  "mhi_ring_cmd_db c =
     (let r = cmd_ring c; db = iommu_base r + (wp r - base r)
      in mhi_write_db (db_addr r) db (c\<lparr>cmd_ring := r\<lparr>ctxt_wp := db\<rparr>\<rparr>))"

definition mhi_ring_chan_db :: "nat \<Rightarrow> mhi_controller \<Rightarrow> mhi_controller" where
  "mhi_ring_chan_db i c =
     (let r = tre_ring (mhi_chan c i);
          db = iommu_base r + (wp r - base r);
          c = upd_chan i (\<lambda>ch. ch\<lparr>tre_ring := r\<lparr>ctxt_wp := db\<rparr>\<rparr>) c;
          (d, c) = call_process_db (ch_db_cfg (mhi_chan c i)) (db_addr r) db c
      in upd_chan i (\<lambda>ch. ch\<lparr>ch_db_cfg := d\<rparr>) c)"

section \<open>The wake vote\<close>

text \<open>
  The driver installs these two as \<open>wake_get\<close> and \<open>wake_put\<close> when the controller brings
  none, and no controller of the tree does. Both carry an \<open>#if 1\<close> block that returns
  before the counting part.
\<close>

definition mhi_assert_dev_wake :: "bool \<Rightarrow> mhi_controller \<Rightarrow> mhi_controller" where
  "mhi_assert_dev_wake force c =
     (if dev_state c = MHI_STATE_M2 then mhi_write_db (wake_db c) 1 c else c)"

definition mhi_deassert_dev_wake :: "bool \<Rightarrow> mhi_controller \<Rightarrow> mhi_controller" where
  "mhi_deassert_dev_wake override c = c"

section \<open>Waiting\<close>

text \<open>
  \<open>wait_event_timeout\<close>: when the condition holds at once the caller goes on; else the rest
  of the system runs (\<open>env\<close>) until the condition holds or the time is up, and the result
  says whether the condition holds then.
\<close>

definition wait_event_timeout ::
  "(mhi_controller \<Rightarrow> mhi_controller) \<Rightarrow> (mhi_controller \<Rightarrow> bool) \<Rightarrow> mhi_controller \<Rightarrow>
   bool \<times> mhi_controller" where
  "wait_event_timeout env cond c =
     (if cond c then (True, c) else (let c' = env c in (cond c', c')))"

text \<open>
  A completion counts the calls of \<open>complete\<close> nobody has waited for; \<open>complete_all\<close> sets it to
  a value that is never counted down.
\<close>

definition completion_all :: nat where
  "completion_all = 0xFFFFFFFF"

definition complete_one :: "nat \<Rightarrow> nat" where
  "complete_one n = (if n = completion_all then n else Suc n)"

definition consume_one :: "nat \<Rightarrow> nat" where
  "consume_one n = (if n = completion_all then n else n - 1)"

definition wait_chan_completion ::
  "(mhi_controller \<Rightarrow> mhi_controller) \<Rightarrow> nat \<Rightarrow> mhi_controller \<Rightarrow> bool \<times> mhi_controller" where
  "wait_chan_completion env i c =
     (let c = (if 0 < ch_completion (mhi_chan c i) then c else env c)
      in (0 < ch_completion (mhi_chan c i),
          upd_chan i (\<lambda>ch. ch\<lparr>ch_completion := consume_one (ch_completion ch)\<rparr>) c))"

section \<open>Facts\<close>

lemma emit_fields [simp]:
  "mmio (emit e c) = mmio c" "trace (emit e c) = trace c @ [e]" "pm_state (emit e c) = pm_state c"
  "mhi_chan (emit e c) = mhi_chan c" "mhi_event (emit e c) = mhi_event c"
  "cmd_ring (emit e c) = cmd_ring c" "dev_state (emit e c) = dev_state c" "ee (emit e c) = ee c"
  "max_chan (emit e c) = max_chan c" "ub (emit e c) = ub c" "dev_wake (emit e c) = dev_wake c"
  "pending_pkts (emit e c) = pending_pkts c" "regs (emit e c) = regs c" "bhi (emit e c) = bhi c"
  "bhie (emit e c) = bhie c" "wake_db (emit e c) = wake_db c"
  "er_ctxt (emit e c) = er_ctxt c" "chan_ctxt (emit e c) = chan_ctxt c" "r_list (emit e c) = r_list c"
  "total_ev_rings (emit e c) = total_ev_rings c" "n_alloc (emit e c) = n_alloc c"
  "transition_list (emit e c) = transition_list c" "mhi_tsync (emit e c) = mhi_tsync c"
  "bounce_buf (emit e c) = bounce_buf c" "alloc_size (emit e c) = alloc_size c"
  "buffer_len (emit e c) = buffer_len c" "lpm_chans (emit e c) = lpm_chans c"
  by (simp_all add: emit_def)

lemma upd_chan_fields [simp]:
  "mmio (upd_chan i f c) = mmio c" "trace (upd_chan i f c) = trace c"
  "pm_state (upd_chan i f c) = pm_state c"
  "mhi_chan (upd_chan i f c) = (mhi_chan c)(i := f (mhi_chan c i))"
  "mhi_event (upd_chan i f c) = mhi_event c"
  "cmd_ring (upd_chan i f c) = cmd_ring c" "dev_state (upd_chan i f c) = dev_state c"
  "ee (upd_chan i f c) = ee c" "max_chan (upd_chan i f c) = max_chan c"
  "ub (upd_chan i f c) = ub c" "dev_wake (upd_chan i f c) = dev_wake c"
  "pending_pkts (upd_chan i f c) = pending_pkts c" "regs (upd_chan i f c) = regs c"
  "bhi (upd_chan i f c) = bhi c" "bhie (upd_chan i f c) = bhie c"
  "wake_db (upd_chan i f c) = wake_db c" "er_ctxt (upd_chan i f c) = er_ctxt c"
  "chan_ctxt (upd_chan i f c) = chan_ctxt c" "r_list (upd_chan i f c) = r_list c"
  "total_ev_rings (upd_chan i f c) = total_ev_rings c" "n_alloc (upd_chan i f c) = n_alloc c"
  "transition_list (upd_chan i f c) = transition_list c" "mhi_tsync (upd_chan i f c) = mhi_tsync c"
  "bounce_buf (upd_chan i f c) = bounce_buf c" "alloc_size (upd_chan i f c) = alloc_size c"
  "buffer_len (upd_chan i f c) = buffer_len c" "lpm_chans (upd_chan i f c) = lpm_chans c"
  by (simp_all add: upd_chan_def)

lemma upd_event_fields [simp]:
  "mmio (upd_event i f c) = mmio c" "trace (upd_event i f c) = trace c"
  "pm_state (upd_event i f c) = pm_state c" "mhi_chan (upd_event i f c) = mhi_chan c"
  "mhi_event (upd_event i f c) = (mhi_event c)(i := f (mhi_event c i))"
  "cmd_ring (upd_event i f c) = cmd_ring c" "dev_state (upd_event i f c) = dev_state c"
  "ee (upd_event i f c) = ee c" "max_chan (upd_event i f c) = max_chan c"
  "ub (upd_event i f c) = ub c" "dev_wake (upd_event i f c) = dev_wake c"
  "pending_pkts (upd_event i f c) = pending_pkts c" "regs (upd_event i f c) = regs c"
  "bhi (upd_event i f c) = bhi c" "bhie (upd_event i f c) = bhie c"
  "wake_db (upd_event i f c) = wake_db c" "er_ctxt (upd_event i f c) = er_ctxt c"
  "chan_ctxt (upd_event i f c) = chan_ctxt c" "r_list (upd_event i f c) = r_list c"
  "total_ev_rings (upd_event i f c) = total_ev_rings c" "n_alloc (upd_event i f c) = n_alloc c"
  "transition_list (upd_event i f c) = transition_list c"
  "mhi_tsync (upd_event i f c) = mhi_tsync c"
  "bounce_buf (upd_event i f c) = bounce_buf c" "alloc_size (upd_event i f c) = alloc_size c"
  "buffer_len (upd_event i f c) = buffer_len c" "lpm_chans (upd_event i f c) = lpm_chans c"
  by (simp_all add: upd_event_def)

lemmas io_defs = mhi_write_db_def mhi_write_reg_def emit_def

lemma write_db_eq:
  "mhi_write_db db w c =
     c\<lparr>mmio := (mmio c)(db + 4 := upper_32_bits w, db := lower_32_bits w),
       trace := trace c @ [Mmio_write (db + 4) (upper_32_bits w), Mmio_write db (lower_32_bits w)]\<rparr>"
  by (simp add: io_defs)

text \<open>A masked field written and read back.\<close>

lemma masked_field:
  fixes old msk v :: u32
  assumes "push_bit shift v AND NOT msk = 0" and "drop_bit shift (push_bit shift v) = v"
  shows "drop_bit shift (((old AND NOT msk) OR push_bit shift v) AND msk) = v"
    and "((old AND NOT msk) OR push_bit shift v) AND NOT msk = old AND NOT msk"
proof -
  have v: "push_bit shift v AND msk = push_bit shift v"
  proof -
    have "push_bit shift v = (push_bit shift v AND msk) OR (push_bit shift v AND NOT msk)"
      by (simp flip: bit.conj_disj_distrib)
    with assms(1) show ?thesis by simp
  qed
  have o: "(old AND NOT msk) AND msk = 0" by (simp add: and.assoc)
  have "((old AND NOT msk) OR push_bit shift v) AND msk = push_bit shift v"
    unfolding bit.conj_disj_distrib2 o v by simp
  then show "drop_bit shift (((old AND NOT msk) OR push_bit shift v) AND msk) = v"
    using assms(2) by simp
  show "((old AND NOT msk) OR push_bit shift v) AND NOT msk = old AND NOT msk"
    using assms(1) by (simp add: bit.conj_disj_distrib2 and.assoc)
qed

section \<open>Properties\<close>

text \<open>
  A register field written with \<open>mhi_write_reg_field\<close> reads back as the written value, the
  rest of the register keeps its bits and every other register its value, provided the value
  fits the field and neither read looks like a dead link.
\<close>

lemma reg_field_roundtrip:
  assumes "link_status os = 0"
    and "push_bit shift v AND NOT msk = 0" and "drop_bit shift (push_bit shift v) = v"
  shows "mhi_read_reg_field os (mhi_write_reg_field os b off msk shift v c) b off msk shift = Inr v
    \<and> mmio (mhi_write_reg_field os b off msk shift v c) (b + ucast off) AND NOT msk
        = mmio c (b + ucast off) AND NOT msk
    \<and> (\<forall>a. a \<noteq> b + ucast off \<longrightarrow>
         mmio (mhi_write_reg_field os b off msk shift v c) a = mmio c a)"
  using assms(1) masked_field [OF assms(2,3)]
  by (simp add: mhi_read_reg_field_def mhi_write_reg_field_def mhi_read_reg_def mhi_write_reg_def Let_def)

lemma reg_field_roundtrip_instance:
  "mhi_read_reg_field link_up
     (mhi_write_reg_field link_up 0x100 MHICTRL MHICTRL_MHISTATE_MASK 8 5 zero_controller)
     0x100 MHICTRL MHICTRL_MHISTATE_MASK 8 = Inr 5"
  using reg_field_roundtrip [where os = link_up and shift = 8 and v = 5
      and msk = MHICTRL_MHISTATE_MASK and b = "0x100" and off = MHICTRL and c = zero_controller]
  by (simp add: reg_defs link_up_def)

text \<open>
  A doorbell is two register writes, the high word first and the low word second, which
  together carry the 64-bit value; in burst mode the doorbell is rung once and then only after
  the device has asked for doorbell mode again.
\<close>

lemma doorbell_write_order:
  "trace (mhi_write_db db w c) =
     trace c @ [Mmio_write (db + 4) (upper_32_bits w), Mmio_write db (lower_32_bits w)]
   \<and> push_bit 32 (ucast (mmio (mhi_write_db db w c) (db + 4)) :: u64)
       OR (ucast (mmio (mhi_write_db db w c) db) :: u64) = w
   \<and> (let (d', c') = mhi_db_brstmode d db w c in
        \<not> db_mode d' \<and> mhi_db_brstmode d' db w' c' = (d', c'))"
  using split_join_64 [of w]
  by (simp add: write_db_eq mhi_db_brstmode_def Let_def)

end
