(* ===== verification/Mhi_PmTable.thy ===== *)
theory Mhi_PmTable
  imports Mhi_Reg
begin

text \<open>
  The power states of the host (\<open>enum MHI_PM_STATE\<close>, one bit each), the masks that say what
  is allowed in which state, the transition table of \<open>core/mhi_pm.c\<close> and
  \<open>mhi_tryset_pm_state\<close>. The specification is the list of transitions in the comment above
  the table: levels L0 to L3, the edges inside a level, and the rule that the start state of a
  higher level can be entered from every state below but DISABLE.
\<close>

section \<open>States and masks\<close>

definition MHI_PM_DISABLE :: u32 where "MHI_PM_DISABLE = 0x001"
definition MHI_PM_POR :: u32 where "MHI_PM_POR = 0x002"
definition MHI_PM_M0 :: u32 where "MHI_PM_M0 = 0x004"
definition MHI_PM_M2 :: u32 where "MHI_PM_M2 = 0x008"
definition MHI_PM_M3_ENTER :: u32 where "MHI_PM_M3_ENTER = 0x010"
definition MHI_PM_M3 :: u32 where "MHI_PM_M3 = 0x020"
definition MHI_PM_M3_EXIT :: u32 where "MHI_PM_M3_EXIT = 0x040"
definition MHI_PM_FW_DL_ERR :: u32 where "MHI_PM_FW_DL_ERR = 0x080"
definition MHI_PM_SYS_ERR_DETECT :: u32 where "MHI_PM_SYS_ERR_DETECT = 0x100"
definition MHI_PM_SYS_ERR_PROCESS :: u32 where "MHI_PM_SYS_ERR_PROCESS = 0x200"
definition MHI_PM_SHUTDOWN_PROCESS :: u32 where "MHI_PM_SHUTDOWN_PROCESS = 0x400"
definition MHI_PM_LD_ERR_FATAL_DETECT :: u32 where "MHI_PM_LD_ERR_FATAL_DETECT = 0x800"

lemmas pm_state_defs [pm_simps] = MHI_PM_DISABLE_def MHI_PM_POR_def MHI_PM_M0_def MHI_PM_M2_def
  MHI_PM_M3_ENTER_def MHI_PM_M3_def MHI_PM_M3_EXIT_def MHI_PM_FW_DL_ERR_def
  MHI_PM_SYS_ERR_DETECT_def MHI_PM_SYS_ERR_PROCESS_def MHI_PM_SHUTDOWN_PROCESS_def
  MHI_PM_LD_ERR_FATAL_DETECT_def

definition MHI_REG_ACCESS_VALID :: "u32 \<Rightarrow> bool" where
  "MHI_REG_ACCESS_VALID s \<longleftrightarrow>
     s AND (MHI_PM_POR OR MHI_PM_M0 OR MHI_PM_M2 OR MHI_PM_M3_ENTER OR MHI_PM_M3_EXIT OR
            MHI_PM_SYS_ERR_DETECT OR MHI_PM_SYS_ERR_PROCESS OR MHI_PM_SHUTDOWN_PROCESS OR
            MHI_PM_FW_DL_ERR) \<noteq> 0"

definition MHI_PM_IN_ERROR_STATE :: "u32 \<Rightarrow> bool" where
  "MHI_PM_IN_ERROR_STATE s \<longleftrightarrow> MHI_PM_FW_DL_ERR \<le> s"

definition MHI_PM_IN_FATAL_STATE :: "u32 \<Rightarrow> bool" where
  "MHI_PM_IN_FATAL_STATE s \<longleftrightarrow> s = MHI_PM_LD_ERR_FATAL_DETECT"

definition MHI_DB_ACCESS_VALID :: "u32 \<Rightarrow> bool" where
  "MHI_DB_ACCESS_VALID s \<longleftrightarrow> s AND MHI_PM_M0 \<noteq> 0"

definition MHI_EVENT_ACCESS_INVALID :: "u32 \<Rightarrow> bool" where
  "MHI_EVENT_ACCESS_INVALID s \<longleftrightarrow> s = MHI_PM_DISABLE \<or> MHI_PM_IN_ERROR_STATE s"

definition MHI_PM_IN_SUSPEND_STATE :: "u32 \<Rightarrow> bool" where
  "MHI_PM_IN_SUSPEND_STATE s \<longleftrightarrow> s AND (MHI_PM_M3_ENTER OR MHI_PM_M3) \<noteq> 0"

section \<open>The table\<close>

definition mhi_state_transitions :: "(u32 \<times> u32) list" where
  "mhi_state_transitions =
    [(MHI_PM_DISABLE, MHI_PM_POR),
     (MHI_PM_POR, MHI_PM_POR OR MHI_PM_DISABLE OR MHI_PM_M0 OR MHI_PM_SYS_ERR_DETECT OR
        MHI_PM_SHUTDOWN_PROCESS OR MHI_PM_LD_ERR_FATAL_DETECT OR MHI_PM_FW_DL_ERR),
     (MHI_PM_M0, MHI_PM_M2 OR MHI_PM_M3_ENTER OR MHI_PM_SYS_ERR_DETECT OR
        MHI_PM_SHUTDOWN_PROCESS OR MHI_PM_LD_ERR_FATAL_DETECT OR MHI_PM_FW_DL_ERR),
     (MHI_PM_M2, MHI_PM_M0 OR MHI_PM_SYS_ERR_DETECT OR MHI_PM_SHUTDOWN_PROCESS OR
        MHI_PM_LD_ERR_FATAL_DETECT),
     (MHI_PM_M3_ENTER, MHI_PM_M3 OR MHI_PM_SYS_ERR_DETECT OR MHI_PM_SHUTDOWN_PROCESS OR
        MHI_PM_LD_ERR_FATAL_DETECT),
     (MHI_PM_M3, MHI_PM_M3_EXIT OR MHI_PM_SYS_ERR_DETECT OR MHI_PM_SHUTDOWN_PROCESS OR
        MHI_PM_LD_ERR_FATAL_DETECT),
     (MHI_PM_M3_EXIT, MHI_PM_M0 OR MHI_PM_SYS_ERR_DETECT OR MHI_PM_SHUTDOWN_PROCESS OR
        MHI_PM_LD_ERR_FATAL_DETECT),
     (MHI_PM_FW_DL_ERR, MHI_PM_FW_DL_ERR OR MHI_PM_SYS_ERR_DETECT OR
        MHI_PM_SHUTDOWN_PROCESS OR MHI_PM_LD_ERR_FATAL_DETECT),
     (MHI_PM_SYS_ERR_DETECT, MHI_PM_SYS_ERR_PROCESS OR MHI_PM_SHUTDOWN_PROCESS OR
        MHI_PM_LD_ERR_FATAL_DETECT),
     (MHI_PM_SYS_ERR_PROCESS, MHI_PM_POR OR MHI_PM_SHUTDOWN_PROCESS OR
        MHI_PM_LD_ERR_FATAL_DETECT),
     (MHI_PM_SHUTDOWN_PROCESS, MHI_PM_DISABLE OR MHI_PM_LD_ERR_FATAL_DETECT),
     (MHI_PM_LD_ERR_FATAL_DETECT, MHI_PM_LD_ERR_FATAL_DETECT OR MHI_PM_SHUTDOWN_PROCESS)]"

text \<open>The kernel's \<open>find_last_bit\<close> on 32 bits: the highest set bit, or 32.\<close>

definition find_last_bit :: "u32 \<Rightarrow> nat" where
  "find_last_bit x = (case filter (bit x) (rev [0..<32]) of [] \<Rightarrow> 32 | i # _ \<Rightarrow> i)"

definition mhi_tryset_pm_state :: "u32 \<Rightarrow> mhi_controller \<Rightarrow> u32 \<times> mhi_controller" where
  "mhi_tryset_pm_state state c =
     (let cur_state = pm_state c; index = find_last_bit cur_state
      in if length mhi_state_transitions \<le> index then (cur_state, c)
         else let (from_state, to_states) = mhi_state_transitions ! index
              in if from_state \<noteq> cur_state then (cur_state, c)
                 else if to_states AND state = 0 then (cur_state, c)
                 else (state, c\<lparr>pm_state := state\<rparr>))"

section \<open>The documented transitions\<close>

definition pm_states :: "u32 list" where
  "pm_states = [MHI_PM_DISABLE, MHI_PM_POR, MHI_PM_M0, MHI_PM_M2, MHI_PM_M3_ENTER, MHI_PM_M3,
     MHI_PM_M3_EXIT, MHI_PM_FW_DL_ERR, MHI_PM_SYS_ERR_DETECT, MHI_PM_SYS_ERR_PROCESS,
     MHI_PM_SHUTDOWN_PROCESS, MHI_PM_LD_ERR_FATAL_DETECT]"

definition pm_level :: "u32 \<Rightarrow> nat" where
  "pm_level s =
     (if s \<le> MHI_PM_FW_DL_ERR then 0 else if s \<le> MHI_PM_SYS_ERR_PROCESS then 1
      else if s \<le> MHI_PM_SHUTDOWN_PROCESS then 2 else 3)"

definition pm_level_start :: "u32 \<Rightarrow> bool" where
  "pm_level_start s \<longleftrightarrow>
     s \<in> {MHI_PM_SYS_ERR_DETECT, MHI_PM_SHUTDOWN_PROCESS, MHI_PM_LD_ERR_FATAL_DETECT}"

definition pm_doc_edges :: "(u32 \<times> u32) list" where
  "pm_doc_edges =
    [(MHI_PM_DISABLE, MHI_PM_POR), (MHI_PM_POR, MHI_PM_DISABLE), (MHI_PM_POR, MHI_PM_POR),
     (MHI_PM_POR, MHI_PM_M0), (MHI_PM_M0, MHI_PM_M2), (MHI_PM_M2, MHI_PM_M0),
     (MHI_PM_POR, MHI_PM_FW_DL_ERR), (MHI_PM_FW_DL_ERR, MHI_PM_FW_DL_ERR),
     (MHI_PM_M0, MHI_PM_FW_DL_ERR), (MHI_PM_M0, MHI_PM_M3_ENTER), (MHI_PM_M3_ENTER, MHI_PM_M3),
     (MHI_PM_M3, MHI_PM_M3_EXIT), (MHI_PM_M3_EXIT, MHI_PM_M0),
     (MHI_PM_SYS_ERR_DETECT, MHI_PM_SYS_ERR_PROCESS), (MHI_PM_SYS_ERR_PROCESS, MHI_PM_POR),
     (MHI_PM_SHUTDOWN_PROCESS, MHI_PM_DISABLE),
     (MHI_PM_LD_ERR_FATAL_DETECT, MHI_PM_LD_ERR_FATAL_DETECT),
     (MHI_PM_LD_ERR_FATAL_DETECT, MHI_PM_SHUTDOWN_PROCESS)]"

definition pm_allowed :: "u32 \<Rightarrow> u32 \<Rightarrow> bool" where
  "pm_allowed s t \<longleftrightarrow>
     (s, t) \<in> set pm_doc_edges
     \<or> (s \<noteq> MHI_PM_DISABLE \<and> pm_level_start t \<and> pm_level s < pm_level t)"

section \<open>Facts\<close>

lemma find_last_bit_states:
  "map find_last_bit pm_states = [0..<12]"
  by (simp add: pm_states_def pm_simps find_last_bit_def upt_rec bit_simps)

text \<open>
  The target of a request in a given state; everything below is decided on the 144 pairs of
  states.
\<close>

definition tryset_target :: "u32 \<Rightarrow> u32 \<Rightarrow> u32" where
  "tryset_target cur state =
     (let index = find_last_bit cur
      in if length mhi_state_transitions \<le> index then cur
         else let (from_state, to_states) = mhi_state_transitions ! index
              in if from_state \<noteq> cur then cur
                 else if to_states AND state = 0 then cur else state)"

lemma tryset_eq:
  "mhi_tryset_pm_state s c =
     (tryset_target (pm_state c) s, c\<lparr>pm_state := tryset_target (pm_state c) s\<rparr>)"
  by (simp add: mhi_tryset_pm_state_def tryset_target_def Let_def split: prod.splits)

lemma tryset_fst: "fst (mhi_tryset_pm_state s c) = tryset_target (pm_state c) s"
  by (simp add: tryset_eq)

lemma tryset_snd: "snd (mhi_tryset_pm_state s c) = c\<lparr>pm_state := tryset_target (pm_state c) s\<rparr>"
  by (simp add: tryset_eq)

lemma tryset_ret: "pm_state (snd (mhi_tryset_pm_state s c)) = fst (mhi_tryset_pm_state s c)"
  by (simp add: tryset_eq)

lemma tryset_table:
  "list_all (\<lambda>cur. list_all (\<lambda>s.
     tryset_target cur s = (if pm_allowed cur s then s else cur)) pm_states) pm_states"
  by code_simp

lemma tryset_target_doc:
  "cur \<in> set pm_states \<Longrightarrow> s \<in> set pm_states \<Longrightarrow>
   tryset_target cur s = (if pm_allowed cur s then s else cur)"
  using tryset_table by (auto simp: list_all_iff)

lemma tryset_target_states:
  "cur \<in> set pm_states \<Longrightarrow> s \<in> set pm_states \<Longrightarrow> tryset_target cur s \<in> set pm_states"
  by (simp add: tryset_target_doc)

text \<open>Which states each constant can move to, ready for the handlers' proofs.\<close>

lemma tryset_to_M0 [pm_simps]:
  "cur \<in> set pm_states \<Longrightarrow>
   tryset_target cur MHI_PM_M0 = MHI_PM_M0 \<longleftrightarrow>
   cur \<in> {MHI_PM_POR, MHI_PM_M0, MHI_PM_M2, MHI_PM_M3_EXIT}"
  by (simp add: tryset_target_doc pm_states_def)
     (elim disjE; simp add: pm_allowed_def pm_doc_edges_def pm_level_start_def pm_state_defs)

section \<open>Runs of requests\<close>

text \<open>One request, and the states that requests reach.\<close>

inductive pm_step :: "mhi_controller \<Rightarrow> u32 \<Rightarrow> mhi_controller \<Rightarrow> bool" where
  request: "s \<in> set pm_states \<Longrightarrow> pm_step c s (snd (mhi_tryset_pm_state s c))"

inductive pm_run :: "mhi_controller \<Rightarrow> u32 list \<Rightarrow> mhi_controller \<Rightarrow> bool" where
  pm_stop: "pm_run c [] c"
| pm_more: "pm_run c ss c' \<Longrightarrow> pm_step c' s c'' \<Longrightarrow> pm_run c (ss @ [s]) c''"

inductive_simps pm_step_iff: "pm_step c s c'"

lemma pm_run_states:
  "pm_run c ss c' \<Longrightarrow> pm_state c \<in> set pm_states \<Longrightarrow> pm_state c' \<in> set pm_states"
  by (induction rule: pm_run.induct) (auto simp: pm_step_iff tryset_snd tryset_target_states)

lemma absorbing_run:
  assumes "pm_run c ss c'" and "pm_state c \<in> A" and "A \<subseteq> set pm_states"
    and closed: "\<And>cur s. cur \<in> A \<Longrightarrow> s \<in> set pm_states \<Longrightarrow> s \<notin> B \<Longrightarrow> tryset_target cur s \<in> A"
    and "set ss \<inter> B = {}"
  shows "pm_state c' \<in> A"
  using assms(1,2,5)
proof (induction rule: pm_run.induct)
  case (pm_stop c)
  then show ?case by simp
next
  case (pm_more c ss c' s c'')
  then show ?case using closed by (auto simp: pm_step_iff tryset_snd)
qed

lemma table_from_states: "map fst mhi_state_transitions = pm_states"
  by (simp add: mhi_state_transitions_def pm_states_def)

lemma tryset_target_unknown:
  assumes "cur \<notin> set pm_states"
  shows "tryset_target cur s = cur"
proof -
  have "fst (mhi_state_transitions ! i) \<in> set pm_states" if "i < length mhi_state_transitions" for i
    using that unfolding table_from_states [symmetric] by simp
  with assms show ?thesis
    by (auto simp: tryset_target_def Let_def split: prod.splits)
      (metis fst_conv linorder_not_less)
qed

definition pm_error_states :: "u32 list" where
  "pm_error_states = [MHI_PM_FW_DL_ERR, MHI_PM_SYS_ERR_DETECT, MHI_PM_SYS_ERR_PROCESS,
     MHI_PM_SHUTDOWN_PROCESS, MHI_PM_LD_ERR_FATAL_DETECT]"

lemma error_state_iff:
  "s \<in> set pm_states \<Longrightarrow> MHI_PM_IN_ERROR_STATE s \<longleftrightarrow> s \<in> set pm_error_states"
  by (simp add: pm_states_def pm_error_states_def MHI_PM_IN_ERROR_STATE_def)
     (elim disjE; simp add: pm_state_defs word_le_nat_alt)

lemma error_closed:
  "list_all (\<lambda>cur. list_all (\<lambda>s. s \<in> set [MHI_PM_POR, MHI_PM_DISABLE] \<or>
     tryset_target cur s \<in> set pm_error_states) pm_states) pm_error_states"
  by code_simp

lemma fatal_closed:
  "list_all (\<lambda>cur. list_all (\<lambda>s. s = MHI_PM_DISABLE \<or>
     tryset_target cur s \<in> set [MHI_PM_SHUTDOWN_PROCESS, MHI_PM_LD_ERR_FATAL_DETECT]) pm_states)
     [MHI_PM_SHUTDOWN_PROCESS, MHI_PM_LD_ERR_FATAL_DETECT]"
  by code_simp

lemma masks_table:
  "map MHI_REG_ACCESS_VALID pm_states =
     [False, True, True, True, True, False, True, True, True, True, True, False]"
  "map MHI_DB_ACCESS_VALID pm_states =
     [False, False, True, False, False, False, False, False, False, False, False, False]"
  by (simp_all add: pm_states_def MHI_REG_ACCESS_VALID_def MHI_DB_ACCESS_VALID_def pm_state_defs)

section \<open>Properties\<close>

text \<open>
  C1: In every power state, \<open>mhi_tryset_pm_state\<close> moves to the requested state exactly when
  the comment above the transition table allows the move (an edge it lists, or the start
  state of a higher level from any state but DISABLE), returns that state, and changes no
  other field; otherwise it returns the current state and changes nothing.
\<close>

theorem tryset_pm_state_documented:
  assumes "pm_state c \<in> set pm_states" and "s \<in> set pm_states"
  shows "mhi_tryset_pm_state s c =
    (if pm_allowed (pm_state c) s then (s, c\<lparr>pm_state := s\<rparr>) else (pm_state c, c))"
  using assms by (simp add: tryset_eq tryset_target_doc)

theorem tryset_pm_state_documented_witness:
  "mhi_tryset_pm_state MHI_PM_M2 (zero_controller\<lparr>pm_state := MHI_PM_M0\<rparr>) = (MHI_PM_M2, zero_controller\<lparr>pm_state := MHI_PM_M2\<rparr>)
   \<and> mhi_tryset_pm_state MHI_PM_M3 (zero_controller\<lparr>pm_state := MHI_PM_M0\<rparr>) = (MHI_PM_M0, zero_controller\<lparr>pm_state := MHI_PM_M0\<rparr>)"
  using tryset_pm_state_documented [of "zero_controller\<lparr>pm_state := MHI_PM_M0\<rparr>" MHI_PM_M2]
    tryset_pm_state_documented [of "zero_controller\<lparr>pm_state := MHI_PM_M0\<rparr>" MHI_PM_M3]
  by (simp add: pm_states_def pm_allowed_def pm_doc_edges_def pm_level_start_def pm_state_defs)

text \<open>
  The error states are left only through POR or DISABLE: a run of requests that starts in
  an error state and asks for neither stays in error states. From a shutdown or a fatal link
  error not even POR leads out: without a request for DISABLE the host stays in one of these
  two states. And the power state is always one of the twelve named ones.
\<close>

lemma error_states_absorbing:
  assumes "pm_run c ss c'" and "pm_state c \<in> set pm_states"
  shows "pm_state c' \<in> set pm_states
    \<and> (MHI_PM_IN_ERROR_STATE (pm_state c) \<and> MHI_PM_POR \<notin> set ss \<and> MHI_PM_DISABLE \<notin> set ss \<longrightarrow>
         MHI_PM_IN_ERROR_STATE (pm_state c'))
    \<and> (pm_state c \<in> {MHI_PM_SHUTDOWN_PROCESS, MHI_PM_LD_ERR_FATAL_DETECT} \<and>
         MHI_PM_DISABLE \<notin> set ss \<longrightarrow>
         pm_state c' \<in> {MHI_PM_SHUTDOWN_PROCESS, MHI_PM_LD_ERR_FATAL_DETECT})"
proof (intro conjI impI)
  have st: "set pm_error_states \<subseteq> set pm_states"
    "{MHI_PM_SHUTDOWN_PROCESS, MHI_PM_LD_ERR_FATAL_DETECT} \<subseteq> set pm_states"
    by (auto simp: pm_error_states_def pm_states_def)
  show c': "pm_state c' \<in> set pm_states" using assms by (rule pm_run_states)
  {
    assume h: "MHI_PM_IN_ERROR_STATE (pm_state c) \<and> MHI_PM_POR \<notin> set ss \<and> MHI_PM_DISABLE \<notin> set ss"
    have "pm_state c' \<in> set pm_error_states"
      using absorbing_run [OF assms(1) _ st(1), of "{MHI_PM_POR, MHI_PM_DISABLE}"] h error_closed
        error_state_iff [OF assms(2)]
      by (auto simp: list_all_iff)
    then show "MHI_PM_IN_ERROR_STATE (pm_state c')" using error_state_iff [OF c'] by simp
  }
  {
    assume h: "pm_state c \<in> {MHI_PM_SHUTDOWN_PROCESS, MHI_PM_LD_ERR_FATAL_DETECT} \<and>
      MHI_PM_DISABLE \<notin> set ss"
    show "pm_state c' \<in> {MHI_PM_SHUTDOWN_PROCESS, MHI_PM_LD_ERR_FATAL_DETECT}"
      using absorbing_run [OF assms(1) _ st(2), of "{MHI_PM_DISABLE}"] h fatal_closed
      by (auto simp: list_all_iff)
  }
qed

lemma error_states_absorbing_instance:
  "MHI_PM_IN_ERROR_STATE (pm_state (snd (mhi_tryset_pm_state MHI_PM_M0
     (zero_controller\<lparr>pm_state := MHI_PM_SYS_ERR_DETECT\<rparr>))))"
proof -
  let ?c = "zero_controller\<lparr>pm_state := MHI_PM_SYS_ERR_DETECT\<rparr>"
  have s: "pm_state ?c \<in> set pm_states" "MHI_PM_M0 \<in> set pm_states"
    by (simp_all add: pm_states_def)
  have "pm_run ?c ([] @ [MHI_PM_M0]) (snd (mhi_tryset_pm_state MHI_PM_M0 ?c))"
    by (rule pm_run.intros(2) [OF pm_run.intros(1) pm_step.intros [OF s(2)]])
  from error_states_absorbing [OF this s(1)] show ?thesis
    by (simp add: MHI_PM_IN_ERROR_STATE_def pm_state_defs)
qed

end
