(* ===== verification/Mhi_Queue.thy ===== *)
theory Mhi_Queue
  imports Mhi_PmTable
begin

text \<open>
  Queueing transfers: the buffer mapping functions, the three queue functions and the
  descriptor generator of \<open>core/mhi_main.c\<close>. A channel owns two rings that move together,
  \<open>tre_ring\<close> with the descriptors the device reads and \<open>buf_ring\<close> with what the host has to
  remember about them; \<open>lockstep\<close> says that they agree, and the theorems show that a queue
  operation appends one element to both or leaves both alone.
\<close>

section \<open>Mapping buffers\<close>

definition DMA_MAPPING_ERROR :: u64 where
  "DMA_MAPPING_ERROR = NOT 0"

definition mhi_alloc_coherent ::
  "mhi_os \<Rightarrow> u64 \<Rightarrow> mhi_controller \<Rightarrow> (u64 \<times> u64) option \<times> mhi_controller" where
  "mhi_alloc_coherent os sz c =
     (let c' = c\<lparr>n_alloc := Suc (n_alloc c)\<rparr>
      in case dma_alloc os (n_alloc c) sz of
           None \<Rightarrow> (None, c')
         | Some a \<Rightarrow> (Some a, c'\<lparr>alloc_size := alloc_size c + int (unat sz)\<rparr>))"

definition mhi_free_coherent :: "u64 \<Rightarrow> u64 \<Rightarrow> u64 \<Rightarrow> mhi_controller \<Rightarrow> mhi_controller" where
  "mhi_free_coherent sz vaddr dma c =
     emit (Free_coherent vaddr dma) (c\<lparr>alloc_size := alloc_size c - int (unat sz)\<rparr>)"

definition mhi_map_single_no_bb ::
  "mhi_os \<Rightarrow> mhi_buf_info \<Rightarrow> mhi_controller \<Rightarrow> unit res \<times> mhi_buf_info \<times> mhi_controller" where
  "mhi_map_single_no_bb os b c =
     (case dma_map os (v_addr b) (bi_len b) of
        None \<Rightarrow> (Inl ENOMEM, b\<lparr>p_addr := DMA_MAPPING_ERROR\<rparr>, c)
      | Some a \<Rightarrow> (Inr (), b\<lparr>p_addr := a\<rparr>, c))"

definition mhi_map_single_use_bb ::
  "mhi_os \<Rightarrow> mhi_buf_info \<Rightarrow> mhi_controller \<Rightarrow> unit res \<times> mhi_buf_info \<times> mhi_controller" where
  "mhi_map_single_use_bb os b c =
     (case mhi_alloc_coherent os (bi_len b) c of
        (None, c) \<Rightarrow> (Inl ENOMEM, b, c)
      | (Some (buf, dma), c) \<Rightarrow>
          (let b = b\<lparr>p_addr := dma\<rparr>;
               c = (if bi_dir b = DMA_TO_DEVICE
                    then emit (Bounce_copy buf (v_addr b) (bi_len b)) c else c)
           in (Inr (), b\<lparr>bb_addr := buf\<rparr>, c)))"

definition mhi_unmap_single_no_bb :: "mhi_buf_info \<Rightarrow> mhi_controller \<Rightarrow> mhi_controller" where
  "mhi_unmap_single_no_bb b c = emit (Dma_unmap (p_addr b) (bi_len b)) c"

definition mhi_unmap_single_use_bb :: "mhi_buf_info \<Rightarrow> mhi_controller \<Rightarrow> mhi_controller" where
  "mhi_unmap_single_use_bb b c =
     mhi_free_coherent (bi_len b) (bb_addr b) (p_addr b)
       (if bi_dir b = DMA_FROM_DEVICE
        then emit (Bounce_copy (v_addr b) (bb_addr b) (bi_len b)) c else c)"

text \<open>The calls through \<open>map_single\<close> and \<open>unmap_single\<close>, which registration sets.\<close>

definition call_map_single ::
  "mhi_os \<Rightarrow> mhi_buf_info \<Rightarrow> mhi_controller \<Rightarrow> unit res \<times> mhi_buf_info \<times> mhi_controller" where
  "call_map_single os b c =
     (if bounce_buf c then mhi_map_single_use_bb os b c else mhi_map_single_no_bb os b c)"

definition call_unmap_single :: "mhi_buf_info \<Rightarrow> mhi_controller \<Rightarrow> mhi_controller" where
  "call_unmap_single b c =
     (if bounce_buf c then mhi_unmap_single_use_bb b c else mhi_unmap_single_no_bb b c)"

section \<open>The monitor\<close>

definition mon_bus_submit ::
  "u32 \<Rightarrow> u64 \<Rightarrow> mhi_tre \<Rightarrow> u64 \<Rightarrow> u64 \<Rightarrow> mhi_controller \<Rightarrow> mhi_controller" where
  "mon_bus_submit ch w t buf ln c =
     fold (\<lambda>r. emit (Mon_submit r ch w t buf ln)) (r_list c) (c\<lparr>cnt_events := cnt_events c + 1\<rparr>)"

definition mon_bus_receive ::
  "u32 \<Rightarrow> u64 \<Rightarrow> mhi_tre \<Rightarrow> u64 \<Rightarrow> u64 \<Rightarrow> mhi_controller \<Rightarrow> mhi_controller" where
  "mon_bus_receive ch w t buf ln c =
     fold (\<lambda>r. emit (Mon_receive r ch w t buf ln)) (r_list c) (c\<lparr>cnt_events := cnt_events c + 1\<rparr>)"

definition mon_bus_complete :: "u32 \<Rightarrow> u64 \<Rightarrow> mhi_tre \<Rightarrow> mhi_controller \<Rightarrow> mhi_controller" where
  "mon_bus_complete ch w t c =
     fold (\<lambda>r. emit (Mon_complete r ch w t)) (r_list c) (c\<lparr>cnt_events := cnt_events c + 1\<rparr>)"

section \<open>Steps the queue functions share\<close>

text \<open>In M3 or on the way there: have the controller resumed.\<close>

definition kick_suspended :: "mhi_controller \<Rightarrow> mhi_controller" where
  "kick_suspended c =
     (if MHI_PM_IN_SUSPEND_STATE (pm_state c) then emit Runtime_put (emit Runtime_get c) else c)"

text \<open>Uplink always asserts wake, downlink only in a low power mode.\<close>

definition wants_wake :: "dma_data_direction \<Rightarrow> u32 \<Rightarrow> bool" where
  "wants_wake d pm \<longleftrightarrow> d = DMA_TO_DEVICE \<or> (d = DMA_FROM_DEVICE \<and> pm \<noteq> MHI_PM_M0)"

definition wake_get_if :: "bool \<Rightarrow> mhi_controller \<Rightarrow> mhi_controller" where
  "wake_get_if b c = (if b then mhi_assert_dev_wake False c else c)"

definition count_pending :: "dma_data_direction \<Rightarrow> mhi_controller \<Rightarrow> mhi_controller" where
  "count_pending d c =
     (if d = DMA_TO_DEVICE
      then (let c = c\<lparr>pending_pkts := pending_pkts c + 1\<rparr>
            in if pending_pkts c = 1 then emit Runtime_get c else c)
      else c)"

definition ring_db_if_valid :: "nat \<Rightarrow> mhi_controller \<Rightarrow> mhi_controller" where
  "ring_db_if_valid i c = (if MHI_DB_ACCESS_VALID (pm_state c) then mhi_ring_chan_db i c else c)"

text \<open>Filling the two slots at the write pointers, and moving both pointers.\<close>

definition store_buf :: "nat \<Rightarrow> mhi_buf_info \<Rightarrow> mhi_controller \<Rightarrow> mhi_controller" where
  "store_buf i b = upd_chan i (\<lambda>ch. ch\<lparr>buf_ring := ring_write (buf_ring ch) b\<rparr>)"

definition store_tre :: "nat \<Rightarrow> mhi_tre \<Rightarrow> mhi_controller \<Rightarrow> mhi_controller" where
  "store_tre i t = upd_chan i (\<lambda>ch. ch\<lparr>tre_ring := ring_write (tre_ring ch) t\<rparr>)"

definition advance_wp :: "nat \<Rightarrow> mhi_controller \<Rightarrow> mhi_controller" where
  "advance_wp i = upd_chan i (\<lambda>ch. ch\<lparr>tre_ring := mhi_add_ring_element (tre_ring ch),
     buf_ring := mhi_add_ring_element (buf_ring ch)\<rparr>)"

definition mon_submit_chan ::
  "nat \<Rightarrow> mhi_tre \<Rightarrow> mhi_buf_info \<Rightarrow> mhi_controller \<Rightarrow> mhi_controller" where
  "mon_submit_chan i t b c =
     (if r_list c \<noteq> []
      then (let ch = mhi_chan c i
            in mon_bus_submit (chan ch) (mhi_to_physical (tre_ring ch) (wp (tre_ring ch))) t
                 (v_addr b) (if chan ch AND 1 \<noteq> 0 then 0 else bi_len b) c)
      else c)"

section \<open>The queue functions\<close>

definition mhi_queue_skb ::
  "mhi_os \<Rightarrow> nat \<Rightarrow> u64 \<Rightarrow> u64 \<Rightarrow> u64 \<Rightarrow> mhi_controller \<Rightarrow> unit res \<times> mhi_controller" where
  "mhi_queue_skb os i skb skb_data ln c =
     (if mhi_is_ring_full (tre_ring (mhi_chan c i)) then (Inl ENOMEM, c)
      else if MHI_PM_IN_ERROR_STATE (pm_state c) then (Inl EIO, c)
      else
        let c = kick_suspended c;
            d = dir (mhi_chan c i);
            assert_wake = wants_wake d (pm_state c);
            c = wake_get_if assert_wake c;
            br = buf_ring (mhi_chan c i);
            b = (slots br (wp br))\<lparr>v_addr := skb_data, cb_buf := skb,
                  bi_wp := wp (tre_ring (mhi_chan c i)), bi_dir := d, bi_len := ln\<rparr>;
            (ret, b, c) = call_map_single os b c;
            c = store_buf i b c
        in case ret of
             Inl e \<Rightarrow> (Inl e, if assert_wake then mhi_deassert_dev_wake False c else c)
           | Inr _ \<Rightarrow>
               let t = \<lparr>tre_ptr = p_addr b, dword0 = MHI_TRE_DATA_DWORD0 (bi_len b),
                        dword1 = MHI_TRE_DATA_DWORD1 1 1 0 0\<rparr>;
                   c = store_tre i t c;
                   c = mon_submit_chan i t b c;
                   c = count_pending d c;
                   c = advance_wp i c;
                   c = ring_db_if_valid i c;
                   c = (if d = DMA_FROM_DEVICE \<and> assert_wake then mhi_deassert_dev_wake True c else c)
               in (Inr (), c))"

definition mhi_queue_dma ::
  "mhi_os \<Rightarrow> nat \<Rightarrow> u64 \<Rightarrow> u64 \<Rightarrow> u64 \<Rightarrow> mhi_controller \<Rightarrow> unit res \<times> mhi_controller" where
  "mhi_queue_dma os i mhi_buf dma_addr ln c =
     (if mhi_is_ring_full (tre_ring (mhi_chan c i)) then (Inl ENOMEM, c)
      else if MHI_PM_IN_ERROR_STATE (pm_state c) then (Inl EIO, c)
      else
        let c = kick_suspended c;
            d = dir (mhi_chan c i);
            assert_wake = wants_wake d (pm_state c);
            c = wake_get_if assert_wake c;
            br = buf_ring (mhi_chan c i);
            b = (slots br (wp br))\<lparr>p_addr := dma_addr, pre_mapped := True, cb_buf := mhi_buf,
                  bi_wp := wp (tre_ring (mhi_chan c i)), bi_dir := d, bi_len := ln\<rparr>;
            (b, t) =
              (if xfer_type (mhi_chan c i) = MHI_XFER_RSC_DMA
               then (b\<lparr>bi_used := True\<rparr>,
                     \<lparr>tre_ptr = MHI_RSCTRE_DATA_PTR (p_addr b) (bi_len b),
                      dword0 = MHI_RSCTRE_DATA_DWORD0 (wp br - base br),
                      dword1 = MHI_RSCTRE_DATA_DWORD1\<rparr>)
               else (b, \<lparr>tre_ptr = p_addr b, dword0 = MHI_TRE_DATA_DWORD0 (bi_len b),
                         dword1 = MHI_TRE_DATA_DWORD1 1 1 0 0\<rparr>));
            c = store_tre i t (store_buf i b c);
            c = mon_submit_chan i t b c;
            c = count_pending d c;
            c = advance_wp i c;
            c = ring_db_if_valid i c;
            c = (if d = DMA_FROM_DEVICE \<and> assert_wake then mhi_deassert_dev_wake True c else c)
        in (Inr (), c))"

definition c_bool :: "bool \<Rightarrow> u32" where
  "c_bool b = (if b then 1 else 0)"

definition mhi_gen_tre ::
  "mhi_os \<Rightarrow> nat \<Rightarrow> u64 \<Rightarrow> u64 \<Rightarrow> u64 \<Rightarrow> u32 \<Rightarrow> mhi_controller \<Rightarrow> unit res \<times> mhi_controller" where
  "mhi_gen_tre os i buf cb buf_len flags c =
     (let ch = mhi_chan c i;
          br = buf_ring ch;
          b = (slots br (wp br))\<lparr>v_addr := buf, cb_buf := cb, bi_wp := wp (tre_ring ch),
                bi_dir := dir ch, bi_len := buf_len\<rparr>;
          (ret, b, c) = call_map_single os b c;
          c = store_buf i b c
      in case ret of
           Inl e \<Rightarrow> (Inl e, c)
         | Inr _ \<Rightarrow>
             let eob = c_bool (flags AND mhi_flags_val MHI_EOB \<noteq> 0);
                 eot = c_bool (flags AND mhi_flags_val MHI_EOT \<noteq> 0);
                 chain = c_bool (flags AND mhi_flags_val MHI_CHAIN \<noteq> 0);
                 bei = c_bool (ch_intmod ch \<noteq> 0);
                 t = \<lparr>tre_ptr = p_addr b, dword0 = MHI_TRE_DATA_DWORD0 buf_len,
                      dword1 = MHI_TRE_DATA_DWORD1 bei eot eob chain\<rparr>;
                 c = store_tre i t c;
                 c = mon_submit_chan i t b c;
                 c = advance_wp i c
             in (Inr (), c))"

definition mhi_queue_buf ::
  "mhi_os \<Rightarrow> nat \<Rightarrow> u64 \<Rightarrow> u64 \<Rightarrow> u32 \<Rightarrow> mhi_controller \<Rightarrow> unit res \<times> mhi_controller" where
  "mhi_queue_buf os i buf ln mflags c =
     (if MHI_PM_IN_ERROR_STATE (pm_state c) then (Inl EIO, c)
      else if mhi_is_ring_full (tre_ring (mhi_chan c i)) then (Inl ENOMEM, c)
      else case mhi_gen_tre os i buf buf ln mflags c of
          (Inl e, c) \<Rightarrow> (Inl e, c)
        | (Inr _, c) \<Rightarrow>
            let c = kick_suspended c;
                d = dir (mhi_chan c i);
                assert_wake = wants_wake d (pm_state c);
                c = wake_get_if assert_wake c;
                c = count_pending d c;
                c = ring_db_if_valid i c;
                c = (if d = DMA_FROM_DEVICE \<and> assert_wake then mhi_deassert_dev_wake True c else c)
            in (Inr (), c))"

text \<open>The queue functions of channels that take no host buffers, and the dispatch.\<close>

definition mhi_queue_sclist :: "mhi_controller \<Rightarrow> unit res \<times> mhi_controller" where
  "mhi_queue_sclist c = (Inl EINVAL, c)"

definition mhi_queue_nop :: "mhi_controller \<Rightarrow> unit res \<times> mhi_controller" where
  "mhi_queue_nop c = (Inl EINVAL, c)"

text \<open>
  \<open>mhi_queue_transfer\<close> calls the function registered for the device's channel of that
  direction. \<open>buf\<close> is the client's pointer and \<open>dat\<close> what the callee reads behind it:
  \<open>skb->data\<close> or \<open>mhi_buf->dma_addr\<close>. A device without a channel of the direction has no
  function to call: \<open>None\<close>.
\<close>

definition call_queue_xfer ::
  "mhi_os \<Rightarrow> nat \<Rightarrow> u64 \<Rightarrow> u64 \<Rightarrow> u64 \<Rightarrow> u32 \<Rightarrow> mhi_controller \<Rightarrow> unit res \<times> mhi_controller" where
  "call_queue_xfer os i buf dat ln mflags c =
     (case queue_xfer (mhi_chan c i) of
        mhi_queue_buf_fn \<Rightarrow> mhi_queue_buf os i buf ln mflags c
      | mhi_queue_skb_fn \<Rightarrow> mhi_queue_skb os i buf dat ln c
      | mhi_queue_sclist_fn \<Rightarrow> mhi_queue_sclist c
      | mhi_queue_nop_fn \<Rightarrow> mhi_queue_nop c
      | mhi_queue_dma_fn \<Rightarrow> mhi_queue_dma os i buf dat ln c)"

definition dev_channel :: "mhi_device \<Rightarrow> dma_data_direction \<Rightarrow> nat option" where
  "dev_channel d r = (if r = DMA_TO_DEVICE then ul_chan d else dl_chan d)"

definition mhi_queue_transfer ::
  "mhi_os \<Rightarrow> mhi_device \<Rightarrow> dma_data_direction \<Rightarrow> u64 \<Rightarrow> u64 \<Rightarrow> u64 \<Rightarrow> u32 \<Rightarrow> mhi_controller \<Rightarrow>
   (unit res \<times> mhi_controller) option" where
  "mhi_queue_transfer os d r buf dat ln mflags c =
     map_option (\<lambda>i. call_queue_xfer os i buf dat ln mflags c) (dev_channel d r)"

definition mhi_get_no_free_descriptors ::
  "mhi_device \<Rightarrow> dma_data_direction \<Rightarrow> mhi_controller \<Rightarrow> int option" where
  "mhi_get_no_free_descriptors d r c =
     map_option (\<lambda>i. if offload_ch (mhi_chan c i) then 0
                     else get_nr_avail_ring_elements (tre_ring (mhi_chan c i)))
       (dev_channel d r)"

section \<open>Frame facts\<close>

text \<open>
  None of the steps around the two rings touches a channel, the power state or the wake
  count; each lemma lists what the later proofs read.
\<close>

lemma coherent_frame [simp]:
  "mhi_chan (snd (mhi_alloc_coherent os sz c)) = mhi_chan c"
  "pm_state (snd (mhi_alloc_coherent os sz c)) = pm_state c"
  "dev_state (snd (mhi_alloc_coherent os sz c)) = dev_state c"
  "pending_pkts (snd (mhi_alloc_coherent os sz c)) = pending_pkts c"
  "mhi_chan (mhi_free_coherent sz v d c) = mhi_chan c"
  "pm_state (mhi_free_coherent sz v d c) = pm_state c"
  "dev_state (mhi_free_coherent sz v d c) = dev_state c"
  "pending_pkts (mhi_free_coherent sz v d c) = pending_pkts c"
  by (simp_all add: mhi_alloc_coherent_def mhi_free_coherent_def Let_def split: option.splits)

lemma call_map_frame [simp]:
  "mhi_chan (snd (snd (call_map_single os b c))) = mhi_chan c"
  "pm_state (snd (snd (call_map_single os b c))) = pm_state c"
  "dev_state (snd (snd (call_map_single os b c))) = dev_state c"
  "pending_pkts (snd (snd (call_map_single os b c))) = pending_pkts c"
  by (simp_all add: call_map_single_def mhi_map_single_use_bb_def mhi_map_single_no_bb_def
      mhi_alloc_coherent_def Let_def split: option.splits prod.splits)

lemma call_map_error: "fst (call_map_single os b c) = Inl e \<Longrightarrow> e = ENOMEM"
  by (auto simp: call_map_single_def mhi_map_single_use_bb_def mhi_map_single_no_bb_def Let_def
      split: option.splits prod.splits if_splits)

lemma call_map_buf:
  "fst (snd (call_map_single os b c)) =
     b\<lparr>p_addr := p_addr (fst (snd (call_map_single os b c))),
       bb_addr := bb_addr (fst (snd (call_map_single os b c)))\<rparr>"
  by (auto simp: call_map_single_def mhi_map_single_use_bb_def mhi_map_single_no_bb_def Let_def
      split: option.splits prod.splits)

lemma call_map_no_bb:
  "\<not> bounce_buf c \<Longrightarrow> fst (call_map_single os b c) = Inr () \<Longrightarrow>
   dma_map os (v_addr b) (bi_len b) = Some (p_addr (fst (snd (call_map_single os b c))))"
  by (auto simp: call_map_single_def mhi_map_single_no_bb_def split: option.splits)

lemma call_unmap_frame [simp]:
  "mhi_chan (call_unmap_single b c) = mhi_chan c" "pm_state (call_unmap_single b c) = pm_state c"
  "dev_state (call_unmap_single b c) = dev_state c"
  "pending_pkts (call_unmap_single b c) = pending_pkts c"
  by (simp_all add: call_unmap_single_def mhi_unmap_single_use_bb_def mhi_unmap_single_no_bb_def)

lemma fold_emit_frame [simp]:
  "mhi_chan (fold (\<lambda>r. emit (f r)) rs c) = mhi_chan c"
  "pm_state (fold (\<lambda>r. emit (f r)) rs c) = pm_state c"
  "dev_state (fold (\<lambda>r. emit (f r)) rs c) = dev_state c"
  "pending_pkts (fold (\<lambda>r. emit (f r)) rs c) = pending_pkts c"
  "mhi_event (fold (\<lambda>r. emit (f r)) rs c) = mhi_event c"
  "cmd_ring (fold (\<lambda>r. emit (f r)) rs c) = cmd_ring c"
  by (induction rs arbitrary: c) simp_all

lemma mon_frame [simp]:
  "mhi_chan (mon_submit_chan i t b c) = mhi_chan c" "pm_state (mon_submit_chan i t b c) = pm_state c"
  "dev_state (mon_submit_chan i t b c) = dev_state c"
  "pending_pkts (mon_submit_chan i t b c) = pending_pkts c"
  by (simp_all add: mon_submit_chan_def mon_bus_submit_def Let_def)

lemma kick_frame [simp]:
  "mhi_chan (kick_suspended c) = mhi_chan c" "pm_state (kick_suspended c) = pm_state c"
  "dev_state (kick_suspended c) = dev_state c" "bounce_buf (kick_suspended c) = bounce_buf c"
  "pending_pkts (kick_suspended c) = pending_pkts c"
  by (simp_all add: kick_suspended_def)

lemma wake_frame [simp]:
  "mhi_chan (wake_get_if w c) = mhi_chan c" "pm_state (wake_get_if w c) = pm_state c"
  "dev_state (wake_get_if w c) = dev_state c" "bounce_buf (wake_get_if w c) = bounce_buf c"
  "pending_pkts (wake_get_if w c) = pending_pkts c"
  by (simp_all add: wake_get_if_def mhi_assert_dev_wake_def write_db_eq)

lemma pending_frame [simp]:
  "mhi_chan (count_pending d c) = mhi_chan c" "pm_state (count_pending d c) = pm_state c"
  "dev_state (count_pending d c) = dev_state c"
  "pending_pkts (count_pending d c) = pending_pkts c + (if d = DMA_TO_DEVICE then 1 else 0)"
  by (simp_all add: count_pending_def Let_def)

lemma store_frame [simp]:
  "pm_state (store_buf i b c) = pm_state c" "pm_state (store_tre i t c) = pm_state c"
  "pm_state (advance_wp i c) = pm_state c"
  "pending_pkts (store_buf i b c) = pending_pkts c" "pending_pkts (store_tre i t c) = pending_pkts c"
  "pending_pkts (advance_wp i c) = pending_pkts c"
  by (simp_all add: store_buf_def store_tre_def advance_wp_def)

lemma ring_db_frame [simp]:
  "pm_state (ring_db_if_valid i c) = pm_state c"
  "pending_pkts (ring_db_if_valid i c) = pending_pkts c"
  "j \<noteq> i \<Longrightarrow> mhi_chan (ring_db_if_valid i c) j = mhi_chan c j"
  by (simp_all add: ring_db_if_valid_def mhi_ring_chan_db_def call_process_db_def
      mhi_db_brstmode_def mhi_db_brstmode_disable_def write_db_eq Let_def
      split: prod.splits process_db_fn.splits)

text \<open>The rings of the channel whose doorbell is rung: only the shared write pointer moves.\<close>

lemma ring_db_chan:
  "\<exists>d. mhi_chan (ring_db_if_valid i c) i =
     (mhi_chan c i)\<lparr>ch_db_cfg := d,
        tre_ring := (tre_ring (mhi_chan c i))\<lparr>ctxt_wp :=
          (if MHI_DB_ACCESS_VALID (pm_state c)
           then mhi_to_physical (tre_ring (mhi_chan c i)) (wp (tre_ring (mhi_chan c i)))
           else ctxt_wp (tre_ring (mhi_chan c i)))\<rparr>\<rparr>"
  by (rule exI [of _ "ch_db_cfg (mhi_chan (ring_db_if_valid i c) i)"])
     (auto simp: ring_db_if_valid_def mhi_ring_chan_db_def call_process_db_def
      mhi_db_brstmode_def mhi_db_brstmode_disable_def write_db_eq Let_def mhi_to_physical_def
      algebra_simps split: prod.splits process_db_fn.splits)

lemma deassert_id [simp]: "mhi_deassert_dev_wake b c = c"
  by (simp add: mhi_deassert_dev_wake_def)

section \<open>Two rings in lockstep\<close>

definition lockstep :: "mhi_chan \<Rightarrow> bool" where
  "lockstep ch \<longleftrightarrow>
     ring_wf (tre_ring ch) \<and> ring_wf (buf_ring ch)
     \<and> elements (tre_ring ch) = elements (buf_ring ch)
     \<and> slot_idx (tre_ring ch) (wp (tre_ring ch)) = slot_idx (buf_ring ch) (wp (buf_ring ch))
     \<and> slot_idx (tre_ring ch) (rp (tre_ring ch)) = slot_idx (buf_ring ch) (rp (buf_ring ch))"

text \<open>What a channel has besides its rings and the state of its doorbell.\<close>

definition chan_rest :: "mhi_chan \<Rightarrow> mhi_chan" where
  "chan_rest ch = ch\<lparr>tre_ring := zero_ring zero_tre, buf_ring := zero_ring zero_buf_info, ch_db_cfg := zero_db_cfg\<rparr>"

lemma chan_rest_upd [simp]:
  "chan_rest (ch\<lparr>tre_ring := r\<rparr>) = chan_rest ch" "chan_rest (ch\<lparr>buf_ring := q\<rparr>) = chan_rest ch"
  "chan_rest (ch\<lparr>ch_db_cfg := d\<rparr>) = chan_rest ch"
  by (simp_all add: chan_rest_def)

lemma chan_rest_fields:
  assumes "chan_rest ch' = chan_rest ch"
  shows "dir ch' = dir ch" "queue_xfer ch' = queue_xfer ch" "offload_ch ch' = offload_ch ch" "ch_state ch' = ch_state ch"
  using arg_cong [OF assms, of dir] arg_cong [OF assms, of queue_xfer] arg_cong [OF assms, of offload_ch]
    arg_cong [OF assms, of ch_state] by (simp_all add: chan_rest_def)

text \<open>
  The abstract step of a channel: one descriptor \<open>t\<close> and its buffer \<open>b\<close> are appended to
  what the device has been given.
\<close>

definition appended :: "mhi_chan \<Rightarrow> mhi_tre \<Rightarrow> mhi_buf_info \<Rightarrow> mhi_chan \<Rightarrow> bool" where
  "appended ch t b ch' \<longleftrightarrow>
     lockstep ch'
     \<and> ring_content (tre_ring ch') = ring_content (tre_ring ch) @ [t]
     \<and> ring_content (buf_ring ch') = ring_content (buf_ring ch) @ [b]
     \<and> elements (tre_ring ch') = elements (tre_ring ch)
     \<and> chan_rest ch' = chan_rest ch"

text \<open>Same rings as far as anyone can tell who reads only queued elements.\<close>

definition same_queue :: "mhi_chan \<Rightarrow> mhi_chan \<Rightarrow> bool" where
  "same_queue ch ch' \<longleftrightarrow>
     tre_ring ch' = tre_ring ch \<and> lockstep ch' = lockstep ch
     \<and> ring_content (buf_ring ch') = ring_content (buf_ring ch) \<and> chan_rest ch' = chan_rest ch"

lemma ring_content_ctxt [simp]: "ring_content (r\<lparr>ctxt_wp := x\<rparr>) = ring_content r"
  by (simp add: ring_content_def)

lemma lockstep_count: "lockstep ch \<Longrightarrow> ring_count (tre_ring ch) = ring_count (buf_ring ch)"
  by (simp add: lockstep_def ring_count_def Let_def)

lemma lockstep_full:
  "lockstep ch \<Longrightarrow> mhi_is_ring_full (buf_ring ch) = mhi_is_ring_full (tre_ring ch)"
  using lockstep_count [of ch] by (simp add: lockstep_def ring_full_iff)

text \<open>Writing at the write pointer of a ring with room changes no queued element.\<close>

lemma ring_content_write:
  assumes "ring_wf r"
  shows "ring_content (ring_write r x) = ring_content r"
proof -
  let ?n = "unat (elements r)"
  have "slot_addr r ((slot_idx r (rp r) + k) mod ?n) \<noteq> wp r" if k: "k < ring_count r" for k
  proof
    assume e: "slot_addr r ((slot_idx r (rp r) + k) mod ?n) = wp r"
    have "(slot_idx r (rp r) + k) mod ?n = slot_idx r (wp r)"
      using e slot_idx_addr [of r "(slot_idx r (rp r) + k) mod ?n"] ring_wfD [OF assms] by simp
    then show False
      using content_idx_neq [OF k ring_count_less [OF assms], of "slot_idx r (rp r)"]
        wp_after_content [OF assms] ring_wfD(4) [OF assms] by simp
  qed
  then show ?thesis by (simp add: ring_content_def ring_write_def)
qed

lemma store_buf_same:
  assumes "lockstep (mhi_chan c i)"
  shows "same_queue (mhi_chan c i) (mhi_chan (store_buf i b c) i)"
proof -
  have wf: "ring_wf (buf_ring (mhi_chan c i))" using assms by (simp add: lockstep_def)
  show ?thesis
    using assms wf ring_content_write [OF wf]
    by (simp add: same_queue_def lockstep_def store_buf_def) (simp add: ring_write_def)
qed

lemma put_both:
  assumes l: "lockstep ch" and nf: "\<not> mhi_is_ring_full (tre_ring ch)"
  shows "appended ch t b
    (ch\<lparr>tre_ring := ring_put t (tre_ring ch), buf_ring := ring_put b (buf_ring ch)\<rparr>)"
proof -
  have w: "ring_wf (tre_ring ch)" "ring_wf (buf_ring ch)" using l by (simp_all add: lockstep_def)
  have nb: "\<not> mhi_is_ring_full (buf_ring ch)" using lockstep_full [OF l] nf by simp
  have "lockstep (ch\<lparr>tre_ring := ring_put t (tre_ring ch), buf_ring := ring_put b (buf_ring ch)\<rparr>)"
    using l ring_wf_put [OF w(1)] ring_wf_put [OF w(2)] ring_wfD [OF w(1)] ring_wfD [OF w(2)]
    by (simp add: lockstep_def ring_put_fields ring_step_slot)
  then show ?thesis
    using ring_content_put [OF w(1) nf] ring_content_put [OF w(2) nb] by (simp add: appended_def ring_put_fields)
qed

text \<open>The bookkeeping the device does not see (doorbell state, shared write pointer).\<close>

lemma appended_db:
  "appended ch t b ch' \<Longrightarrow>
   appended ch t b (ch'\<lparr>ch_db_cfg := d, tre_ring := (tre_ring ch')\<lparr>ctxt_wp := x\<rparr>\<rparr>)"
  by (auto simp: appended_def lockstep_def)

lemma advance_chan:
  assumes "mhi_chan c' = mhi_chan (store_tre i t (store_buf i b c))"
  shows "mhi_chan (advance_wp i c') =
    (mhi_chan c)(i := (mhi_chan c i)\<lparr>tre_ring := ring_put t (tre_ring (mhi_chan c i)),
       buf_ring := ring_put b (buf_ring (mhi_chan c i))\<rparr>)"
  using assms by (simp add: advance_wp_def store_tre_def store_buf_def ring_put_def)

lemma appended_ring_db:
  assumes "appended ch t b (mhi_chan c i)"
  shows "appended ch t b (mhi_chan (ring_db_if_valid i c) i)"
  using ring_db_chan [of i c] appended_db [OF assms] by force

section \<open>What a queue operation does\<close>

text \<open>
  The specification shared by the three queue functions: on success the channel has one more
  descriptor and one more buffer, the device is told when the link is in M0, and an uplink
  packet is counted; on failure the queue is as it was. \<open>good\<close> says which descriptor and
  which buffer.
\<close>

definition queue_spec ::
  "nat \<Rightarrow> (mhi_tre \<Rightarrow> mhi_buf_info \<Rightarrow> bool) \<Rightarrow> mhi_controller \<Rightarrow> unit res \<times> mhi_controller \<Rightarrow> bool"
where
  "queue_spec i good c r \<longleftrightarrow>
     (case r of
        (Inr _, c') \<Rightarrow>
          \<not> mhi_is_ring_full (tre_ring (mhi_chan c i)) \<and> \<not> MHI_PM_IN_ERROR_STATE (pm_state c)
          \<and> (\<exists>t b. good t b \<and> appended (mhi_chan c i) t b (mhi_chan c' i))
          \<and> pending_pkts c' = pending_pkts c + (if dir (mhi_chan c i) = DMA_TO_DEVICE then 1 else 0)
          \<and> (MHI_DB_ACCESS_VALID (pm_state c) \<longrightarrow>
               ctxt_wp (tre_ring (mhi_chan c' i)) =
               mhi_to_physical (tre_ring (mhi_chan c' i)) (wp (tre_ring (mhi_chan c' i))))
      | (Inl e, c') \<Rightarrow>
          (e = ENOMEM \<or> e = EIO \<and> MHI_PM_IN_ERROR_STATE (pm_state c))
          \<and> same_queue (mhi_chan c i) (mhi_chan c' i) \<and> pending_pkts c' = pending_pkts c)
     \<and> (\<forall>j. j \<noteq> i \<longrightarrow> mhi_chan (snd r) j = mhi_chan c j) \<and> pm_state (snd r) = pm_state c"

lemma same_queue_refl [simp]: "same_queue ch ch"
  by (simp add: same_queue_def)

lemma db_told:
  assumes "MHI_DB_ACCESS_VALID (pm_state c)"
  shows "ctxt_wp (tre_ring (mhi_chan (ring_db_if_valid i c) i)) =
    mhi_to_physical (tre_ring (mhi_chan (ring_db_if_valid i c) i))
      (wp (tre_ring (mhi_chan (ring_db_if_valid i c) i)))"
proof -
  obtain d where "mhi_chan (ring_db_if_valid i c) i =
     (mhi_chan c i)\<lparr>ch_db_cfg := d, tre_ring := (tre_ring (mhi_chan c i))\<lparr>ctxt_wp :=
        mhi_to_physical (tre_ring (mhi_chan c i)) (wp (tre_ring (mhi_chan c i)))\<rparr>\<rparr>"
    using ring_db_chan [of i c] assms by auto
  then show ?thesis by (simp add: mhi_to_physical_def)
qed

lemma queue_specI:
  assumes l: "lockstep (mhi_chan c i)"
    and nf: "\<not> mhi_is_ring_full (tre_ring (mhi_chan c i))"
    and ne: "\<not> MHI_PM_IN_ERROR_STATE (pm_state c)"
    and good: "good t b"
    and ch: "mhi_chan c1 = (mhi_chan c)(i := (mhi_chan c i)\<lparr>tre_ring := ring_put t (tre_ring (mhi_chan c i)),
               buf_ring := ring_put b (buf_ring (mhi_chan c i))\<rparr>)"
    and pm: "pm_state c1 = pm_state c"
    and pend: "pending_pkts c1 = pending_pkts c + (if dir (mhi_chan c i) = DMA_TO_DEVICE then 1 else 0)"
  shows "queue_spec i good c (Inr (), ring_db_if_valid i c1)"
proof -
  have "appended (mhi_chan c i) t b (mhi_chan c1 i)"
    using put_both [OF l nf, of t b] unfolding ch by simp
  from appended_ring_db [OF this] good have
    "\<exists>t b. good t b \<and> appended (mhi_chan c i) t b (mhi_chan (ring_db_if_valid i c1) i)" by blast
  then show ?thesis
    using nf ne pm pend ch db_told [of c1 i] by (simp add: queue_spec_def)
qed

lemma queue_spec_fail:
  assumes "e = ENOMEM \<or> e = EIO \<and> MHI_PM_IN_ERROR_STATE (pm_state c)"
    and "mhi_chan c1 = mhi_chan c \<or> (\<exists>b. lockstep (mhi_chan c i) \<and> mhi_chan c1 = mhi_chan (store_buf i b c))"
    and "pm_state c1 = pm_state c" and "pending_pkts c1 = pending_pkts c"
  shows "queue_spec i good c (Inl e, c1)"
  using assms store_buf_same [of c i]
  by (auto simp: queue_spec_def) (auto simp: store_buf_def)

lemma store_buf_chan_cong:
  "mhi_chan c' = mhi_chan c \<Longrightarrow> mhi_chan (store_buf i b c') = mhi_chan (store_buf i b c)"
  by (simp add: store_buf_def)

lemma store_tre_chan_cong:
  "mhi_chan c' = mhi_chan c \<Longrightarrow> mhi_chan (store_tre i b c') = mhi_chan (store_tre i b c)"
  by (simp add: store_tre_def)

text \<open>The descriptor of a buffer transfer, as the device will read it.\<close>

definition data_tre :: "mhi_tre \<Rightarrow> u64 \<Rightarrow> u64 \<Rightarrow> u32 \<Rightarrow> bool" where
  "data_tre t p ln flags \<longleftrightarrow>
     tre_ptr t = p \<and> dword0 t = ucast ln AND 0xFFFF \<and> dword1 t = 0x20000 OR flags"

lemma data_tre_simp:
  "data_tre \<lparr>tre_ptr = p, dword0 = MHI_TRE_DATA_DWORD0 ln, dword1 = MHI_TRE_DATA_DWORD1 1 1 0 0\<rparr>
     p ln 0x600"
  by (simp add: data_tre_def MHI_TRE_DATA_DWORD0_def MHI_TRE_DATA_DWORD1_def MHI_MAX_MTU_def)

text \<open>The host's record of it.\<close>

definition host_buf ::
  "mhi_os \<Rightarrow> mhi_controller \<Rightarrow> nat \<Rightarrow> u64 \<Rightarrow> u64 \<Rightarrow> u64 \<Rightarrow> mhi_buf_info \<Rightarrow> bool" where
  "host_buf os c i v cb ln b \<longleftrightarrow>
     v_addr b = v \<and> cb_buf b = cb \<and> bi_len b = ln \<and> bi_dir b = dir (mhi_chan c i)
     \<and> bi_wp b = wp (tre_ring (mhi_chan c i))
     \<and> (\<not> bounce_buf c \<longrightarrow> dma_map os v ln = Some (p_addr b))"

lemma host_bufI:
  assumes "fst (call_map_single os b0 c0) = Inr ()" "bounce_buf c0 = bounce_buf c"
    "v_addr b0 = v" "cb_buf b0 = cb" "bi_len b0 = ln" "bi_dir b0 = dir (mhi_chan c i)"
    "bi_wp b0 = wp (tre_ring (mhi_chan c i))"
  shows "host_buf os c i v cb ln (fst (snd (call_map_single os b0 c0)))"
  using call_map_no_bb [of c0 os b0] assms
  unfolding host_buf_def by (subst (1 2 3 4 5) call_map_buf) simp

section \<open>Properties\<close>

lemma queue_skb_appends:
  assumes l: "lockstep (mhi_chan c i)"
  shows "queue_spec i (\<lambda>t b. data_tre t (p_addr b) ln 0x600 \<and> host_buf os c i dat skb ln b) c
    (mhi_queue_skb os i skb dat ln c)"
proof (cases "mhi_is_ring_full (tre_ring (mhi_chan c i)) \<or> MHI_PM_IN_ERROR_STATE (pm_state c)")
  case True
  then show ?thesis by (auto simp: mhi_queue_skb_def intro: queue_spec_fail)
next
  case False
  let ?d = "dir (mhi_chan c i)"
  let ?c0 = "wake_get_if (wants_wake ?d (pm_state c)) (kick_suspended c)"
  let ?b0 = "(slots (buf_ring (mhi_chan c i)) (wp (buf_ring (mhi_chan c i))))\<lparr>v_addr := dat,
     cb_buf := skb, bi_wp := wp (tre_ring (mhi_chan c i)), bi_dir := ?d, bi_len := ln\<rparr>"
  obtain ret b c1 where m: "call_map_single os ?b0 ?c0 = (ret, b, c1)" by (metis prod_cases3)
  have c1: "mhi_chan c1 = mhi_chan c" "pm_state c1 = pm_state c" "pending_pkts c1 = pending_pkts c"
    using call_map_frame [of os ?b0 ?c0] unfolding m by simp_all
  show ?thesis
  proof (cases ret)
    case (Inl e)
    with m have "e = ENOMEM" using call_map_error [of os ?b0 ?c0] by simp
    then show ?thesis
      using False m Inl c1 l store_buf_chan_cong [OF c1(1)]
      by (auto simp: mhi_queue_skb_def Let_def intro!: queue_spec_fail)
  next
    case (Inr u)
    have hb: "host_buf os c i dat skb ln b"
      using host_bufI [of os ?b0 ?c0 c dat skb ln i] m Inr by simp
    let ?t = "\<lparr>tre_ptr = p_addr b, dword0 = MHI_TRE_DATA_DWORD0 (bi_len b),
      dword1 = MHI_TRE_DATA_DWORD1 1 1 0 0\<rparr>"
    have "mhi_queue_skb os i skb dat ln c = (Inr (), ring_db_if_valid i (advance_wp i
        (count_pending ?d (mon_submit_chan i ?t b (store_tre i ?t (store_buf i b c1))))))"
      using False m Inr by (simp add: mhi_queue_skb_def Let_def)
    moreover have "data_tre ?t (p_addr b) ln 0x600"
      using hb by (simp add: data_tre_simp host_buf_def)
    ultimately show ?thesis
      using False c1 hb
      by (auto intro!: queue_specI [OF l, of _ ?t b] advance_chan store_tre_chan_cong
          store_buf_chan_cong)
  qed
qed

text \<open>
  C3: \<open>mhi_queue_skb\<close> either appends exactly one descriptor and one buffer record to the two
  rings of the channel, in lockstep, with the mapped address, the length cut to 16 bits and the
  flags BEI and IEOT, counts the packet, and publishes the write pointer when the link is in
  M0, or it fails with \<open>ENOMEM\<close> or \<open>EIO\<close> and leaves the queue as it was; it never
  succeeds on a full ring or in an error state, and never touches another channel.
\<close>

theorem queue_skb_spec:
  assumes l: "lockstep (mhi_chan c i)"
  shows "queue_spec i (\<lambda>t b. data_tre t (p_addr b) ln 0x600 \<and> host_buf os c i dat skb ln b) c
    (mhi_queue_skb os i skb dat ln c)"
  by (rule queue_skb_appends [OF l])

definition demo_chan :: mhi_chan where
  "demo_chan = zero_chan
     \<lparr>tre_ring := (zero_ring zero_tre)\<lparr>base := 0x1000, rp := 0x1000, wp := 0x1000,
        iommu_base := 0x9000, el_size := 16, ring_len := 64, elements := 4, db_addr := 0x300\<rparr>,
      buf_ring := (zero_ring zero_buf_info)\<lparr>base := 0x2000, rp := 0x2000, wp := 0x2000,
        el_size := 64, ring_len := 256, elements := 4\<rparr>,
      dir := DMA_TO_DEVICE, ch_db_cfg := zero_db_cfg\<lparr>db_mode := True\<rparr>\<rparr>"

definition demo_controller :: mhi_controller where
  "demo_controller = zero_controller\<lparr>mhi_chan := (\<lambda>_. demo_chan), pm_state := MHI_PM_M0,
     max_chan := 128, dev_state := MHI_STATE_M0\<rparr>"

lemma demo_lockstep: "lockstep (mhi_chan demo_controller 0)"
  by (simp add: demo_controller_def demo_chan_def lockstep_def ring_wf_def ring_geom_def on_ring_def
      slot_idx_def zero_defs)

theorem queue_skb_spec_witness:
  "queue_spec 0 (\<lambda>t b. data_tre t (p_addr b) 1500 0x600 \<and> host_buf link_up demo_controller 0 0x7000 0x77 1500 b)
     demo_controller (mhi_queue_skb link_up 0 0x77 0x7000 1500 demo_controller)
   \<and> is_ok (fst (mhi_queue_skb link_up 0 0x77 0x7000 1500 demo_controller))"
  using queue_skb_spec [OF demo_lockstep, of 1500 link_up "0x7000" "0x77"]
  by (simp add: mhi_queue_skb_def demo_controller_def demo_chan_def zero_defs mhi_is_ring_full_def
      MHI_PM_IN_ERROR_STATE_def pm_state_defs kick_suspended_def MHI_PM_IN_SUSPEND_STATE_def
      wants_wake_def wake_get_if_def mhi_assert_dev_wake_def call_map_single_def
      mhi_map_single_no_bb_def link_up_def Let_def)

text \<open>
  \<open>mhi_queue_dma\<close> does the same with a buffer the client mapped: the descriptor carries
  the client's bus address and the record is marked \<open>pre_mapped\<close>; on a channel with
  coalesced completions the address carries the length in its top 16 bits and the descriptor
  the offset of the record in the buffer ring as its cookie, and the record is marked used. It
  fails only on a full ring or in an error state.
\<close>

definition dma_good :: "mhi_chan \<Rightarrow> u64 \<Rightarrow> u64 \<Rightarrow> u64 \<Rightarrow> mhi_tre \<Rightarrow> mhi_buf_info \<Rightarrow> bool" where
  "dma_good ch p cb ln t b \<longleftrightarrow>
     p_addr b = p \<and> pre_mapped b \<and> cb_buf b = cb \<and> bi_len b = ln \<and> bi_dir b = dir ch
     \<and> (if xfer_type ch = MHI_XFER_RSC_DMA
        then bi_used b \<and> tre_ptr t = (push_bit 48 ln OR p)
             \<and> dword0 t = ucast (wp (buf_ring ch) - base (buf_ring ch)) \<and> dword1 t = 0x80000
        else data_tre t p ln 0x600)"

lemma queue_dma_appends:
  assumes l: "lockstep (mhi_chan c i)"
  shows "queue_spec i (dma_good (mhi_chan c i) p cb ln) c (mhi_queue_dma os i cb p ln c)
    \<and> (fst (mhi_queue_dma os i cb p ln c) \<noteq> Inr () \<longrightarrow>
         snd (mhi_queue_dma os i cb p ln c) = c
         \<and> (mhi_is_ring_full (tre_ring (mhi_chan c i)) \<or> MHI_PM_IN_ERROR_STATE (pm_state c)))"
proof (cases "mhi_is_ring_full (tre_ring (mhi_chan c i)) \<or> MHI_PM_IN_ERROR_STATE (pm_state c)")
  case True
  then show ?thesis by (auto simp: mhi_queue_dma_def intro: queue_spec_fail)
next
  case False
  let ?ch = "mhi_chan c i"
  let ?c0 = "wake_get_if (wants_wake (dir ?ch) (pm_state c)) (kick_suspended c)"
  let ?b0 = "(slots (buf_ring ?ch) (wp (buf_ring ?ch)))\<lparr>p_addr := p, pre_mapped := True, cb_buf := cb,
     bi_wp := wp (tre_ring ?ch), bi_dir := dir ?ch, bi_len := ln\<rparr>"
  define b where "b = (if xfer_type ?ch = MHI_XFER_RSC_DMA then ?b0\<lparr>bi_used := True\<rparr> else ?b0)"
  define t where "t = (if xfer_type ?ch = MHI_XFER_RSC_DMA
    then \<lparr>tre_ptr = MHI_RSCTRE_DATA_PTR p ln,
          dword0 = MHI_RSCTRE_DATA_DWORD0 (wp (buf_ring ?ch) - base (buf_ring ?ch)),
          dword1 = MHI_RSCTRE_DATA_DWORD1\<rparr>
    else \<lparr>tre_ptr = p, dword0 = MHI_TRE_DATA_DWORD0 ln, dword1 = MHI_TRE_DATA_DWORD1 1 1 0 0\<rparr>)"
  have eq: "mhi_queue_dma os i cb p ln c = (Inr (), ring_db_if_valid i (advance_wp i
      (count_pending (dir ?ch) (mon_submit_chan i t b (store_tre i t (store_buf i b ?c0))))))"
    using False by (simp add: mhi_queue_dma_def Let_def t_def b_def)
  have "dma_good ?ch p cb ln t b"
    by (simp add: dma_good_def t_def b_def data_tre_simp MHI_RSCTRE_DATA_PTR_def
        MHI_RSCTRE_DATA_DWORD0_def MHI_RSCTRE_DATA_DWORD1_def)
  with False show ?thesis unfolding eq
    by (auto intro!: queue_specI [OF l, of _ t b] advance_chan store_tre_chan_cong
        store_buf_chan_cong)
qed

lemma gen_dword1:
  "MHI_TRE_DATA_DWORD1 (c_bool a) (c_bool e) 0 (c_bool h) =
     0x20000 OR ((if a then 0x400 else 0) OR (if e then 0x200 else 0) OR (if h then 1 else 0))"
  "\<not> bit (MHI_TRE_DATA_DWORD1 (c_bool a) (c_bool e) 0 (c_bool h)) 8"
  by (cases a; cases e; cases h; simp add: MHI_TRE_DATA_DWORD1_def c_bool_def)+

lemma queue_buf_appends:
  assumes l: "lockstep (mhi_chan c i)"
  shows "queue_spec i
    (\<lambda>t b. data_tre t (p_addr b) ln
        ((if ch_intmod (mhi_chan c i) \<noteq> 0 then 0x400 else 0)
         OR (if flags AND mhi_flags_val MHI_EOT \<noteq> 0 then 0x200 else 0)
         OR (if flags AND mhi_flags_val MHI_CHAIN \<noteq> 0 then 1 else 0))
      \<and> \<not> bit (dword1 t) 8 \<and> host_buf os c i buf buf ln b) c
    (mhi_queue_buf os i buf ln flags c)"
proof (cases "mhi_is_ring_full (tre_ring (mhi_chan c i)) \<or> MHI_PM_IN_ERROR_STATE (pm_state c)")
  case True
  then show ?thesis by (auto simp: mhi_queue_buf_def intro: queue_spec_fail)
next
  case False
  let ?ch = "mhi_chan c i"
  let ?b0 = "(slots (buf_ring ?ch) (wp (buf_ring ?ch)))\<lparr>v_addr := buf,
     cb_buf := buf, bi_wp := wp (tre_ring ?ch), bi_dir := dir ?ch, bi_len := ln\<rparr>"
  obtain ret b c1 where m: "call_map_single os ?b0 c = (ret, b, c1)" by (metis prod_cases3)
  have c1: "mhi_chan c1 = mhi_chan c" "pm_state c1 = pm_state c" "pending_pkts c1 = pending_pkts c"
    using call_map_frame [of os ?b0 c] unfolding m by simp_all
  show ?thesis
  proof (cases ret)
    case (Inl e)
    with m have "e = ENOMEM" using call_map_error [of os ?b0 c] by simp
    then show ?thesis
      using False m Inl c1 l store_buf_chan_cong [OF c1(1)]
      by (auto simp: mhi_queue_buf_def mhi_gen_tre_def Let_def intro!: queue_spec_fail)
  next
    case (Inr u)
    have hb: "host_buf os c i buf buf ln b"
      using host_bufI [of os ?b0 c c buf buf ln i] m Inr by simp
    let ?t = "\<lparr>tre_ptr = p_addr b, dword0 = MHI_TRE_DATA_DWORD0 ln,
      dword1 = MHI_TRE_DATA_DWORD1 (c_bool (ch_intmod ?ch \<noteq> 0)) (c_bool (flags AND 1 \<noteq> 0)) 0
        (c_bool (flags AND 2 \<noteq> 0))\<rparr>"
    have gen: "mhi_gen_tre os i buf buf ln flags c =
        (Inr (), advance_wp i (mon_submit_chan i ?t b (store_tre i ?t (store_buf i b c1))))"
      using m Inr c1 by (simp add: mhi_gen_tre_def Let_def c_bool_def [of False])
    let ?c2 = "advance_wp i (mon_submit_chan i ?t b (store_tre i ?t (store_buf i b c1)))"
    have c2: "mhi_chan ?c2 = (mhi_chan c)(i := ?ch\<lparr>tre_ring := ring_put ?t (tre_ring ?ch),
        buf_ring := ring_put b (buf_ring ?ch)\<rparr>)"
      by (intro advance_chan) (simp add: store_tre_def store_buf_def c1)
    have eq: "mhi_queue_buf os i buf ln flags c = (Inr (), ring_db_if_valid i
        (count_pending (dir ?ch) (wake_get_if (wants_wake (dir ?ch) (pm_state c)) (kick_suspended ?c2))))"
      using False gen c1 c2 by (simp add: mhi_queue_buf_def Let_def)
    show ?thesis unfolding eq
    proof (rule queue_specI [OF l, of _ ?t b])
      show "data_tre ?t (p_addr b) ln
        ((if ch_intmod ?ch \<noteq> 0 then 0x400 else 0) OR (if flags AND mhi_flags_val MHI_EOT \<noteq> 0 then 0x200 else 0)
         OR (if flags AND mhi_flags_val MHI_CHAIN \<noteq> 0 then 1 else 0))
        \<and> \<not> bit (dword1 ?t) 8 \<and> host_buf os c i buf buf ln b"
        using hb gen_dword1(2) [of "ch_intmod ?ch \<noteq> 0" "flags AND 1 \<noteq> 0" "flags AND 2 \<noteq> 0"]
        unfolding data_tre_def mhi_flags_val.simps mhi_tre.simps
        by (simp only: gen_dword1(1) MHI_TRE_DATA_DWORD0_def MHI_MAX_MTU_def simp_thms)
    qed (use False c1 c2 in \<open>auto\<close>)
  qed
qed

text \<open>
  \<open>mhi_queue_buf\<close> appends one descriptor and one record in the same way, with the flag
  BEI exactly on a channel with interrupt moderation, and IEOT and CHAIN as the client's
  \<open>MHI_EOT\<close> and \<open>MHI_CHAIN\<close>. The flag IEOB is never set, whatever the client passes.
\<close>

lemma queue_buf_spec:
  assumes l: "lockstep (mhi_chan c i)"
  shows "queue_spec i
    (\<lambda>t b. data_tre t (p_addr b) ln
        ((if ch_intmod (mhi_chan c i) \<noteq> 0 then 0x400 else 0)
         OR (if flags AND mhi_flags_val MHI_EOT \<noteq> 0 then 0x200 else 0)
         OR (if flags AND mhi_flags_val MHI_CHAIN \<noteq> 0 then 1 else 0))
      \<and> \<not> bit (dword1 t) 8 \<and> host_buf os c i buf buf ln b) c
    (mhi_queue_buf os i buf ln flags c)"
  by (rule queue_buf_appends [OF l])

lemma queue_buf_spec_instance:
  "\<exists>t b. appended demo_chan t b (mhi_chan (snd (mhi_queue_buf link_up 0 0x7000 64 1 demo_controller)) 0)
     \<and> tre_ptr t = 0x7000 \<and> dword0 t = 64 \<and> dword1 t = 0x20200"
proof -
  have ok: "fst (mhi_queue_buf link_up 0 0x7000 64 1 demo_controller) = Inr ()"
    by (simp add: mhi_queue_buf_def mhi_gen_tre_def demo_controller_def demo_chan_def zero_defs
        mhi_is_ring_full_def MHI_PM_IN_ERROR_STATE_def pm_state_defs call_map_single_def
        mhi_map_single_no_bb_def link_up_def Let_def)
  have f: "ch_intmod demo_chan = 0" "mhi_chan demo_controller 0 = demo_chan"
    "\<not> bounce_buf demo_controller"
    by (simp_all add: demo_controller_def demo_chan_def zero_defs)
  from queue_buf_spec [OF demo_lockstep, of 64 1 link_up "0x7000"] ok show ?thesis
    by (auto simp: queue_spec_def data_tre_def host_buf_def f link_up_def split: prod.splits)
qed
end
