(* ===== verification/Mhi_PmCore.thy ===== *)
theory Mhi_PmCore
  imports Mhi_Queue
begin

text \<open>
  The power state handlers of \<open>core/mhi_pm.c\<close> that a running link needs: the reactions to the
  device's M0, M1 and M3 events, the vote for M0, suspend and resume, and the interrupt
  handler of \<open>core/mhi_main.c\<close> that looks for a system error. A handler runs to its end as one
  step; where it waits for the device, \<open>env\<close> is what the rest of the system does meanwhile.
\<close>

section \<open>Work items and notifications\<close>

definition call_kmalloc :: "mhi_os \<Rightarrow> u64 \<Rightarrow> mhi_controller \<Rightarrow> u64 option \<times> mhi_controller" where
  "call_kmalloc os sz c = (kmalloc os (n_alloc c) sz, c\<lparr>n_alloc := Suc (n_alloc c)\<rparr>)"

definition sizeof_state_transition :: u64 where
  "sizeof_state_transition = 24"

definition mhi_queue_state_transition ::
  "mhi_os \<Rightarrow> MHI_ST_TRANSITION \<Rightarrow> mhi_controller \<Rightarrow> unit res \<times> mhi_controller" where
  "mhi_queue_state_transition os state c =
     (case call_kmalloc os sizeof_state_transition c of
        (None, c) \<Rightarrow> (Inl ENOMEM, c)
      | (Some item, c) \<Rightarrow>
          (Inr (), emit (Schedule_work St_worker)
             (c\<lparr>transition_list := transition_list c @ [state]\<rparr>)))"

definition mhi_notify :: "mhi_os \<Rightarrow> nat \<Rightarrow> MHI_CB \<Rightarrow> mhi_controller \<Rightarrow> mhi_controller" where
  "mhi_notify os d reason c = (if drv_status_cb os d then emit (Dev_status_cb d reason) c else c)"

definition notify_lpm_chans :: "mhi_os \<Rightarrow> MHI_CB \<Rightarrow> mhi_controller \<Rightarrow> mhi_controller" where
  "notify_lpm_chans os reason c =
     fold (\<lambda>i c. case ch_mhi_dev (mhi_chan c i) of
                   None \<Rightarrow> c | Some d \<Rightarrow> mhi_notify os d reason c) (lpm_chans c) c"

section \<open>State change events\<close>

definition ring_event_dbs :: "mhi_controller \<Rightarrow> mhi_controller" where
  "ring_event_dbs c =
     fold (\<lambda>i c. if offload_ev (mhi_event c i) then c else mhi_ring_er_db i c)
       [0..<total_ev_rings c] c"

definition ring_pending_cmd :: "mhi_controller \<Rightarrow> mhi_controller" where
  "ring_pending_cmd c = (if rp (cmd_ring c) \<noteq> wp (cmd_ring c) then mhi_ring_cmd_db c else c)"

definition ring_pending_chan :: "nat \<Rightarrow> mhi_controller \<Rightarrow> mhi_controller" where
  "ring_pending_chan i c =
     (let c = (if reset_req (ch_db_cfg (mhi_chan c i))
               then upd_chan i (\<lambda>ch. ch\<lparr>ch_db_cfg := (ch_db_cfg ch)\<lparr>db_mode := True\<rparr>\<rparr>) c else c);
          r = tre_ring (mhi_chan c i)
      in if base r \<noteq> 0 \<and> wp r \<noteq> rp r then mhi_ring_chan_db i c else c)"

definition mhi_pm_m0_transition :: "mhi_controller \<Rightarrow> unit res \<times> mhi_controller" where
  "mhi_pm_m0_transition c =
     (let (cur_state, c) = mhi_tryset_pm_state MHI_PM_M0 (c\<lparr>dev_state := MHI_STATE_M0\<rparr>)
      in if cur_state \<noteq> MHI_PM_M0 then (Inl EIO, c)
         else
           let c = mhi_assert_dev_wake False (c\<lparr>cnt_M0 := cnt_M0 c + 1\<rparr>);
               c = (if MHI_IN_MISSION_MODE (ee c) then ring_pending_cmd (ring_event_dbs c) else c);
               c = fold ring_pending_chan [0..<max_chan c] c;
               c = mhi_deassert_dev_wake False c
           in (Inr (), emit Wake_up_all c))"

definition mhi_pm_m1_transition :: "mhi_os \<Rightarrow> mhi_controller \<Rightarrow> mhi_controller" where
  "mhi_pm_m1_transition os c =
     (let (state, c) = mhi_tryset_pm_state MHI_PM_M2 c
      in if state = MHI_PM_M2
         then
           let c = mhi_set_mhi_state os MHI_STATE_M2 c;
               c = emit Wake_up_all (c\<lparr>dev_state := MHI_STATE_M2, cnt_M2 := cnt_M2 c + 1\<rparr>)
           in if dev_wake c \<noteq> 0 then mhi_deassert_dev_wake False (mhi_assert_dev_wake True c)
              else emit (Status_cb MHI_CB_IDLE) c
         else c)"

definition mhi_pm_m3_transition :: "mhi_controller \<Rightarrow> unit res \<times> mhi_controller" where
  "mhi_pm_m3_transition c =
     (let (state, c) = mhi_tryset_pm_state MHI_PM_M3 (c\<lparr>dev_state := MHI_STATE_M3\<rparr>)
      in if state \<noteq> MHI_PM_M3 then (Inl EIO, c)
         else (Inr (), (emit Wake_up_all c)\<lparr>cnt_M3 := cnt_M3 c + 1\<rparr>))"

section \<open>The interrupt handler of the link\<close>

definition mhi_intvec_threaded_handlr :: "mhi_os \<Rightarrow> mhi_controller \<Rightarrow> mhi_controller" where
  "mhi_intvec_threaded_handlr os c =
     (let (state, ee') = (if MHI_REG_ACCESS_VALID (pm_state c)
                          then (mhi_get_mhi_state os c, mhi_get_exec_env os c)
                          else (MHI_STATE_MAX, MHI_EE_MAX));
          (pm, c) = (if state = MHI_STATE_SYS_ERR \<and> pm_state c \<noteq> MHI_PM_SYS_ERR_DETECT
                     then mhi_tryset_pm_state MHI_PM_SYS_ERR_DETECT c else (0, c));
          c = (if pm = MHI_PM_SYS_ERR_DETECT
               then let c = emit Wake_up_all c
                    in if ee c \<noteq> ee' then emit (Schedule_work Syserr_worker) c
                       else if MHI_IN_PBL ee' then emit (Status_cb MHI_CB_FATAL_ERROR) c
                       else emit (Schedule_work Syserr_worker) c
               else c)
      in if pm = MHI_PM_POR then emit Wake_up_all c else c)"

definition mhi_intvec_handlr :: "mhi_controller \<Rightarrow> mhi_controller" where
  "mhi_intvec_handlr c = emit Wake_up_all c"

section \<open>Votes for M0\<close>

definition device_get_sync ::
  "(mhi_controller \<Rightarrow> mhi_controller) \<Rightarrow> mhi_controller \<Rightarrow> unit res \<times> mhi_controller" where
  "device_get_sync env c =
     (let c = mhi_assert_dev_wake True c;
          c = (if MHI_PM_IN_SUSPEND_STATE (pm_state c) then emit Runtime_put (emit Runtime_get c) else c);
          (ret, c) = wait_event_timeout env
            (\<lambda>c. pm_state c = MHI_PM_M0 \<or> MHI_PM_IN_ERROR_STATE (pm_state c)) c
      in if \<not> ret \<or> MHI_PM_IN_ERROR_STATE (pm_state c)
         then (Inl EIO, mhi_deassert_dev_wake False c) else (Inr (), c))"

definition mhi_device_get :: "mhi_device \<Rightarrow> mhi_controller \<Rightarrow> mhi_device \<times> mhi_controller" where
  "mhi_device_get d c =
     (d\<lparr>device_wake := device_wake d + 1\<rparr>, mhi_assert_dev_wake True c)"

definition mhi_device_get_sync ::
  "(mhi_controller \<Rightarrow> mhi_controller) \<Rightarrow> mhi_device \<Rightarrow> mhi_controller \<Rightarrow>
   unit res \<times> mhi_device \<times> mhi_controller" where
  "mhi_device_get_sync env d c =
     (case device_get_sync env c of
        (Inl e, c) \<Rightarrow> (Inl e, d, c)
      | (Inr _, c) \<Rightarrow> (Inr (), d\<lparr>device_wake := device_wake d + 1\<rparr>, c))"

definition mhi_device_put :: "mhi_device \<Rightarrow> mhi_controller \<Rightarrow> mhi_device \<times> mhi_controller" where
  "mhi_device_put d c =
     (d\<lparr>device_wake := device_wake d - 1\<rparr>, mhi_deassert_dev_wake False c)"

definition mhi_is_active :: "mhi_controller \<Rightarrow> bool" where
  "mhi_is_active c \<longleftrightarrow>
     dev_state_val MHI_STATE_M0 \<le> dev_state_val (dev_state c)
     \<and> dev_state_val (dev_state c) \<le> dev_state_val MHI_STATE_M3"

section \<open>Suspend and resume\<close>

definition mhi_pm_suspend ::
  "mhi_os \<Rightarrow> (mhi_controller \<Rightarrow> mhi_controller) \<Rightarrow> (mhi_controller \<Rightarrow> mhi_controller) \<Rightarrow>
   mhi_controller \<Rightarrow> unit res \<times> mhi_controller" where
  "mhi_pm_suspend os env1 env2 c =
     (if pm_state c = MHI_PM_DISABLE then (Inl EINVAL, c)
      else if MHI_PM_IN_ERROR_STATE (pm_state c) then (Inl EIO, c)
      else if dev_wake c \<noteq> 0 then (Inl EBUSY, c)
      else
        let c = mhi_assert_dev_wake False c;
            (ret, c) = wait_event_timeout env1
              (\<lambda>c. dev_state c = MHI_STATE_M0 \<or> dev_state c = MHI_STATE_M1
                   \<or> MHI_PM_IN_ERROR_STATE (pm_state c)) c
        in if \<not> ret \<or> MHI_PM_IN_ERROR_STATE (pm_state c)
           then (Inl EIO, mhi_deassert_dev_wake False c)
           else if 1 < dev_wake c then (Inl EBUSY, mhi_deassert_dev_wake False c)
           else
             let (new_state, c) = mhi_tryset_pm_state MHI_PM_M3_ENTER c
             in if new_state \<noteq> MHI_PM_M3_ENTER then (Inl EIO, mhi_deassert_dev_wake False c)
                else
                  let c = mhi_set_mhi_state os MHI_STATE_M3 c;
                      c = mhi_deassert_dev_wake False c;
                      (ret, c) = wait_event_timeout env2
                        (\<lambda>c. dev_state c = MHI_STATE_M3 \<or> MHI_PM_IN_ERROR_STATE (pm_state c)) c
                  in if \<not> ret \<or> MHI_PM_IN_ERROR_STATE (pm_state c) then (Inl EIO, c)
                     else (Inr (), notify_lpm_chans os MHI_CB_LPM_ENTER c))"

definition mhi_pm_resume ::
  "mhi_os \<Rightarrow> (mhi_controller \<Rightarrow> mhi_controller) \<Rightarrow> mhi_controller \<Rightarrow> unit res \<times> mhi_controller" where
  "mhi_pm_resume os env c =
     (if pm_state c = MHI_PM_DISABLE then (Inr (), c)
      else if MHI_PM_IN_ERROR_STATE (pm_state c) then (Inl EIO, c)
      else
        let c = notify_lpm_chans os MHI_CB_LPM_EXIT c;
            (cur_state, c) = mhi_tryset_pm_state MHI_PM_M3_EXIT c
        in if cur_state \<noteq> MHI_PM_M3_EXIT then (Inl EIO, c)
           else
             let c = mhi_assert_dev_wake True c;
                 c = mhi_set_mhi_state os MHI_STATE_M0 c;
                 (ret, c) = wait_event_timeout env
                   (\<lambda>c. dev_state c = MHI_STATE_M0 \<or> MHI_PM_IN_ERROR_STATE (pm_state c)) c;
                 c = mhi_deassert_dev_wake False c
             in if \<not> ret \<or> MHI_PM_IN_ERROR_STATE (pm_state c)
                then (Inl EIO, mhi_intvec_threaded_handlr os c)
                else (Inr (), c))"


section \<open>Frame facts\<close>

lemma process_db_frame [simp]:
  "mhi_chan (snd (call_process_db d db w c)) = mhi_chan c"
  "mhi_event (snd (call_process_db d db w c)) = mhi_event c"
  "cmd_ring (snd (call_process_db d db w c)) = cmd_ring c"
  "pm_state (snd (call_process_db d db w c)) = pm_state c"
  "dev_state (snd (call_process_db d db w c)) = dev_state c"
  "ee (snd (call_process_db d db w c)) = ee c"
  "max_chan (snd (call_process_db d db w c)) = max_chan c"
  "total_ev_rings (snd (call_process_db d db w c)) = total_ev_rings c"
  "dev_wake (snd (call_process_db d db w c)) = dev_wake c"
  "lpm_chans (snd (call_process_db d db w c)) = lpm_chans c"
  "pending_pkts (snd (call_process_db d db w c)) = pending_pkts c"
  "er_ctxt (snd (call_process_db d db w c)) = er_ctxt c"
  "r_list (snd (call_process_db d db w c)) = r_list c"
  "ub (snd (call_process_db d db w c)) = ub c"
  "mhi_tsync (snd (call_process_db d db w c)) = mhi_tsync c"
  "transition_list (snd (call_process_db d db w c)) = transition_list c"
  by (simp_all add: call_process_db_def mhi_db_brstmode_def mhi_db_brstmode_disable_def write_db_eq
      split: process_db_fn.splits)

lemma ring_chan_db_frame [simp]:
  "mhi_event (mhi_ring_chan_db i c) = mhi_event c" "cmd_ring (mhi_ring_chan_db i c) = cmd_ring c"
  "pm_state (mhi_ring_chan_db i c) = pm_state c" "dev_state (mhi_ring_chan_db i c) = dev_state c"
  "ee (mhi_ring_chan_db i c) = ee c" "max_chan (mhi_ring_chan_db i c) = max_chan c"
  "dev_wake (mhi_ring_chan_db i c) = dev_wake c" "lpm_chans (mhi_ring_chan_db i c) = lpm_chans c"
  "total_ev_rings (mhi_ring_chan_db i c) = total_ev_rings c"
  "pending_pkts (mhi_ring_chan_db i c) = pending_pkts c" "er_ctxt (mhi_ring_chan_db i c) = er_ctxt c"
  "r_list (mhi_ring_chan_db i c) = r_list c" "ub (mhi_ring_chan_db i c) = ub c"
  "mhi_tsync (mhi_ring_chan_db i c) = mhi_tsync c"
  "j \<noteq> i \<Longrightarrow> mhi_chan (mhi_ring_chan_db i c) j = mhi_chan c j"
  by (simp_all add: mhi_ring_chan_db_def Let_def split_beta)

lemma ring_chan_db_self:
  "\<exists>d. mhi_chan (mhi_ring_chan_db i c) i =
     (mhi_chan c i)\<lparr>ch_db_cfg := d, tre_ring := (tre_ring (mhi_chan c i))\<lparr>ctxt_wp :=
        mhi_to_physical (tre_ring (mhi_chan c i)) (wp (tre_ring (mhi_chan c i)))\<rparr>\<rparr>"
  by (rule exI [of _ "ch_db_cfg (mhi_chan (mhi_ring_chan_db i c) i)"])
     (simp add: mhi_ring_chan_db_def Let_def split_beta mhi_to_physical_def algebra_simps)

lemma ring_er_db_frame [simp]:
  "mhi_chan (mhi_ring_er_db i c) = mhi_chan c" "cmd_ring (mhi_ring_er_db i c) = cmd_ring c"
  "pm_state (mhi_ring_er_db i c) = pm_state c" "dev_state (mhi_ring_er_db i c) = dev_state c"
  "ee (mhi_ring_er_db i c) = ee c" "max_chan (mhi_ring_er_db i c) = max_chan c"
  "total_ev_rings (mhi_ring_er_db i c) = total_ev_rings c"
  "dev_wake (mhi_ring_er_db i c) = dev_wake c" "lpm_chans (mhi_ring_er_db i c) = lpm_chans c"
  "pending_pkts (mhi_ring_er_db i c) = pending_pkts c" "er_ctxt (mhi_ring_er_db i c) = er_ctxt c"
  "r_list (mhi_ring_er_db i c) = r_list c" "ub (mhi_ring_er_db i c) = ub c"
  "mhi_tsync (mhi_ring_er_db i c) = mhi_tsync c"
  "ev_ring (mhi_event (mhi_ring_er_db i c) j) = ev_ring (mhi_event c j)"
  by (simp_all add: mhi_ring_er_db_def Let_def split_beta)

lemma ring_cmd_db_frame [simp]:
  "mhi_chan (mhi_ring_cmd_db c) = mhi_chan c" "mhi_event (mhi_ring_cmd_db c) = mhi_event c"
  "pm_state (mhi_ring_cmd_db c) = pm_state c" "dev_state (mhi_ring_cmd_db c) = dev_state c"
  "ee (mhi_ring_cmd_db c) = ee c" "max_chan (mhi_ring_cmd_db c) = max_chan c"
  "dev_wake (mhi_ring_cmd_db c) = dev_wake c" "lpm_chans (mhi_ring_cmd_db c) = lpm_chans c"
  "total_ev_rings (mhi_ring_cmd_db c) = total_ev_rings c"
  "pending_pkts (mhi_ring_cmd_db c) = pending_pkts c"
  "cmd_ring (mhi_ring_cmd_db c) =
     (cmd_ring c)\<lparr>ctxt_wp := mhi_to_physical (cmd_ring c) (wp (cmd_ring c))\<rparr>"
  by (simp_all add: mhi_ring_cmd_db_def write_db_eq Let_def mhi_to_physical_def algebra_simps)

lemma assert_frame [simp]:
  "mhi_chan (mhi_assert_dev_wake b c) = mhi_chan c" "mhi_event (mhi_assert_dev_wake b c) = mhi_event c"
  "cmd_ring (mhi_assert_dev_wake b c) = cmd_ring c" "pm_state (mhi_assert_dev_wake b c) = pm_state c"
  "dev_state (mhi_assert_dev_wake b c) = dev_state c" "ee (mhi_assert_dev_wake b c) = ee c"
  "max_chan (mhi_assert_dev_wake b c) = max_chan c" "dev_wake (mhi_assert_dev_wake b c) = dev_wake c"
  "lpm_chans (mhi_assert_dev_wake b c) = lpm_chans c"
  "total_ev_rings (mhi_assert_dev_wake b c) = total_ev_rings c"
  "pending_pkts (mhi_assert_dev_wake b c) = pending_pkts c"
  by (simp_all add: mhi_assert_dev_wake_def write_db_eq)

lemma set_mhi_state_frame [simp]:
  "mhi_chan (mhi_set_mhi_state os s c) = mhi_chan c" "mhi_event (mhi_set_mhi_state os s c) = mhi_event c"
  "cmd_ring (mhi_set_mhi_state os s c) = cmd_ring c" "pm_state (mhi_set_mhi_state os s c) = pm_state c"
  "dev_state (mhi_set_mhi_state os s c) = dev_state c" "ee (mhi_set_mhi_state os s c) = ee c"
  "max_chan (mhi_set_mhi_state os s c) = max_chan c" "dev_wake (mhi_set_mhi_state os s c) = dev_wake c"
  "lpm_chans (mhi_set_mhi_state os s c) = lpm_chans c"
  "pending_pkts (mhi_set_mhi_state os s c) = pending_pkts c"
  "total_ev_rings (mhi_set_mhi_state os s c) = total_ev_rings c"
  by (simp_all add: mhi_set_mhi_state_def mhi_write_reg_field_def mhi_write_reg_def split: sum.splits)

lemma event_dbs_frame [simp]:
  "mhi_chan (ring_event_dbs c) = mhi_chan c" "cmd_ring (ring_event_dbs c) = cmd_ring c"
  "pm_state (ring_event_dbs c) = pm_state c" "dev_state (ring_event_dbs c) = dev_state c"
  "ee (ring_event_dbs c) = ee c" "max_chan (ring_event_dbs c) = max_chan c"
  "dev_wake (ring_event_dbs c) = dev_wake c" "lpm_chans (ring_event_dbs c) = lpm_chans c"
  "pending_pkts (ring_event_dbs c) = pending_pkts c"
proof -
  have "mhi_chan (fold (\<lambda>i c. if offload_ev (mhi_event c i) then c else mhi_ring_er_db i c) is c) = mhi_chan c
    \<and> cmd_ring (fold (\<lambda>i c. if offload_ev (mhi_event c i) then c else mhi_ring_er_db i c) is c) = cmd_ring c
    \<and> pm_state (fold (\<lambda>i c. if offload_ev (mhi_event c i) then c else mhi_ring_er_db i c) is c) = pm_state c
    \<and> dev_state (fold (\<lambda>i c. if offload_ev (mhi_event c i) then c else mhi_ring_er_db i c) is c) = dev_state c
    \<and> ee (fold (\<lambda>i c. if offload_ev (mhi_event c i) then c else mhi_ring_er_db i c) is c) = ee c
    \<and> max_chan (fold (\<lambda>i c. if offload_ev (mhi_event c i) then c else mhi_ring_er_db i c) is c) = max_chan c
    \<and> dev_wake (fold (\<lambda>i c. if offload_ev (mhi_event c i) then c else mhi_ring_er_db i c) is c) = dev_wake c
    \<and> lpm_chans (fold (\<lambda>i c. if offload_ev (mhi_event c i) then c else mhi_ring_er_db i c) is c) = lpm_chans c
    \<and> pending_pkts (fold (\<lambda>i c. if offload_ev (mhi_event c i) then c else mhi_ring_er_db i c) is c) = pending_pkts c"
    for "is" by (induction "is" arbitrary: c) simp_all
  then show "mhi_chan (ring_event_dbs c) = mhi_chan c" "cmd_ring (ring_event_dbs c) = cmd_ring c"
  "pm_state (ring_event_dbs c) = pm_state c" "dev_state (ring_event_dbs c) = dev_state c"
  "ee (ring_event_dbs c) = ee c" "max_chan (ring_event_dbs c) = max_chan c"
  "dev_wake (ring_event_dbs c) = dev_wake c" "lpm_chans (ring_event_dbs c) = lpm_chans c"
  "pending_pkts (ring_event_dbs c) = pending_pkts c"
    by (simp_all add: ring_event_dbs_def)
qed

lemma pending_chan_frame [simp]:
  "pm_state (ring_pending_chan i c) = pm_state c" "dev_state (ring_pending_chan i c) = dev_state c"
  "cmd_ring (ring_pending_chan i c) = cmd_ring c" "ee (ring_pending_chan i c) = ee c"
  "max_chan (ring_pending_chan i c) = max_chan c" "dev_wake (ring_pending_chan i c) = dev_wake c"
  "lpm_chans (ring_pending_chan i c) = lpm_chans c"
  "pending_pkts (ring_pending_chan i c) = pending_pkts c"
  "j \<noteq> i \<Longrightarrow> mhi_chan (ring_pending_chan i c) j = mhi_chan c j"
  by (simp_all add: ring_pending_chan_def Let_def)

section \<open>Telling the device about queued work\<close>

text \<open>
  A channel is told when the shared write pointer covers everything queued (or there is
  nothing queued, or no ring). This is what reaching M0 restores.
\<close>

definition told :: "'a mhi_ring \<Rightarrow> bool" where
  "told r \<longleftrightarrow> base r = 0 \<or> wp r = rp r \<or> ctxt_wp r = mhi_to_physical r (wp r)"

definition same_elements :: "'a mhi_ring \<Rightarrow> 'a mhi_ring \<Rightarrow> bool" where
  "same_elements r r' \<longleftrightarrow> r' = r\<lparr>ctxt_wp := ctxt_wp r'\<rparr>"

lemma same_elements_ctxt [simp]: "same_elements r (r\<lparr>ctxt_wp := x\<rparr>)" "same_elements r r"
  by (simp_all add: same_elements_def)

lemma pending_chan_told:
  "told (tre_ring (mhi_chan (ring_pending_chan i c) i))
   \<and> same_elements (tre_ring (mhi_chan c i)) (tre_ring (mhi_chan (ring_pending_chan i c) i))
   \<and> buf_ring (mhi_chan (ring_pending_chan i c) i) = buf_ring (mhi_chan c i)"
proof -
  let ?f = "\<lambda>ch. ch\<lparr>ch_db_cfg := (ch_db_cfg ch)\<lparr>db_mode := True\<rparr>\<rparr>"
  obtain d1 d2 where
    "mhi_chan (mhi_ring_chan_db i c) i = (mhi_chan c i)\<lparr>ch_db_cfg := d1, tre_ring := (tre_ring (mhi_chan c i))\<lparr>ctxt_wp :=
        mhi_to_physical (tre_ring (mhi_chan c i)) (wp (tre_ring (mhi_chan c i)))\<rparr>\<rparr>"
    "mhi_chan (mhi_ring_chan_db i (upd_chan i ?f c)) i = (mhi_chan c i)\<lparr>ch_db_cfg := d2, tre_ring := (tre_ring (mhi_chan c i))\<lparr>ctxt_wp :=
        mhi_to_physical (tre_ring (mhi_chan c i)) (wp (tre_ring (mhi_chan c i)))\<rparr>\<rparr>"
    using ring_chan_db_self [of i c] ring_chan_db_self [of i "upd_chan i ?f c"] by auto
  then show ?thesis
    by (auto simp: ring_pending_chan_def Let_def told_def mhi_to_physical_def)
qed

lemma pending_chans_told:
  "pm_state (fold ring_pending_chan [0..<n] c) = pm_state c
   \<and> dev_state (fold ring_pending_chan [0..<n] c) = dev_state c
   \<and> cmd_ring (fold ring_pending_chan [0..<n] c) = cmd_ring c
   \<and> (\<forall>i. (i < n \<longrightarrow> told (tre_ring (mhi_chan (fold ring_pending_chan [0..<n] c) i)))
        \<and> same_elements (tre_ring (mhi_chan c i)) (tre_ring (mhi_chan (fold ring_pending_chan [0..<n] c) i))
        \<and> buf_ring (mhi_chan (fold ring_pending_chan [0..<n] c) i) = buf_ring (mhi_chan c i))"
proof (induction n)
  case 0
  then show ?case by simp
next
  case (Suc n)
  let ?c = "fold ring_pending_chan [0..<n] c"
  have *: "told (tre_ring (mhi_chan (ring_pending_chan n ?c) i)) \<and>
    same_elements (tre_ring (mhi_chan ?c i)) (tre_ring (mhi_chan (ring_pending_chan n ?c) i)) \<and>
    buf_ring (mhi_chan (ring_pending_chan n ?c) i) = buf_ring (mhi_chan ?c i)" if "i \<le> n" for i
    using pending_chan_told [of n ?c] that Suc.IH by (cases "i = n") auto
  have "same_elements (tre_ring (mhi_chan c i)) (tre_ring (mhi_chan (ring_pending_chan n ?c) i))
    \<and> buf_ring (mhi_chan (ring_pending_chan n ?c) i) = buf_ring (mhi_chan c i)" for i
    using pending_chan_told [of n ?c] Suc.IH
    by (cases "i = n") (auto simp: same_elements_def, metis mhi_ring.surjective mhi_ring.update_convs(3))
  with * Suc.IH show ?case by auto
qed

lemma m0_chans:
  assumes "fst (mhi_pm_m0_transition c) = Inr ()"
  shows "(i < max_chan c \<longrightarrow> told (tre_ring (mhi_chan (snd (mhi_pm_m0_transition c)) i)))
    \<and> same_elements (tre_ring (mhi_chan c i)) (tre_ring (mhi_chan (snd (mhi_pm_m0_transition c)) i))
    \<and> buf_ring (mhi_chan (snd (mhi_pm_m0_transition c)) i) = buf_ring (mhi_chan c i)
    \<and> (MHI_IN_MISSION_MODE (ee c) \<longrightarrow> told (cmd_ring (snd (mhi_pm_m0_transition c))))"
proof -
  define c1 where "c1 = mhi_assert_dev_wake False (c\<lparr>dev_state := MHI_STATE_M0,
    pm_state := MHI_PM_M0, cnt_M0 := cnt_M0 c + 1\<rparr>)"
  define c2 where "c2 = (if MHI_IN_MISSION_MODE (ee c1) then ring_pending_cmd (ring_event_dbs c1) else c1)"
  have tr: "tryset_target (pm_state c) MHI_PM_M0 = MHI_PM_M0"
    using assms by (auto simp: mhi_pm_m0_transition_def tryset_eq Let_def split: if_splits)
  have m: "mhi_chan c2 = mhi_chan c" "max_chan c2 = max_chan c" "ee c1 = ee c"
    by (simp_all add: c2_def c1_def ring_pending_cmd_def)
  have cmd: "MHI_IN_MISSION_MODE (ee c) \<longrightarrow> told (cmd_ring c2)"
    by (simp add: c2_def m(3)) (auto simp: ring_pending_cmd_def told_def mhi_to_physical_def)
  have mx: "max_chan (ring_pending_cmd (ring_event_dbs c1)) = max_chan c" "max_chan c1 = max_chan c"
    by (simp_all add: ring_pending_cmd_def c1_def)
  have eq: "mhi_pm_m0_transition c =
      (Inr (), emit Wake_up_all (fold ring_pending_chan [0..<max_chan c] c2))"
    using tr by (simp add: mhi_pm_m0_transition_def tryset_eq Let_def c1_def [symmetric] mx)
      (simp add: c2_def m(3))
  show ?thesis
    using pending_chans_told [of "max_chan c" c2] m cmd unfolding eq by simp
qed

lemma m0_result:
  "pm_state c \<in> set pm_states \<Longrightarrow>
   fst (mhi_pm_m0_transition c) =
     (if pm_state c \<in> {MHI_PM_POR, MHI_PM_M0, MHI_PM_M2, MHI_PM_M3_EXIT} then Inr () else Inl EIO)"
  by (simp add: mhi_pm_m0_transition_def tryset_eq Let_def tryset_to_M0 del: insert_iff)

lemma m0_states [simp]:
  "dev_state (snd (mhi_pm_m0_transition c)) = MHI_STATE_M0"
  "pm_state (snd (mhi_pm_m0_transition c)) = tryset_target (pm_state c) MHI_PM_M0"
  "max_chan (snd (mhi_pm_m0_transition c)) = max_chan c"
proof -
  have f: "max_chan (fold ring_pending_chan [0..<n] c) = max_chan c" for n c
    by (induction n) simp_all
  note p = pending_chans_told
  show "dev_state (snd (mhi_pm_m0_transition c)) = MHI_STATE_M0"
    by (simp add: mhi_pm_m0_transition_def tryset_eq Let_def p ring_pending_cmd_def)
  show "pm_state (snd (mhi_pm_m0_transition c)) = tryset_target (pm_state c) MHI_PM_M0"
    by (simp add: mhi_pm_m0_transition_def tryset_eq Let_def p ring_pending_cmd_def)
  show "max_chan (snd (mhi_pm_m0_transition c)) = max_chan c"
    by (simp add: mhi_pm_m0_transition_def tryset_eq Let_def f ring_pending_cmd_def)
qed

lemma m3_states [simp]:
  "dev_state (snd (mhi_pm_m3_transition c)) = MHI_STATE_M3"
  "pm_state (snd (mhi_pm_m3_transition c)) = tryset_target (pm_state c) MHI_PM_M3"
  "mhi_chan (snd (mhi_pm_m3_transition c)) = mhi_chan c"
  "max_chan (snd (mhi_pm_m3_transition c)) = max_chan c"
  "lpm_chans (snd (mhi_pm_m3_transition c)) = lpm_chans c"
  "dev_wake (snd (mhi_pm_m3_transition c)) = dev_wake c"
  by (simp_all add: mhi_pm_m3_transition_def tryset_eq Let_def)

lemma notify_frame [simp]:
  "mhi_chan (notify_lpm_chans os r c) = mhi_chan c" "pm_state (notify_lpm_chans os r c) = pm_state c"
  "dev_state (notify_lpm_chans os r c) = dev_state c" "max_chan (notify_lpm_chans os r c) = max_chan c"
  "dev_wake (notify_lpm_chans os r c) = dev_wake c"
proof -
  let ?f = "\<lambda>i c. case ch_mhi_dev (mhi_chan c i) of None \<Rightarrow> c | Some d \<Rightarrow> mhi_notify os d r c"
  have "mhi_chan (fold ?f is c) = mhi_chan c \<and> pm_state (fold ?f is c) = pm_state c
    \<and> dev_state (fold ?f is c) = dev_state c \<and> max_chan (fold ?f is c) = max_chan c
    \<and> dev_wake (fold ?f is c) = dev_wake c" for "is"
    by (induction "is" arbitrary: c) (auto simp: mhi_notify_def split: option.splits)
  then show "mhi_chan (notify_lpm_chans os r c) = mhi_chan c" "pm_state (notify_lpm_chans os r c) = pm_state c"
    "dev_state (notify_lpm_chans os r c) = dev_state c" "max_chan (notify_lpm_chans os r c) = max_chan c"
    "dev_wake (notify_lpm_chans os r c) = dev_wake c"
    by (simp_all add: notify_lpm_chans_def)
qed

text \<open>The moves suspend and resume ask for.\<close>

lemma tryset_lpm [pm_simps]:
  "tryset_target MHI_PM_M0 MHI_PM_M3_ENTER = MHI_PM_M3_ENTER"
  "tryset_target MHI_PM_M3_ENTER MHI_PM_M3 = MHI_PM_M3"
  "tryset_target MHI_PM_M3 MHI_PM_M3_EXIT = MHI_PM_M3_EXIT"
  "tryset_target MHI_PM_M3_EXIT MHI_PM_M0 = MHI_PM_M0"
  "tryset_target MHI_PM_M0 MHI_PM_M0 = MHI_PM_M0"
  by code_simp+

lemma pm_not_error [pm_simps]:
  "\<not> MHI_PM_IN_ERROR_STATE MHI_PM_M0" "\<not> MHI_PM_IN_ERROR_STATE MHI_PM_M3_ENTER"
  "\<not> MHI_PM_IN_ERROR_STATE MHI_PM_M3" "\<not> MHI_PM_IN_ERROR_STATE MHI_PM_M3_EXIT"
  "MHI_PM_M0 \<noteq> MHI_PM_DISABLE" "MHI_PM_M3 \<noteq> MHI_PM_DISABLE"
  by code_simp+

section \<open>Properties\<close>





lemma wait_ret:
  "wait_event_timeout env cond c = (r, c') \<Longrightarrow> (r \<longleftrightarrow> cond c') \<and> (c' = c \<or> c' = env c)"
  by (auto simp: wait_event_timeout_def Let_def split: if_splits)

text \<open>
  What \<open>mhi_pm_suspend\<close> returns, whatever the rest of the system does while it waits:
  success means that the device reported M3 and the host is in no error state; \<open>EINVAL\<close> is
  exactly the disabled host, which is left alone; and since no operation counts \<open>dev_wake\<close> up
  (the counting part of \<open>mhi_assert_dev_wake\<close> is disabled), \<open>EBUSY\<close> is never returned,
  however many packets are pending.
\<close>

lemma suspend_outcomes:
  assumes "\<And>c. dev_wake (env1 c) = dev_wake c"
  shows "case mhi_pm_suspend os env1 env2 c of (r, c') \<Rightarrow>
    (r = Inr () \<longrightarrow> dev_state c' = MHI_STATE_M3 \<and> \<not> MHI_PM_IN_ERROR_STATE (pm_state c'))
    \<and> (r = Inl EINVAL \<longleftrightarrow> pm_state c = MHI_PM_DISABLE)
    \<and> (pm_state c = MHI_PM_DISABLE \<or> MHI_PM_IN_ERROR_STATE (pm_state c) \<longrightarrow> c' = c)
    \<and> (dev_wake c = 0 \<longrightarrow> r \<noteq> Inl EBUSY)"
proof (cases "pm_state c = MHI_PM_DISABLE \<or> MHI_PM_IN_ERROR_STATE (pm_state c) \<or> dev_wake c \<noteq> 0")
  case True
  then show ?thesis by (auto simp: mhi_pm_suspend_def)
next
  case False
  let ?c = "mhi_assert_dev_wake False c"
  obtain r1 c1 where w1: "wait_event_timeout env1 (\<lambda>c. dev_state c = MHI_STATE_M0 \<or>
      dev_state c = MHI_STATE_M1 \<or> MHI_PM_IN_ERROR_STATE (pm_state c)) ?c = (r1, c1)"
    by (meson surj_pair)
  have wake: "dev_wake c1 = 0" using wait_ret [OF w1] assms False by auto
  let ?c2 = "mhi_set_mhi_state os MHI_STATE_M3 (c1\<lparr>pm_state := MHI_PM_M3_ENTER\<rparr>)"
  obtain r2 c2 where w2: "wait_event_timeout env2 (\<lambda>c. dev_state c = MHI_STATE_M3 \<or>
      MHI_PM_IN_ERROR_STATE (pm_state c)) ?c2 = (r2, c2)"
    by (meson surj_pair)
  show ?thesis
    using False wake w1 w2 wait_ret [OF w2]
    by (auto simp: mhi_pm_suspend_def tryset_eq Let_def del: pm_state_defs)
qed

lemma suspend_outcomes_instance:
  "fst (mhi_pm_suspend link_up id id (demo_controller\<lparr>pending_pkts := 7\<rparr>)) \<noteq> Inl EBUSY"
  using suspend_outcomes [of id "demo_controller\<lparr>pending_pkts := 7\<rparr>" link_up id]
  by (simp add: demo_controller_def zero_defs split: prod.splits)

lemma intvec_cong:
  "pm_state c' = pm_state c \<Longrightarrow> mmio c' = mmio c \<Longrightarrow> regs c' = regs c \<Longrightarrow> bhi c' = bhi c \<Longrightarrow>
   mhi_get_mhi_state os c' = mhi_get_mhi_state os c \<and> mhi_get_exec_env os c' = mhi_get_exec_env os c"
  by (simp add: mhi_get_mhi_state_def mhi_get_exec_env_def mhi_read_reg_field_def mhi_read_reg_def)

lemma get_state_upd [simp]:
  "mhi_get_mhi_state os (c\<lparr>pm_state := s\<rparr>) = mhi_get_mhi_state os c"
  "mhi_get_mhi_state os (emit e c) = mhi_get_mhi_state os c"
  "mhi_get_exec_env os (c\<lparr>pm_state := s\<rparr>) = mhi_get_exec_env os c"
  "mhi_get_exec_env os (emit e c) = mhi_get_exec_env os c"
  by (simp_all add: mhi_get_mhi_state_def mhi_get_exec_env_def mhi_read_reg_field_def mhi_read_reg_def)

text \<open>
  A system error seen by the interrupt handler is acted on once: if the registers may be
  read, the device reports \<open>SYS_ERR\<close> and the host can still enter \<open>SYS_ERR_DETECT\<close>, it does,
  wakes the waiters, and either reports a fatal error (a device that was in a boot loader all
  along) or schedules the recovery work, and the next interrupt changes nothing; in every
  other case the handler changes nothing at all.
\<close>

lemma intvec_sys_err_once:
  assumes "pm_state c \<in> set pm_states"
  shows "(let c' = mhi_intvec_threaded_handlr os c;
      act = MHI_REG_ACCESS_VALID (pm_state c) \<and> mhi_get_mhi_state os c = MHI_STATE_SYS_ERR
            \<and> pm_allowed (pm_state c) MHI_PM_SYS_ERR_DETECT;
      ee' = mhi_get_exec_env os c
    in (if act
        then c' = c\<lparr>pm_state := MHI_PM_SYS_ERR_DETECT, trace := trace c @ [Wake_up_all,
               if ee c = ee' \<and> MHI_IN_PBL ee' then Status_cb MHI_CB_FATAL_ERROR
               else Schedule_work Syserr_worker]\<rparr>
        else c' = c)
       \<and> mhi_intvec_threaded_handlr os c' = c')"
proof -
  let ?s = "MHI_PM_SYS_ERR_DETECT"
  have t: "tryset_target (pm_state c) ?s = (if pm_allowed (pm_state c) ?s then ?s else pm_state c)"
    using tryset_target_doc [OF assms, of ?s] by (simp add: pm_states_def)
  have n: "?s \<noteq> MHI_PM_POR" "(0::u32) \<noteq> MHI_PM_POR" "(0::u32) \<noteq> ?s" "MHI_REG_ACCESS_VALID ?s"
    "\<not> pm_allowed ?s ?s" "pm_allowed MHI_PM_POR ?s"
    by code_simp+
  have q: "mhi_intvec_threaded_handlr os d = d" if "pm_state d = ?s" for d
    using that n by (simp add: mhi_intvec_threaded_handlr_def Let_def del: pm_state_defs)
  let ?st = "mhi_get_mhi_state os c" and ?ee = "mhi_get_exec_env os c"
  let ?act = "MHI_REG_ACCESS_VALID (pm_state c) \<and> ?st = MHI_STATE_SYS_ERR \<and> pm_allowed (pm_state c) ?s"
  have no: "mhi_intvec_threaded_handlr os c = c" if na: "\<not> ?act"
  proof (cases "MHI_REG_ACCESS_VALID (pm_state c) \<and> ?st = MHI_STATE_SYS_ERR \<and> pm_state c \<noteq> ?s")
    case True
    with na have "\<not> pm_allowed (pm_state c) ?s" by simp
    with True t n(6) have "mhi_tryset_pm_state ?s c = (pm_state c, c)" "pm_state c \<noteq> MHI_PM_POR"
      by (auto simp: tryset_eq)
    with True show ?thesis by (simp add: mhi_intvec_threaded_handlr_def Let_def)
  next
    case False
    with n(2,3) show ?thesis
      by (cases "MHI_REG_ACCESS_VALID (pm_state c)") (auto simp: mhi_intvec_threaded_handlr_def Let_def)
  qed
  have yes: "mhi_intvec_threaded_handlr os c = c\<lparr>pm_state := ?s, trace := trace c @ [Wake_up_all,
      if ee c = ?ee \<and> MHI_IN_PBL ?ee then Status_cb MHI_CB_FATAL_ERROR
      else Schedule_work Syserr_worker]\<rparr>" if ac: "?act"
  proof -
    have "mhi_tryset_pm_state ?s c = (?s, c\<lparr>pm_state := ?s\<rparr>)" "pm_state c \<noteq> ?s"
      using ac t n(5) by (auto simp: tryset_eq)
    then show ?thesis
      using ac n(1) by (simp add: mhi_intvec_threaded_handlr_def Let_def emit_def)
  qed
  show ?thesis
  proof (cases ?act)
    case True
    then show ?thesis using yes q by (simp add: Let_def)
  next
    case False
    then show ?thesis unfolding Let_def using no [OF False] by (simp only: if_False simp_thms)
  qed
qed

lemma intvec_sys_err_once_instance:
  "(let c = zero_controller\<lparr>pm_state := MHI_PM_M0, mmio := (\<lambda>_. 0xFF00)\<rparr>
    in pm_state (mhi_intvec_threaded_handlr link_up c) = MHI_PM_SYS_ERR_DETECT)"
proof -
  let ?c = "zero_controller\<lparr>pm_state := MHI_PM_M0, mmio := (\<lambda>_. 0xFF00)\<rparr>"
  have "mhi_get_mhi_state link_up ?c = MHI_STATE_SYS_ERR"
    by (simp add: mhi_get_mhi_state_def mhi_read_reg_field_def mhi_read_reg_def link_up_def
        PCI_INVALID_READ_def reg_defs dev_state_of_def)
  moreover have "MHI_REG_ACCESS_VALID MHI_PM_M0" "pm_allowed MHI_PM_M0 MHI_PM_SYS_ERR_DETECT"
    by code_simp+
  ultimately show ?thesis
    using intvec_sys_err_once [of ?c link_up] by (simp add: pm_states_def Let_def del: pm_state_defs)
qed
end
