(* ===== verification/Mhi_Xfer.thy ===== *)
theory Mhi_Xfer
  imports Mhi_PmCore
begin

text \<open>
  Transfer completions: \<open>parse_xfer_event\<close> and \<open>parse_rsc_event\<close> of \<open>core/mhi_main.c\<close>. The loop
  that walks a channel's rings until it meets the pointer the device named may never meet it,
  so it is a partial function: \<open>None\<close> is a run that does not return. A client's callback is an
  entry of \<open>trace\<close>; what the client does in it is not part of the step.
\<close>

section \<open>Transfer completions\<close>

text \<open>A descriptor address from the device, used unchecked.\<close>

definition touch_ring :: "'a mhi_ring \<Rightarrow> u64 \<Rightarrow> mhi_controller \<Rightarrow> mhi_controller" where
  "touch_ring r a c = (if on_ring r a then c else c\<lparr>ub := True\<rparr>)"

definition count_completed :: "dma_data_direction \<Rightarrow> mhi_controller \<Rightarrow> mhi_controller" where
  "count_completed d c =
     (if d = DMA_TO_DEVICE
      then (let c = c\<lparr>pending_pkts := pending_pkts c - 1\<rparr>
            in if pending_pkts c = 0 then emit Runtime_put c else c)
      else c)"

definition requeue_buf :: "mhi_os \<Rightarrow> nat \<Rightarrow> mhi_buf_info \<Rightarrow> mhi_controller \<Rightarrow> mhi_controller" where
  "requeue_buf os i b c =
     (if pre_alloc (mhi_chan c i)
      then (case mhi_queue_buf os i (cb_buf b) (bi_len b) (mhi_flags_val MHI_EOT) c of
              (Inr _, c) \<Rightarrow> c
            | (Inl e, c) \<Rightarrow> emit (Kfree (cb_buf b)) c)
      else c)"

definition del_both :: "nat \<Rightarrow> mhi_controller \<Rightarrow> mhi_controller" where
  "del_both i = upd_chan i (\<lambda>ch. ch\<lparr>buf_ring := mhi_del_ring_element (buf_ring ch),
     tre_ring := mhi_del_ring_element (tre_ring ch)\<rparr>)"

definition mon_receive_chan :: "nat \<Rightarrow> u16 \<Rightarrow> mhi_controller \<Rightarrow> mhi_controller" where
  "mon_receive_chan i xfer_len c =
     (if r_list c \<noteq> []
      then (let ch = mhi_chan c i; r = tre_ring ch; b = slots (buf_ring ch) (rp (buf_ring ch));
                (buf, ln) = (if queue_xfer ch = mhi_queue_skb_fn then (v_addr b, ucast xfer_len)
                             else if chan ch mod 2 \<noteq> 0 then (cb_buf b, ucast xfer_len) else (0, 0))
            in mon_bus_receive (chan ch) (mhi_to_physical r (rp r)) (slots r (rp r)) buf ln c)
      else c)"

text \<open>One descriptor, the body of the loop of \<open>parse_xfer_event\<close>.\<close>

definition xfer_one ::
  "mhi_os \<Rightarrow> nat \<Rightarrow> u16 \<Rightarrow> errno option \<Rightarrow> mhi_controller \<Rightarrow> mhi_controller" where
  "xfer_one os i xfer_len status c =
     (let ch = mhi_chan c i;
          b = slots (buf_ring ch) (rp (buf_ring ch));
          c = (if \<not> pre_mapped b then call_unmap_single b c else c);
          result = \<lparr>buf_addr = cb_buf b, res_dir = dir ch, bytes_xferd = ucast xfer_len,
                    transaction_status = status\<rparr>;
          c = mon_receive_chan i xfer_len c;
          c = del_both i c;
          c = emit (Xfer_cb i result) c;
          c = count_completed (dir ch) c;
          c = (if dir ch = DMA_TO_DEVICE then mhi_deassert_dev_wake False c else c)
      in requeue_buf os i b c)"

partial_function (option) xfer_loop ::
  "mhi_os \<Rightarrow> nat \<Rightarrow> u16 \<Rightarrow> errno option \<Rightarrow> u64 \<Rightarrow> mhi_controller \<Rightarrow> mhi_controller option" where
  "xfer_loop os i xfer_len status dev_rp c =
     (if rp (tre_ring (mhi_chan c i)) = dev_rp then Some c
      else xfer_loop os i xfer_len status dev_rp (xfer_one os i xfer_len status c))"

text \<open>The device's read pointer after it has serviced the descriptor an event names.\<close>

definition event_dev_rp :: "mhi_tre mhi_ring \<Rightarrow> mhi_tre \<Rightarrow> u64" where
  "event_dev_rp r ev =
     (let a = mhi_to_virtual r (MHI_TRE_GET_EV_PTR ev) + sizeof_mhi_tre
      in if base r + ring_len r \<le> a then base r else a)"

definition count_used_event :: "nat \<Rightarrow> MHI_EV_CCS \<Rightarrow> mhi_controller \<Rightarrow> mhi_controller" where
  "count_used_event i code = upd_chan i (\<lambda>ch. ch\<lparr>used_events :=
     (used_events ch)(unat (ccs_val code) := used_events ch (unat (ccs_val code)) + 1)\<rparr>)"

definition parse_xfer_event ::
  "mhi_os \<Rightarrow> mhi_tre \<Rightarrow> nat \<Rightarrow> mhi_controller \<Rightarrow> mhi_controller option" where
  "parse_xfer_event os ev i c =
     (let ev_code = MHI_TRE_GET_EV_CODE ev;
          status = (if ev_code = MHI_EV_CC_OVERFLOW then Some EOVERFLOW else None);
          c = touch_chan i c
      in if ch_state (mhi_chan c i) \<noteq> MHI_CH_STATE_ENABLED then Some c
         else if ev_code \<in> {MHI_EV_CC_OVERFLOW, MHI_EV_CC_EOB, MHI_EV_CC_EOT}
         then xfer_loop os i (ucast (MHI_TRE_GET_EV_LEN ev)) status
                (event_dev_rp (tre_ring (mhi_chan c i)) ev) (count_used_event i ev_code c)
         else if ev_code \<in> {MHI_EV_CC_OOB, MHI_EV_CC_DB_MODE}
         then (let c = count_used_event i ev_code c;
                   c = upd_chan i (\<lambda>ch. ch\<lparr>ch_db_cfg := (ch_db_cfg ch)\<lparr>db_mode := True\<rparr>\<rparr>) c;
                   r = tre_ring (mhi_chan c i)
               in Some (if wp r \<noteq> rp r \<and> MHI_DB_ACCESS_VALID (pm_state c)
                        then mhi_ring_chan_db i c else c))
         else Some c)"

definition parse_rsc_event :: "mhi_tre \<Rightarrow> nat \<Rightarrow> mhi_controller \<Rightarrow> mhi_controller" where
  "parse_rsc_event ev i c =
     (let ev_code = MHI_TRE_GET_EV_CODE ev;
          cookie = MHI_TRE_GET_EV_COOKIE ev;
          xfer_len = (ucast (MHI_TRE_GET_EV_LEN ev) :: u16);
          c = touch_chan i c;
          br = buf_ring (mhi_chan c i);
          a = base br + ucast cookie;
          c = touch_ring br a c;
          b = slots br a;
          result = \<lparr>buf_addr = cb_buf b, res_dir = dir (mhi_chan c i), bytes_xferd = ucast xfer_len,
                    transaction_status = (if ev_code = MHI_EV_CC_OVERFLOW then Some EOVERFLOW else None)\<rparr>
      in if ch_state (mhi_chan c i) \<noteq> MHI_CH_STATE_ENABLED then c
         else upd_chan i (\<lambda>ch. ch\<lparr>tre_ring := mhi_del_ring_element (tre_ring ch),
                buf_ring := (buf_ring ch)\<lparr>slots :=
                  (slots (buf_ring ch))(a := (slots (buf_ring ch) a)\<lparr>bi_used := False\<rparr>)\<rparr>\<rparr>)
              (emit (Xfer_cb i result) c))"

section \<open>How a completion walks the rings\<close>

text \<open>What of a channel a queue operation never changes.\<close>

definition shape :: "mhi_chan \<Rightarrow> u64 \<times> u64 \<times> u64 \<times> u64 \<times> u64 \<times> MHI_CH_STATE \<times> bool \<times> dma_data_direction" where
  "shape ch = (let r = tre_ring ch in
     (rp r, base r, ring_len r, el_size r, elements r, ch_state ch, pre_alloc ch, dir ch))"

lemma shape_steps [simp]:
  "shape (mhi_chan (store_buf i b c) j) = shape (mhi_chan c j)"
  "shape (mhi_chan (store_tre i t c) j) = shape (mhi_chan c j)"
  "shape (mhi_chan (advance_wp i c) j) = shape (mhi_chan c j)"
  by (simp_all add: shape_def store_buf_def store_tre_def advance_wp_def ring_write_def
      mhi_add_ring_element_def Let_def)

lemma shape_ring_db [simp]:
  "shape (mhi_chan (ring_db_if_valid i c) j) = shape (mhi_chan c j)"
proof (cases "j = i")
  case True
  then show ?thesis using ring_db_chan [of i c] by (auto simp: shape_def Let_def)
qed simp

lemma shape_queue_buf [simp]:
  "shape (mhi_chan (snd (mhi_queue_buf os i buf ln fl c)) j) = shape (mhi_chan c j)"
proof -
  have "shape (mhi_chan (snd (mhi_gen_tre os i buf cb ln fl c)) j) = shape (mhi_chan c j)" for cb
  proof -
    let ?b = "(slots (buf_ring (mhi_chan c i)) (wp (buf_ring (mhi_chan c i))))\<lparr>v_addr := buf, cb_buf := cb,
      bi_wp := wp (tre_ring (mhi_chan c i)), bi_dir := dir (mhi_chan c i), bi_len := ln\<rparr>"
    obtain ret b c1 where m: "call_map_single os ?b c = (ret, b, c1)" by (metis prod_cases3)
    have "mhi_chan c1 = mhi_chan c" using call_map_frame(1) [of os ?b c] m by simp
    then show ?thesis using m by (simp add: mhi_gen_tre_def Let_def split: sum.splits)
  qed
  then show ?thesis
    by (auto simp: mhi_queue_buf_def Let_def split: sum.splits prod.splits) (metis snd_conv)+
qed

lemma shape_requeue [simp]: "shape (mhi_chan (requeue_buf os i b c) j) = shape (mhi_chan c j)"
proof -
  obtain r c' where q: "mhi_queue_buf os i (cb_buf b) (bi_len b) (mhi_flags_val MHI_EOT) c = (r, c')"
    by (meson surj_pair)
  then have "shape (mhi_chan c' j) = shape (mhi_chan c j)"
    using shape_queue_buf [of os i "cb_buf b" "bi_len b" "mhi_flags_val MHI_EOT" c j] by simp
  then show ?thesis using q by (cases r) (simp_all add: requeue_buf_def)
qed

lemma mon_receive_frame [simp]:
  "mhi_chan (mon_receive_chan i n c) = mhi_chan c" "pm_state (mon_receive_chan i n c) = pm_state c"
  "pending_pkts (mon_receive_chan i n c) = pending_pkts c"
  by (simp_all add: mon_receive_chan_def mon_bus_receive_def Let_def)

lemma completed_frame [simp]:
  "mhi_chan (count_completed d c) = mhi_chan c" "pm_state (count_completed d c) = pm_state c"
  "pending_pkts (count_completed d c) = pending_pkts c - (if d = DMA_TO_DEVICE then 1 else 0)"
  by (simp_all add: count_completed_def Let_def)

lemma xfer_one_shape:
  "shape (mhi_chan (xfer_one os i n st c) i) =
     shape ((mhi_chan c i)\<lparr>tre_ring := mhi_del_ring_element (tre_ring (mhi_chan c i))\<rparr>)"
  by (simp add: xfer_one_def Let_def del_both_def) (simp add: shape_def)

lemma shape_tre:
  assumes "shape ch' = shape (ch\<lparr>tre_ring := mhi_del_ring_element (tre_ring ch)\<rparr>)"
  shows "rp (tre_ring ch') = ring_step (tre_ring ch) (rp (tre_ring ch))"
    "ring_geom (tre_ring ch') = ring_geom (tre_ring ch)"
    "on_ring (tre_ring ch') a = on_ring (tre_ring ch) a"
    "slot_idx (tre_ring ch') a = slot_idx (tre_ring ch) a"
    "elements (tre_ring ch') = elements (tre_ring ch)"
  using assms by (simp_all add: shape_def Let_def del_step ring_geom_def on_ring_def slot_idx_def)

text \<open>How many steps lie between two addresses of a ring.\<close>

definition ring_dist :: "'a mhi_ring \<Rightarrow> u64 \<Rightarrow> u64 \<Rightarrow> nat" where
  "ring_dist r a b =
     (slot_idx r b + unat (elements r) - slot_idx r a) mod unat (elements r)"

lemma ring_dist_zero:
  assumes "ring_geom r" "on_ring r a" "on_ring r b"
  shows "ring_dist r a b = 0 \<longleftrightarrow> a = b"
proof -
  let ?n = "unat (elements r)"
  have l: "slot_idx r a < ?n" "slot_idx r b < ?n" using assms slot_idx_less by blast+
  have "ring_dist r a b = 0 \<longleftrightarrow> slot_idx r a = slot_idx r b"
  proof (cases "slot_idx r a \<le> slot_idx r b")
    case True
    then show ?thesis using mod_add_diff [OF True l(2)] by (auto simp: ring_dist_def)
  next
    case False
    then show ?thesis using mod_sub_diff [of "slot_idx r b" "slot_idx r a" ?n] l by (auto simp: ring_dist_def)
  qed
  then show ?thesis using slot_idx_inject [OF assms] by auto
qed

lemma ring_dist_step:
  assumes "ring_geom r" "on_ring r a" "on_ring r b" "a \<noteq> b"
  shows "Suc (ring_dist r (ring_step r a) b) = ring_dist r a b"
proof -
  have l: "slot_idx r a < unat (elements r)" "slot_idx r b < unat (elements r)"
    using assms slot_idx_less by blast+
  moreover have "slot_idx r a \<noteq> slot_idx r b" using assms slot_idx_inject by blast
  ultimately show ?thesis
    using mod_distance_pred [of "slot_idx r a" "unat (elements r)" "slot_idx r b"] ring_step_slot(2) [OF assms(1,2)]
    by (simp add: ring_dist_def)
qed

text \<open>The walk returns when the device's pointer is a slot of the ring.\<close>

lemma xfer_loop_steps:
  assumes "ring_geom (tre_ring (mhi_chan c i))" "on_ring (tre_ring (mhi_chan c i)) (rp (tre_ring (mhi_chan c i)))"
    "on_ring (tre_ring (mhi_chan c i)) d"
  shows "xfer_loop os i n st d c =
    Some ((xfer_one os i n st ^^ ring_dist (tre_ring (mhi_chan c i)) (rp (tre_ring (mhi_chan c i))) d) c)"
  using assms
proof (induction "ring_dist (tre_ring (mhi_chan c i)) (rp (tre_ring (mhi_chan c i))) d" arbitrary: c)
  case 0
  let ?r = "tre_ring (mhi_chan c i)"
  have "rp ?r = d" using ring_dist_zero [OF 0(2-4)] 0(1) by simp
  moreover have "ring_dist ?r (rp ?r) d = 0" using 0(1) by simp
  ultimately show ?case by (subst xfer_loop.simps) simp
next
  case (Suc k)
  let ?r = "tre_ring (mhi_chan c i)" and ?c = "xfer_one os i n st c"
  let ?r' = "tre_ring (mhi_chan ?c i)"
  note s = shape_tre [OF xfer_one_shape [of os i n st c]]
  have ne: "rp ?r \<noteq> d" using Suc(2) ring_dist_zero [OF Suc(3-5)] by auto
  have d: "ring_dist ?r' (rp ?r') d = k"
    using ring_dist_step [OF Suc(3-5) ne] Suc(2) by (simp add: ring_dist_def s)
  have "xfer_loop os i n st d ?c = Some ((xfer_one os i n st ^^ k) ?c)"
    using Suc(1) [of ?c] d Suc(3-5) ring_step_slot(1) [OF Suc(3,4)] by (simp add: s)
  then show ?case
    using ne Suc(2) by (subst xfer_loop.simps) (simp add: funpow_swap1 flip: Suc(2))
qed

lemma xfer_loop_some:
  assumes "xfer_loop os i n st d c = Some y"
  shows "ring_geom (tre_ring (mhi_chan c i)) \<and>
   on_ring (tre_ring (mhi_chan c i)) (rp (tre_ring (mhi_chan c i))) \<longrightarrow>
   on_ring (tre_ring (mhi_chan c i)) d"
proof (rule xfer_loop.raw_induct [OF _ assms])
  fix xl :: "mhi_os \<Rightarrow> nat \<Rightarrow> u16 \<Rightarrow> errno option \<Rightarrow> u64 \<Rightarrow> mhi_controller \<Rightarrow> mhi_controller option"
  fix os i n st d c y
  let ?P = "\<lambda>i d c. ring_geom (tre_ring (mhi_chan c i)) \<and>
    on_ring (tre_ring (mhi_chan c i)) (rp (tre_ring (mhi_chan c i))) \<longrightarrow> on_ring (tre_ring (mhi_chan c i)) d"
  assume IH: "\<And>os i n st d c y. xl os i n st d c = Some y \<Longrightarrow> ?P i d c"
    and eq: "(if rp (tre_ring (mhi_chan c i)) = d then Some c
      else xl os i n st d (xfer_one os i n st c)) = Some y"
  note s = shape_tre [OF xfer_one_shape [of os i n st c]]
  show "?P i d c"
  proof (cases "rp (tre_ring (mhi_chan c i)) = d")
    case False
    with eq have "xl os i n st d (xfer_one os i n st c) = Some y" by simp
    from IH [OF this] show ?thesis
      using ring_step_slot(1) [of "tre_ring (mhi_chan c i)" "rp (tre_ring (mhi_chan c i))"]
      by (auto simp: s)
  qed simp
qed

text \<open>The client's view: the callbacks of a run.\<close>

fun is_xfer_cb :: "obs \<Rightarrow> bool" where
  "is_xfer_cb (Xfer_cb i r) = True"
| "is_xfer_cb _ = False"

definition callbacks :: "mhi_controller \<Rightarrow> obs list" where
  "callbacks c = filter is_xfer_cb (trace c)"

definition completion_of :: "nat \<Rightarrow> mhi_chan \<Rightarrow> u16 \<Rightarrow> errno option \<Rightarrow> mhi_buf_info \<Rightarrow> obs" where
  "completion_of i ch n st b = Xfer_cb i \<lparr>buf_addr = cb_buf b, res_dir = dir ch,
     bytes_xferd = ucast n, transaction_status = st\<rparr>"

lemma callbacks_emit [simp]: "callbacks (emit e c) = callbacks c @ (if is_xfer_cb e then [e] else [])"
  by (simp add: callbacks_def)

lemma callbacks_cong: "trace c' = trace c \<Longrightarrow> callbacks c' = callbacks c"
  by (simp add: callbacks_def)

lemma callbacks_upd [simp]:
  "callbacks (upd_chan i f c) = callbacks c" "callbacks (c\<lparr>alloc_size := a\<rparr>) = callbacks c"
  "callbacks (c\<lparr>pending_pkts := p\<rparr>) = callbacks c" "callbacks (c\<lparr>cnt_events := q\<rparr>) = callbacks c"
  by (simp_all add: callbacks_def)

lemma callbacks_unmap [simp]: "callbacks (call_unmap_single b c) = callbacks c"
  by (simp add: call_unmap_single_def mhi_unmap_single_use_bb_def mhi_unmap_single_no_bb_def
      mhi_free_coherent_def)

lemma callbacks_mon [simp]: "callbacks (mon_receive_chan i n c) = callbacks c"
proof -
  have "callbacks (fold (\<lambda>r. emit (Mon_receive r a b d f e)) rs c) = callbacks c" for a b d f e rs c
    by (induction rs arbitrary: c) simp_all
  then show ?thesis by (simp add: mon_receive_chan_def mon_bus_receive_def Let_def)
qed

lemma callbacks_completed [simp]: "callbacks (count_completed d c) = callbacks c"
  by (simp add: count_completed_def Let_def)

lemma unmap_if_frame [simp]:
  "mhi_chan (if p then call_unmap_single b c else c) = mhi_chan c"
  "pending_pkts (if p then call_unmap_single b c else c) = pending_pkts c"
  "callbacks (if p then call_unmap_single b c else c) = callbacks c"
  "pm_state (if p then call_unmap_single b c else c) = pm_state c"
  by simp_all

lemma xfer_one_effect:
  assumes "\<not> pre_alloc (mhi_chan c i)"
  shows "mhi_chan (xfer_one os i n st c) = (mhi_chan c)(i := (mhi_chan c i)
      \<lparr>buf_ring := mhi_del_ring_element (buf_ring (mhi_chan c i)),
       tre_ring := mhi_del_ring_element (tre_ring (mhi_chan c i))\<rparr>)"
    and "pending_pkts (xfer_one os i n st c) =
      pending_pkts c - (if dir (mhi_chan c i) = DMA_TO_DEVICE then 1 else 0)"
    and "callbacks (xfer_one os i n st c) = callbacks c @ [completion_of i (mhi_chan c i) n st
      (slots (buf_ring (mhi_chan c i)) (rp (buf_ring (mhi_chan c i))))]"
    and "pm_state (xfer_one os i n st c) = pm_state c"
  using assms by (simp_all add: xfer_one_def Let_def requeue_buf_def del_both_def completion_of_def)

lemma lockstep_del:
  assumes "lockstep ch"
  shows "lockstep (ch\<lparr>buf_ring := mhi_del_ring_element (buf_ring ch),
    tre_ring := mhi_del_ring_element (tre_ring ch)\<rparr>)"
proof -
  have w: "ring_wf (tre_ring ch)" "ring_wf (buf_ring ch)" using assms by (simp_all add: lockstep_def)
  show ?thesis
    using assms ring_wf_del [OF w(1)] ring_wf_del [OF w(2)] ring_wfD [OF w(1)] ring_wfD [OF w(2)]
    by (simp add: lockstep_def) (simp add: del_step ring_step_slot)
qed

lemma xfer_steps:
  assumes "lockstep (mhi_chan c i)" and "\<not> pre_alloc (mhi_chan c i)"
    and "k \<le> ring_count (tre_ring (mhi_chan c i))"
  shows "let c' = (xfer_one os i n st ^^ k) c; ch = mhi_chan c i; ch' = mhi_chan c' i in
    lockstep ch' \<and> \<not> pre_alloc ch' \<and> dir ch' = dir ch \<and> pm_state c' = pm_state c
    \<and> ring_content (tre_ring ch') = drop k (ring_content (tre_ring ch))
    \<and> ring_content (buf_ring ch') = drop k (ring_content (buf_ring ch))
    \<and> pending_pkts c' = pending_pkts c - (if dir ch = DMA_TO_DEVICE then int k else 0)
    \<and> callbacks c' = callbacks c @ map (completion_of i ch n st) (take k (ring_content (buf_ring ch)))
    \<and> (\<forall>j. j \<noteq> i \<longrightarrow> mhi_chan c' j = mhi_chan c j)"
  using assms(3)
proof (induction k)
  case 0
  then show ?case using assms by simp
next
  case (Suc k)
  let ?c = "(xfer_one os i n st ^^ k) c"
  let ?ch = "mhi_chan c i" and ?ch' = "mhi_chan ?c i"
  have IH: "lockstep ?ch'" "\<not> pre_alloc ?ch'" "dir ?ch' = dir ?ch" "pm_state ?c = pm_state c"
    "ring_content (tre_ring ?ch') = drop k (ring_content (tre_ring ?ch))"
    "ring_content (buf_ring ?ch') = drop k (ring_content (buf_ring ?ch))"
    "pending_pkts ?c = pending_pkts c - (if dir ?ch = DMA_TO_DEVICE then int k else 0)"
    "callbacks ?c = callbacks c @ map (completion_of i ?ch n st) (take k (ring_content (buf_ring ?ch)))"
    "\<forall>j. j \<noteq> i \<longrightarrow> mhi_chan ?c j = mhi_chan c j"
    using Suc by (simp_all add: Let_def)
  have w: "ring_wf (tre_ring ?ch')" "ring_wf (buf_ring ?ch')" using IH(1) by (simp_all add: lockstep_def)
  have cnt: "ring_count (tre_ring ?ch') = ring_count (tre_ring ?ch) - k"
    using arg_cong [OF IH(5), of length] by simp
  then have "0 < ring_count (tre_ring ?ch')" using Suc.prems by simp
  then have ne: "rp (tre_ring ?ch') \<noteq> wp (tre_ring ?ch')" "rp (buf_ring ?ch') \<noteq> wp (buf_ring ?ch')"
    using ring_empty_iff [OF w(1)] ring_empty_iff [OF w(2)] lockstep_count [OF IH(1)] by auto
  have k: "k < length (ring_content (buf_ring ?ch))"
    using Suc.prems lockstep_count [OF assms(1)] by simp
  have hd: "slots (buf_ring ?ch') (rp (buf_ring ?ch')) = ring_content (buf_ring ?ch) ! k"
    using ring_content_hd [OF w(2) ne(2)] IH(6) k by (simp add: hd_drop_conv_nth)
  show ?case
    using xfer_one_effect [OF IH(2), where os = os and n = n and st = st] IH lockstep_del [OF IH(1)]
      ring_content_del [OF w(1) ne(1)] ring_content_del [OF w(2) ne(2)] k hd
    by (simp add: Let_def drop_Suc tl_drop take_Suc_conv_app_nth completion_of_def)
qed

lemma mod_offset_dist:
  fixes i m n :: nat
  assumes "i < n" "m < n"
  shows "((i + m) mod n + n - i) mod n = m"
proof (cases "i + m < n")
  case True
  then show ?thesis using assms mod_add_diff [of i "i + m" n] by simp
next
  case False
  then have e: "(i + m) mod n = i + m - n" using assms by (simp add: mod_if)
  have "i + m - n < i" using assms False by simp
  then show ?thesis unfolding e using False mod_sub_diff [of "i + m - n" i n] assms by simp
qed

text \<open>The event for the queued descriptor number \<open>k\<close> asks for \<open>k + 1\<close> completions.\<close>

definition names_queued :: "mhi_tre mhi_ring \<Rightarrow> mhi_tre \<Rightarrow> nat \<Rightarrow> bool" where
  "names_queued r ev k \<longleftrightarrow> k < ring_count r \<and> el_size r = sizeof_mhi_tre
     \<and> MHI_TRE_GET_EV_PTR ev =
         mhi_to_physical r (slot_addr r ((slot_idx r (rp r) + k) mod unat (elements r)))"

lemma event_dev_rp_queued:
  assumes wf: "ring_wf r" and q: "names_queued r ev k"
  shows "on_ring r (event_dev_rp r ev)" and "ring_dist r (rp r) (event_dev_rp r ev) = Suc k"
proof -
  let ?n = "unat (elements r)" and ?i = "slot_idx r (rp r)"
  note w = ring_wfD [OF wf]
  have k: "k < ring_count r" using q by (simp add: names_queued_def)
  have i: "(?i + k) mod ?n < ?n" using w(6) by simp
  let ?a = "slot_addr r ((?i + k) mod ?n)"
  have a: "on_ring r ?a" "slot_idx r ?a = (?i + k) mod ?n"
    using on_ring_slot_addr [OF w(1) i] slot_idx_addr [OF w(1) i] by simp_all
  have e: "event_dev_rp r ev = ring_step r ?a"
    using q by (simp add: event_dev_rp_def ring_step_def names_queued_def)
  show "on_ring r (event_dev_rp r ev)"
    unfolding e using ring_step_slot(1) [OF w(1) a(1)] .
  have lt: "Suc k < ?n" using k ring_count_less [OF wf] by simp
  have "slot_idx r (event_dev_rp r ev) = (?i + Suc k) mod ?n"
    unfolding e ring_step_slot(2) [OF w(1) a(1)] a(2) by (simp add: mod_Suc_eq)
  then show "ring_dist r (rp r) (event_dev_rp r ev) = Suc k"
    using mod_offset_dist [OF w(4) lt] by (simp add: ring_dist_def)
qed

lemma count_used_chan [simp]:
  "tre_ring (mhi_chan (count_used_event i code c) j) = tre_ring (mhi_chan c j)"
  "buf_ring (mhi_chan (count_used_event i code c) j) = buf_ring (mhi_chan c j)"
  "dir (mhi_chan (count_used_event i code c) j) = dir (mhi_chan c j)"
  "pre_alloc (mhi_chan (count_used_event i code c) j) = pre_alloc (mhi_chan c j)"
  "lockstep (mhi_chan (count_used_event i code c) j) = lockstep (mhi_chan c j)"
  "j \<noteq> i \<Longrightarrow> mhi_chan (count_used_event i code c) j = mhi_chan c j"
  "pending_pkts (count_used_event i code c) = pending_pkts c"
  "callbacks (count_used_event i code c) = callbacks c"
  "pm_state (count_used_event i code c) = pm_state c"
  "bounce_buf (count_used_event i code c) = bounce_buf c"
  by (simp_all add: count_used_event_def lockstep_def)

lemma touch_chan_frame [simp]:
  "mhi_chan (touch_chan i c) = mhi_chan c" "pending_pkts (touch_chan i c) = pending_pkts c"
  "callbacks (touch_chan i c) = callbacks c" "pm_state (touch_chan i c) = pm_state c"
  "bounce_buf (touch_chan i c) = bounce_buf c"
  by (simp_all add: touch_chan_def callbacks_def)

definition transfer_code :: "mhi_tre \<Rightarrow> bool" where
  "transfer_code ev \<longleftrightarrow> MHI_TRE_GET_EV_CODE ev \<in> {MHI_EV_CC_OVERFLOW, MHI_EV_CC_EOB, MHI_EV_CC_EOT}"

definition event_status :: "mhi_tre \<Rightarrow> errno option" where
  "event_status ev = (if MHI_TRE_GET_EV_CODE ev = MHI_EV_CC_OVERFLOW then Some EOVERFLOW else None)"

lemma parse_transfer:
  assumes "ch_state (mhi_chan c i) = MHI_CH_STATE_ENABLED" "transfer_code ev"
  shows "parse_xfer_event os ev i c =
    xfer_loop os i (ucast (MHI_TRE_GET_EV_LEN ev)) (event_status ev)
      (event_dev_rp (tre_ring (mhi_chan c i)) ev)
      (count_used_event i (MHI_TRE_GET_EV_CODE ev) (touch_chan i c))"
  using assms by (simp add: parse_xfer_event_def Let_def transfer_code_def event_status_def)

text \<open>An event for the queued descriptor number \<open>k\<close> runs the loop \<open>k + 1\<close> times.\<close>

lemma completion_run:
  assumes "lockstep (mhi_chan c i)" and "ch_state (mhi_chan c i) = MHI_CH_STATE_ENABLED" and "transfer_code ev"
    and q: "names_queued (tre_ring (mhi_chan c i)) ev k"
  shows "parse_xfer_event os ev i c = Some ((xfer_one os i (ucast (MHI_TRE_GET_EV_LEN ev)) (event_status ev) ^^ Suc k)
      (count_used_event i (MHI_TRE_GET_EV_CODE ev) (touch_chan i c)))"
    and "Suc k \<le> ring_count (tre_ring (mhi_chan c i))"
proof -
  let ?r = "tre_ring (mhi_chan c i)"
  let ?c = "count_used_event i (MHI_TRE_GET_EV_CODE ev) (touch_chan i c)"
  have wf: "ring_wf ?r" using assms(1) by (simp add: lockstep_def)
  note d = event_dev_rp_queued [OF wf q]
  show "parse_xfer_event os ev i c = Some ((xfer_one os i (ucast (MHI_TRE_GET_EV_LEN ev)) (event_status ev) ^^ Suc k) ?c)"
    using xfer_loop_steps [of ?c i "event_dev_rp ?r ev"] ring_wfD [OF wf] d
    by (simp add: parse_transfer [OF assms(2,3)])
  show "Suc k \<le> ring_count ?r" using q by (simp add: names_queued_def)
qed

text \<open>What of a channel a completion has no part in.\<close>

lemma xfer_steps_kept:
  assumes "\<not> pre_alloc (mhi_chan c i)"
  shows "let ch = mhi_chan c i; ch' = mhi_chan ((xfer_one os i n st ^^ k) c) i in
    \<not> pre_alloc ch' \<and> queue_xfer ch' = queue_xfer ch \<and> offload_ch ch' = offload_ch ch \<and> ch_state ch' = ch_state ch
    \<and> elements (tre_ring ch') = elements (tre_ring ch)"
  using assms
  by (induction k) (simp_all add: xfer_one_effect(1) Let_def del_step)

section \<open>Properties\<close>

text \<open>
  C5: A transfer completion delivers in order: an event that names the queued descriptor
  number \<open>k\<close> of an enabled channel makes \<open>parse_xfer_event\<close> return with the oldest \<open>k + 1\<close>
  buffers handed to the client in the order they were queued, each with the event's length
  and status, exactly these removed from both rings, the rings still in lockstep, the packet
  count down by as many on an uplink, and every other channel untouched.
\<close>

theorem completion_in_order:
  assumes l: "lockstep (mhi_chan c i)" and p: "\<not> pre_alloc (mhi_chan c i)"
    and en: "ch_state (mhi_chan c i) = MHI_CH_STATE_ENABLED" and code: "transfer_code ev"
    and q: "names_queued (tre_ring (mhi_chan c i)) ev k"
  shows "case parse_xfer_event os ev i c of None \<Rightarrow> False | Some c' \<Rightarrow>
    (let ch = mhi_chan c i; ch' = mhi_chan c' i in
      lockstep ch'
      \<and> ring_content (tre_ring ch') = drop (Suc k) (ring_content (tre_ring ch))
      \<and> ring_content (buf_ring ch') = drop (Suc k) (ring_content (buf_ring ch))
      \<and> callbacks c' = callbacks c @ map (completion_of i ch (ucast (MHI_TRE_GET_EV_LEN ev)) (event_status ev))
          (take (Suc k) (ring_content (buf_ring ch)))
      \<and> pending_pkts c' = pending_pkts c - (if dir ch = DMA_TO_DEVICE then int (Suc k) else 0)
      \<and> (\<forall>j. j \<noteq> i \<longrightarrow> mhi_chan c' j = mhi_chan c j))"
proof -
  let ?c = "count_used_event i (MHI_TRE_GET_EV_CODE ev) (touch_chan i c)"
  show ?thesis
    using completion_run(1) [OF l en code q, where os = os] completion_run(2) [OF l en code q] l p
      xfer_steps [of ?c i "Suc k" os "ucast (MHI_TRE_GET_EV_LEN ev)" "event_status ev"]
    by (simp add: Let_def completion_of_def del: funpow.simps)
qed

text \<open>A channel with two queued descriptors, and the event for the second of them.\<close>

definition busy_chan :: mhi_chan where
  "busy_chan = demo_chan\<lparr>ch_state := MHI_CH_STATE_ENABLED,
     tre_ring := (tre_ring demo_chan)\<lparr>wp := 0x1020\<rparr>,
     buf_ring := (buf_ring demo_chan)\<lparr>wp := 0x2080\<rparr>\<rparr>"

definition busy_controller :: mhi_controller where
  "busy_controller = demo_controller\<lparr>mhi_chan := (\<lambda>_. busy_chan), pending_pkts := 2\<rparr>"

definition eot_event :: "u64 \<Rightarrow> mhi_tre" where
  "eot_event p = \<lparr>tre_ptr = p, dword0 = 0x020005DC, dword1 = 0x00220000\<rparr>"

lemmas busy_defs = busy_controller_def busy_chan_def demo_controller_def demo_chan_def zero_defs

lemma busy_lockstep: "lockstep (mhi_chan busy_controller 0)"
  by (simp add: busy_defs lockstep_def ring_wf_def ring_geom_def on_ring_def slot_idx_def)

lemma busy_fields:
  "\<not> pre_alloc (mhi_chan busy_controller 0)"
  "ch_state (mhi_chan busy_controller 0) = MHI_CH_STATE_ENABLED"
  "ring_count (tre_ring (mhi_chan busy_controller 0)) = 2"
  "pending_pkts busy_controller = 2" "dir (mhi_chan busy_controller 0) = DMA_TO_DEVICE"
  by (simp_all add: busy_defs ring_count_def slot_idx_def)

lemma eot_code: "transfer_code (eot_event p)"
  by (simp add: transfer_code_def eot_event_def MHI_TRE_GET_EV_CODE_def ccs_of_def)

lemma busy_event: "names_queued (tre_ring (mhi_chan busy_controller 0)) (eot_event 0x9010) 1"
  by (simp add: names_queued_def busy_fields)
     (simp add: busy_defs eot_event_def MHI_TRE_GET_EV_PTR_def sizeof_mhi_tre_def slot_addr_def
       slot_idx_def mhi_to_physical_def)

theorem completion_in_order_witness:
  "case parse_xfer_event link_up (eot_event 0x9010) 0 busy_controller of None \<Rightarrow> False | Some c' \<Rightarrow>
     pending_pkts c' = 0 \<and> ring_content (tre_ring (mhi_chan c' 0)) = []"
proof -
  have "length (ring_content (tre_ring (mhi_chan busy_controller 0))) = 2"
    by (simp add: busy_fields)
  then show ?thesis
    using completion_in_order [OF busy_lockstep busy_fields(1,2) eot_code busy_event, of link_up]
    by (auto simp: Let_def busy_fields split: option.splits)
qed



section \<open>Recycling pre-allocated buffers\<close>

lemma bounce_frame [simp]:
  "bounce_buf (snd (snd (call_map_single os b c))) = bounce_buf c"
  "bounce_buf (store_buf i b c) = bounce_buf c" "bounce_buf (store_tre i t c) = bounce_buf c"
  "bounce_buf (advance_wp i c) = bounce_buf c" "bounce_buf (count_pending d c) = bounce_buf c"
  "bounce_buf (ring_db_if_valid i c) = bounce_buf c" "bounce_buf (mon_submit_chan i t b c) = bounce_buf c"
  "bounce_buf (mon_receive_chan i n c) = bounce_buf c" "bounce_buf (count_completed d c) = bounce_buf c"
  "bounce_buf (call_unmap_single b c) = bounce_buf c"
proof -
  have f: "bounce_buf (fold (\<lambda>r. emit (g r)) rs c) = bounce_buf c" for g rs c
    by (induction rs arbitrary: c) simp_all
  show "bounce_buf (snd (snd (call_map_single os b c))) = bounce_buf c"
    by (simp add: call_map_single_def mhi_map_single_use_bb_def mhi_map_single_no_bb_def
      mhi_alloc_coherent_def Let_def split: option.splits prod.splits)
  show "bounce_buf (store_buf i b c) = bounce_buf c" "bounce_buf (store_tre i t c) = bounce_buf c"
    "bounce_buf (advance_wp i c) = bounce_buf c" "bounce_buf (count_pending d c) = bounce_buf c"
    by (simp_all add: store_buf_def store_tre_def advance_wp_def count_pending_def Let_def)
  show "bounce_buf (ring_db_if_valid i c) = bounce_buf c"
    by (simp add: ring_db_if_valid_def mhi_ring_chan_db_def call_process_db_def mhi_db_brstmode_def
      mhi_db_brstmode_disable_def write_db_eq Let_def split_beta split: process_db_fn.splits)
  show "bounce_buf (mon_submit_chan i t b c) = bounce_buf c"
    "bounce_buf (mon_receive_chan i n c) = bounce_buf c"
    by (simp_all add: mon_submit_chan_def mon_receive_chan_def mon_bus_submit_def mon_bus_receive_def Let_def f)
  show "bounce_buf (count_completed d c) = bounce_buf c" "bounce_buf (call_unmap_single b c) = bounce_buf c"
    by (simp_all add: count_completed_def call_unmap_single_def mhi_unmap_single_use_bb_def
      mhi_unmap_single_no_bb_def mhi_free_coherent_def Let_def)
qed

text \<open>A queue function that finds room, a working link and a mapping does not fail.\<close>

lemma queue_buf_ok:
  assumes "\<not> mhi_is_ring_full (tre_ring (mhi_chan c i))" "\<not> MHI_PM_IN_ERROR_STATE (pm_state c)"
    "\<not> bounce_buf c" "\<And>a n. dma_map os a n \<noteq> None"
  shows "fst (mhi_queue_buf os i buf ln fl c) = Inr ()"
    and "bounce_buf (snd (mhi_queue_buf os i buf ln fl c)) = bounce_buf c"
proof -
  let ?b = "(slots (buf_ring (mhi_chan c i)) (wp (buf_ring (mhi_chan c i))))\<lparr>v_addr := buf, cb_buf := buf,
      bi_wp := wp (tre_ring (mhi_chan c i)), bi_dir := dir (mhi_chan c i), bi_len := ln\<rparr>"
  obtain p where "dma_map os buf ln = Some p" using assms(4) [of buf ln] by auto
  then have m: "call_map_single os ?b c = (Inr (), ?b\<lparr>p_addr := p\<rparr>, c)"
    using assms(3) by (simp add: call_map_single_def mhi_map_single_no_bb_def)
  show "fst (mhi_queue_buf os i buf ln fl c) = Inr ()"
    using assms(1,2) m by (simp add: mhi_queue_buf_def mhi_gen_tre_def Let_def)
  show "bounce_buf (snd (mhi_queue_buf os i buf ln fl c)) = bounce_buf c"
    using assms(1,2) m by (simp add: mhi_queue_buf_def mhi_gen_tre_def Let_def)
qed

definition client_bufs :: "mhi_chan \<Rightarrow> (u64 \<times> u64) list" where
  "client_bufs ch = map (\<lambda>b. (cb_buf b, bi_len b)) (ring_content (buf_ring ch))"

definition recycling :: "mhi_os \<Rightarrow> nat \<Rightarrow> mhi_controller \<Rightarrow> bool" where
  "recycling os i c \<longleftrightarrow> lockstep (mhi_chan c i) \<and> pre_alloc (mhi_chan c i)
     \<and> 0 < ring_count (tre_ring (mhi_chan c i)) \<and> \<not> MHI_PM_IN_ERROR_STATE (pm_state c)
     \<and> \<not> bounce_buf c \<and> (\<forall>a n. dma_map os a n \<noteq> None)"

lemma shape_pre_alloc: "shape ch' = shape ch \<Longrightarrow> pre_alloc ch' = pre_alloc ch"
  by (simp add: shape_def Let_def)

lemma xfer_one_recycle:
  assumes "recycling os i c"
  shows "recycling os i (xfer_one os i n st c)
    \<and> client_bufs (mhi_chan (xfer_one os i n st c) i) = rotate1 (client_bufs (mhi_chan c i))"
proof -
  let ?ch = "mhi_chan c i"
  let ?ch1 = "?ch\<lparr>buf_ring := mhi_del_ring_element (buf_ring ?ch), tre_ring := mhi_del_ring_element (tre_ring ?ch)\<rparr>"
  have a: "lockstep ?ch" "pre_alloc ?ch" "0 < ring_count (tre_ring ?ch)"
    "\<not> MHI_PM_IN_ERROR_STATE (pm_state c)" "\<not> bounce_buf c" "\<And>a n. dma_map os a n \<noteq> None"
    using assms by (simp_all add: recycling_def)
  have w: "ring_wf (tre_ring ?ch)" "ring_wf (buf_ring ?ch)" using a(1) by (simp_all add: lockstep_def)
  have ne: "rp (tre_ring ?ch) \<noteq> wp (tre_ring ?ch)" "rp (buf_ring ?ch) \<noteq> wp (buf_ring ?ch)"
    using a(3) ring_empty_iff [OF w(1)] ring_empty_iff [OF w(2)] lockstep_count [OF a(1)] by auto
  let ?b = "slots (buf_ring ?ch) (rp (buf_ring ?ch))"
  have hd: "ring_content (buf_ring ?ch) = ?b # tl (ring_content (buf_ring ?ch))"
    using ring_content_hd [OF w(2) ne(2)] ring_empty_iff [OF w(2)] ne(2)
    by (metis length_0_conv length_ring_content list.collapse)
  have l1: "lockstep ?ch1" using lockstep_del [OF a(1)] .
  have "Suc (ring_count (tre_ring ?ch1)) = ring_count (tre_ring ?ch)"
    using ring_count_del [OF w(1) ne(1)] by simp
  then have nf: "\<not> mhi_is_ring_full (tre_ring ?ch1)"
    using ring_count_less [OF w(1)] ring_full_iff [of "tre_ring ?ch1"] l1
    by (auto simp: lockstep_def ring_fields)
  define c1 where "c1 = count_completed (dir ?ch) (emit (Xfer_cb i \<lparr>buf_addr = cb_buf ?b, res_dir = dir ?ch,
     bytes_xferd = ucast n, transaction_status = st\<rparr>) (del_both i (mon_receive_chan i n
       (if \<not> pre_mapped ?b then call_unmap_single ?b c else c))))"
  have c1: "mhi_chan c1 = (mhi_chan c)(i := ?ch1)" "pm_state c1 = pm_state c" "bounce_buf c1 = bounce_buf c"
    by (simp_all add: c1_def del_both_def)
  let ?q = "mhi_queue_buf os i (cb_buf ?b) (bi_len ?b) (mhi_flags_val MHI_EOT) c1"
  have ok: "fst ?q = Inr ()" "bounce_buf (snd ?q) = bounce_buf c1"
    using queue_buf_ok [of c1 i os] nf a(4-6) c1 by simp_all
  have x: "xfer_one os i n st c = snd ?q"
  proof -
    have "xfer_one os i n st c = requeue_buf os i ?b c1"
      by (simp add: xfer_one_def Let_def c1_def)
    also have "\<dots> = snd ?q"
      using a(2) ok(1) c1 by (cases ?q) (auto simp: requeue_buf_def)
    finally show ?thesis .
  qed
  obtain t b where ap: "appended (mhi_chan c1 i) t b (mhi_chan (snd ?q) i)" "cb_buf b = cb_buf ?b"
      "bi_len b = bi_len ?b" "pm_state (snd ?q) = pm_state c1"
    using queue_buf_appends [of c1 i "bi_len ?b" "mhi_flags_val MHI_EOT" os "cb_buf ?b"] l1 ok(1) c1(1)
    by (auto simp: queue_spec_def host_buf_def split: prod.splits)
  let ?f = "\<lambda>b. (cb_buf b, bi_len b)" and ?q_bufs = "ring_content (buf_ring (mhi_chan (snd ?q) i))"
  have qb: "?q_bufs = tl (ring_content (buf_ring ?ch)) @ [b]"
    using ap(1) ring_content_del [OF w(2) ne(2)] by (simp add: appended_def c1(1))
  have "rotate1 (client_bufs ?ch) = map ?f (tl (ring_content (buf_ring ?ch))) @ [?f ?b]"
    unfolding client_bufs_def arg_cong [OF hd, of "map ?f"] by (simp only: list.map rotate1.simps)
  then have bufs: "client_bufs (mhi_chan (snd ?q) i) = rotate1 (client_bufs ?ch)"
    unfolding client_bufs_def [of "mhi_chan (snd ?q) i"] qb by (simp add: ap(2,3))
  have "shape (mhi_chan (snd ?q) i) = shape (mhi_chan c1 i)" by (rule shape_queue_buf)
  from shape_pre_alloc [OF this] have "pre_alloc (mhi_chan (snd ?q) i)" using a(2) by (simp add: c1(1))
  moreover have "0 < ring_count (tre_ring (mhi_chan (snd ?q) i))"
    using arg_cong [of _ _ length, OF ap(1) [unfolded appended_def, THEN conjunct2, THEN conjunct1]] by simp
  ultimately show ?thesis
    using x bufs ap c1 ok a(4-6) by (simp add: recycling_def appended_def)
qed

lemma xfer_steps_recycle:
  "recycling os i c \<Longrightarrow> recycling os i ((xfer_one os i n st ^^ k) c)
    \<and> client_bufs (mhi_chan ((xfer_one os i n st ^^ k) c) i) = rotate k (client_bufs (mhi_chan c i))"
  by (induction k) (simp_all add: xfer_one_recycle rotate_def)

text \<open>
  C18: On a channel with pre-allocated buffers (lockstep rings, link not in an error state,
  mappings that succeed) a completion of \<open>k + 1\<close> descriptors gives every completed buffer
  straight back to the device: the queue keeps its length, holds the same client buffers with
  the same lengths, rotated by \<open>k + 1\<close>, and the rings stay in lockstep. No receive buffer is
  lost or duplicated.
\<close>

theorem recycled_buffers_rotate:
  assumes rc: "recycling os i c"
    and en: "ch_state (mhi_chan c i) = MHI_CH_STATE_ENABLED" and code: "transfer_code ev"
    and q: "names_queued (tre_ring (mhi_chan c i)) ev k"
  shows "case parse_xfer_event os ev i c of None \<Rightarrow> False | Some c' \<Rightarrow>
    client_bufs (mhi_chan c' i) = rotate (Suc k) (client_bufs (mhi_chan c i))
    \<and> lockstep (mhi_chan c' i)
    \<and> ring_count (tre_ring (mhi_chan c' i)) = ring_count (tre_ring (mhi_chan c i))"
proof -
  let ?r = "tre_ring (mhi_chan c i)" and ?n = "ucast (MHI_TRE_GET_EV_LEN ev) :: u16"
  let ?c = "count_used_event i (MHI_TRE_GET_EV_CODE ev) (touch_chan i c)"
  let ?c' = "(xfer_one os i ?n (event_status ev) ^^ Suc k) ?c"
  have l: "lockstep (mhi_chan c i)" using rc by (simp add: recycling_def)
  have wf: "ring_wf ?r" using l by (simp add: lockstep_def)
  note d = event_dev_rp_queued [OF wf q]
  have p: "parse_xfer_event os ev i c = Some ?c'"
    using xfer_loop_steps [of ?c i "event_dev_rp ?r ev"] ring_wfD [OF wf] d
    by (simp add: parse_transfer [OF en code])
  have r: "recycling os i ?c" using rc by (simp add: recycling_def)
  have b: "client_bufs (mhi_chan ?c i) = client_bufs (mhi_chan c i)" by (simp add: client_bufs_def)
  note s = xfer_steps_recycle [OF r, where n = ?n and st = "event_status ev" and k = "Suc k"]
  then have l': "lockstep (mhi_chan ?c' i)" unfolding recycling_def by blast
  have "length (client_bufs (mhi_chan ?c' i)) = length (client_bufs (mhi_chan c i))"
    using s b by (simp del: funpow.simps)
  then have "ring_count (tre_ring (mhi_chan ?c' i)) = ring_count ?r"
    using lockstep_count [OF l'] lockstep_count [OF l] by (simp add: client_bufs_def del: funpow.simps)
  then show ?thesis using p s b l' by (simp del: funpow.simps)
qed

definition rx_controller :: mhi_controller where
  "rx_controller = busy_controller\<lparr>mhi_chan := (\<lambda>_. busy_chan\<lparr>pre_alloc := True, dir := DMA_FROM_DEVICE\<rparr>)\<rparr>"

theorem recycled_buffers_rotate_witness:
  "case parse_xfer_event link_up (eot_event 0x9010) 0 rx_controller of None \<Rightarrow> False | Some c' \<Rightarrow>
     ring_count (tre_ring (mhi_chan c' 0)) = 2"
proof -
  let ?b = "mhi_chan busy_controller 0" and ?x = "mhi_chan rx_controller 0"
  have e: "tre_ring ?x = tre_ring ?b" "buf_ring ?x = buf_ring ?b" "ch_state ?x = ch_state ?b" "pre_alloc ?x"
    by (simp_all add: rx_controller_def busy_controller_def)
  have "pm_state rx_controller = MHI_PM_M0" "\<not> bounce_buf rx_controller"
    by (simp_all add: rx_controller_def busy_defs)
  then have "recycling link_up 0 rx_controller"
    using busy_lockstep e busy_fields pm_not_error(1)
    by (simp add: recycling_def lockstep_def link_up_def del: pm_state_defs)
  then show ?thesis
    using recycled_buffers_rotate [of link_up 0 rx_controller "eot_event 0x9010" 1] busy_event e
      busy_fields eot_code
    by (auto split: option.splits)
qed

section \<open>Coalesced completions\<close>

lemma ucast_ucast_cookie:
  fixes x :: u64
  assumes "unat x < 2 ^ 32"
  shows "(ucast (ucast x :: u32) :: u64) = x"
proof (rule unat_inj)
  show "unat (ucast (ucast x :: u32) :: u64) = unat x"
    using assms by (simp add: unsigned_ucast_eq unsigned_take_bit_eq take_bit_nat_eq_self)
qed

lemma queue_dma_buf_ring:
  assumes "mhi_queue_dma os i cb p ln c = (Inr (), c1)"
  obtains b where "cb_buf b = cb"
    and "buf_ring (mhi_chan c1 i) = ring_put b (buf_ring (mhi_chan c i))"
proof -
  let ?ch = "mhi_chan c i"
  let ?c0 = "wake_get_if (wants_wake (dir ?ch) (pm_state c)) (kick_suspended c)"
  let ?b0 = "(slots (buf_ring ?ch) (wp (buf_ring ?ch)))\<lparr>p_addr := p, pre_mapped := True, cb_buf := cb,
     bi_wp := wp (tre_ring ?ch), bi_dir := dir ?ch, bi_len := ln\<rparr>"
  define b where "b = (if xfer_type ?ch = MHI_XFER_RSC_DMA then ?b0\<lparr>bi_used := True\<rparr> else ?b0)"
  obtain t where "c1 = ring_db_if_valid i (advance_wp i
      (count_pending (dir ?ch) (mon_submit_chan i t b (store_tre i t (store_buf i b ?c0)))))"
    using assms by (auto simp: mhi_queue_dma_def Let_def b_def split: if_splits)
  then have "buf_ring (mhi_chan c1 i) = ring_put b (buf_ring ?ch)"
    using ring_db_chan [of i "advance_wp i (count_pending (dir ?ch) (mon_submit_chan i t b
      (store_tre i t (store_buf i b ?c0))))"]
    by (auto simp: advance_wp_def store_tre_def store_buf_def ring_put_def)
  moreover have "cb_buf b = cb" by (simp add: b_def)
  ultimately show ?thesis using that by blast
qed

lemma callbacks_touch [simp]: "callbacks (touch_ring r a c) = callbacks c"
  by (simp add: touch_ring_def callbacks_def)

text \<open>
  The cookie of a coalesced transfer finds its buffer again: after \<open>mhi_queue_dma\<close> on an
  \<open>MHI_XFER_RSC_DMA\<close> channel, an event that carries the cookie of the queued descriptor hands
  exactly the queued client buffer to the client, whichever descriptor the ring's read pointer
  names, marks the record unused again, advances the descriptor ring by one and stays inside
  the buffer ring.
\<close>

lemma rsc_cookie_roundtrip:
  assumes l: "lockstep (mhi_chan c i)" and x: "xfer_type (mhi_chan c i) = MHI_XFER_RSC_DMA"
    and sz: "unat (ring_len (buf_ring (mhi_chan c i))) < 2 ^ 32"
    and q: "mhi_queue_dma os i cb p ln c = (Inr (), c1)"
    and en: "ch_state (mhi_chan c1 i) = MHI_CH_STATE_ENABLED" and i: "i < max_chan c1"
    and ck: "MHI_TRE_GET_EV_COOKIE ev = dword0 (last (ring_content (tre_ring (mhi_chan c1 i))))"
  shows "let c2 = parse_rsc_event ev i c1; b = buf_ring (mhi_chan c1 i);
      a = wp (buf_ring (mhi_chan c i)) in
    callbacks c2 = callbacks c1 @ [Xfer_cb i \<lparr>buf_addr = cb, res_dir = dir (mhi_chan c1 i),
       bytes_xferd = ucast (ucast (MHI_TRE_GET_EV_LEN ev) :: u16), transaction_status = event_status ev\<rparr>]
    \<and> \<not> bi_used (slots (buf_ring (mhi_chan c2 i)) a)
    \<and> tre_ring (mhi_chan c2 i) = mhi_del_ring_element (tre_ring (mhi_chan c1 i))
    \<and> ub c2 = ub c1"
proof -
  let ?br = "buf_ring (mhi_chan c i)" and ?b1 = "buf_ring (mhi_chan c1 i)"
  have wf: "ring_wf ?br" using l by (simp add: lockstep_def)
  note w = ring_wfD [OF wf]
  obtain b where b: "cb_buf b = cb" "?b1 = ring_put b ?br" using queue_dma_buf_ring [OF q] .
  have put: "base ?b1 = base ?br" "on_ring ?b1 z = on_ring ?br z" "slots ?b1 (wp ?br) = b" for z
    unfolding b(2) by (simp_all add: ring_put_def ring_write_def mhi_add_ring_element_def on_ring_def Let_def)
  obtain t b' where t: "dma_good (mhi_chan c i) p cb ln t b'" "appended (mhi_chan c i) t b' (mhi_chan c1 i)"
    using queue_dma_appends [OF l, of p cb ln os] q by (auto simp: queue_spec_def)
  have "dword0 t = ucast (wp ?br - base ?br)" using t(1) x by (simp add: dma_good_def)
  moreover have "last (ring_content (tre_ring (mhi_chan c1 i))) = t" using t(2) by (simp add: appended_def)
  ultimately have cookie: "MHI_TRE_GET_EV_COOKIE ev = ucast (wp ?br - base ?br)" using ck by simp
  have bw: "unat (base ?br) \<le> unat (wp ?br)" "unat (wp ?br) < unat (base ?br) + unat (ring_len ?br)"
    using w(3) by (simp_all add: on_ring_def)
  have "unat (wp ?br - base ?br) = unat (wp ?br) - unat (base ?br)" using bw(1) by (rule unat_minus_le)
  then have "unat (wp ?br - base ?br) < 2 ^ 32" using bw sz by linarith
  from ucast_ucast_cookie [OF this] have a: "base ?b1 + ucast (MHI_TRE_GET_EV_COOKIE ev) = wp ?br"
    by (simp add: cookie put)
  have tr: "touch_ring ?b1 (wp ?br) c1 = c1" using w(3) put by (simp add: touch_ring_def)
  have tc: "touch_chan i c1 = c1" using i by (simp add: touch_chan_def)
  have es: "(if MHI_TRE_GET_EV_CODE ev = MHI_EV_CC_OVERFLOW then Some EOVERFLOW else None) = event_status ev"
    by (simp add: event_status_def)
  show ?thesis
    unfolding parse_rsc_event_def Let_def tc a tr es using en b(1) put(3) by simp
qed

lemma max_chan_frame [simp]:
  "max_chan (store_buf i b c) = max_chan c" "max_chan (store_tre i t c) = max_chan c"
  "max_chan (advance_wp i c) = max_chan c" "max_chan (count_pending d c) = max_chan c"
  "max_chan (ring_db_if_valid i c) = max_chan c" "max_chan (mon_submit_chan i t b c) = max_chan c"
  "max_chan (wake_get_if w c) = max_chan c" "max_chan (kick_suspended c) = max_chan c"
proof -
  have f: "max_chan (fold (\<lambda>r. emit (g r)) rs c) = max_chan c" for g rs c
    by (induction rs arbitrary: c) simp_all
  show "max_chan (store_buf i b c) = max_chan c" "max_chan (store_tre i t c) = max_chan c"
    "max_chan (advance_wp i c) = max_chan c" "max_chan (count_pending d c) = max_chan c"
    "max_chan (wake_get_if w c) = max_chan c" "max_chan (kick_suspended c) = max_chan c"
    by (simp_all add: store_buf_def store_tre_def advance_wp_def count_pending_def wake_get_if_def
        kick_suspended_def Let_def)
  show "max_chan (ring_db_if_valid i c) = max_chan c" by (simp add: ring_db_if_valid_def)
  show "max_chan (mon_submit_chan i t b c) = max_chan c"
    by (simp add: mon_submit_chan_def mon_bus_submit_def Let_def f)
qed

lemma queue_dma_frame [simp]:
  "shape (mhi_chan (snd (mhi_queue_dma os i cb p ln c)) j) = shape (mhi_chan c j)"
  "max_chan (snd (mhi_queue_dma os i cb p ln c)) = max_chan c"
  by (simp_all add: mhi_queue_dma_def Let_def)

definition rsc_controller :: mhi_controller where
  "rsc_controller = demo_controller\<lparr>mhi_chan := (\<lambda>_. demo_chan\<lparr>ch_state := MHI_CH_STATE_ENABLED,
     xfer_type := MHI_XFER_RSC_DMA\<rparr>)\<rparr>"

lemma rsc_cookie_roundtrip_instance:
  "\<exists>c1. mhi_queue_dma link_up 0 0x77 0x7000 64 rsc_controller = (Inr (), c1)
     \<and> last (callbacks (parse_rsc_event (eot_event 0) 0 c1)) =
       Xfer_cb 0 \<lparr>buf_addr = 0x77, res_dir = dir (mhi_chan c1 0), bytes_xferd = 0x5DC,
         transaction_status = None\<rparr>"
proof -
  let ?c = "rsc_controller" and ?q = "mhi_queue_dma link_up 0 0x77 0x7000 64 rsc_controller"
  have l: "lockstep (mhi_chan ?c 0)"
    using demo_lockstep by (simp add: rsc_controller_def demo_controller_def lockstep_def)
  have x: "xfer_type (mhi_chan ?c 0) = MHI_XFER_RSC_DMA" "unat (ring_len (buf_ring (mhi_chan ?c 0))) < 2 ^ 32"
    "ch_state (mhi_chan ?c 0) = MHI_CH_STATE_ENABLED" "max_chan ?c = 128"
    "wp (buf_ring (mhi_chan ?c 0)) = base (buf_ring (mhi_chan ?c 0))"
    by (simp_all add: rsc_controller_def demo_controller_def demo_chan_def)
  have "fst ?q = Inr ()"
    by (simp add: mhi_queue_dma_def rsc_controller_def demo_controller_def demo_chan_def zero_defs
        mhi_is_ring_full_def MHI_PM_IN_ERROR_STATE_def pm_state_defs Let_def)
  then obtain c1 where q: "?q = (Inr (), c1)" by (cases ?q) simp
  have s: "shape (mhi_chan c1 0) = shape (mhi_chan ?c 0)" "max_chan c1 = 128"
    using queue_dma_frame [of link_up 0 "0x77" "0x7000" 64 ?c] q x(4) by simp_all
  have en: "ch_state (mhi_chan c1 0) = MHI_CH_STATE_ENABLED" using s(1) x(3) by (simp add: shape_def Let_def)
  have ck: "MHI_TRE_GET_EV_COOKIE (eot_event 0) = dword0 (last (ring_content (tre_ring (mhi_chan c1 0))))"
    using queue_dma_appends [OF l, of "0x7000" "0x77" 64 link_up] q x(1,5)
    by (auto simp: queue_spec_def dma_good_def appended_def MHI_TRE_GET_EV_COOKIE_def eot_event_def
        lower_32_bits_def)
  show ?thesis
    using rsc_cookie_roundtrip [OF l x(1,2) q en _ ck] s(2) q
    by (simp add: Let_def event_status_def MHI_TRE_GET_EV_LEN_def MHI_TRE_GET_EV_CODE_def eot_event_def
        ccs_of_def)
qed
end
