(* ===== verification/Mhi_Event.thy ===== *)
theory Mhi_Event
  imports Mhi_Xfer
begin

text \<open>
  Event rings: the handlers of \<open>core/mhi_main.c\<close> that walk a ring of events, and the tasks and
  interrupt handlers around them. \<open>None\<close> is a handler that does not return: it loops, waits
  for a lock that is never released, or goes through a null pointer. The device's read pointer
  of a ring is a field of the event context; it does not move while a handler runs.
\<close>

section \<open>Command completions\<close>

definition mhi_process_cmd_completion :: "mhi_tre \<Rightarrow> mhi_controller \<Rightarrow> mhi_controller option" where
  "mhi_process_cmd_completion tre c =
     (let r = cmd_ring c;
          a = mhi_to_virtual r (MHI_TRE_GET_EV_PTR tre);
          c = touch_ring r a c;
          cmd_pkt = slots r a
      in map_option (\<lambda>c. c\<lparr>cmd_ring := mhi_del_ring_element (cmd_ring c)\<rparr>)
           (if MHI_TRE_GET_CMD_TYPE cmd_pkt = MHI_CMD_TYPE_TSYNC
            then (case mhi_tsync c of
                    None \<Rightarrow> None
                  | Some ts \<Rightarrow> Some (c\<lparr>mhi_tsync := Some (ts\<lparr>ts_ccs := MHI_TRE_GET_EV_CODE tre,
                                 ts_completion := complete_one (ts_completion ts)\<rparr>)\<rparr>))
            else (let i = unat (MHI_TRE_GET_CMD_CHID cmd_pkt)
                  in Some (upd_chan i (\<lambda>ch. ch\<lparr>ccs := MHI_TRE_GET_EV_CODE tre,
                             ch_completion := complete_one (ch_completion ch)\<rparr>) (touch_chan i c)))))"


section \<open>The control event ring\<close>

definition handle_state_change :: "mhi_os \<Rightarrow> mhi_dev_state \<Rightarrow> mhi_controller \<Rightarrow> mhi_controller" where
  "handle_state_change os new_state c =
     (if new_state = MHI_STATE_M0 then snd (mhi_pm_m0_transition c)
      else if new_state = MHI_STATE_M1 then mhi_pm_m1_transition os c
      else if new_state = MHI_STATE_M3 then snd (mhi_pm_m3_transition c)
      else if new_state = MHI_STATE_SYS_ERR
      then (let (st, c) = mhi_tryset_pm_state MHI_PM_SYS_ERR_DETECT c
            in if st = MHI_PM_SYS_ERR_DETECT then emit (Schedule_work Syserr_worker) c else c)
      else c)"

definition handle_ee_event :: "mhi_os \<Rightarrow> mhi_ee \<Rightarrow> mhi_controller \<Rightarrow> mhi_controller" where
  "handle_ee_event os event c =
     (let st = (if event = MHI_EE_SBL then MHI_ST_TRANSITION_SBL
                else if event = MHI_EE_FP then MHI_ST_TRANSITION_FP
                else if event = MHI_EE_WFW \<or> event = MHI_EE_AMSS then MHI_ST_TRANSITION_MISSION_MODE
                else MHI_ST_TRANSITION_MAX);
          c = (if event = MHI_EE_RDDM
               then emit Wake_up_all ((emit (Status_cb MHI_CB_EE_RDDM) c)\<lparr>ee := event\<rparr>) else c)
      in if st \<noteq> MHI_ST_TRANSITION_MAX then snd (mhi_queue_state_transition os st c) else c)"

definition handle_ctrl_event :: "mhi_os \<Rightarrow> mhi_tre \<Rightarrow> mhi_controller \<Rightarrow> mhi_controller option" where
  "handle_ctrl_event os ev c =
     (case MHI_TRE_GET_EV_TYPE ev of
        MHI_PKT_TYPE_STATE_CHANGE_EVENT \<Rightarrow> Some (handle_state_change os (MHI_TRE_GET_EV_STATE ev) c)
      | MHI_PKT_TYPE_CMD_COMPLETION_EVENT \<Rightarrow> mhi_process_cmd_completion ev c
      | MHI_PKT_TYPE_EE_EVENT \<Rightarrow> Some (handle_ee_event os (MHI_TRE_GET_EV_EXECENV ev) c)
      | MHI_PKT_TYPE_TX_EVENT \<Rightarrow> parse_xfer_event os ev (unat (MHI_TRE_GET_EV_CHID ev)) c
      | MHI_PKT_TYPE_RSC_TX_EVENT \<Rightarrow> Some (parse_rsc_event ev (unat (MHI_TRE_GET_EV_CHID ev)) c)
      | _ \<Rightarrow> Some c)"

definition mon_complete_event :: "nat \<Rightarrow> mhi_controller \<Rightarrow> mhi_controller" where
  "mon_complete_event e c =
     (let r = ev_ring (mhi_event c e)
      in if r_list c \<noteq> []
         then mon_bus_complete (of_nat (er_index (mhi_event c e))) (mhi_to_physical r (rp r)) (slots r (rp r)) c
         else c)"

definition recycle_event :: "nat \<Rightarrow> mhi_controller \<Rightarrow> mhi_controller" where
  "recycle_event e = upd_event e (\<lambda>ev. ev\<lparr>ev_ring := mhi_recycle_ev_ring_element (ev_ring ev)\<rparr>)"

definition ev_dev_rp :: "nat \<Rightarrow> mhi_controller \<Rightarrow> u64" where
  "ev_dev_rp e c = mhi_to_virtual (ev_ring (mhi_event c e)) (er_rp (er_ctxt c (er_index (mhi_event c e))))"

text \<open>The last part of the two data handlers: the high-water mark and the doorbell.\<close>

definition note_used_events :: "nat \<Rightarrow> nat \<Rightarrow> mhi_controller \<Rightarrow> mhi_controller" where
  "note_used_events e count c =
     (if ev_used_elements (mhi_event c e) < of_nat count
      then upd_event e (\<lambda>ev. ev\<lparr>ev_used_elements := of_nat count\<rparr>) c else c)"

definition ring_er_if_valid :: "nat \<Rightarrow> mhi_controller \<Rightarrow> mhi_controller" where
  "ring_er_if_valid e c = (if MHI_DB_ACCESS_VALID (pm_state c) then mhi_ring_er_db e c else c)"

partial_function (option) ctrl_loop ::
  "mhi_os \<Rightarrow> nat \<Rightarrow> nat \<Rightarrow> mhi_controller \<Rightarrow> (nat \<times> mhi_controller) option" where
  "ctrl_loop os e count c =
     (let r = ev_ring (mhi_event c e)
      in if ev_dev_rp e c = rp r then Some (count, c)
         else Option.bind (handle_ctrl_event os (slots r (rp r)) (mon_complete_event e c))
                (\<lambda>c. ctrl_loop os e (Suc count) (recycle_event e c)))"

definition mhi_process_ctrl_ev_ring ::
  "mhi_os \<Rightarrow> nat \<Rightarrow> mhi_controller \<Rightarrow> (nat res \<times> mhi_controller) option" where
  "mhi_process_ctrl_ev_ring os e c =
     (if MHI_EVENT_ACCESS_INVALID (pm_state c) then Some (Inl EIO, c)
      else map_option (\<lambda>(count, c). (Inr count, ring_er_if_valid e (note_used_events e count c)))
             (ctrl_loop os e 0 c))"

section \<open>Data event rings\<close>

definition handle_data_event :: "mhi_os \<Rightarrow> mhi_tre \<Rightarrow> nat \<Rightarrow> mhi_controller \<Rightarrow> mhi_controller option" where
  "handle_data_event os ev i c =
     (case MHI_TRE_GET_EV_TYPE ev of
        MHI_PKT_TYPE_TX_EVENT \<Rightarrow> parse_xfer_event os ev i c
      | MHI_PKT_TYPE_RSC_TX_EVENT \<Rightarrow> Some (parse_rsc_event ev i c)
      | _ \<Rightarrow> Some c)"

definition spends_quota :: "mhi_tre \<Rightarrow> bool" where
  "spends_quota ev \<longleftrightarrow>
     MHI_TRE_GET_EV_TYPE ev = MHI_PKT_TYPE_TX_EVENT \<or> MHI_TRE_GET_EV_TYPE ev = MHI_PKT_TYPE_RSC_TX_EVENT"

definition note_used_chan :: "nat \<Rightarrow> u32 \<Rightarrow> mhi_controller \<Rightarrow> mhi_controller" where
  "note_used_chan i n c =
     (if ch_used_elements (mhi_chan c i) < n
      then upd_chan i (\<lambda>ch. ch\<lparr>ch_used_elements := n\<rparr>) c else c)"

partial_function (option) data_loop ::
  "mhi_os \<Rightarrow> nat \<Rightarrow> u64 \<Rightarrow> u32 \<Rightarrow> u32 \<Rightarrow> nat \<Rightarrow> mhi_controller \<Rightarrow> (nat \<times> mhi_controller) option" where
  "data_loop os e dev_rp event_quota chan_count count c =
     (let r = ev_ring (mhi_event c e)
      in if dev_rp = rp r \<or> event_quota = 0 then Some (count, c)
         else
           let ev = slots r (rp r);
               i = unat (MHI_TRE_GET_EV_CHID ev);
               c = touch_chan i c;
               chan_local_rp = rp (tre_ring (mhi_chan c i))
           in Option.bind (handle_data_event os ev i (mon_complete_event e c)) (\<lambda>c.
               let event_quota = (if spends_quota ev then event_quota - 1 else event_quota);
                   tr = tre_ring (mhi_chan c i);
                   chan_count = chan_count +
                     get_used_ring_elements chan_local_rp (rp tr) (ucast (elements tr));
                   c = recycle_event e c;
                   last = (rp (ev_ring (mhi_event c e)) = dev_rp \<or> event_quota = 0)
               in if last
                  then data_loop os e (ev_dev_rp e c) event_quota 0 (Suc count) (note_used_chan i chan_count c)
                  else data_loop os e dev_rp event_quota chan_count (Suc count) c))"

definition mhi_process_data_event_ring ::
  "mhi_os \<Rightarrow> nat \<Rightarrow> u32 \<Rightarrow> mhi_controller \<Rightarrow> (nat res \<times> mhi_controller) option" where
  "mhi_process_data_event_ring os e event_quota c =
     (if MHI_EVENT_ACCESS_INVALID (pm_state c) then Some (Inl EIO, c)
      else map_option (\<lambda>(count, c). (Inr count, ring_er_if_valid e (note_used_events e count c)))
             (data_loop os e (ev_dev_rp e c) event_quota 0 0 c))"

section \<open>The time sync event ring\<close>

text \<open>
  The inner loop takes the lock, takes the first request off the list and drops the lock
  again, until the list is empty; then it leaves with the lock still held. A request whose
  sequence number is the event's gets its callback.
\<close>

definition tsync_answer :: "u32 \<Rightarrow> u64 \<Rightarrow> tsync_node \<Rightarrow> mhi_controller \<Rightarrow> mhi_controller" where
  "tsync_answer sequence remote_time n c =
     (if ts_sequence n = sequence
      then emit (Tsync_cb (ts_mhi_dev n) sequence (local_time n) remote_time) c else c)"

definition tsync_event :: "mhi_tre \<Rightarrow> mhi_controller \<Rightarrow> mhi_controller option" where
  "tsync_event ev c =
     (case mhi_tsync c of
        None \<Rightarrow> None
      | Some ts \<Rightarrow>
          if ts_lock ts then None
          else (let c = fold (tsync_answer (MHI_TRE_GET_EV_SEQ ev) (MHI_TRE_GET_EV_TIME ev)) (ts_head ts) c
                in Some (c\<lparr>mhi_tsync := Some (ts\<lparr>ts_head := [], ts_lock := True\<rparr>)\<rparr>)))"

partial_function (option) tsync_loop ::
  "nat \<Rightarrow> nat \<Rightarrow> mhi_controller \<Rightarrow> (nat \<times> mhi_controller) option" where
  "tsync_loop e count c =
     (let r = ev_ring (mhi_event c e)
      in if ev_dev_rp e c = rp r then Some (count, c)
         else Option.bind (tsync_event (slots r (rp r)) c)
                (\<lambda>c. tsync_loop e (Suc count) (recycle_event e c)))"

text \<open>The error path drops a lock the handler never took.\<close>

definition mhi_process_tsync_event_ring ::
  "nat \<Rightarrow> mhi_controller \<Rightarrow> (nat res \<times> mhi_controller) option" where
  "mhi_process_tsync_event_ring e c =
     (if MHI_EVENT_ACCESS_INVALID (pm_state c) then Some (Inl EIO, c\<lparr>ub := True\<rparr>)
      else map_option (\<lambda>(count, c). (Inr count, ring_er_if_valid e c)) (tsync_loop e 0 c))"

section \<open>Tasks and interrupts\<close>

text \<open>The call through \<open>process_event\<close>, which registration sets by the ring's data type.\<close>

definition call_process_event ::
  "mhi_os \<Rightarrow> nat \<Rightarrow> u32 \<Rightarrow> mhi_controller \<Rightarrow> (nat res \<times> mhi_controller) option" where
  "call_process_event os e event_quota c =
     (case data_type (mhi_event c e) of
        MHI_ER_DATA_ELEMENT_TYPE \<Rightarrow> mhi_process_data_event_ring os e event_quota c
      | MHI_ER_CTRL_ELEMENT_TYPE \<Rightarrow> mhi_process_ctrl_ev_ring os e c
      | MHI_ER_TSYNC_ELEMENT_TYPE \<Rightarrow> mhi_process_tsync_event_ring e c)"

definition mhi_ev_task :: "mhi_os \<Rightarrow> nat \<Rightarrow> mhi_controller \<Rightarrow> mhi_controller option" where
  "mhi_ev_task os e c = map_option snd (call_process_event os e (NOT 0) (emit Mark_last_busy c))"

definition mhi_ctrl_ev_task :: "mhi_os \<Rightarrow> nat \<Rightarrow> mhi_controller \<Rightarrow> mhi_controller option" where
  "mhi_ctrl_ev_task os e c =
     (if \<not> MHI_REG_ACCESS_VALID (pm_state c) then Some c
      else map_option (\<lambda>(ret, c).
             if ret = Inr 0
             then (let (pm, c) = (if mhi_get_mhi_state os c = MHI_STATE_SYS_ERR
                                  then mhi_tryset_pm_state MHI_PM_SYS_ERR_DETECT c else (0, c))
                   in if pm = MHI_PM_SYS_ERR_DETECT then emit (Schedule_work Syserr_worker) c else c)
             else c)
           (call_process_event os e (NOT 0) (emit Mark_last_busy c)))"

definition mhi_msi_handlr :: "nat \<Rightarrow> mhi_controller \<Rightarrow> mhi_controller" where
  "mhi_msi_handlr e c =
     (if rp (ev_ring (mhi_event c e)) = ev_dev_rp e c then c
      else if cl_manage (mhi_event c e)
      then (case ev_mhi_chan (mhi_event c e) of
              None \<Rightarrow> c\<lparr>ub := True\<rparr>
            | Some i \<Rightarrow> (case ch_mhi_dev (mhi_chan c i) of
                None \<Rightarrow> c | Some d \<Rightarrow> emit (Dev_status_cb d MHI_CB_PENDING_DATA) c))
      else emit (Tasklet_schedule e) c)"

definition NUM_MHI_EVT_RINGS :: nat where
  "NUM_MHI_EVT_RINGS = 3"

definition one_msi_pending :: "nat \<Rightarrow> mhi_controller \<Rightarrow> bool" where
  "one_msi_pending e c \<longleftrightarrow>
     rp (ev_ring (mhi_event c e)) \<noteq> mhi_to_virtual (ev_ring (mhi_event c e)) (er_rp (er_ctxt c e))"

definition one_msi_step :: "nat \<Rightarrow> nat \<times> mhi_controller \<Rightarrow> nat \<times> mhi_controller" where
  "one_msi_step e hc =
     (let (handle, c) = hc;
          c = (if e < total_ev_rings c then c else c\<lparr>ub := True\<rparr>)
      in if one_msi_pending e c then (Suc handle, mhi_msi_handlr e c) else (handle, c))"

definition mhi_one_msi_handlr :: "mhi_os \<Rightarrow> mhi_controller \<Rightarrow> mhi_controller" where
  "mhi_one_msi_handlr os c =
     (let (handle, c) = fold one_msi_step [0..<NUM_MHI_EVT_RINGS] (0, c)
      in if handle = 0 then mhi_intvec_threaded_handlr os c else c)"

definition mhi_poll ::
  "mhi_os \<Rightarrow> mhi_device \<Rightarrow> u32 \<Rightarrow> mhi_controller \<Rightarrow> (nat res \<times> mhi_controller) option" where
  "mhi_poll os d budget c =
     Option.bind (dl_chan d) (\<lambda>i. call_process_event os (ch_er_index (mhi_chan c i)) budget c)"

section \<open>What event handling leaves alone\<close>

definition keeps :: "mhi_controller \<Rightarrow> mhi_controller \<Rightarrow> bool" where
  "keeps c c' \<longleftrightarrow> mhi_event c' = mhi_event c \<and> er_ctxt c' = er_ctxt c \<and> pm_state c' = pm_state c
     \<and> cmd_ring c' = cmd_ring c \<and> max_chan c' = max_chan c \<and> mhi_tsync c' = mhi_tsync c
     \<and> total_ev_rings c' = total_ev_rings c"

lemma keeps_refl [simp]: "keeps c c"
  by (simp add: keeps_def)

lemma keeps_trans: "keeps a b \<Longrightarrow> keeps b c \<Longrightarrow> keeps a c"
  by (simp add: keeps_def)

lemma keeps_mon:
  "keeps c (fold (\<lambda>r. emit (g r)) rs c)"
  by (induction rs arbitrary: c) (simp, force simp: keeps_def)

lemma keeps_steps:
  "keeps c (emit e c)" "keeps c (upd_chan i f c)" "keeps c (c\<lparr>pending_pkts := p\<rparr>)"
  "keeps c (c\<lparr>alloc_size := a\<rparr>)" "keeps c (touch_chan i c)" "keeps c (touch_ring r x c)"
  "keeps c (mhi_ring_chan_db i c)" "keeps c (ring_db_if_valid i c)" "keeps c (c\<lparr>cnt_events := q\<rparr>)"
  "keeps c (count_used_event i code c)" "keeps c (note_used_chan i k c)"
  "keeps c (count_pending d c)" "keeps c (count_completed d c)" "keeps c (kick_suspended c)"
  "keeps c (wake_get_if w c)" "keeps c (store_buf i b c)" "keeps c (store_tre i t c)"
  "keeps c (advance_wp i c)" "keeps c (del_both i c)"
  by (simp_all add: keeps_def touch_chan_def touch_ring_def ring_db_if_valid_def count_used_event_def
      note_used_chan_def count_pending_def count_completed_def kick_suspended_def wake_get_if_def
      mhi_assert_dev_wake_def write_db_eq store_buf_def store_tre_def advance_wp_def del_both_def
      mhi_ring_chan_db_def split_beta Let_def)

lemma keeps_mons:
  "keeps c (mon_submit_chan i t b c)" "keeps c (mon_receive_chan i n c)" "keeps c (mon_complete_event e c)"
proof -
  have "keeps c (fold (\<lambda>r. emit (g r)) rs (c\<lparr>cnt_events := q\<rparr>))"
    for g :: "nat \<Rightarrow> obs" and rs q
    by (rule keeps_trans [OF keeps_steps(9) keeps_mon])
  then show "keeps c (mon_submit_chan i t b c)" "keeps c (mon_receive_chan i n c)"
    "keeps c (mon_complete_event e c)"
    by (simp_all add: mon_submit_chan_def mon_receive_chan_def mon_complete_event_def mon_bus_submit_def
      mon_bus_receive_def mon_bus_complete_def Let_def)
qed

lemma keeps_map:
  "keeps c (snd (snd (call_map_single os b c)))" "keeps c (call_unmap_single b c)"
  by (simp_all add: keeps_def call_map_single_def mhi_map_single_use_bb_def mhi_map_single_no_bb_def
      mhi_alloc_coherent_def call_unmap_single_def mhi_unmap_single_use_bb_def mhi_unmap_single_no_bb_def
      mhi_free_coherent_def Let_def split: option.splits prod.splits)

lemma keeps_gen_tre: "keeps c (snd (mhi_gen_tre os i buf cb ln fl c))"
proof -
  let ?b = "(slots (buf_ring (mhi_chan c i)) (wp (buf_ring (mhi_chan c i))))\<lparr>v_addr := buf, cb_buf := cb,
      bi_wp := wp (tre_ring (mhi_chan c i)), bi_dir := dir (mhi_chan c i), bi_len := ln\<rparr>"
  obtain ret b c1 where m: "call_map_single os ?b c = (ret, b, c1)" by (metis prod_cases3)
  then have k: "keeps c c1" using keeps_map(1) [of c os ?b] by simp
  have a: "keeps c (store_buf i b c1)" by (rule keeps_trans [OF k keeps_steps(16)])
  have "keeps c (advance_wp i (mon_submit_chan i t b (store_tre i t (store_buf i b c1))))" for t
    by (intro keeps_trans [OF _ keeps_steps(18)] keeps_trans [OF _ keeps_mons(1)]
        keeps_trans [OF _ keeps_steps(17)] a)
  with a show ?thesis using m by (cases ret) (simp_all add: mhi_gen_tre_def Let_def)
qed

lemma keeps_queue_buf: "keeps c (snd (mhi_queue_buf os i buf ln fl c))"
proof -
  obtain r c1 where g: "mhi_gen_tre os i buf buf ln fl c = (r, c1)" by (meson surj_pair)
  then have k: "keeps c c1" using keeps_gen_tre [of c os i buf buf ln fl] by simp
  have "keeps c (ring_db_if_valid i (count_pending d (wake_get_if w (kick_suspended c1))))" for d w
    by (intro keeps_trans [OF _ keeps_steps(8)] keeps_trans [OF _ keeps_steps(12)]
        keeps_trans [OF _ keeps_steps(15)] keeps_trans [OF k keeps_steps(14)])
  then show ?thesis
    using g k by (cases r) (simp_all add: mhi_queue_buf_def Let_def)
qed

lemma keeps_requeue: "keeps c (requeue_buf os i b c)"
proof -
  obtain r c1 where q: "mhi_queue_buf os i (cb_buf b) (bi_len b) (mhi_flags_val MHI_EOT) c = (r, c1)"
    by (meson surj_pair)
  then have "keeps c c1" using keeps_queue_buf [of c os i "cb_buf b" "bi_len b" "mhi_flags_val MHI_EOT"] by simp
  then show ?thesis using q by (cases r) (simp_all add: requeue_buf_def keeps_trans [OF _ keeps_steps(1)])
qed

lemma keeps_xfer_one: "keeps c (xfer_one os i n st c)"
proof -
  have u: "keeps c (if p then call_unmap_single b c else c)" for p b
    using keeps_map(2) by simp
  show ?thesis
    unfolding xfer_one_def Let_def deassert_id if_cancel
    by (intro keeps_trans [OF _ keeps_requeue] keeps_trans [OF _ keeps_steps(13)] keeps_trans [OF _ keeps_steps(1)]
        keeps_trans [OF _ keeps_steps(19)] keeps_trans [OF _ keeps_mons(2)] u)
qed

text \<open>The geometry of the descriptor rings, which decides where a walk ends.\<close>

definition chan_geom :: "mhi_chan \<Rightarrow> u64 \<times> u64 \<times> u64 \<times> u64 \<times> u64" where
  "chan_geom ch = (let r = tre_ring ch in (base r, ring_len r, el_size r, elements r, iommu_base r))"

definition chan_ok :: "mhi_chan \<Rightarrow> bool" where
  "chan_ok ch \<longleftrightarrow> ring_geom (tre_ring ch) \<and> on_ring (tre_ring ch) (rp (tre_ring ch))"

lemma geom_steps [simp]:
  "chan_geom (mhi_chan (store_buf i b c) j) = chan_geom (mhi_chan c j)"
  "chan_geom (mhi_chan (store_tre i t c) j) = chan_geom (mhi_chan c j)"
  "chan_geom (mhi_chan (advance_wp i c) j) = chan_geom (mhi_chan c j)"
  "chan_geom (mhi_chan (del_both i c) j) = chan_geom (mhi_chan c j)"
  "chan_geom (mhi_chan (count_used_event i code c) j) = chan_geom (mhi_chan c j)"
  by (simp_all add: chan_geom_def store_buf_def store_tre_def advance_wp_def del_both_def
      count_used_event_def ring_write_def mhi_add_ring_element_def mhi_del_ring_element_def Let_def)

lemma geom_ring_db [simp]:
  "chan_geom (mhi_chan (ring_db_if_valid i c) j) = chan_geom (mhi_chan c j)"
  "chan_geom (mhi_chan (mhi_ring_chan_db i c) j) = chan_geom (mhi_chan c j)"
proof -
  show "chan_geom (mhi_chan (ring_db_if_valid i c) j) = chan_geom (mhi_chan c j)"
    using ring_db_chan [of i c] by (cases "j = i") (auto simp: chan_geom_def Let_def)
  show "chan_geom (mhi_chan (mhi_ring_chan_db i c) j) = chan_geom (mhi_chan c j)"
    using ring_chan_db_self [of i c] by (cases "j = i") (auto simp: chan_geom_def Let_def)
qed

lemma geom_queue_buf: "chan_geom (mhi_chan (snd (mhi_queue_buf os i buf ln fl c)) j) = chan_geom (mhi_chan c j)"
proof -
  let ?b = "(slots (buf_ring (mhi_chan c i)) (wp (buf_ring (mhi_chan c i))))\<lparr>v_addr := buf, cb_buf := buf,
      bi_wp := wp (tre_ring (mhi_chan c i)), bi_dir := dir (mhi_chan c i), bi_len := ln\<rparr>"
  obtain ret b c1 where m: "call_map_single os ?b c = (ret, b, c1)" by (metis prod_cases3)
  have "mhi_chan c1 = mhi_chan c" using call_map_frame(1) [of os ?b c] m by simp
  then have "chan_geom (mhi_chan (snd (mhi_gen_tre os i buf buf ln fl c)) j) = chan_geom (mhi_chan c j)"
    using m by (cases ret) (simp_all add: mhi_gen_tre_def Let_def)
  then show ?thesis
    by (cases "mhi_gen_tre os i buf buf ln fl c"; cases "fst (mhi_gen_tre os i buf buf ln fl c)")
      (simp_all add: mhi_queue_buf_def Let_def)
qed

lemma geom_requeue [simp]: "chan_geom (mhi_chan (requeue_buf os i b c) j) = chan_geom (mhi_chan c j)"
proof -
  obtain r c1 where q: "mhi_queue_buf os i (cb_buf b) (bi_len b) (mhi_flags_val MHI_EOT) c = (r, c1)"
    by (meson surj_pair)
  then have "chan_geom (mhi_chan c1 j) = chan_geom (mhi_chan c j)"
    using geom_queue_buf [of os i "cb_buf b" "bi_len b" "mhi_flags_val MHI_EOT" c j] by simp
  then show ?thesis using q by (cases r) (simp_all add: requeue_buf_def)
qed

lemma geom_xfer_one [simp]: "chan_geom (mhi_chan (xfer_one os i n st c) j) = chan_geom (mhi_chan c j)"
  unfolding xfer_one_def Let_def deassert_id if_cancel by simp

lemma geom_on_ring:
  assumes "chan_geom ch' = chan_geom ch"
  shows "ring_geom (tre_ring ch') = ring_geom (tre_ring ch)" "on_ring (tre_ring ch') a = on_ring (tre_ring ch) a"
    "event_dev_rp (tre_ring ch') ev = event_dev_rp (tre_ring ch) ev"
  using assms by (simp_all add: chan_geom_def Let_def ring_geom_def on_ring_def event_dev_rp_def mhi_to_virtual_def)

lemma shape_chan_ok: "shape ch' = shape ch \<Longrightarrow> chan_ok ch' = chan_ok ch"
  by (simp add: shape_def Let_def chan_ok_def ring_geom_def on_ring_def)

lemma xfer_one_chan_ok:
  assumes "chan_ok (mhi_chan c j)"
  shows "chan_ok (mhi_chan (xfer_one os i n st c) j)"
proof (cases "j = i")
  case True
  note s = shape_tre [OF xfer_one_shape [of os i n st c]]
  show ?thesis using assms True by (simp add: chan_ok_def s ring_step_slot(1))
next
  case False
  have "shape (mhi_chan (xfer_one os i n st c) j) = shape (mhi_chan c j)"
    using False unfolding xfer_one_def Let_def deassert_id if_cancel by (simp add: del_both_def)
  then show ?thesis using assms shape_chan_ok by blast
qed

lemma xfer_steps_world:
  "keeps c ((xfer_one os i n st ^^ k) c)
   \<and> chan_geom (mhi_chan ((xfer_one os i n st ^^ k) c) j) = chan_geom (mhi_chan c j)
   \<and> (chan_ok (mhi_chan c j) \<longrightarrow> chan_ok (mhi_chan ((xfer_one os i n st ^^ k) c) j))"
  by (induction k) (auto intro: keeps_trans [OF _ keeps_xfer_one] xfer_one_chan_ok)

text \<open>
  A data event is sound for a state when its transfer address, if it has one, leads to a
  slot of its channel's ring. Handling a sound event returns and keeps every event sound.
\<close>

definition sound_event :: "mhi_controller \<Rightarrow> mhi_tre \<Rightarrow> bool" where
  "sound_event c ev \<longleftrightarrow>
     (let r = tre_ring (mhi_chan c (unat (MHI_TRE_GET_EV_CHID ev)))
      in transfer_code ev \<longrightarrow> on_ring r (event_dev_rp r ev))"

definition chans_ok :: "mhi_controller \<Rightarrow> bool" where
  "chans_ok c \<longleftrightarrow> (\<forall>j. chan_ok (mhi_chan c j))"

definition world :: "mhi_controller \<Rightarrow> mhi_controller \<Rightarrow> bool" where
  "world c c' \<longleftrightarrow> keeps c c' \<and> (\<forall>j. chan_geom (mhi_chan c' j) = chan_geom (mhi_chan c j))
     \<and> (chans_ok c \<longrightarrow> chans_ok c')"

lemma world_refl [simp]: "world c c"
  by (simp add: world_def)

lemma world_trans: "world a b \<Longrightarrow> world b c \<Longrightarrow> world a c"
  by (auto simp: world_def intro: keeps_trans)

lemma world_same_chan: "keeps c c' \<Longrightarrow> mhi_chan c' = mhi_chan c \<Longrightarrow> world c c'"
  by (simp add: world_def chans_ok_def)

lemma mon_complete_chan [simp]: "mhi_chan (mon_complete_event e c) = mhi_chan c"
  by (simp add: mon_complete_event_def mon_bus_complete_def Let_def)

lemma touch_ring_chan [simp]: "mhi_chan (touch_ring r a c) = mhi_chan c"
  by (simp add: touch_ring_def)

lemma world_upd:
  assumes "chan_geom (f (mhi_chan c i)) = chan_geom (mhi_chan c i)"
    and "chan_ok (mhi_chan c i) \<Longrightarrow> chan_ok (f (mhi_chan c i))"
  shows "world c (upd_chan i f c)"
  using assms by (auto simp: world_def chans_ok_def keeps_steps)

lemma sound_cong: "world c c' \<Longrightarrow> sound_event c' ev = sound_event c ev"
proof -
  assume "world c c'"
  then have "chan_geom (mhi_chan c' i) = chan_geom (mhi_chan c i)" for i by (simp add: world_def)
  note g = geom_on_ring [OF this]
  show ?thesis by (simp add: sound_event_def Let_def g)
qed

lemma world_ring_db: "world c (mhi_ring_chan_db i c)"
proof -
  have "chan_ok (mhi_chan c j) \<Longrightarrow> chan_ok (mhi_chan (mhi_ring_chan_db i c) j)" for j
    using ring_chan_db_self [of i c] by (cases "j = i") (auto simp: chan_ok_def)
  then show ?thesis by (simp add: world_def keeps_steps chans_ok_def)
qed

lemma parse_xfer_world:
  assumes "chans_ok c" and "sound_event c ev" and "i = unat (MHI_TRE_GET_EV_CHID ev)"
  shows "\<exists>c'. parse_xfer_event os ev i c = Some c' \<and> world c c'"
proof -
  let ?r = "tre_ring (mhi_chan c i)" and ?code = "MHI_TRE_GET_EV_CODE ev"
  let ?c = "count_used_event i ?code (touch_chan i c)"
  have t: "world c (touch_chan i c)" by (rule world_same_chan) (simp_all add: keeps_steps)
  have u: "world c ?c"
    by (rule world_trans [OF t], unfold count_used_event_def, rule world_upd)
      (simp_all add: chan_geom_def chan_ok_def)
  consider "ch_state (mhi_chan c i) \<noteq> MHI_CH_STATE_ENABLED"
    | "ch_state (mhi_chan c i) = MHI_CH_STATE_ENABLED" "transfer_code ev"
    | "ch_state (mhi_chan c i) = MHI_CH_STATE_ENABLED" "\<not> transfer_code ev" by blast
  then show ?thesis
  proof cases
    case 1
    then show ?thesis using t by (auto simp: parse_xfer_event_def Let_def)
  next
    case 2
    have ok: "chan_ok (mhi_chan c i)" using assms(1) by (simp add: chans_ok_def)
    have "on_ring ?r (event_dev_rp ?r ev)" using assms(2,3) 2 by (simp add: sound_event_def Let_def)
    with ok have "\<exists>k. parse_xfer_event os ev i c =
        Some ((xfer_one os i (ucast (MHI_TRE_GET_EV_LEN ev)) (event_status ev) ^^ k) ?c)"
      using xfer_loop_steps [of ?c i "event_dev_rp ?r ev"] by (auto simp: parse_transfer [OF 2] chan_ok_def)
    moreover have "world ?c ((xfer_one os i n st ^^ k) ?c)" for n st k
      using xfer_steps_world [where c = ?c and i = i and n = n and st = st and k = k and os = os] by (auto simp: world_def chans_ok_def)
    ultimately show ?thesis using world_trans [OF u] by blast
  next
    case 3
    let ?d = "upd_chan i (\<lambda>ch. ch\<lparr>ch_db_cfg := (ch_db_cfg ch)\<lparr>db_mode := True\<rparr>\<rparr>) ?c"
    have "world ?c ?d" by (rule world_upd) (simp_all add: chan_geom_def chan_ok_def)
    then have "world c ?d" "world c (mhi_ring_chan_db i ?d)"
      using world_trans [OF u] world_trans [OF _ world_ring_db] by blast+
    then show ?thesis using 3 t by (auto simp: parse_xfer_event_def Let_def transfer_code_def)
  qed
qed

lemma world_rsc_upd:
  "world d (upd_chan i (\<lambda>ch. ch\<lparr>tre_ring := mhi_del_ring_element (tre_ring ch),
     buf_ring := (buf_ring ch)\<lparr>slots := g ch\<rparr>\<rparr>) d)"
  by (rule world_upd) (simp_all add: chan_geom_def chan_ok_def del_step ring_step_slot(1) Let_def)

lemma parse_rsc_world: "world c (parse_rsc_event ev i c)"
proof -
  have t: "world c (touch_ring r a (touch_chan i c))" for r :: "mhi_buf_info mhi_ring" and a
    by (rule world_same_chan) (simp_all add: keeps_trans [OF keeps_steps(5) keeps_steps(6)])
  have e: "world d (emit x d)" for x d by (rule world_same_chan) (simp_all add: keeps_steps)
  have "world c (if p then touch_ring r a (touch_chan i c)
      else upd_chan i (\<lambda>ch. ch\<lparr>tre_ring := mhi_del_ring_element (tre_ring ch),
             buf_ring := (buf_ring ch)\<lparr>slots := g ch\<rparr>\<rparr>) (emit x (touch_ring r a (touch_chan i c))))"
    for p x a g and r :: "mhi_buf_info mhi_ring"
    using t world_trans [OF world_trans [OF t e] world_rsc_upd] by simp
  then show ?thesis unfolding parse_rsc_event_def Let_def .
qed

lemma handle_data_world:
  assumes "chans_ok c" and "sound_event c ev" and "i = unat (MHI_TRE_GET_EV_CHID ev)"
  shows "\<exists>c'. handle_data_event os ev i c = Some c' \<and> world c c'"
  using parse_xfer_world [OF assms] parse_rsc_world
  by (auto simp: handle_data_event_def split: MHI_PKT_TYPE.splits)

section \<open>Walking a data event ring\<close>

definition ev_steps :: "mhi_tre mhi_ring \<Rightarrow> nat \<Rightarrow> u64" where
  "ev_steps r k = (ring_step r ^^ k) (rp r)"

lemma ring_step_recycle [simp]:
  "ring_step (mhi_recycle_ev_ring_element r) = ring_step r"
  "slots (mhi_recycle_ev_ring_element r) = slots r"
  "rp (mhi_recycle_ev_ring_element r) = ring_step r (rp r)"
  "wp (mhi_recycle_ev_ring_element r) = ring_step r (wp r)"
  "ring_geom (mhi_recycle_ev_ring_element r) = ring_geom r"
  "on_ring (mhi_recycle_ev_ring_element r) a = on_ring r a"
  "ring_dist (mhi_recycle_ev_ring_element r) a b = ring_dist r a b"
  "mhi_to_virtual (mhi_recycle_ev_ring_element r) a = mhi_to_virtual r a"
  by (rule ext) (simp_all add: recycle_step ring_dist_def mhi_to_virtual_def)

lemma ev_steps_recycle: "ev_steps (mhi_recycle_ev_ring_element r) k = ev_steps r (Suc k)"
  by (simp add: ev_steps_def funpow_swap1)

text \<open>One iteration: some state with the event consumed, everything else as it was.\<close>

definition consumed :: "nat \<Rightarrow> mhi_controller \<Rightarrow> mhi_controller \<Rightarrow> bool" where
  "consumed e c c' \<longleftrightarrow>
     mhi_event c' = (mhi_event c)(e := (mhi_event c e)\<lparr>ev_ring := mhi_recycle_ev_ring_element (ev_ring (mhi_event c e))\<rparr>)
     \<and> er_ctxt c' = er_ctxt c \<and> pm_state c' = pm_state c
     \<and> (\<forall>ev. sound_event c' ev = sound_event c ev) \<and> (chans_ok c \<longrightarrow> chans_ok c')"

lemma consumed_recycle: "world c c1 \<Longrightarrow> consumed e c (recycle_event e c1)"
  using sound_cong [of c c1]
  by (auto simp: consumed_def world_def keeps_def recycle_event_def chans_ok_def sound_event_def)

lemma consumed_note: "consumed e c c1 \<Longrightarrow> consumed e c (note_used_chan i n c1)"
proof -
  assume a: "consumed e c c1"
  have w: "world c1 (note_used_chan i n c1)"
    by (auto simp: note_used_chan_def intro!: world_upd) (simp_all add: chan_geom_def chan_ok_def)
  show ?thesis
    using a w sound_cong [OF w] by (auto simp: consumed_def world_def keeps_def)
qed

lemma ev_dev_rp_consumed: "consumed e c c' \<Longrightarrow> ev_dev_rp e c' = ev_dev_rp e c"
  by (simp add: consumed_def ev_dev_rp_def)

lemma data_loop_step:
  assumes "rp (ev_ring (mhi_event c e)) \<noteq> d" and "q \<noteq> 0" and "d = ev_dev_rp e c"
    and ok: "chans_ok c" and ev: "ev = slots (ev_ring (mhi_event c e)) (rp (ev_ring (mhi_event c e)))"
    and s: "sound_event c ev" and sq: "spends_quota ev"
  shows "\<exists>c' cc'. data_loop os e d q cc count c = data_loop os e d (q - 1) cc' (Suc count) c' \<and> consumed e c c'"
proof -
  let ?i = "unat (MHI_TRE_GET_EV_CHID ev)"
  let ?c0 = "mon_complete_event e (touch_chan ?i c)"
  have w0: "world c ?c0"
    by (rule world_same_chan) (simp_all add: keeps_trans [OF keeps_steps(5) keeps_mons(3)])
  have ok0: "chans_ok ?c0" "sound_event ?c0 ev" using w0 ok s sound_cong [OF w0] by (auto simp: world_def)
  obtain c1 where c1: "handle_data_event os ev ?i ?c0 = Some c1" "world ?c0 c1"
    using handle_data_world [OF ok0 refl] by blast
  have con: "consumed e c (recycle_event e c1)"
    by (rule consumed_recycle [OF world_trans [OF w0 c1(2)]])
  have m: "mhi_event (touch_chan ?i c) = mhi_event c" by (simp add: touch_chan_def)
  show ?thesis
    using assms(1,2) c1(1) con consumed_note [OF con] ev_dev_rp_consumed [OF con] sq
    by (subst data_loop.simps) (auto simp: Let_def assms(3) [symmetric] m ev [symmetric] intro!: exI)
qed

lemma data_loop_runs:
  assumes "ring_geom (ev_ring (mhi_event c e))" "on_ring (ev_ring (mhi_event c e)) (rp (ev_ring (mhi_event c e)))"
    and "on_ring (ev_ring (mhi_event c e)) d" and "d = ev_dev_rp e c" and "chans_ok c"
    and "n = ring_dist (ev_ring (mhi_event c e)) (rp (ev_ring (mhi_event c e))) d"
    and "\<And>k. k < n \<Longrightarrow> sound_event c (slots (ev_ring (mhi_event c e)) (ev_steps (ev_ring (mhi_event c e)) k))
          \<and> spends_quota (slots (ev_ring (mhi_event c e)) (ev_steps (ev_ring (mhi_event c e)) k))"
  shows "\<exists>c'. data_loop os e d q cc count c = Some (count + min (unat q) n, c')
    \<and> rp (ev_ring (mhi_event c' e)) = ev_steps (ev_ring (mhi_event c e)) (min (unat q) n)
    \<and> wp (ev_ring (mhi_event c' e)) = (ring_step (ev_ring (mhi_event c e)) ^^ min (unat q) n) (wp (ev_ring (mhi_event c e)))
    \<and> pm_state c' = pm_state c"
  using assms
proof (induction n arbitrary: c q cc count)
  case 0
  let ?r = "ev_ring (mhi_event c e)"
  have "rp ?r = d" using ring_dist_zero [OF 0(1-3)] 0(6) by simp
  then show ?case by (subst data_loop.simps) (simp add: ev_steps_def)
next
  case (Suc n)
  let ?r = "ev_ring (mhi_event c e)"
  have ne: "rp ?r \<noteq> d" using ring_dist_zero [OF Suc(2-4)] Suc(7) by auto
  show ?case
  proof (cases "q = 0")
    case True
    then show ?thesis by (subst data_loop.simps) (simp add: ev_steps_def)
  next
    case False
    have s: "sound_event c (slots ?r (rp ?r))" "spends_quota (slots ?r (rp ?r))"
      using Suc(8) [of 0] by (simp_all add: ev_steps_def)
    obtain c' cc' where st: "data_loop os e d q cc count c = data_loop os e d (q - 1) cc' (Suc count) c'"
        "consumed e c c'"
      using data_loop_step [OF ne False Suc(5,6) refl s] by blast
    have r': "ev_ring (mhi_event c' e) = mhi_recycle_ev_ring_element ?r" "pm_state c' = pm_state c"
      "chans_ok c'" "\<And>ev. sound_event c' ev = sound_event c ev"
      using st(2) Suc(6) by (auto simp: consumed_def)
    have n: "n = ring_dist ?r (ring_step ?r (rp ?r)) d"
      using ring_dist_step [OF Suc(2-4) ne] Suc(7) by simp
    have "\<exists>c''. data_loop os e d (q - 1) cc' (Suc count) c' = Some (Suc count + min (unat (q - 1)) n, c'')
      \<and> rp (ev_ring (mhi_event c'' e)) = ev_steps (ev_ring (mhi_event c' e)) (min (unat (q - 1)) n)
      \<and> wp (ev_ring (mhi_event c'' e)) =
          (ring_step (ev_ring (mhi_event c' e)) ^^ min (unat (q - 1)) n) (wp (ev_ring (mhi_event c' e)))
      \<and> pm_state c'' = pm_state c'"
    proof (rule Suc(1))
      show "d = ev_dev_rp e c'" using Suc(5) ev_dev_rp_consumed [OF st(2)] by simp
      show "chans_ok c'" by (rule r'(3))
      show "n = ring_dist (ev_ring (mhi_event c' e)) (rp (ev_ring (mhi_event c' e))) d" using n by (simp add: r')
      fix k assume "k < n"
      then show "sound_event c' (slots (ev_ring (mhi_event c' e)) (ev_steps (ev_ring (mhi_event c' e)) k))
        \<and> spends_quota (slots (ev_ring (mhi_event c' e)) (ev_steps (ev_ring (mhi_event c' e)) k))"
        using Suc(8) [of "Suc k"] by (simp add: r' ev_steps_recycle)
    qed (use Suc(2-4) ring_step_slot(1) [OF Suc(2,3)] in \<open>simp_all add: r'\<close>)
    moreover have "unat q = Suc (unat (q - 1))" using False by (simp add: unat_minus_one unat_gt_0)
    ultimately show ?thesis
      unfolding st(1) by (auto simp: r' ev_steps_recycle funpow_swap1)
  qed
qed

lemma note_ring_frame [simp]:
  "ev_ring (mhi_event (note_used_events e k c) e') = ev_ring (mhi_event c e')"
  "ev_ring (mhi_event (ring_er_if_valid e c) e') = ev_ring (mhi_event c e')"
  "mhi_tsync (ring_er_if_valid e c) = mhi_tsync c"
  by (simp_all add: note_used_events_def ring_er_if_valid_def)

section \<open>Properties\<close>


text \<open>Three pending completions of channel 0 on a ring of four.\<close>

definition ev_demo_ring :: "mhi_tre mhi_ring" where
  "ev_demo_ring = (zero_ring zero_tre)\<lparr>base := 0x4000, rp := 0x4000, wp := 0x4030, iommu_base := 0x8000,
     el_size := 16, ring_len := 64, elements := 4, slots := (\<lambda>_. eot_event 0x9010)\<rparr>"

definition ev_demo :: mhi_controller where
  "ev_demo = busy_controller\<lparr>mhi_event := (\<lambda>_. zero_event\<lparr>ev_ring := ev_demo_ring\<rparr>),
     er_ctxt := (\<lambda>_. \<lparr>intmodc = 0, intmodt = 0, ertype = 0, msivec = 0, er_rbase = 0x8000,
       er_rlen = 64, er_rp = 0x8030\<rparr>), total_ev_rings := 3\<rparr>"

lemma ev_demo_facts:
  "ev_ring (mhi_event ev_demo e) = ev_demo_ring" "mhi_chan ev_demo i = busy_chan"
  "pm_state ev_demo = MHI_PM_M0" "ev_dev_rp e ev_demo = 0x4030" "mhi_tsync ev_demo = None"
  by (simp_all add: ev_demo_def busy_defs ev_dev_rp_def mhi_to_virtual_def ev_demo_ring_def)

lemma ev_demo_wf:
  "ring_wf ev_demo_ring" "on_ring ev_demo_ring 0x4030"
  "ring_dist ev_demo_ring (rp ev_demo_ring) 0x4030 = 3"
  by (simp_all add: ev_demo_ring_def ring_wf_def ring_geom_def on_ring_def ring_dist_def slot_idx_def zero_defs)

lemma event_access_M0: "\<not> MHI_EVENT_ACCESS_INVALID MHI_PM_M0"
  by code_simp


lemma tsync_answer_frame [simp]:
  "mhi_event (fold (tsync_answer a b) ns c) = mhi_event c" "er_ctxt (fold (tsync_answer a b) ns c) = er_ctxt c"
  "pm_state (fold (tsync_answer a b) ns c) = pm_state c"
proof -
  have "mhi_event (fold (tsync_answer a b) ns c) = mhi_event c \<and> er_ctxt (fold (tsync_answer a b) ns c) = er_ctxt c
    \<and> pm_state (fold (tsync_answer a b) ns c) = pm_state c"
    by (induction ns arbitrary: c) (auto simp: tsync_answer_def)
  then show "mhi_event (fold (tsync_answer a b) ns c) = mhi_event c" "er_ctxt (fold (tsync_answer a b) ns c) = er_ctxt c"
    "pm_state (fold (tsync_answer a b) ns c) = pm_state c" by simp_all
qed

text \<open>
  C17: The time sync handler leaves its spin lock held: with one pending event it returns, but
  with the lock taken and never released; with two or more pending events, or at the next
  call with any event pending, it waits for that lock forever.
\<close>

theorem tsync_ring_deadlock:
  assumes "\<not> MHI_EVENT_ACCESS_INVALID (pm_state c)" and "r = ev_ring (mhi_event c e)"
    and "ring_wf r" and "on_ring r (ev_dev_rp e c)" and "mhi_tsync c = Some ts"
    and "n = ring_dist r (rp r) (ev_dev_rp e c)"
  shows "(mhi_process_tsync_event_ring e c = None \<longleftrightarrow> 2 \<le> n \<or> n = 1 \<and> ts_lock ts)
    \<and> (n = 1 \<and> \<not> ts_lock ts \<longrightarrow>
        (case mhi_process_tsync_event_ring e c of None \<Rightarrow> False
         | Some (ret, c') \<Rightarrow> ret = Inr 1 \<and> map_option ts_lock (mhi_tsync c') = Some True))"
proof -
  note w = ring_wfD [OF assms(3)]
  have z: "n = 0 \<longleftrightarrow> rp r = ev_dev_rp e c"
    using ring_dist_zero [OF w(1,2) assms(4)] assms(6) by simp
  let ?c1 = "recycle_event e ((fold (tsync_answer (MHI_TRE_GET_EV_SEQ (slots r (rp r)))
      (MHI_TRE_GET_EV_TIME (slots r (rp r)))) (ts_head ts) c)
      \<lparr>mhi_tsync := Some (ts\<lparr>ts_head := [], ts_lock := True\<rparr>)\<rparr>)"
  have f: "ev_ring (mhi_event ?c1 e) = mhi_recycle_ev_ring_element r" "ev_dev_rp e ?c1 = ev_dev_rp e c"
    "mhi_tsync ?c1 = Some (ts\<lparr>ts_head := [], ts_lock := True\<rparr>)"
    by (simp_all add: recycle_event_def ev_dev_rp_def assms(2))
  have first: "tsync_loop e 0 c = (if rp r = ev_dev_rp e c then Some (0, c)
      else if ts_lock ts then None else tsync_loop e 1 ?c1)"
    by (subst tsync_loop.simps) (auto simp: Let_def tsync_event_def assms(5) assms(2) [symmetric])
  have second: "tsync_loop e 1 ?c1 = (if ring_step r (rp r) = ev_dev_rp e c then Some (1, ?c1) else None)"
    by (subst tsync_loop.simps) (simp add: Let_def f tsync_event_def)
  have o: "ring_step r (rp r) = ev_dev_rp e c \<longleftrightarrow> n = 1" if "n \<noteq> 0"
    using ring_dist_step [OF w(1,2) assms(4)] ring_dist_zero [OF w(1) ring_step_slot(1) [OF w(1,2)] assms(4)]
      that z assms(6) by auto
  show ?thesis
    using assms(1) first second o z f(3)
    by (cases "n = 0"; cases "ts_lock ts"; cases "n = 1") (auto simp: mhi_process_tsync_event_ring_def)
qed

definition tsync_demo :: mhi_controller where
  "tsync_demo = ev_demo\<lparr>mhi_tsync := Some \<lparr>ts_er_index = 2, ts_db = 0, time_reg = 0,
     ts_ccs = MHI_EV_CC_SUCCESS, ts_completion = 0, ts_lock = False,
     ts_head = [\<lparr>ts_sequence = 7, local_time = 100, ts_mhi_dev = 0\<rparr>]\<rparr>\<rparr>"

theorem tsync_ring_deadlock_witness:
  "mhi_process_tsync_event_ring 2 tsync_demo = None"
proof -
  have f: "ev_ring (mhi_event tsync_demo 2) = ev_demo_ring" "pm_state tsync_demo = MHI_PM_M0"
    "ev_dev_rp 2 tsync_demo = 0x4030"
    using ev_demo_facts by (simp_all add: tsync_demo_def ev_dev_rp_def)
  have acc: "\<not> MHI_EVENT_ACCESS_INVALID (pm_state tsync_demo)"
    using event_access_M0 by (simp only: f not_False_eq_True)
  obtain ts where ts: "mhi_tsync tsync_demo = Some ts" by (simp add: tsync_demo_def)
  show ?thesis
    using tsync_ring_deadlock [OF acc refl _ _ ts refl, where e = 2] ev_demo_wf by (simp add: f)
qed
end
