(* ===== verification/Mhi_Init.thy ===== *)
theory Mhi_Init
  imports Mhi_Event "HOL-Library.Multiset"
begin

text \<open>
  Bringing a controller up, from \<open>core/mhi_init.c\<close>: the layout of the control segment shared
  with the device (\<open>struct mhi_ctrl_seg\<close> of \<open>core/mhi_internal.h\<close>), the tables of channels
  and event rings, the contexts, the interrupt lines, and the device registers. A C loop
  over an array that treats every index alike is a function of the index here.
\<close>

section \<open>The control segment\<close>

definition NUM_MHI_IPA_IN_RING_ELEMENTS :: nat where "NUM_MHI_IPA_IN_RING_ELEMENTS = 512"
definition NUM_MHI_IPA_OUT_RING_ELEMENTS :: nat where "NUM_MHI_IPA_OUT_RING_ELEMENTS = 512"
definition NUM_MHI_DIAG_IN_RING_ELEMENTS :: nat where "NUM_MHI_DIAG_IN_RING_ELEMENTS = 128"
definition NUM_MHI_CHAN_RING_ELEMENTS :: nat where "NUM_MHI_CHAN_RING_ELEMENTS = 32"
definition NUM_MHI_EVT_RING_ELEMENTS :: nat where
  "NUM_MHI_EVT_RING_ELEMENTS = NUM_MHI_IPA_IN_RING_ELEMENTS * 2"
definition NUM_MHI_XFER_RINGS :: nat where "NUM_MHI_XFER_RINGS = 128"
definition MHI_MAX_CHANNELS :: nat where "MHI_MAX_CHANNELS = 128"
definition CMD_EL_PER_RING :: nat where "CMD_EL_PER_RING = 128"
definition NR_OF_CMD_RINGS :: nat where "NR_OF_CMD_RINGS = 1"
definition PRIMARY_EVENT_RING :: nat where "PRIMARY_EVENT_RING = 0"
definition IPA_OUT_EVENT_RING :: nat where "IPA_OUT_EVENT_RING = 1"
definition IPA_IN_EVENT_RING :: nat where "IPA_IN_EVENT_RING = 2"

lemmas size_defs = NUM_MHI_IPA_IN_RING_ELEMENTS_def NUM_MHI_IPA_OUT_RING_ELEMENTS_def
  NUM_MHI_DIAG_IN_RING_ELEMENTS_def NUM_MHI_CHAN_RING_ELEMENTS_def NUM_MHI_EVT_RING_ELEMENTS_def
  NUM_MHI_XFER_RINGS_def MHI_MAX_CHANNELS_def CMD_EL_PER_RING_def NR_OF_CMD_RINGS_def
  PRIMARY_EVENT_RING_def IPA_OUT_EVENT_RING_def IPA_IN_EVENT_RING_def NUM_MHI_EVT_RINGS_def

text \<open>
  The members of the segment with their sizes and alignments, and C's rule for laying them
  out: each at the next multiple of its alignment. A context is 44 bytes, a descriptor 16.
\<close>

datatype seg_member =
    hw_in_chan_ring | hw_out_chan_ring | diag_in_chan_ring | chan_ring | event_ring | cmd_ring_seg
  | chan_ctxt_seg | er_ctxt_seg | cmd_ctxt_seg

definition sizeof_ctxt :: nat where
  "sizeof_ctxt = 44"

fun member_size :: "seg_member \<Rightarrow> nat" where
  "member_size hw_in_chan_ring = NUM_MHI_IPA_IN_RING_ELEMENTS * 16"
| "member_size hw_out_chan_ring = NUM_MHI_IPA_OUT_RING_ELEMENTS * 16"
| "member_size diag_in_chan_ring = NUM_MHI_DIAG_IN_RING_ELEMENTS * 16"
| "member_size chan_ring = NUM_MHI_CHAN_RING_ELEMENTS * 2 * 12 * 16"
| "member_size event_ring = NUM_MHI_EVT_RINGS * NUM_MHI_EVT_RING_ELEMENTS * 16"
| "member_size cmd_ring_seg = NR_OF_CMD_RINGS * CMD_EL_PER_RING * 16"
| "member_size chan_ctxt_seg = NUM_MHI_XFER_RINGS * sizeof_ctxt"
| "member_size er_ctxt_seg = NUM_MHI_EVT_RINGS * sizeof_ctxt"
| "member_size cmd_ctxt_seg = NR_OF_CMD_RINGS * sizeof_ctxt"

fun member_align :: "seg_member \<Rightarrow> nat" where
  "member_align hw_in_chan_ring = NUM_MHI_IPA_IN_RING_ELEMENTS * 16"
| "member_align hw_out_chan_ring = NUM_MHI_IPA_OUT_RING_ELEMENTS * 16"
| "member_align diag_in_chan_ring = NUM_MHI_IPA_OUT_RING_ELEMENTS * 16"
| "member_align chan_ring = NUM_MHI_CHAN_RING_ELEMENTS * 16"
| "member_align event_ring = NUM_MHI_EVT_RING_ELEMENTS * 16"
| "member_align cmd_ring_seg = CMD_EL_PER_RING * 16"
| "member_align chan_ctxt_seg = 128"
| "member_align er_ctxt_seg = 128"
| "member_align cmd_ctxt_seg = 128"

definition seg_members :: "seg_member list" where
  "seg_members = [hw_in_chan_ring, hw_out_chan_ring, diag_in_chan_ring, chan_ring, event_ring,
     cmd_ring_seg, chan_ctxt_seg, er_ctxt_seg, cmd_ctxt_seg]"

definition align_up :: "nat \<Rightarrow> nat \<Rightarrow> nat" where
  "align_up a n = (n + a - 1) div a * a"

fun seg_walk :: "nat \<Rightarrow> seg_member list \<Rightarrow> seg_member \<Rightarrow> nat" where
  "seg_walk pos [] m = pos"
| "seg_walk pos (x # xs) m =
     (let at = align_up (member_align x) pos
      in if x = m then at else seg_walk (at + member_size x) xs m)"

definition seg_offsetof :: "seg_member \<Rightarrow> nat" where
  "seg_offsetof m = seg_walk 0 seg_members m"

text \<open>The size is rounded up to the strictest alignment of the members and of the struct itself.\<close>

definition sizeof_ctrl_seg :: nat where
  "sizeof_ctrl_seg = align_up (Max (set (4096 # map member_align seg_members)))
     (seg_offsetof cmd_ctxt_seg + member_size cmd_ctxt_seg)"

lemma seg_offsets [simp]:
  "seg_offsetof hw_in_chan_ring = 0" "seg_offsetof hw_out_chan_ring = 8192"
  "seg_offsetof diag_in_chan_ring = 16384" "seg_offsetof chan_ring = 18432"
  "seg_offsetof event_ring = 32768" "seg_offsetof cmd_ring_seg = 81920"
  "seg_offsetof chan_ctxt_seg = 83968" "seg_offsetof er_ctxt_seg = 89600"
  "seg_offsetof cmd_ctxt_seg = 89856"
  by (simp_all add: seg_offsetof_def seg_members_def size_defs align_up_def sizeof_ctxt_def Let_def)

lemma sizeof_ctrl_seg [simp]: "sizeof_ctrl_seg = 98304"
  by (simp add: sizeof_ctrl_seg_def seg_members_def size_defs align_up_def sizeof_ctxt_def)

section \<open>The channel table\<close>

definition MHI_CLIENT_DIAG_IN :: nat where "MHI_CLIENT_DIAG_IN = 5"
definition MHI_CLIENT_IP_SW_0_OUT :: nat where "MHI_CLIENT_IP_SW_0_OUT = 46"
definition MHI_CLIENT_IP_SW_0_IN :: nat where "MHI_CLIENT_IP_SW_0_IN = 47"
definition MHI_CLIENT_IP_HW_0_OUT :: nat where "MHI_CLIENT_IP_HW_0_OUT = 100"
definition MHI_CLIENT_IP_HW_0_IN :: nat where "MHI_CLIENT_IP_HW_0_IN = 101"

lemmas client_defs = MHI_CLIENT_DIAG_IN_def MHI_CLIENT_IP_SW_0_OUT_def MHI_CLIENT_IP_SW_0_IN_def
  MHI_CLIENT_IP_HW_0_OUT_def MHI_CLIENT_IP_HW_0_IN_def

definition CHAN_INBOUND :: "nat \<Rightarrow> bool" where "CHAN_INBOUND x \<longleftrightarrow> x mod 2 \<noteq> 0"
definition CHAN_SBL :: "nat \<Rightarrow> bool" where "CHAN_SBL x \<longleftrightarrow> x = 2 \<or> x = 3 \<or> x = 25"
definition CHAN_EDL :: "nat \<Rightarrow> bool" where "CHAN_EDL x \<longleftrightarrow> x = 34 \<or> x = 35"

record chan_cfg_t =
  chan_name :: string
  chan_id :: nat
  cfg_elements :: nat

definition cfg :: "string \<Rightarrow> nat \<Rightarrow> nat \<Rightarrow> chan_cfg_t" where
  "cfg s i n = \<lparr>chan_name = s, chan_id = i, cfg_elements = n\<rparr>"

definition chan_cfg :: "chan_cfg_t list" where
  "chan_cfg =
    [cfg ''LOOPBACK'' 0 NUM_MHI_CHAN_RING_ELEMENTS, cfg ''LOOPBACK'' 1 NUM_MHI_CHAN_RING_ELEMENTS,
     cfg ''SAHARA'' 2 NUM_MHI_CHAN_RING_ELEMENTS, cfg ''SAHARA'' 3 NUM_MHI_CHAN_RING_ELEMENTS,
     cfg ''DIAG'' 4 NUM_MHI_CHAN_RING_ELEMENTS, cfg ''DIAG'' 5 NUM_MHI_DIAG_IN_RING_ELEMENTS,
     cfg ''EFS'' 10 NUM_MHI_CHAN_RING_ELEMENTS, cfg ''EFS'' 11 NUM_MHI_CHAN_RING_ELEMENTS,
     cfg ''MBIM'' 12 NUM_MHI_CHAN_RING_ELEMENTS, cfg ''MBIM'' 13 NUM_MHI_CHAN_RING_ELEMENTS,
     cfg ''QMI0'' 14 NUM_MHI_CHAN_RING_ELEMENTS, cfg ''QMI0'' 15 NUM_MHI_CHAN_RING_ELEMENTS,
     cfg ''IP_CTRL'' 18 NUM_MHI_CHAN_RING_ELEMENTS, cfg ''IP_CTRL'' 19 NUM_MHI_CHAN_RING_ELEMENTS,
     cfg ''DUN'' 32 NUM_MHI_CHAN_RING_ELEMENTS, cfg ''DUN'' 33 NUM_MHI_CHAN_RING_ELEMENTS,
     cfg ''EDL'' 34 NUM_MHI_CHAN_RING_ELEMENTS, cfg ''EDL'' 35 NUM_MHI_CHAN_RING_ELEMENTS,
     cfg ''IP_HW0'' 100 NUM_MHI_IPA_OUT_RING_ELEMENTS,
     cfg ''IP_HW0'' 101 NUM_MHI_IPA_IN_RING_ELEMENTS]"

definition MHI_BRSTMODE_DISABLE :: u32 where "MHI_BRSTMODE_DISABLE = 2"
definition MHI_BRSTMODE_ENABLE :: u32 where "MHI_BRSTMODE_ENABLE = 3"

definition MHI_INVALID_BRSTMODE :: "u32 \<Rightarrow> bool" where
  "MHI_INVALID_BRSTMODE m \<longleftrightarrow> m \<noteq> MHI_BRSTMODE_DISABLE \<and> m \<noteq> MHI_BRSTMODE_ENABLE"

fun dma_dir_val :: "dma_data_direction \<Rightarrow> u32" where
  "dma_dir_val DMA_BIDIRECTIONAL = 0"
| "dma_dir_val DMA_TO_DEVICE = 1"
| "dma_dir_val DMA_FROM_DEVICE = 2"
| "dma_dir_val DMA_NONE = 3"

definition ee_bit :: "mhi_ee \<Rightarrow> u32" where
  "ee_bit e = push_bit (unat (ee_val e)) 1"

text \<open>
  The module parameter \<open>mhi_mbim_enabled\<close> decides whether the MBIM or the QMI channels exist,
  the build option \<open>CONFIG_USE_RMNET_DATA_FOR_SKIP_MEMCPY\<close> how the network's receive channel
  gets its buffers; \<open>mbim\<close> and \<open>rmnet\<close> stand for them.
\<close>

definition mhi_netdev_use_xfer_type_dma :: "bool \<Rightarrow> nat \<Rightarrow> bool" where
  "mhi_netdev_use_xfer_type_dma rmnet ch \<longleftrightarrow> rmnet"

definition cfg_skipped :: "bool \<Rightarrow> chan_cfg_t \<Rightarrow> bool" where
  "cfg_skipped mbim e \<longleftrightarrow>
     (if take 4 (chan_name e) = ''MBIM'' then \<not> mbim
      else if take 3 (chan_name e) = ''QMI'' then mbim else False)"

definition own_ring :: "nat \<Rightarrow> bool" where
  "own_ring ch \<longleftrightarrow> ch = MHI_CLIENT_IP_HW_0_OUT \<or> ch = MHI_CLIENT_IP_HW_0_IN
     \<or> ch = MHI_CLIENT_DIAG_IN \<or> ch = MHI_CLIENT_IP_SW_0_OUT \<or> ch = MHI_CLIENT_IP_SW_0_IN"

definition cfg_xfer_type :: "bool \<Rightarrow> nat \<Rightarrow> MHI_XFER_TYPE" where
  "cfg_xfer_type rmnet ch =
     (if ch = MHI_CLIENT_IP_HW_0_OUT \<or> ch = MHI_CLIENT_IP_SW_0_OUT then MHI_XFER_SKB
      else if ch = MHI_CLIENT_IP_HW_0_IN
      then (if mhi_netdev_use_xfer_type_dma rmnet ch then MHI_XFER_DMA else MHI_XFER_SKB)
      else if ch = MHI_CLIENT_IP_SW_0_IN then MHI_XFER_SKB else MHI_XFER_BUFFER)"

fun queue_fn_of :: "MHI_XFER_TYPE \<Rightarrow> queue_xfer_fn" where
  "queue_fn_of MHI_XFER_BUFFER = mhi_queue_buf_fn"
| "queue_fn_of MHI_XFER_SKB = mhi_queue_skb_fn"
| "queue_fn_of MHI_XFER_SCLIST = mhi_queue_sclist_fn"
| "queue_fn_of MHI_XFER_NOP = mhi_queue_nop_fn"
| "queue_fn_of MHI_XFER_DMA = mhi_queue_dma_fn"
| "queue_fn_of MHI_XFER_RSC_DMA = mhi_queue_dma_fn"

text \<open>
  One entry of the table: the channel as the loop body leaves it, \<open>None\<close> for the jump to
  \<open>error_chan_cfg\<close>. The checks of the body stay, although the constants it has just assigned
  decide some of them.
\<close>

definition configure_chan :: "bool \<Rightarrow> chan_cfg_t \<Rightarrow> u32 \<Rightarrow> mhi_chan \<Rightarrow> mhi_chan option" where
  "configure_chan rmnet e ring ch =
     (let i = chan_id e;
          n = of_nat (cfg_elements e);
          d = (if CHAN_INBOUND i then DMA_FROM_DEVICE else DMA_TO_DEVICE);
          mask = (if CHAN_SBL i then ee_bit MHI_EE_SBL else if CHAN_EDL i then ee_bit MHI_EE_FP
                  else ee_bit MHI_EE_AMSS);
          offload = (cfg_elements e = 0);
          ch = ch\<lparr>ch_name := chan_name e, chan := of_nat i,
            tre_ring := (tre_ring ch)\<lparr>elements := n\<rparr>, buf_ring := (buf_ring ch)\<lparr>elements := n\<rparr>,
            ch_ring := (if own_ring i then 0 else ring),
            ch_er_index := (if i = MHI_CLIENT_IP_HW_0_OUT then IPA_OUT_EVENT_RING
                            else if i = MHI_CLIENT_IP_HW_0_IN then IPA_IN_EVENT_RING
                            else PRIMARY_EVENT_RING),
            dir := (if offload then DMA_BIDIRECTIONAL else d), ch_type := dma_dir_val d,
            ee_mask := mask, ch_db_cfg := (ch_db_cfg ch)\<lparr>pollcfg := 0, reset_req := False\<rparr>,
            xfer_type := (if offload then MHI_XFER_NOP else cfg_xfer_type rmnet i)\<rparr>;
          ch = ch\<lparr>queue_xfer := queue_fn_of (xfer_type ch), lpm_notify := False,
            offload_ch := offload, pre_alloc := False, auto_start := False, wake_capable := False\<rparr>
      in if pre_alloc ch \<and> (dir ch \<noteq> DMA_FROM_DEVICE \<or> xfer_type ch \<noteq> MHI_XFER_BUFFER) then None
         else if (dir ch = DMA_BIDIRECTIONAL \<or> dir ch = DMA_NONE) \<and> \<not> offload_ch ch then None
         else
           let ch = (if pre_alloc ch then ch\<lparr>queue_xfer := mhi_queue_nop_fn\<rparr> else ch);
               mode = (if i = MHI_CLIENT_IP_HW_0_OUT \<or> i = MHI_CLIENT_IP_HW_0_IN
                       then MHI_BRSTMODE_ENABLE else MHI_BRSTMODE_DISABLE)
           in if offload_ch ch then Some (ch\<lparr>configured := True\<rparr>)
              else if MHI_INVALID_BRSTMODE mode then None
              else Some (ch\<lparr>configured := True, ch_db_cfg := (ch_db_cfg ch)\<lparr>brstmode := mode,
                     process_db := (if mode = MHI_BRSTMODE_ENABLE then mhi_db_brstmode_fn
                                    else mhi_db_brstmode_disable_fn)\<rparr>\<rparr>))"

fun parse_chans :: "bool \<Rightarrow> bool \<Rightarrow> chan_cfg_t list \<Rightarrow> u32 \<Rightarrow> mhi_controller \<Rightarrow> mhi_controller option" where
  "parse_chans mbim rmnet [] ring c = Some c"
| "parse_chans mbim rmnet (e # es) ring c =
     (if cfg_skipped mbim e then parse_chans mbim rmnet es ring c
      else
        let i = chan_id e;
            c = touch_chan i c
        in case configure_chan rmnet e ring (mhi_chan c i) of
             None \<Rightarrow> None
           | Some ch \<Rightarrow>
               let c = upd_chan i (\<lambda>_. ch) c;
                   c = (if lpm_notify ch then c\<lparr>lpm_chans := lpm_chans c @ [i]\<rparr> else c);
                   ring = (if own_ring i then ring else ring + ucast (elements (buf_ring ch)))
               in parse_chans mbim rmnet es ring c)"

definition of_parse_ch_cfg ::
  "mhi_os \<Rightarrow> bool \<Rightarrow> bool \<Rightarrow> mhi_controller \<Rightarrow> unit res \<times> mhi_controller" where
  "of_parse_ch_cfg os mbim rmnet c =
     (let c = c\<lparr>max_chan := MHI_MAX_CHANNELS\<rparr>
      in case call_kmalloc os (of_nat MHI_MAX_CHANNELS * sizeof_mhi_chan os) c of
           (None, c) \<Rightarrow> (Inl ENOMEM, c)
         | (Some a, c) \<Rightarrow>
             let c = c\<lparr>chan_mem := a, mhi_chan := (\<lambda>_. zero_chan), lpm_chans := []\<rparr>
             in case parse_chans mbim rmnet chan_cfg 0 c of
                  None \<Rightarrow> (Inl EINVAL, emit (Kfree a) c)
                | Some c \<Rightarrow> (Inr (), c))"

section \<open>The event rings\<close>

definition configure_event :: "(nat \<Rightarrow> mhi_chan) \<Rightarrow> u32 \<Rightarrow> nat \<Rightarrow> mhi_event \<Rightarrow> mhi_event" where
  "configure_event chans irq_base i ev =
     (let ch = (if i = IPA_OUT_EVENT_RING then MHI_CLIENT_IP_HW_0_OUT
                else if i = IPA_IN_EVENT_RING then MHI_CLIENT_IP_HW_0_IN else 0);
          ipa = (i = IPA_OUT_EVENT_RING \<or> i = IPA_IN_EVENT_RING);
          mode = (if ch \<noteq> 0 \<and> brstmode (ch_db_cfg (chans ch)) = MHI_BRSTMODE_ENABLE
                  then MHI_BRSTMODE_ENABLE else MHI_BRSTMODE_DISABLE)
      in ev\<lparr>er_index := i,
           ev_ring := (ev_ring ev)\<lparr>elements :=
             (if i = PRIMARY_EVENT_RING then 256 else of_nat NUM_MHI_EVT_RING_ELEMENTS)\<rparr>,
           ev_intmod := (if ipa then 5 else 1), ev_msi := 1 + of_nat i + irq_base,
           ev_chan := ch, ev_mhi_chan := Some ch, priority := 1,
           ev_db_cfg := (ev_db_cfg ev)\<lparr>brstmode := mode,
             process_db := (if mode = MHI_BRSTMODE_ENABLE then mhi_db_brstmode_fn
                            else mhi_db_brstmode_disable_fn)\<rparr>,
           data_type := (if ipa then MHI_ER_DATA_ELEMENT_TYPE else MHI_ER_CTRL_ELEMENT_TYPE),
           hw_ring := ipa,
           cl_manage := (ch = MHI_CLIENT_IP_HW_0_IN \<or> ch = MHI_CLIENT_IP_SW_0_IN),
           offload_ev := False\<rparr>)"

definition parse_event :: "nat \<Rightarrow> mhi_controller \<Rightarrow> mhi_controller" where
  "parse_event i c =
     (let c = upd_event i (configure_event (mhi_chan c) (msi_irq_base c) i) c
      in if hw_ring (mhi_event c i) then c\<lparr>hw_ev_rings := hw_ev_rings c + 1\<rparr>
         else c\<lparr>sw_ev_rings := sw_ev_rings c + 1\<rparr>)"

definition of_parse_ev_cfg :: "mhi_os \<Rightarrow> mhi_controller \<Rightarrow> unit res \<times> mhi_controller" where
  "of_parse_ev_cfg os c =
     (let c = c\<lparr>total_ev_rings := NUM_MHI_EVT_RINGS\<rparr>
      in case call_kmalloc os (of_nat NUM_MHI_EVT_RINGS * sizeof_mhi_event os) c of
           (None, c) \<Rightarrow> (Inl ENOMEM, c)
         | (Some a, c) \<Rightarrow>
             let c = c\<lparr>event_mem := a, mhi_event := (\<lambda>_. zero_event), msi_irq_base := 0\<rparr>;
                 c = fold parse_event [0..<total_ev_rings c] c
             in (Inr (), c\<lparr>msi_required := of_nat (total_ev_rings c) + 1 + msi_irq_base c\<rparr>))"

definition MHI_TIMEOUT_MS :: u32 where "MHI_TIMEOUT_MS = 3000"

definition of_parse_dt ::
  "mhi_os \<Rightarrow> bool \<Rightarrow> bool \<Rightarrow> mhi_controller \<Rightarrow> unit res \<times> mhi_controller" where
  "of_parse_dt os mbim rmnet c =
     (case of_parse_ch_cfg os mbim rmnet c of
        (Inl e, c) \<Rightarrow> (Inl e, c)
      | (Inr _, c) \<Rightarrow>
          case of_parse_ev_cfg os c of
            (Inl e, c) \<Rightarrow> (Inl e, emit (Kfree (chan_mem c)) c)
          | (Inr _, c) \<Rightarrow> (Inr (), c\<lparr>timeout_ms := MHI_TIMEOUT_MS, bounce_buf := False, buffer_len := ucast MHI_MAX_MTU\<rparr>))"

section \<open>The contexts\<close>

fun roundup_pow_of_two :: "nat \<Rightarrow> nat" where
  "roundup_pow_of_two n = (if n \<le> 1 then 1 else 2 * roundup_pow_of_two ((n + 1) div 2))"

declare roundup_pow_of_two.simps [simp del]

text \<open>The check of a ring's alignment; a ring that fails it is only logged.\<close>

definition mhi_ring_aligned_check :: "u64 \<Rightarrow> u64 \<Rightarrow> bool" where
  "mhi_ring_aligned_check rbase rlen \<longleftrightarrow>
     (let p = of_nat (roundup_pow_of_two (unat rlen)) in rbase = rbase div p * p)"

definition sizeof_mhi_ctxt :: u64 where
  "sizeof_mhi_ctxt = 64"

definition poison_tre :: mhi_tre where
  "poison_tre = \<lparr>tre_ptr = 0xCCCCCCCCCCCCCCCC, dword0 = 0xCCCCCCCC, dword1 = 0xCCCCCCCC\<rparr>"

definition zero_er_ctxt :: mhi_event_ctxt where
  "zero_er_ctxt = \<lparr>intmodc = 0, intmodt = 0, ertype = 0, msivec = 0, er_rbase = 0, er_rlen = 0,
     er_rp = 0\<rparr>"

definition zero_chan_ctxt :: mhi_chan_ctxt where
  "zero_chan_ctxt = \<lparr>chstate = 0, ctxt_brstmode = 0, ctxt_pollcfg = 0, chtype = 0, erindex = 0,
     cc_rbase = 0, cc_rlen = 0, cc_rp = 0\<rparr>"

text \<open>A ring placed at an offset of the control segment, all of it the host's.\<close>

definition place_ring :: "u64 \<Rightarrow> u64 \<Rightarrow> nat \<Rightarrow> 'a mhi_ring \<Rightarrow> 'a mhi_ring" where
  "place_ring seg seg_addr off r =
     (let r = r\<lparr>el_size := 16, ring_len := 16 * elements r\<rparr>;
          r = r\<lparr>ring_alloc_size := ring_len r, pre_aligned := seg + of_nat off,
                dma_handle := seg_addr + of_nat off\<rparr>;
          r = r\<lparr>iommu_base := dma_handle r\<rparr>
      in r\<lparr>base := pre_aligned r + (iommu_base r - dma_handle r)\<rparr>)"

definition reset_ring :: "'a mhi_ring \<Rightarrow> 'a mhi_ring" where
  "reset_ring r = r\<lparr>rp := base r, wp := base r, ctxt_wp := iommu_base r\<rparr>"

text \<open>\<open>mhi_init_dev_ctxt\<close>, loop by loop.\<close>

definition init_chan_entry :: "mhi_chan \<Rightarrow> mhi_chan_ctxt \<Rightarrow> mhi_chan_ctxt" where
  "init_chan_entry ch x =
     x\<lparr>chstate := ch_state_val MHI_CH_STATE_DISABLED, ctxt_brstmode := brstmode (ch_db_cfg ch) AND 0x3,
       ctxt_pollcfg := pollcfg (ch_db_cfg ch) AND 0x3F, chtype := ch_type ch,
       erindex := of_nat (ch_er_index ch)\<rparr>"

definition init_chan_ctxts :: "mhi_controller \<Rightarrow> mhi_controller" where
  "init_chan_ctxts c =
     c\<lparr>chan_ctxt := (\<lambda>i. if i < max_chan c \<and> \<not> offload_ch (mhi_chan c i)
                          then init_chan_entry (mhi_chan c i) (chan_ctxt c i) else chan_ctxt c i),
       mhi_chan := (\<lambda>i. if i < max_chan c \<and> \<not> offload_ch (mhi_chan c i)
                          then (mhi_chan c i)\<lparr>ch_state := MHI_CH_STATE_DISABLED,
                                 tre_ring := (tre_ring (mhi_chan c i))\<lparr>db_addr :=
                                   ctrl_seg c + of_nat (seg_offsetof chan_ctxt_seg + i * sizeof_ctxt + 36)\<rparr>\<rparr>
                          else mhi_chan c i)\<rparr>"

definition init_event_ring :: "mhi_controller \<Rightarrow> nat \<Rightarrow> mhi_event \<Rightarrow> mhi_event" where
  "init_event_ring c i ev =
     (let r = place_ring (ctrl_seg c) (ctrl_seg_addr c)
                (seg_offsetof event_ring + i * (NUM_MHI_EVT_RING_ELEMENTS * 16)) (ev_ring ev)
      in ev\<lparr>ev_msi := (if msi_allocated c = 1 then 0 else ev_msi ev),
            ev_db_cfg := (ev_db_cfg ev)\<lparr>db_mode := True\<rparr>,
            ev_ring := (reset_ring r)\<lparr>slots := (\<lambda>_. poison_tre)\<rparr>\<rparr>)"

definition init_event_ctxts :: "mhi_controller \<Rightarrow> mhi_controller" where
  "init_event_ctxts c =
     (let evs = (\<lambda>i. if i < total_ev_rings c \<and> \<not> offload_ev (mhi_event c i)
                      then init_event_ring c i (mhi_event c i) else mhi_event c i)
      in c\<lparr>mhi_event := evs,
           er_ctxt := (\<lambda>i. if i < total_ev_rings c \<and> \<not> offload_ev (mhi_event c i)
             then (er_ctxt c i)\<lparr>intmodc := 0, intmodt := ev_intmod (evs i) AND 0xFFFF, ertype := 1,
                    msivec := ev_msi (evs i), er_rbase := iommu_base (ev_ring (evs i)),
                    er_rp := iommu_base (ev_ring (evs i)), er_rlen := ring_len (ev_ring (evs i))\<rparr>
             else er_ctxt c i)\<rparr>)"

definition init_cmd_ctxt :: "mhi_controller \<Rightarrow> mhi_controller" where
  "init_cmd_ctxt c =
     (let r = reset_ring (place_ring (ctrl_seg c) (ctrl_seg_addr c) (seg_offsetof cmd_ring_seg)
                ((cmd_ring c)\<lparr>elements := of_nat CMD_EL_PER_RING\<rparr>))
      in c\<lparr>cmd_ring := r,
           cmd_ctxt := (cmd_ctxt c)\<lparr>cmd_rbase := iommu_base r, cmd_rp := iommu_base r,
             cmd_rlen := ring_len r\<rparr>\<rparr>)"

definition mhi_init_dev_ctxt :: "mhi_os \<Rightarrow> mhi_controller \<Rightarrow> unit res \<times> mhi_controller" where
  "mhi_init_dev_ctxt os c =
     (let c = c\<lparr>dev_wake := 0, alloc_size := 0, pending_pkts := 0\<rparr>
      in case call_kmalloc os sizeof_mhi_ctxt c of
           (None, c) \<Rightarrow> (Inl ENOMEM, c)
         | (Some ctxt, c) \<Rightarrow>
             case mhi_alloc_coherent os (of_nat sizeof_ctrl_seg) c of
               (None, c) \<Rightarrow> (Inl ENOMEM, emit (Kfree ctxt) c)
             | (Some (seg, seg_addr), c) \<Rightarrow>
                 if seg AND 0xFFF \<noteq> 0
                 then (Inl ENOMEM,
                       emit (Kfree ctxt) (mhi_free_coherent (of_nat sizeof_ctrl_seg) seg seg_addr c))
                 else
                   let c = c\<lparr>ctrl_seg := seg, ctrl_seg_addr := seg_addr,
                         chan_ctxt := (\<lambda>_. zero_chan_ctxt), er_ctxt := (\<lambda>_. zero_er_ctxt),
                         cmd_ctxt := \<lparr>cmd_rbase = 0, cmd_rlen = 0, cmd_rp = 0\<rparr>,
                         chan_ctxt_addr := seg_addr + of_nat (seg_offsetof chan_ctxt_seg),
                         er_ctxt_addr := seg_addr + of_nat (seg_offsetof er_ctxt_seg),
                         cmd_ctxt_addr := seg_addr + of_nat (seg_offsetof cmd_ctxt_seg)\<rparr>;
                       c = init_cmd_ctxt (init_event_ctxts (init_chan_ctxts c))
                   in (Inr (), c\<lparr>mhi_ctxt := Some ctxt\<rparr>))"

definition mhi_deinit_dev_ctxt :: "mhi_controller \<Rightarrow> mhi_controller" where
  "mhi_deinit_dev_ctxt c =
     (let c = c\<lparr>cmd_ring := (cmd_ring c)\<lparr>base := 0, iommu_base := 0\<rparr>,
            mhi_event := (\<lambda>i. if i < total_ev_rings c \<and> \<not> offload_ev (mhi_event c i)
              then (mhi_event c i)\<lparr>ev_ring := (ev_ring (mhi_event c i))\<lparr>base := 0, iommu_base := 0\<rparr>\<rparr>
              else mhi_event c i)\<rparr>
      in case mhi_ctxt c of
           None \<Rightarrow> c\<lparr>ub := True\<rparr>
         | Some ctxt \<Rightarrow>
             (emit (Kfree ctxt) (mhi_free_coherent (of_nat sizeof_ctrl_seg) (ctrl_seg c)
                (ctrl_seg_addr c) c))\<lparr>mhi_ctxt := None\<rparr>)"

section \<open>The context of a channel\<close>

definition sizeof_mhi_buf_info :: u64 where
  "sizeof_mhi_buf_info = 56"

definition chan_seg_member :: "nat \<Rightarrow> seg_member" where
  "chan_seg_member ch =
     (if ch = MHI_CLIENT_IP_HW_0_IN then hw_in_chan_ring
      else if ch = MHI_CLIENT_IP_HW_0_OUT then hw_out_chan_ring
      else if ch = MHI_CLIENT_DIAG_IN then diag_in_chan_ring else chan_ring)"

definition tre_ring_offset :: "mhi_chan \<Rightarrow> nat" where
  "tre_ring_offset ch = seg_offsetof (chan_seg_member (unat (chan ch))) + unat (ch_ring ch) * 16"

definition mhi_init_chan_ctxt :: "mhi_os \<Rightarrow> nat \<Rightarrow> mhi_controller \<Rightarrow> unit res \<times> mhi_controller" where
  "mhi_init_chan_ctxt os i c =
     (let c = upd_chan i (\<lambda>ch. ch\<lparr>tre_ring :=
                place_ring (ctrl_seg c) (ctrl_seg_addr c) (tre_ring_offset ch) (tre_ring ch),
              buf_ring := (buf_ring ch)\<lparr>el_size := sizeof_mhi_buf_info,
                ring_len := sizeof_mhi_buf_info * elements (buf_ring ch)\<rparr>\<rparr>) c
      in case call_kmalloc os (ring_len (buf_ring (mhi_chan c i))) c of
           (None, c) \<Rightarrow> (Inl ENOMEM, upd_chan i (\<lambda>ch. ch\<lparr>buf_ring := (buf_ring ch)\<lparr>base := 0\<rparr>\<rparr>) c)
         | (Some a, c) \<Rightarrow>
             let c = upd_chan i (\<lambda>ch. ch\<lparr>buf_ring := (buf_ring ch)\<lparr>base := a, slots := (\<lambda>_. zero_buf_info),
                         rp := a, wp := a\<rparr>, tre_ring := reset_ring (tre_ring ch),
                         ch_db_cfg := (ch_db_cfg ch)\<lparr>db_mode := True\<rparr>\<rparr>) c;
                 r = tre_ring (mhi_chan c i);
                 k = unat (chan (mhi_chan c i))
             in (Inr (), c\<lparr>chan_ctxt := (chan_ctxt c)(k := (chan_ctxt c k)
                   \<lparr>chstate := ch_state_val MHI_CH_STATE_ENABLED, cc_rbase := iommu_base r,
                    cc_rp := iommu_base r, cc_rlen := ring_len r\<rparr>)\<rparr>))"

definition mhi_deinit_chan_ctxt :: "nat \<Rightarrow> mhi_controller \<Rightarrow> mhi_controller" where
  "mhi_deinit_chan_ctxt i c =
     (let c = emit (Kfree (base (buf_ring (mhi_chan c i)))) c;
          c = upd_chan i (\<lambda>ch. ch\<lparr>buf_ring := (buf_ring ch)\<lparr>base := 0\<rparr>,
                tre_ring := (tre_ring ch)\<lparr>base := 0\<rparr>\<rparr>) c;
          k = unat (chan (mhi_chan c i))
      in c\<lparr>chan_ctxt := (chan_ctxt c)(k := (chan_ctxt c k)\<lparr>cc_rbase := 0\<rparr>)\<rparr>)"

section \<open>Interrupt lines\<close>

text \<open>
  A line is named by its index in the array \<open>irq\<close> of the \<open>msi_allocated\<close> vectors the
  controller got; an index beyond it leaves the array.
\<close>

definition touch_irq :: "nat \<Rightarrow> mhi_controller \<Rightarrow> mhi_controller" where
  "touch_irq k c = (if k < unat (msi_allocated c) then c else c\<lparr>ub := True\<rparr>)"

definition free_irq :: "nat \<Rightarrow> mhi_controller \<Rightarrow> mhi_controller" where
  "free_irq k c = emit (Free_irq k) (touch_irq k c)"

definition request_irq :: "mhi_os \<Rightarrow> nat \<Rightarrow> mhi_controller \<Rightarrow> unit res \<times> mhi_controller" where
  "request_irq os k c =
     (let c = touch_irq k c
      in case irq_ret os k of Some e \<Rightarrow> (Inl e, c) | None \<Rightarrow> (Inr (), emit (Request_irq k) c))"

definition free_event_irqs :: "nat list \<Rightarrow> mhi_controller \<Rightarrow> mhi_controller" where
  "free_event_irqs is c =
     fold (\<lambda>i c. if offload_ev (mhi_event c i) then c
                  else free_irq (unat (ev_msi (mhi_event c i))) c) is c"

definition mhi_deinit_free_irq :: "mhi_controller \<Rightarrow> mhi_controller" where
  "mhi_deinit_free_irq c =
     (if msi_allocated c = 1 then free_irq (unat (msi_irq_base c)) c
      else free_irq (unat (msi_irq_base c)) (free_event_irqs [0..<total_ev_rings c] c))"

text \<open>The loop over the event rings, with the index at which it fails.\<close>

fun request_event_irqs ::
  "mhi_os \<Rightarrow> nat list \<Rightarrow> mhi_controller \<Rightarrow> (errno \<times> nat) option \<times> mhi_controller" where
  "request_event_irqs os [] c = (None, c)"
| "request_event_irqs os (i # is) c =
     (if offload_ev (mhi_event c i) then request_event_irqs os is c
      else case request_irq os (unat (ev_msi (mhi_event c i))) c of
             (Inl e, c) \<Rightarrow> (Some (e, i), c)
           | (Inr _, c) \<Rightarrow> request_event_irqs os is c)"

definition mhi_init_irq_setup :: "mhi_os \<Rightarrow> mhi_controller \<Rightarrow> unit res \<times> mhi_controller" where
  "mhi_init_irq_setup os c =
     (if msi_allocated c = 1
      then request_irq os 0
             (c\<lparr>mhi_event := (\<lambda>i. if i < total_ev_rings c then (mhi_event c i)\<lparr>ev_msi := 0\<rparr>
                                  else mhi_event c i)\<rparr>)
      else case request_irq os (unat (msi_irq_base c)) c of
             (Inl e, c) \<Rightarrow> (Inl e, c)
           | (Inr _, c) \<Rightarrow>
               case request_event_irqs os [0..<total_ev_rings c] c of
                 (None, c) \<Rightarrow> (Inr (), c)
               | (Some (e, i), c) \<Rightarrow> (Inl e, free_irq 0 (free_event_irqs (rev [0..<i]) c)))"

section \<open>Registers\<close>

definition CHDBOFF :: u32 where "CHDBOFF = 0x18"
definition ERDBOFF :: u32 where "ERDBOFF = 0x20"
definition CCABAP_LOWER :: u32 where "CCABAP_LOWER = 0x58"
definition CCABAP_HIGHER :: u32 where "CCABAP_HIGHER = 0x5C"
definition ECABAP_LOWER :: u32 where "ECABAP_LOWER = 0x60"
definition ECABAP_HIGHER :: u32 where "ECABAP_HIGHER = 0x64"
definition CRCBAP_LOWER :: u32 where "CRCBAP_LOWER = 0x68"
definition CRCBAP_HIGHER :: u32 where "CRCBAP_HIGHER = 0x6C"
definition CRDB_LOWER :: u32 where "CRDB_LOWER = 0x70"
definition MHICTRLBASE_LOWER :: u32 where "MHICTRLBASE_LOWER = 0x80"
definition MHICTRLBASE_HIGHER :: u32 where "MHICTRLBASE_HIGHER = 0x84"
definition MHICTRLLIMIT_LOWER :: u32 where "MHICTRLLIMIT_LOWER = 0x88"
definition MHICTRLLIMIT_HIGHER :: u32 where "MHICTRLLIMIT_HIGHER = 0x8C"
definition MHIDATABASE_LOWER :: u32 where "MHIDATABASE_LOWER = 0x98"
definition MHIDATABASE_HIGHER :: u32 where "MHIDATABASE_HIGHER = 0x9C"
definition MHIDATALIMIT_LOWER :: u32 where "MHIDATALIMIT_LOWER = 0xA0"
definition MHIDATALIMIT_HIGHER :: u32 where "MHIDATALIMIT_HIGHER = 0xA4"
definition MHI_DEV_WAKE_DB :: u32 where "MHI_DEV_WAKE_DB = 127"

lemmas mmio_defs = CHDBOFF_def ERDBOFF_def CCABAP_LOWER_def CCABAP_HIGHER_def ECABAP_LOWER_def
  ECABAP_HIGHER_def CRCBAP_LOWER_def CRCBAP_HIGHER_def CRDB_LOWER_def MHICTRLBASE_LOWER_def
  MHICTRLBASE_HIGHER_def MHICTRLLIMIT_LOWER_def MHICTRLLIMIT_HIGHER_def MHIDATABASE_LOWER_def
  MHIDATABASE_HIGHER_def MHIDATALIMIT_LOWER_def MHIDATALIMIT_HIGHER_def MHI_DEV_WAKE_DB_def

definition reg_info :: "mhi_controller \<Rightarrow> (u32 \<times> u32) list" where
  "reg_info c =
    [(CCABAP_HIGHER, upper_32_bits (chan_ctxt_addr c)), (CCABAP_LOWER, lower_32_bits (chan_ctxt_addr c)),
     (ECABAP_HIGHER, upper_32_bits (er_ctxt_addr c)), (ECABAP_LOWER, lower_32_bits (er_ctxt_addr c)),
     (CRCBAP_HIGHER, upper_32_bits (cmd_ctxt_addr c)), (CRCBAP_LOWER, lower_32_bits (cmd_ctxt_addr c)),
     (MHICTRLBASE_HIGHER, upper_32_bits (ctrl_seg_addr c)),
     (MHICTRLBASE_LOWER, lower_32_bits (ctrl_seg_addr c)),
     (MHIDATABASE_HIGHER, upper_32_bits (iova_start c)), (MHIDATABASE_LOWER, lower_32_bits (iova_start c)),
     (MHICTRLLIMIT_HIGHER, upper_32_bits (ctrl_seg_addr c + of_nat sizeof_ctrl_seg)),
     (MHICTRLLIMIT_LOWER, lower_32_bits (ctrl_seg_addr c + of_nat sizeof_ctrl_seg)),
     (MHIDATALIMIT_HIGHER, upper_32_bits (iova_stop c)), (MHIDATALIMIT_LOWER, lower_32_bits (iova_stop c))]"

text \<open>The doorbell offset of ring \<open>i\<close>, counted up by 8 in 32 bits from the first one.\<close>

definition db_at :: "u64 \<Rightarrow> u32 \<Rightarrow> nat \<Rightarrow> u64" where
  "db_at b v i = b + ucast (v + 8 * of_nat i)"

definition mhi_init_mmio :: "mhi_os \<Rightarrow> mhi_controller \<Rightarrow> unit res \<times> mhi_controller" where
  "mhi_init_mmio os c =
     (let b = regs c; info = reg_info c
      in case mhi_read_reg_field os c b CHDBOFF 0xFFFFFFFF 0 of
           Inl e \<Rightarrow> (Inl EIO, c)
         | Inr v \<Rightarrow>
             let c = c\<lparr>wake_db := b + ucast v + ucast (8 * MHI_DEV_WAKE_DB),
                   mhi_chan := (\<lambda>i. if i < max_chan c
                     then (mhi_chan c i)\<lparr>tre_ring := (tre_ring (mhi_chan c i))\<lparr>db_addr := db_at b v i\<rparr>\<rparr>
                     else mhi_chan c i)\<rparr>
             in case mhi_read_reg_field os c b ERDBOFF 0xFFFFFFFF 0 of
                  Inl e \<Rightarrow> (Inl EIO, c)
                | Inr v \<Rightarrow>
                    let c = c\<lparr>mhi_event := (\<lambda>i. if i < total_ev_rings c \<and> \<not> offload_ev (mhi_event c i)
                          then (mhi_event c i)\<lparr>ev_ring := (ev_ring (mhi_event c i))\<lparr>db_addr := db_at b v i\<rparr>\<rparr>
                          else mhi_event c i),
                        cmd_ring := (cmd_ring c)\<lparr>db_addr := b + ucast CRDB_LOWER\<rparr>\<rparr>
                    in (Inr (), fold (\<lambda>(off, v). mhi_write_reg_field os b off 0xFFFFFFFF 0 v) info c))"

section \<open>What the tables give\<close>

text \<open>The ring positions a table hands out, by the same running counter.\<close>

fun plan :: "bool \<Rightarrow> chan_cfg_t list \<Rightarrow> u32 \<Rightarrow> (nat \<times> nat \<times> u32) list" where
  "plan mbim [] ring = []"
| "plan mbim (e # es) ring =
     (if cfg_skipped mbim e then plan mbim es ring
      else (chan_id e, cfg_elements e, if own_ring (chan_id e) then 0 else ring)
           # plan mbim es (if own_ring (chan_id e) then ring else ring + of_nat (cfg_elements e)))"

definition planned :: "mhi_chan \<Rightarrow> nat \<Rightarrow> nat \<times> u32 \<Rightarrow> bool" where
  "planned ch i nr \<longleftrightarrow>
     configured ch \<and> chan ch = of_nat i \<and> elements (tre_ring ch) = of_nat (fst nr)
     \<and> elements (buf_ring ch) = of_nat (fst nr) \<and> ch_ring ch = snd nr \<and> \<not> lpm_notify ch
     \<and> \<not> pre_alloc ch \<and> (offload_ch ch \<longleftrightarrow> fst nr = 0)"

lemma configure_chan_planned:
  obtains ch' where "configure_chan rmnet e ring ch = Some ch'"
    and "planned ch' (chan_id e) (cfg_elements e, if own_ring (chan_id e) then 0 else ring)"
  by (rule that [of "the (configure_chan rmnet e ring ch)"])
     (auto simp: configure_chan_def planned_def Let_def MHI_INVALID_BRSTMODE_def
        MHI_BRSTMODE_ENABLE_def MHI_BRSTMODE_DISABLE_def)

lemma parse_chans_plan:
  assumes "\<forall>e \<in> set es. chan_id e < max_chan c \<and> cfg_elements e < 2 ^ 32"
    and "distinct (map fst (plan mbim es ring))"
  shows "\<exists>c'. parse_chans mbim rmnet es ring c = Some c' \<and> ub c' = ub c
    \<and> max_chan c' = max_chan c \<and> lpm_chans c' = lpm_chans c
    \<and> (\<forall>i. case map_of (plan mbim es ring) i of
           None \<Rightarrow> mhi_chan c' i = mhi_chan c i | Some nr \<Rightarrow> planned (mhi_chan c' i) i nr)"
  using assms
proof (induction es arbitrary: ring c)
  case (Cons e es)
  show ?case
  proof (cases "cfg_skipped mbim e")
    case True
    with Cons show ?thesis by simp
  next
    case False
    let ?i = "chan_id e" and ?r = "if own_ring (chan_id e) then 0 else ring"
    obtain ch where ch: "configure_chan rmnet e ring (mhi_chan c ?i) = Some ch"
      and pl: "planned ch ?i (cfg_elements e, ?r)" by (rule configure_chan_planned)
    from Cons.prems have i: "?i < max_chan c" and n: "cfg_elements e < 2 ^ 32" by auto
    let ?c = "upd_chan ?i (\<lambda>_. ch) c"
    let ?ring = "if own_ring ?i then ring else ring + of_nat (cfg_elements e)"
    have "ucast (elements (buf_ring ch)) = (of_nat (cfg_elements e) :: u32)"
      using pl n by (simp add: planned_def unsigned_of_nat take_bit_nat_eq_self)
    then have step: "parse_chans mbim rmnet (e # es) ring c = parse_chans mbim rmnet es ?ring ?c"
      using False ch pl i by (simp add: touch_chan_def planned_def Let_def)
    have "\<forall>e \<in> set es. chan_id e < max_chan ?c \<and> cfg_elements e < 2 ^ 32"
      using Cons.prems by (simp add: upd_chan_def)
    moreover have "distinct (map fst (plan mbim es ?ring))" using Cons.prems False by auto
    ultimately obtain c' where c': "parse_chans mbim rmnet es ?ring ?c = Some c'" "ub c' = ub ?c"
      "max_chan c' = max_chan ?c" "lpm_chans c' = lpm_chans ?c"
      "\<forall>i. case map_of (plan mbim es ?ring) i of
           None \<Rightarrow> mhi_chan c' i = mhi_chan ?c i | Some nr \<Rightarrow> planned (mhi_chan c' i) i nr"
      using Cons.IH by blast
    have new: "map_of (plan mbim es ?ring) ?i = None"
      using Cons.prems False by (auto simp: map_of_eq_None_iff)
    have "case map_of (plan mbim (e # es) ring) j of
        None \<Rightarrow> mhi_chan c' j = mhi_chan c j | Some nr \<Rightarrow> planned (mhi_chan c' j) j nr" for j
    proof (cases "j = ?i")
      case True
      then show ?thesis using c'(5)[rule_format, of j] new pl False by (simp add: upd_chan_def)
    next
      case ne: False
      have P: "plan mbim (e # es) ring = (?i, cfg_elements e, ?r) # plan mbim es ?ring"
        using False by simp
      have Q: "mhi_chan ?c j = mhi_chan c j" using ne by (simp add: upd_chan_def)
      show ?thesis using c'(5)[rule_format, of j] ne unfolding P Q by simp
    qed
    then show ?thesis using c' step by (auto simp: upd_chan_def)
  qed
qed simp

lemma plan_ids: "fst ` set (plan mbim es ring) = chan_id ` {e \<in> set es. \<not> cfg_skipped mbim e}"
  by (induction es arbitrary: ring) auto

lemma plan_chan_cfg:
  "plan mbim chan_cfg 0 =
    [(0, 32, 0), (1, 32, 32), (2, 32, 64), (3, 32, 96), (4, 32, 128), (5, 128, 0), (10, 32, 160),
     (11, 32, 192)]
    @ (if mbim then [(12, 32, 224), (13, 32, 256)] else [(14, 32, 224), (15, 32, 256)])
    @ [(18, 32, 288), (19, 32, 320), (32, 32, 352), (33, 32, 384), (34, 32, 416), (35, 32, 448),
       (100, 512, 0), (101, 512, 0)]"
  by (cases mbim) (simp_all add: chan_cfg_def cfg_def cfg_skipped_def own_ring_def client_defs size_defs)


text \<open>The interval of the control segment a channel's ring occupies.\<close>

definition seg_span :: "mhi_chan \<Rightarrow> nat set" where
  "seg_span ch = {tre_ring_offset ch ..< tre_ring_offset ch + 16 * unat (elements (tre_ring ch))}"

definition member_span :: "seg_member \<Rightarrow> nat set" where
  "member_span m = {seg_offsetof m ..< seg_offsetof m + member_size m}"

definition plan_ok :: "(nat \<times> nat \<times> u32) list \<Rightarrow> bool" where
  "plan_ok xs \<longleftrightarrow>
     (\<forall>(i, n, r) \<in> set xs. i < 128 \<and> 0 < n \<and> n < 2 ^ 32 \<and> 16 * n dvd 16 * unat r
        \<and> 16 * n dvd seg_offsetof (chan_seg_member i)
        \<and> unat r * 16 + 16 * n \<le> member_size (chan_seg_member i))
     \<and> pairwise (\<lambda>(i, n, r) (i', n', r'). chan_seg_member i = chan_seg_member i' \<longrightarrow>
          unat r + n \<le> unat r' \<or> unat r' + n' \<le> unat r) (set xs)"

lemma plan_ok_chan_cfg: "plan_ok (plan mbim chan_cfg 0)"
  unfolding plan_chan_cfg plan_ok_def pairwise_def
  by (cases mbim) (simp_all add: chan_seg_member_def client_defs size_defs)


lemma in_plan: "map_of xs i = Some (n, r) \<Longrightarrow> (i, n, r) \<in> set xs"
  by (rule map_of_SomeD)

lemma plan_ok_pair:
  assumes "plan_ok xs" and "map_of xs i = Some (n, r)" and "map_of xs j = Some (n', r')"
    and "i \<noteq> j" and "chan_seg_member i = chan_seg_member j"
  shows "unat r + n \<le> unat r' \<or> unat r' + n' \<le> unat r"
  using assms(1) in_plan [OF assms(2)] in_plan [OF assms(3)] assms(4,5)
  unfolding plan_ok_def pairwise_def by (metis (mono_tags, lifting) case_prod_conv prod.inject)

lemma planned_span:
  assumes "plan_ok xs" and "map_of xs i = Some (n, r)" and "planned ch i (n, r)"
  shows "unat (elements (tre_ring ch)) = n" and "unat (chan ch) = i" and "0 < n"
    and "tre_ring_offset ch = seg_offsetof (chan_seg_member i) + unat r * 16"
    and "16 * n dvd tre_ring_offset ch" and "seg_span ch \<subseteq> member_span (chan_seg_member i)"
proof -
  have m: "(i, n, r) \<in> set xs" using assms(2) by (rule in_plan)
  with assms(1) have f: "i < 128" "0 < n" "n < 2 ^ 32" "16 * n dvd 16 * unat r"
    "16 * n dvd seg_offsetof (chan_seg_member i)"
    "unat r * 16 + 16 * n \<le> member_size (chan_seg_member i)"
    unfolding plan_ok_def by auto
  show n: "unat (elements (tre_ring ch)) = n"
    using assms(3) f by (simp add: planned_def unat_of_nat take_bit_nat_eq_self)
  show i: "unat (chan ch) = i"
    using assms(3) f by (simp add: planned_def unat_of_nat take_bit_nat_eq_self)
  show "0 < n" by fact
  show o: "tre_ring_offset ch = seg_offsetof (chan_seg_member i) + unat r * 16"
    using assms(3) i by (simp add: tre_ring_offset_def planned_def)
  show "16 * n dvd tre_ring_offset ch" unfolding o using f by (simp add: mult.commute)
  show "seg_span ch \<subseteq> member_span (chan_seg_member i)"
    unfolding seg_span_def member_span_def o n using f by auto
qed

lemma members_disjoint: "m \<noteq> m' \<Longrightarrow> member_span m \<inter> member_span m' = {}"
  by (cases m; cases m') (simp_all add: member_span_def size_defs sizeof_ctxt_def)

text \<open>A planned channel's rings are in the right member of the segment, apart from every other's.\<close>

lemma planned_each:
  assumes "map_of (plan mbim chan_cfg 0) i = Some (n, r)" and "planned ch i (n, r)"
  shows "let n = unat (elements (tre_ring ch)) in unat (chan ch) = i \<and> 0 < n \<and> elements (buf_ring ch) = elements (tre_ring ch)
    \<and> 16 * n dvd tre_ring_offset ch \<and> seg_span ch \<subseteq> member_span (chan_seg_member i)"
proof -
  have "elements (buf_ring ch) = elements (tre_ring ch)" using assms(2) by (simp add: planned_def)
  with planned_span [OF plan_ok_chan_cfg assms] show ?thesis by (simp add: Let_def)
qed

lemma planned_disjoint:
  assumes "map_of (plan mbim chan_cfg 0) i = Some (n, r)" and "planned ch i (n, r)"
    and "map_of (plan mbim chan_cfg 0) j = Some (n', r')" and "planned ch' j (n', r')" and "i \<noteq> j"
  shows "seg_span ch \<inter> seg_span ch' = {}"
proof (cases "chan_seg_member i = chan_seg_member j")
  case False
  from members_disjoint [OF this] planned_each [OF assms(1,2)] planned_each [OF assms(3,4)] show ?thesis
    unfolding Let_def by blast
next
  case True
  have "unat r + n \<le> unat r' \<or> unat r' + n' \<le> unat r"
    using plan_ok_pair [OF plan_ok_chan_cfg assms(1,3,5) True] .
  then show ?thesis
    using planned_span(1,4) [OF plan_ok_chan_cfg assms(1,2)] planned_span(1,4) [OF plan_ok_chan_cfg assms(3,4)] True
    unfolding seg_span_def by auto
qed

text \<open>
  C19: The channel table: \<open>of_parse_ch_cfg\<close> fails only for want of memory. Otherwise, with
  either family of control channels, exactly the channels of the table are configured, and
  the transfer rings they are given in the control segment are non-empty, start at a multiple
  of their own length, lie inside the member of the segment that their channel number selects,
  and no two of them overlap, so none reaches the event rings, the command ring or a context.
\<close>

theorem chan_rings_layout:
  "case of_parse_ch_cfg os mbim rmnet c of (ret, c') \<Rightarrow>
    if kmalloc os (n_alloc c) (128 * sizeof_mhi_chan os) = None then ret = Inl ENOMEM
    else ret = Inr () \<and> ub c' = ub c \<and> max_chan c' = 128 \<and> lpm_chans c' = []
      \<and> {i. configured (mhi_chan c' i)} = chan_id ` {e \<in> set chan_cfg. \<not> cfg_skipped mbim e}
      \<and> (\<forall>i \<in> {i. configured (mhi_chan c' i)}.
           let ch = mhi_chan c' i; n = unat (elements (tre_ring ch)) in
           unat (chan ch) = i \<and> 0 < n \<and> elements (buf_ring ch) = elements (tre_ring ch)
           \<and> 16 * n dvd tre_ring_offset ch
           \<and> seg_span ch \<subseteq> member_span (chan_seg_member i))
      \<and> (\<forall>i \<in> {i. configured (mhi_chan c' i)}. \<forall>j \<in> {i. configured (mhi_chan c' i)}.
           i \<noteq> j \<longrightarrow> seg_span (mhi_chan c' i) \<inter> seg_span (mhi_chan c' j) = {})"
proof (cases "kmalloc os (n_alloc c) (128 * sizeof_mhi_chan os)")
  case None
  then show ?thesis by (simp add: of_parse_ch_cfg_def call_kmalloc_def size_defs)
next
  case (Some a)
  let ?xs = "plan mbim chan_cfg 0"
  let ?c = "c\<lparr>max_chan := 128, n_alloc := Suc (n_alloc c), chan_mem := a,
    mhi_chan := (\<lambda>_. zero_chan), lpm_chans := []\<rparr>"
  have ids: "\<forall>e \<in> set chan_cfg. chan_id e < max_chan ?c \<and> cfg_elements e < 2 ^ 32"
    by (simp add: chan_cfg_def cfg_def size_defs)
  have dist: "distinct (map fst ?xs)" unfolding plan_chan_cfg by (cases mbim) simp_all
  obtain c' where c': "parse_chans mbim rmnet chan_cfg 0 ?c = Some c'" "ub c' = ub ?c"
    "max_chan c' = max_chan ?c" "lpm_chans c' = lpm_chans ?c"
    and pl: "\<And>i. case map_of ?xs i of None \<Rightarrow> mhi_chan c' i = mhi_chan ?c i
                  | Some nr \<Rightarrow> planned (mhi_chan c' i) i nr"
    using parse_chans_plan [OF ids dist] by blast
  have run: "of_parse_ch_cfg os mbim rmnet c = (Inr (), c')"
    using Some c'(1) by (simp add: of_parse_ch_cfg_def call_kmalloc_def size_defs Let_def)
  have conf: "configured (mhi_chan c' i) \<longleftrightarrow> map_of ?xs i \<noteq> None" for i
    using pl [of i] by (auto simp: planned_def zero_chan_def split: option.splits)
  then have dom: "{i. configured (mhi_chan c' i)} = fst ` set ?xs"
    by (auto simp: map_of_eq_None_iff)
  have all: "\<exists>n r. map_of ?xs i = Some (n, r) \<and> planned (mhi_chan c' i) i (n, r)"
    if "i \<in> {i. configured (mhi_chan c' i)}" for i
    using pl [of i] conf [of i] that by (auto split: option.splits)
  have table: "fst ` set ?xs = chan_id ` {e \<in> set chan_cfg. \<not> cfg_skipped mbim e}"
    by (rule plan_ids)
  have each: "let ch = mhi_chan c' i; n = unat (elements (tre_ring ch)) in
           unat (chan ch) = i \<and> 0 < n \<and> elements (buf_ring ch) = elements (tre_ring ch)
           \<and> 16 * n dvd tre_ring_offset ch \<and> seg_span ch \<subseteq> member_span (chan_seg_member i)"
    if "i \<in> {i. configured (mhi_chan c' i)}" for i
    using all [OF that] planned_each unfolding Let_def by blast
  have disj: "seg_span (mhi_chan c' i) \<inter> seg_span (mhi_chan c' j) = {}"
    if "i \<in> {i. configured (mhi_chan c' i)}" and "j \<in> {i. configured (mhi_chan c' i)}" and "i \<noteq> j" for i j
    using all [OF that(1)] all [OF that(2)] planned_disjoint that(3) by blast
  have C: "{i. configured (mhi_chan c' i)} = chan_id ` {e \<in> set chan_cfg. \<not> cfg_skipped mbim e}"
    by (simp only: dom table)
  have D: "ub c' = ub c \<and> max_chan c' = 128 \<and> lpm_chans c' = []" using c' by simp
  have nn: "(kmalloc os (n_alloc c) (128 * sizeof_mhi_chan os) = None) = False" using Some by simp
  show ?thesis unfolding run prod.case nn if_False
    by (intro conjI refl ballI impI each disj C D [THEN conjunct1] D [THEN conjunct2, THEN conjunct1]
        D [THEN conjunct2, THEN conjunct2])
qed


theorem chan_rings_layout_witness:
  "case of_parse_ch_cfg link_up False False zero_controller of (ret, c') \<Rightarrow>
     ret = Inr () \<and> configured (mhi_chan c' 14) \<and> \<not> configured (mhi_chan c' 12)
     \<and> seg_span (mhi_chan c' 14) \<subseteq> member_span (chan_seg_member 14)
     \<and> seg_span (mhi_chan c' 14) \<inter> seg_span (mhi_chan c' 101) = {}"
proof -
  obtain ret c' where r: "of_parse_ch_cfg link_up False False zero_controller = (ret, c')" by fastforce
  let ?S = "{i. configured (mhi_chan c' i)}"
  have nn: "(kmalloc link_up (n_alloc zero_controller) (128 * sizeof_mhi_chan link_up) = None) = False"
    by (simp add: link_up_def)
  have th: "ret = Inr ()"
    "?S = chan_id ` {e \<in> set chan_cfg. \<not> cfg_skipped False e}"
    "\<forall>i \<in> ?S. let ch = mhi_chan c' i; n = unat (elements (tre_ring ch)) in
           unat (chan ch) = i \<and> 0 < n \<and> elements (buf_ring ch) = elements (tre_ring ch)
           \<and> 16 * n dvd tre_ring_offset ch \<and> seg_span ch \<subseteq> member_span (chan_seg_member i)"
    "\<forall>i \<in> ?S. \<forall>j \<in> ?S. i \<noteq> j \<longrightarrow> seg_span (mhi_chan c' i) \<inter> seg_span (mhi_chan c' j) = {}"
    using chan_rings_layout [where os = link_up and mbim = False and rmnet = False and c = zero_controller] unfolding r prod.case nn if_False
    by blast+
  have tab: "chan_id ` {e \<in> set chan_cfg. \<not> cfg_skipped False e} =
      fst ` set (plan False chan_cfg 0)" by (rule plan_ids [symmetric])
  have S: "14 \<in> ?S" "12 \<notin> ?S" "101 \<in> ?S" unfolding th(2) tab plan_chan_cfg by simp_all
  have "seg_span (mhi_chan c' 14) \<subseteq> member_span (chan_seg_member 14)"
    using th(3) S(1) unfolding Let_def by blast
  moreover have "seg_span (mhi_chan c' 14) \<inter> seg_span (mhi_chan c' 101) = {}"
    using th(4) S(1,3) by force
  ultimately show ?thesis unfolding r prod.case using th(1) S by simp
qed

section \<open>A channel's rings after initialisation\<close>

lemma place_ring_fields [simp]:
  "el_size (place_ring s d off r) = 16" "elements (place_ring s d off r) = elements r"
  "ring_len (place_ring s d off r) = 16 * elements r"
  "base (place_ring s d off r) = s + of_nat off" "iommu_base (place_ring s d off r) = d + of_nat off"
  "slots (place_ring s d off r) = slots r" "db_addr (place_ring s d off r) = db_addr r"
  by (simp_all add: place_ring_def Let_def)

lemma reset_ring_fields [simp]:
  "el_size (reset_ring r) = el_size r" "elements (reset_ring r) = elements r"
  "ring_len (reset_ring r) = ring_len r" "base (reset_ring r) = base r"
  "iommu_base (reset_ring r) = iommu_base r" "slots (reset_ring r) = slots r"
  "rp (reset_ring r) = base r" "wp (reset_ring r) = base r" "ctxt_wp (reset_ring r) = iommu_base r"
  by (simp_all add: reset_ring_def)

lemma fresh_ring:
  assumes "0 < unat (elements r)" and "0 < k" and "unat (el_size r) = k"
    and "ring_len r = el_size r * elements r"
    and "unat (base r) + k * unat (elements r) < 2 ^ 64" and "rp r = base r" and "wp r = base r"
  shows "ring_wf r" and "ring_content r = []" and "slot_idx r (wp r) = 0" and "slot_idx r (rp r) = 0"
proof -
  have l: "unat (ring_len r) = unat (elements r) * k"
    using assms(3,5) unfolding assms(4)
    by (simp add: unat_word_ariths mult.commute take_bit_nat_eq_self)
  show "ring_wf r"
    using assms l by (simp add: ring_wf_def ring_geom_def on_ring_def mult.commute)
  show "slot_idx r (wp r) = 0" "slot_idx r (rp r) = 0" using assms by (simp_all add: slot_idx_def)
  then show "ring_content r = []" by (simp add: ring_content_def ring_count_def)
qed

definition ready_chan :: "u64 \<Rightarrow> u64 \<Rightarrow> u64 \<Rightarrow> mhi_chan \<Rightarrow> mhi_chan" where
  "ready_chan seg seg_addr a ch = ch\<lparr>
     buf_ring := (buf_ring ch)\<lparr>el_size := 56, ring_len := 56 * elements (buf_ring ch), base := a,
       slots := (\<lambda>_. zero_buf_info), rp := a, wp := a\<rparr>,
     tre_ring := reset_ring (place_ring seg seg_addr (tre_ring_offset ch) (tre_ring ch)),
     ch_db_cfg := (ch_db_cfg ch)\<lparr>db_mode := True\<rparr>\<rparr>"

lemma init_chan_run:
  assumes "kmalloc os (n_alloc c) (56 * elements (buf_ring (mhi_chan c i))) = Some a"
  shows "mhi_init_chan_ctxt os i c = (Inr (), c\<lparr>n_alloc := Suc (n_alloc c),
      mhi_chan := (mhi_chan c)(i := ready_chan (ctrl_seg c) (ctrl_seg_addr c) a (mhi_chan c i)),
      chan_ctxt := (chan_ctxt c)(unat (chan (mhi_chan c i)) := (chan_ctxt c (unat (chan (mhi_chan c i))))
         \<lparr>chstate := 1, cc_rbase := ctrl_seg_addr c + of_nat (tre_ring_offset (mhi_chan c i)),
          cc_rp := ctrl_seg_addr c + of_nat (tre_ring_offset (mhi_chan c i)),
          cc_rlen := 16 * elements (tre_ring (mhi_chan c i))\<rparr>)\<rparr>)"
  using assms
  by (simp add: mhi_init_chan_ctxt_def Let_def call_kmalloc_def upd_chan_def sizeof_mhi_buf_info_def
      ready_chan_def)

lemma ready_chan_lockstep:
  assumes "0 < unat (elements (tre_ring ch))" and "elements (buf_ring ch) = elements (tre_ring ch)"
    and "unat (seg + of_nat (tre_ring_offset ch)) + 16 * unat (elements (tre_ring ch)) < 2 ^ 64"
    and "unat a + 56 * unat (elements (tre_ring ch)) < 2 ^ 64"
  shows "lockstep (ready_chan seg d a ch)" and "ring_content (tre_ring (ready_chan seg d a ch)) = []"
    and "ring_content (buf_ring (ready_chan seg d a ch)) = []"
proof -
  let ?t = "tre_ring (ready_chan seg d a ch)" and ?b = "buf_ring (ready_chan seg d a ch)"
  have f: "elements ?t = elements (tre_ring ch)" "elements ?b = elements (tre_ring ch)"
    "base ?t = seg + of_nat (tre_ring_offset ch)" "base ?b = a" "rp ?t = base ?t" "wp ?t = base ?t"
    "rp ?b = base ?b" "wp ?b = base ?b" "el_size ?t = 16" "el_size ?b = 56"
    "ring_len ?t = el_size ?t * elements ?t" "ring_len ?b = el_size ?b * elements ?b"
    using assms(2) by (simp_all add: ready_chan_def)
  have lt: "unat (base ?t) + 16 * unat (elements ?t) < 2 ^ 64" using assms(3) unfolding f(1,3) .
  have lb: "unat (base ?b) + 56 * unat (elements ?b) < 2 ^ 64" using assms(4) unfolding f(2,4) .
  have pt: "0 < unat (elements ?t)" and pb: "0 < unat (elements ?b)" using assms(1) unfolding f(1,2) by simp_all
  have st: "unat (el_size ?t) = 16" and sb: "unat (el_size ?b) = 56" unfolding f(9,10) by simp_all
  note t = fresh_ring [OF pt _ st f(11) lt f(5) f(6)]
  note b = fresh_ring [OF pb _ sb f(12) lb f(7) f(8)]
  show "ring_content ?t = []" by (rule t(2)) simp
  show "ring_content ?b = []" by (rule b(2)) simp
  have "slot_idx ?t (wp ?t) = slot_idx ?b (wp ?b)" "slot_idx ?t (rp ?t) = slot_idx ?b (rp ?b)"
    using t(3,4) b(3,4) by simp_all
  moreover have "ring_wf ?t" "ring_wf ?b" using t(1) b(1) by simp_all
  moreover have "elements ?t = elements ?b" unfolding f(1,2) ..
  ultimately show "lockstep (ready_chan seg d a ch)" unfolding lockstep_def by blast
qed
text \<open>
  C20: \<open>mhi_init_chan_ctxt\<close> on a channel whose two rings have the same number of elements, with
  segment and buffer memory that do not wrap: it fails only for want of memory, and then the
  device's context is untouched; otherwise the two rings are in lockstep and empty, the
  descriptor ring sits at the channel's place in the control segment, the device's context
  holds its bus address, its length and an empty ring, the write pointer published to the
  device is the host's, the doorbell will be rung at the next transfer, and no other
  channel is touched.
\<close>

theorem init_chan_ctxt_spec:
  assumes "ch = mhi_chan c i" and "n = unat (elements (tre_ring ch))" and "0 < n"
    and "elements (buf_ring ch) = elements (tre_ring ch)" and "off = tre_ring_offset ch"
    and "unat (ctrl_seg c + of_nat off) + 16 * n < 2 ^ 64"
    and "\<And>a. kmalloc os (n_alloc c) (56 * of_nat n) = Some a \<Longrightarrow> unat a + 56 * n < 2 ^ 64"
  shows "case mhi_init_chan_ctxt os i c of (ret, c') \<Rightarrow>
    let ch' = mhi_chan c' i; x = chan_ctxt c' (unat (chan ch)) in
    (\<forall>j. j \<noteq> i \<longrightarrow> mhi_chan c' j = mhi_chan c j)
    \<and> (case kmalloc os (n_alloc c) (56 * of_nat n) of
         None \<Rightarrow> ret = Inl ENOMEM \<and> chan_ctxt c' = chan_ctxt c
       | Some a \<Rightarrow> ret = Inr () \<and> lockstep ch' \<and> ring_content (tre_ring ch') = []
           \<and> ring_content (buf_ring ch') = [] \<and> base (buf_ring ch') = a
           \<and> base (tre_ring ch') = ctrl_seg c + of_nat off
           \<and> iommu_base (tre_ring ch') = ctrl_seg_addr c + of_nat off
           \<and> ctxt_wp (tre_ring ch') = iommu_base (tre_ring ch') \<and> db_mode (ch_db_cfg ch')
           \<and> chstate x = ch_state_val MHI_CH_STATE_ENABLED
           \<and> cc_rbase x = iommu_base (tre_ring ch') \<and> cc_rp x = cc_rbase x
           \<and> cc_rlen x = of_nat (16 * n)
           \<and> (\<forall>k. k \<noteq> unat (chan ch) \<longrightarrow> chan_ctxt c' k = chan_ctxt c k))"
proof (cases "kmalloc os (n_alloc c) (56 * of_nat n)")
  case None
  then show ?thesis using assms(1-4)
    by (simp add: mhi_init_chan_ctxt_def Let_def call_kmalloc_def upd_chan_def sizeof_mhi_buf_info_def)
next
  case (Some a)
  let ?ch = "ready_chan (ctrl_seg c) (ctrl_seg_addr c) a ch"
  have n: "56 * of_nat n = 56 * elements (buf_ring (mhi_chan c i))"
    using assms(1,2,4) by simp
  note run = init_chan_run [OF Some [unfolded n]]
  have l: "lockstep ?ch" "ring_content (tre_ring ?ch) = []" "ring_content (buf_ring ?ch) = []"
    by (rule ready_chan_lockstep; use assms(2-6) assms(7) [OF Some] in simp)+
  show ?thesis unfolding run prod.case
    using Some l assms(1,2,5) by (simp add: Let_def ready_chan_def)
qed

definition boot_chan :: mhi_chan where
  "boot_chan = zero_chan\<lparr>tre_ring := (zero_ring zero_tre)\<lparr>elements := 32\<rparr>,
     buf_ring := (zero_ring zero_buf_info)\<lparr>elements := 32\<rparr>\<rparr>"

lemma boot_chan_fields:
  "elements (tre_ring boot_chan) = 32" "elements (buf_ring boot_chan) = 32" "chan boot_chan = 0"
  "tre_ring_offset boot_chan = 18432"
  by (simp_all add: boot_chan_def tre_ring_offset_def chan_seg_member_def client_defs zero_defs)

lemma zero_controller_fields:
  "n_alloc zero_controller = 0" "ctrl_seg_addr zero_controller = 0"
  by (simp_all add: zero_controller_def)

theorem init_chan_ctxt_spec_witness:
  "case mhi_init_chan_ctxt link_up 0 (zero_controller\<lparr>ctrl_seg := 0x4000, mhi_chan := (\<lambda>_. boot_chan)\<rparr>) of (ret, c') \<Rightarrow>
     ret = Inr () \<and> lockstep (mhi_chan c' 0) \<and> base (tre_ring (mhi_chan c' 0)) = 0x8800"
proof -
  let ?c = "zero_controller\<lparr>ctrl_seg := 0x4000, mhi_chan := (\<lambda>_. boot_chan)\<rparr>"
  have "case mhi_init_chan_ctxt link_up 0 ?c of (ret, c') \<Rightarrow>
    let ch' = mhi_chan c' 0; x = chan_ctxt c' (unat (chan boot_chan)) in
    (\<forall>j. j \<noteq> 0 \<longrightarrow> mhi_chan c' j = mhi_chan ?c j)
    \<and> (case kmalloc link_up (n_alloc ?c) (56 * of_nat 32) of
         None \<Rightarrow> ret = Inl ENOMEM \<and> chan_ctxt c' = chan_ctxt ?c
       | Some a \<Rightarrow> ret = Inr () \<and> lockstep ch' \<and> ring_content (tre_ring ch') = []
           \<and> ring_content (buf_ring ch') = [] \<and> base (buf_ring ch') = a
           \<and> base (tre_ring ch') = ctrl_seg ?c + of_nat 18432
           \<and> iommu_base (tre_ring ch') = ctrl_seg_addr ?c + of_nat 18432
           \<and> ctxt_wp (tre_ring ch') = iommu_base (tre_ring ch') \<and> db_mode (ch_db_cfg ch')
           \<and> chstate x = ch_state_val MHI_CH_STATE_ENABLED
           \<and> cc_rbase x = iommu_base (tre_ring ch') \<and> cc_rp x = cc_rbase x
           \<and> cc_rlen x = of_nat (16 * 32)
           \<and> (\<forall>k. k \<noteq> unat (chan boot_chan) \<longrightarrow> chan_ctxt c' k = chan_ctxt ?c k))"
    by (rule init_chan_ctxt_spec) (simp_all add: boot_chan_fields zero_controller_fields link_up_def)
  then show ?thesis by (auto simp: Let_def link_up_def zero_controller_fields split: prod.splits)
qed
section \<open>Alignment\<close>

lemma roundup_pow2: "roundup_pow_of_two (2 ^ k) = 2 ^ k"
proof (induction k)
  case 0
  show ?case by (subst roundup_pow_of_two.simps) simp
next
  case (Suc k)
  have d: "(2 * 2 ^ k + 1) div 2 = (2 ^ k :: nat)" by simp
  have g: "\<not> 2 * 2 ^ k \<le> (1 :: nat)" using one_le_power [of "2::nat" k] by linarith
  show ?case by (subst roundup_pow_of_two.simps) (simp only: power_Suc d g if_False Suc)
qed

lemma word_multiple_iff:
  fixes x p :: "'a::len word"
  shows "x = x div p * p \<longleftrightarrow> unat p dvd unat x"
proof -
  have le: "unat x div unat p * unat p < 2 ^ LENGTH('a)"
    using le_less_trans [OF div_times_less_eq_dividend unsigned_less] .
  have "unat x div unat p < 2 ^ LENGTH('a)"
    by (rule le_less_trans [OF div_le_dividend unsigned_less])
  then have "unat (x div p * p) = unat x div unat p * unat p"
    using le by (simp add: unat_word_ariths unat_div)
  then show ?thesis by (metis dvd_div_mult_self dvd_triv_right unat_inj)
qed

text \<open>
  The driver's own check of a descriptor ring's alignment. For a channel with \<open>2 ^ k\<close>
  elements whose place in the control segment is a multiple of the ring's length, the ring
  that \<open>mhi_init_chan_ctxt\<close> gives the device passes \<open>mhi_ring_aligned_check\<close> exactly if the
  bus address of the segment is a multiple of the ring's length too. \<open>mhi_init_dev_ctxt\<close> only
  makes sure that the host's address of the segment is a multiple of the page size.
\<close>

lemma ring_alignment_iff:
  assumes "mhi_init_chan_ctxt os i c = (Inr (), c')" and "ch = mhi_chan c i"
    and "elements (tre_ring ch) = of_nat (2 ^ k)" and "k < 32" and "16 * 2 ^ k dvd tre_ring_offset ch"
    and "unat (ctrl_seg_addr c) + tre_ring_offset ch < 2 ^ 64"
  shows "(let x = chan_ctxt c' (unat (chan ch)) in mhi_ring_aligned_check (cc_rbase x) (cc_rlen x))
    \<longleftrightarrow> 16 * 2 ^ k dvd unat (ctrl_seg_addr c)"
proof -
  obtain a where a: "kmalloc os (n_alloc c) (56 * elements (buf_ring (mhi_chan c i))) = Some a"
    using assms(1) by (auto simp: mhi_init_chan_ctxt_def call_kmalloc_def upd_chan_def Let_def
      sizeof_mhi_buf_info_def split: option.splits)
  have x: "cc_rbase (chan_ctxt c' (unat (chan ch))) = ctrl_seg_addr c + of_nat (tre_ring_offset ch)"
    "cc_rlen (chan_ctxt c' (unat (chan ch))) = 16 * of_nat (2 ^ k)"
    using init_chan_run [OF a] assms(1,2,3) by auto
  have k: "(16::nat) * 2 ^ k = 2 ^ (4 + k)" by (simp add: power_add)
  have lt: "(2::nat) ^ (4 + k) < 2 ^ 64" using assms(4) by (intro power_strict_increasing) auto
  have l: "16 * of_nat (2 ^ k) = (of_nat (2 ^ (4 + k)) :: u64)" by (simp add: power_add)
  have u: "unat (of_nat (2 ^ (4 + k)) :: u64) = 2 ^ (4 + k)"
    by (rule unat_of_nat_less) (use lt in simp)
  have o: "unat (of_nat (tre_ring_offset ch) :: u64) = tre_ring_offset ch"
    using assms(6) by (intro unat_of_nat_less) simp
  have "unat (ctrl_seg_addr c + of_nat (tre_ring_offset ch)) = unat (ctrl_seg_addr c) + tre_ring_offset ch"
    using assms(6) o by (subst unat_plus_nowrap) simp_all
  then show ?thesis
    using assms(5) unfolding Let_def mhi_ring_aligned_check_def x l u roundup_pow2 word_multiple_iff
    by (simp only: k dvd_add_left_iff)
qed

lemma ring_alignment_iff_instance:
  "case mhi_init_chan_ctxt link_up 0 (zero_controller\<lparr>ctrl_seg_addr := 0x1100, mhi_chan := (\<lambda>_. boot_chan)\<rparr>)
   of (ret, c') \<Rightarrow>
     ret = Inr () \<and> \<not> mhi_ring_aligned_check (cc_rbase (chan_ctxt c' 0)) (cc_rlen (chan_ctxt c' 0))"
proof -
  let ?c = "zero_controller\<lparr>ctrl_seg_addr := 0x1100, mhi_chan := (\<lambda>_. boot_chan)\<rparr>"
  let ?c' = "snd (mhi_init_chan_ctxt link_up 0 ?c)"
  have r: "mhi_init_chan_ctxt link_up 0 ?c = (Inr (), ?c')"
    using init_chan_run [of link_up ?c 0] by (simp add: link_up_def)
  have "(let x = chan_ctxt ?c' (unat (chan boot_chan)) in mhi_ring_aligned_check (cc_rbase x) (cc_rlen x))
    \<longleftrightarrow> 16 * 2 ^ 5 dvd unat (ctrl_seg_addr ?c)"
    by (rule ring_alignment_iff [OF r]) (simp_all add: boot_chan_fields)
  then show ?thesis by (subst r) (simp add: Let_def boot_chan_fields)
qed

section \<open>Interrupt lines\<close>

definition event_lines :: "mhi_controller \<Rightarrow> nat list \<Rightarrow> nat list" where
  "event_lines c is = map (\<lambda>i. unat (ev_msi (mhi_event c i))) (filter (\<lambda>i. \<not> offload_ev (mhi_event c i)) is)"

definition irq_frame :: "mhi_controller \<Rightarrow> mhi_controller \<Rightarrow> bool" where
  "irq_frame c c' \<longleftrightarrow> mhi_event c' = mhi_event c \<and> total_ev_rings c' = total_ev_rings c
     \<and> msi_allocated c' = msi_allocated c \<and> msi_irq_base c' = msi_irq_base c"

lemma touch_irq_fields [simp]:
  "mhi_event (touch_irq k c) = mhi_event c" "total_ev_rings (touch_irq k c) = total_ev_rings c"
  "msi_allocated (touch_irq k c) = msi_allocated c" "msi_irq_base (touch_irq k c) = msi_irq_base c"
  "trace (touch_irq k c) = trace c"
  by (simp_all add: touch_irq_def)

lemma irq_emit [simp]:
  "total_ev_rings (emit e c) = total_ev_rings c" "msi_allocated (emit e c) = msi_allocated c"
  "msi_irq_base (emit e c) = msi_irq_base c"
  by (simp_all add: emit_def)

lemma event_lines_cong: "mhi_event c' = mhi_event c \<Longrightarrow> event_lines c' is = event_lines c is"
  by (simp add: event_lines_def)

lemma free_event_irqs_trace:
  "trace (free_event_irqs is c) = trace c @ map Free_irq (event_lines c is)"
proof (induction "is" arbitrary: c)
  case (Cons i "is")
  let ?c = "if offload_ev (mhi_event c i) then c else free_irq (unat (ev_msi (mhi_event c i))) c"
  have "mhi_event ?c = mhi_event c" by (simp add: free_irq_def)
  from event_lines_cong [OF this] show ?case
    using Cons.IH [of ?c] by (simp add: free_event_irqs_def event_lines_def free_irq_def)
qed (simp add: free_event_irqs_def event_lines_def)

lemma request_event_irqs_cases:
  "case request_event_irqs os ks c of
     (None, c') \<Rightarrow> irq_frame c c' \<and> trace c' = trace c @ map Request_irq (event_lines c ks)
   | (Some (e, i), c') \<Rightarrow> irq_frame c c' \<and> (\<exists>is1 is2. ks = is1 @ i # is2
        \<and> trace c' = trace c @ map Request_irq (event_lines c is1))"
proof (induction ks arbitrary: c)
  case Nil
  show ?case by (simp add: irq_frame_def event_lines_def)
next
  case (Cons j js)
  show ?case
  proof (cases "offload_ev (mhi_event c j)")
    case True
    then show ?thesis using Cons.IH [of c]
      by (fastforce simp: event_lines_def split: option.splits prod.splits intro: exI [of _ "j # _"])
  next
    case False
    let ?k = "unat (ev_msi (mhi_event c j))"
    show ?thesis
    proof (cases "irq_ret os ?k")
      case (Some e)
      then have run: "request_event_irqs os (j # js) c = (Some (e, j), touch_irq ?k c)"
        using False by (simp add: request_irq_def Let_def)
      have "\<exists>is1 is2. j # js = is1 @ j # is2
          \<and> trace (touch_irq ?k c) = trace c @ map Request_irq (event_lines c is1)"
        by (rule exI [of _ "[]"], rule exI [of _ js]) (simp add: event_lines_def)
      then show ?thesis unfolding run by (simp add: irq_frame_def)
    next
      case None
      let ?c = "emit (Request_irq ?k) (touch_irq ?k c)"
      have l: "event_lines ?c xs = event_lines c xs" for xs by (rule event_lines_cong) simp
      have "request_event_irqs os (j # js) c = request_event_irqs os js ?c"
        using False None by (simp add: request_irq_def Let_def)
      moreover have "event_lines c (j # xs) = ?k # event_lines c xs" for xs
        using False by (simp add: event_lines_def)
      moreover have "irq_frame ?c c' \<longleftrightarrow> irq_frame c c'" for c' by (simp add: irq_frame_def)
      ultimately show ?thesis using Cons.IH [of ?c] l
        by (fastforce split: option.splits prod.splits intro: exI [of _ "j # _"])
    qed
  qed
qed

lemma event_lines_rev: "event_lines c (rev is) = rev (event_lines c is)"
  by (simp add: event_lines_def rev_map rev_filter)

lemma free_event_irqs_frame: "irq_frame c (free_event_irqs is c)"
proof (induction "is" arbitrary: c)
  case (Cons i "is")
  let ?c = "if offload_ev (mhi_event c i) then c else free_irq (unat (ev_msi (mhi_event c i))) c"
  have "irq_frame c ?c" by (simp add: free_irq_def irq_frame_def)
  then show ?case using Cons.IH [of ?c] by (simp add: free_event_irqs_def irq_frame_def)
qed (simp add: free_event_irqs_def irq_frame_def)

lemma upt_split: "[0..<n] = is1 @ i # is2 \<Longrightarrow> is1 = [0..<i]"
proof -
  assume a: "[0..<n] = is1 @ i # is2"
  have l: "length is1 < n" using arg_cong [OF a, of length] by simp
  then have "i = length is1" using arg_cong [OF a, of "\<lambda>xs. xs ! length is1"] by simp
  moreover have "is1 = take (length is1) [0..<n]" unfolding a by simp
  ultimately show ?thesis using l by simp
qed

text \<open>The lines a controller asks for: the link's, and one per event ring the host drives.\<close>

definition irq_lines :: "mhi_controller \<Rightarrow> nat list" where
  "irq_lines c = (if msi_allocated c = 1 then [0]
     else unat (msi_irq_base c) # event_lines c [0..<total_ev_rings c])"

text \<open>
  Interrupt lines are balanced for a controller whose first line is line 0: a set-up that fails
  has given back every line it had been given, and after one that succeeds
  \<open>mhi_deinit_free_irq\<close> gives back exactly the lines it was given.
\<close>

lemma irq_setup_balance:
  assumes "msi_irq_base c = 0"
  shows "case mhi_init_irq_setup os c of
      (Inl e, c') \<Rightarrow> (\<exists>got given. trace c' = trace c @ map Request_irq got @ map Free_irq given
        \<and> mset given = mset got)
    | (Inr _, c') \<Rightarrow> (\<exists>given. trace (mhi_deinit_free_irq c') =
        trace c @ map Request_irq (irq_lines c) @ map Free_irq given
        \<and> mset given = mset (irq_lines c))"
proof (cases "msi_allocated c = 1")
  case True
  then show ?thesis using assms
    by (cases "irq_ret os 0")
       (auto simp: mhi_init_irq_setup_def request_irq_def Let_def mhi_deinit_free_irq_def free_irq_def
          irq_lines_def intro: exI [of _ "[]"] exI [of _ "[0]"])
next
  case False
  show ?thesis
  proof (cases "irq_ret os 0")
    case (Some e)
    then show ?thesis using assms False
      by (auto simp: mhi_init_irq_setup_def request_irq_def Let_def intro!: exI [of _ "[]"])
  next
    case None
    let ?c = "emit (Request_irq 0) (touch_irq 0 c)"
    let ?r = "request_event_irqs os [0..<total_ev_rings c] ?c"
    have l: "event_lines ?c xs = event_lines c xs" for xs by (rule event_lines_cong) simp
    obtain fail c1 where r: "?r = (fail, c1)" by fastforce
    have run: "mhi_init_irq_setup os c = (case fail of None \<Rightarrow> (Inr (), c1)
        | Some (e, i) \<Rightarrow> (Inl e, free_irq 0 (free_event_irqs (rev [0..<i]) c1)))"
      using False None assms r by (simp add: mhi_init_irq_setup_def request_irq_def Let_def split: option.splits)
    note cases = request_event_irqs_cases [where os = os and ks = "[0..<total_ev_rings c]" and c = ?c, unfolded r prod.case l]
    show ?thesis
    proof (cases fail)
      case None
      with cases have f: "irq_frame ?c c1"
        "trace c1 = trace c @ map Request_irq (0 # event_lines c [0..<total_ev_rings c])" by simp_all
      from f(1) have e: "event_lines c1 xs = event_lines c xs" for xs
        by (intro event_lines_cong) (simp add: irq_frame_def)
      have "trace (mhi_deinit_free_irq c1) = trace c @ map Request_irq (irq_lines c)
          @ map Free_irq (event_lines c [0..<total_ev_rings c] @ [0])"
        using f assms False free_event_irqs_trace [of "[0..<total_ev_rings c]" c1] e
        by (simp add: mhi_deinit_free_irq_def free_irq_def irq_frame_def irq_lines_def)
      moreover have "mset (event_lines c [0..<total_ev_rings c] @ [0]) = mset (irq_lines c)"
        using assms False by (simp add: irq_lines_def)
      ultimately show ?thesis unfolding run None option.case prod.case sum.case by blast
    next
      case (Some ei)
      then obtain e i where ei: "fail = Some (e, i)" by (cases ei) simp
      with cases obtain is1 is2 where f: "irq_frame ?c c1" "[0..<total_ev_rings c] = is1 @ i # is2"
        "trace c1 = trace c @ map Request_irq (0 # event_lines c is1)" by auto
      from f(1) have e: "event_lines c1 xs = event_lines c xs" for xs
        by (intro event_lines_cong) (simp add: irq_frame_def)
      have i: "is1 = [0..<i]" by (rule upt_split [OF f(2)])
      have "trace (free_irq 0 (free_event_irqs (rev [0..<i]) c1)) = trace c
          @ map Request_irq (0 # event_lines c [0..<i])
          @ map Free_irq (rev (event_lines c [0..<i]) @ [0])"
        using free_event_irqs_trace [of "rev [0..<i]" c1] f(3) e i
        by (simp add: free_irq_def event_lines_rev)
      moreover have "mset (rev (event_lines c [0..<i]) @ [0]) = mset (0 # event_lines c [0..<i])"
        by simp
      ultimately show ?thesis unfolding run ei option.case prod.case sum.case by blast
    qed
  qed
qed

section \<open>The device's registers\<close>

text \<open>A 64-bit register as two 32-bit ones.\<close>

definition reg64 :: "mhi_controller \<Rightarrow> u32 \<Rightarrow> u32 \<Rightarrow> u64" where
  "reg64 c hi lo =
     push_bit 32 (ucast (mmio c (regs c + ucast hi))) OR ucast (mmio c (regs c + ucast lo))"

lemma ucast32_inject: "(ucast x :: u64) = ucast y \<longleftrightarrow> x = y" for x y :: u32
proof -
  have u: "unat (ucast z :: u64) = unat z" for z :: u32
    using unsigned_less [of z, where ?'a = nat] by (simp add: unsigned_ucast_eq take_bit_nat_eq_self)
  show ?thesis by (simp add: word_unat_eq_iff u)
qed

lemma write_full_reg:
  assumes "link_status os = 0"
  shows "mhi_write_reg_field os b off 0xFFFFFFFF 0 v c = mhi_write_reg b off v c"
proof -
  have full: "(0xFFFFFFFF :: u32) = - 1" by simp
  show ?thesis
    using assms unfolding full by (simp add: mhi_write_reg_field_def mhi_read_reg_def Let_def)
qed

lemma write_regs:
  assumes "link_status os = 0" and "distinct (map fst info)"
  shows "let c' = fold (\<lambda>(off, v). mhi_write_reg_field os b off 0xFFFFFFFF 0 v) info c in
      (\<forall>(off, v) \<in> set info. mmio c' (b + ucast off) = v)
    \<and> (\<forall>a. a \<notin> (\<lambda>off. b + ucast off) ` fst ` set info \<longrightarrow> mmio c' a = mmio c a)
    \<and> trace c' = trace c @ map (\<lambda>(off, v). Mmio_write (b + ucast off) v) info
    \<and> (\<exists>m t. c' = c\<lparr>mmio := m, trace := t\<rparr>)"
  using assms(2)
proof (induction info arbitrary: c)
  case Nil
  have ex: "\<exists>m t. c = c\<lparr>mmio := m, trace := t\<rparr>"
    by (rule exI [of _ "mmio c"], rule exI [of _ "trace c"]) simp
  show ?case unfolding Let_def fold.simps id_apply by (intro conjI ex) simp_all
next
  case (Cons x info)
  obtain off v where x: "x = (off, v)" by (cases x)
  let ?c = "mhi_write_reg b off v c"
  let ?f = "fold (\<lambda>(off, v). mhi_write_reg_field os b off 0xFFFFFFFF 0 v) info ?c"
  have inj: "b + ucast off' = b + ucast off'' \<longleftrightarrow> off' = off''" for off' off'' :: u32
    by (auto simp: ucast32_inject)
  from Cons.prems x have nw: "off \<notin> fst ` set info" and d: "distinct (map fst info)" by auto
  have nw': "b + ucast off \<notin> (\<lambda>off. b + ucast off) ` fst ` set info"
  proof
    assume "b + ucast off \<in> (\<lambda>off. b + ucast off) ` fst ` set info"
    then obtain off' where "off' \<in> fst ` set info" "b + ucast off = b + ucast off'" by blast
    with inj nw show False by simp
  qed
  obtain m t where ih: "\<forall>(off, v) \<in> set info. mmio ?f (b + ucast off) = v"
    "\<And>a. a \<notin> (\<lambda>off. b + ucast off) ` fst ` set info \<Longrightarrow> mmio ?f a = mmio ?c a"
    "trace ?f = trace ?c @ map (\<lambda>(off, v). Mmio_write (b + ucast off) v) info"
    "?f = ?c\<lparr>mmio := m, trace := t\<rparr>"
    using Cons.IH [OF d, of ?c] unfolding Let_def by blast
  have s: "fold (\<lambda>(off, v). mhi_write_reg_field os b off 0xFFFFFFFF 0 v) (x # info) c = ?f"
    by (simp add: x write_full_reg [OF assms(1)])
  have "?f = c\<lparr>mmio := m, trace := t\<rparr>" unfolding ih(4) by (simp add: mhi_write_reg_def emit_def)
  moreover have "mmio ?f (b + ucast off) = v" using ih(2) [OF nw'] by (simp add: mhi_write_reg_def)
  moreover have "mmio ?f a = mmio c a" if "a \<notin> (\<lambda>off. b + ucast off) ` fst ` set (x # info)" for a
    using ih(2) [of a] that x by (simp add: mhi_write_reg_def)
  moreover have "trace ?f = trace c @ map (\<lambda>(off, v). Mmio_write (b + ucast off) v) (x # info)"
    using ih(3) x by (simp add: mhi_write_reg_def)
  ultimately show ?case unfolding s Let_def using ih(1) x by (intro conjI allI impI) auto
qed

lemma read_full_reg:
  "mhi_read_reg_field os d b off 0xFFFFFFFF 0 =
    (if mmio d (b + ucast off) = 0xFFFFFFFF \<and> link_status os \<noteq> 0 then Inl EIO else Inr (mmio d (b + ucast off)))"
proof -
  have full: "(0xFFFFFFFF :: u32) = - 1" by simp
  show ?thesis unfolding full by (simp add: mhi_read_reg_field_def mhi_read_reg_def PCI_INVALID_READ_def Let_def)
qed

text \<open>Two registers that were written with the halves of a word read as the word.\<close>

lemma reg64_written:
  assumes "\<forall>(off, v) \<in> set xs. mmio c' (regs c' + ucast off) = v"
    and "(hi, upper_32_bits x) \<in> set xs" and "(lo, lower_32_bits x) \<in> set xs"
  shows "reg64 c' hi lo = x"
proof -
  have "mmio c' (regs c' + ucast hi) = upper_32_bits x" "mmio c' (regs c' + ucast lo) = lower_32_bits x"
    using bspec [OF assms(1) assms(2)] bspec [OF assms(1) assms(3)] by simp_all
  then show ?thesis unfolding reg64_def by (simp only: split_join_64)
qed

text \<open>
  C21: What \<open>mhi_init_mmio\<close> tells the device. With the link up it succeeds; the device's
  64-bit registers then read as the bus addresses of the three context arrays, the control
  segment's first and past-the-end address and the limits of the data region, these 14
  registers are all that was written, in the order of the table, and the doorbell of every
  ring of the host is the register the device's two offset registers name for it. With the link
  down and an unreadable offset register it fails with \<open>EIO\<close> and writes nothing.
\<close>

theorem init_mmio_spec:
  "case mhi_init_mmio os c of (ret, c') \<Rightarrow>
    let b = regs c; chdb = mmio c (b + 0x18); erdb = mmio c (b + 0x20) in
    (if link_status os = 0
     then ret = Inr ()
       \<and> reg64 c' CCABAP_HIGHER CCABAP_LOWER = chan_ctxt_addr c
       \<and> reg64 c' ECABAP_HIGHER ECABAP_LOWER = er_ctxt_addr c
       \<and> reg64 c' CRCBAP_HIGHER CRCBAP_LOWER = cmd_ctxt_addr c
       \<and> reg64 c' MHICTRLBASE_HIGHER MHICTRLBASE_LOWER = ctrl_seg_addr c
       \<and> reg64 c' MHICTRLLIMIT_HIGHER MHICTRLLIMIT_LOWER = ctrl_seg_addr c + 98304
       \<and> reg64 c' MHIDATABASE_HIGHER MHIDATABASE_LOWER = iova_start c
       \<and> reg64 c' MHIDATALIMIT_HIGHER MHIDATALIMIT_LOWER = iova_stop c
       \<and> trace c' = trace c @ map (\<lambda>(off, v). Mmio_write (b + ucast off) v) (reg_info c)
       \<and> (\<forall>i < max_chan c. db_addr (tre_ring (mhi_chan c' i)) = b + ucast (chdb + 8 * of_nat i))
       \<and> wake_db c' = b + ucast chdb + 1016
       \<and> (\<forall>i < total_ev_rings c. \<not> offload_ev (mhi_event c i) \<longrightarrow>
            db_addr (ev_ring (mhi_event c' i)) = b + ucast (erdb + 8 * of_nat i))
       \<and> db_addr (cmd_ring c') = b + 0x70
     else chdb = 0xFFFFFFFF \<or> erdb = 0xFFFFFFFF \<longrightarrow> ret = Inl EIO \<and> trace c' = trace c)"
proof -
  let ?b = "regs c" and ?ch = "mmio c (regs c + 0x18)" and ?er = "mmio c (regs c + 0x20)"
  let ?c1 = "c\<lparr>wake_db := ?b + ucast ?ch + ucast (8 * MHI_DEV_WAKE_DB),
    mhi_chan := (\<lambda>i. if i < max_chan c
      then (mhi_chan c i)\<lparr>tre_ring := (tre_ring (mhi_chan c i))\<lparr>db_addr := db_at ?b ?ch i\<rparr>\<rparr>
      else mhi_chan c i)\<rparr>"
  let ?c2 = "?c1\<lparr>mhi_event := (\<lambda>i. if i < total_ev_rings ?c1 \<and> \<not> offload_ev (mhi_event ?c1 i)
          then (mhi_event ?c1 i)\<lparr>ev_ring := (ev_ring (mhi_event ?c1 i))\<lparr>db_addr := db_at ?b ?er i\<rparr>\<rparr>
          else mhi_event ?c1 i), cmd_ring := (cmd_ring ?c1)\<lparr>db_addr := ?b + ucast CRDB_LOWER\<rparr>\<rparr>"
  note rd = read_full_reg [of os _ ?b]
  show ?thesis
  proof (cases "link_status os = 0")
    case False
    then show ?thesis by (auto simp: mhi_init_mmio_def rd Let_def mmio_defs)
  next
    case True
    let ?info = "reg_info c"
    have d: "distinct (map fst ?info)" by (simp add: reg_info_def mmio_defs)
    have run: "mhi_init_mmio os c =
        (Inr (), fold (\<lambda>(off, v). mhi_write_reg_field os ?b off 0xFFFFFFFF 0 v) ?info ?c2)"
      using True by (simp add: mhi_init_mmio_def rd Let_def mmio_defs cong: if_cong)
    obtain c' where e: "mhi_init_mmio os c = (Inr (), c')" using run by blast
    have f: "fold (\<lambda>(off, v). mhi_write_reg_field os ?b off 0xFFFFFFFF 0 v) ?info ?c2 = c'"
      using run e by (simp only: prod.inject)
    obtain m t where w: "\<forall>(off, v) \<in> set ?info. mmio c' (?b + ucast off) = v"
      "trace c' = trace c @ map (\<lambda>(off, v). Mmio_write (?b + ucast off) v) ?info"
      "c' = ?c2\<lparr>mmio := m, trace := t\<rparr>"
      using write_regs [OF True d, of ?b ?c2] unfolding f Let_def by auto
    have r: "regs c' = ?b" unfolding w(3) by simp
    note read = reg64_written [OF w(1) [folded r]]
    have regs: "reg64 c' CCABAP_HIGHER CCABAP_LOWER = chan_ctxt_addr c"
      "reg64 c' ECABAP_HIGHER ECABAP_LOWER = er_ctxt_addr c"
      "reg64 c' CRCBAP_HIGHER CRCBAP_LOWER = cmd_ctxt_addr c"
      "reg64 c' MHICTRLBASE_HIGHER MHICTRLBASE_LOWER = ctrl_seg_addr c"
      "reg64 c' MHICTRLLIMIT_HIGHER MHICTRLLIMIT_LOWER = ctrl_seg_addr c + 98304"
      "reg64 c' MHIDATABASE_HIGHER MHIDATABASE_LOWER = iova_start c"
      "reg64 c' MHIDATALIMIT_HIGHER MHIDATALIMIT_LOWER = iova_stop c"
      by (rule read; simp add: reg_info_def)+
    have dbs: "\<forall>i < max_chan c. db_addr (tre_ring (mhi_chan c' i)) = ?b + ucast (?ch + 8 * of_nat i)"
      "wake_db c' = ?b + ucast ?ch + 1016"
      "\<forall>i < total_ev_rings c. \<not> offload_ev (mhi_event c i) \<longrightarrow>
         db_addr (ev_ring (mhi_event c' i)) = ?b + ucast (?er + 8 * of_nat i)"
      "db_addr (cmd_ring c') = ?b + 0x70"
      unfolding w(3) by (simp_all add: db_at_def mmio_defs)
    show ?thesis unfolding e prod.case Let_def
      using True regs dbs w(2) by simp
  qed
qed

theorem init_mmio_spec_witness:
  "case mhi_init_mmio link_up (zero_controller\<lparr>max_chan := 128, ctrl_seg_addr := 0x12340000,
      mmio := (\<lambda>_. 0)(0x18 := 0x400)\<rparr>) of (ret, c') \<Rightarrow>
     ret = Inr () \<and> reg64 c' MHICTRLBASE_HIGHER MHICTRLBASE_LOWER = 0x12340000
     \<and> db_addr (tre_ring (mhi_chan c' 2)) = 0x410 \<and> wake_db c' = 0x7F8"
proof -
  let ?c = "zero_controller\<lparr>max_chan := 128, ctrl_seg_addr := 0x12340000, mmio := (\<lambda>_. 0)(0x18 := 0x400)\<rparr>"
  have z: "regs ?c = 0" "link_status link_up = 0" "total_ev_rings ?c = 0"
    by (simp_all add: zero_controller_def link_up_def)
  show ?thesis using init_mmio_spec [where os = link_up and c = ?c] unfolding Let_def z by (auto split: prod.splits)
qed

section \<open>Building and dropping the contexts\<close>

lemma unat_plus_of_nat_le: "unat (a + of_nat p) \<le> unat a + p" for a :: "'a::len word"
proof -
  have "unat (a + of_nat p) = (unat a + p mod 2 ^ LENGTH('a)) mod 2 ^ LENGTH('a)"
    by (simp add: unat_word_ariths unsigned_of_nat take_bit_eq_mod)
  also have "\<dots> \<le> unat a + p" by (meson add_le_cancel_left le_trans mod_less_eq_dividend)
  finally show ?thesis .
qed

text \<open>A ring with nothing in it whose bus and host addresses are these.\<close>

definition empty_ring_at :: "mhi_tre mhi_ring \<Rightarrow> u64 \<Rightarrow> u64 \<Rightarrow> bool" where
  "empty_ring_at r host bus \<longleftrightarrow> ring_wf r \<and> ring_content r = [] \<and> base r = host
     \<and> iommu_base r = bus \<and> ctxt_wp r = bus \<and> el_size r = 16"

lemma empty_ring_at_placed:
  assumes "0 < unat (elements r)" and "unat (seg + of_nat off) + 16 * unat (elements r) < 2 ^ 64"
  shows "empty_ring_at (reset_ring (place_ring seg bus off r)) (seg + of_nat off) (bus + of_nat off)"
    and "empty_ring_at ((reset_ring (place_ring seg bus off r))\<lparr>slots := f\<rparr>)
           (seg + of_nat off) (bus + of_nat off)"
proof -
  let ?r = "reset_ring (place_ring seg bus off r)"
  have w: "ring_wf ?r" "ring_content ?r = []"
    by (rule fresh_ring [of _ 16]; use assms in simp)+
  then show "empty_ring_at ?r (seg + of_nat off) (bus + of_nat off)" by (simp add: empty_ring_at_def)
  let ?q = "?r\<lparr>slots := f\<rparr>"
  have "ring_wf ?q" "ring_content ?q = []"
    by (rule fresh_ring [of _ 16]; use assms in simp)+
  then show "empty_ring_at ?q (seg + of_nat off) (bus + of_nat off)" by (simp add: empty_ring_at_def)
qed

text \<open>The controller as \<open>mhi_init_dev_ctxt\<close> leaves it when it succeeds.\<close>

definition built_ctxt :: "u64 \<Rightarrow> u64 \<Rightarrow> u64 \<Rightarrow> mhi_controller \<Rightarrow> mhi_controller" where
  "built_ctxt seg bus ctxt c =
     (init_cmd_ctxt (init_event_ctxts (init_chan_ctxts (c\<lparr>dev_wake := 0, pending_pkts := 0,
        n_alloc := Suc (Suc (n_alloc c)), alloc_size := 98304, ctrl_seg := seg, ctrl_seg_addr := bus,
        chan_ctxt := (\<lambda>_. zero_chan_ctxt), er_ctxt := (\<lambda>_. zero_er_ctxt),
        cmd_ctxt := \<lparr>cmd_rbase = 0, cmd_rlen = 0, cmd_rp = 0\<rparr>,
        chan_ctxt_addr := bus + 83968, er_ctxt_addr := bus + 89600, cmd_ctxt_addr := bus + 89856\<rparr>))))\<lparr>mhi_ctxt := Some ctxt\<rparr>"

lemmas built_defs = built_ctxt_def Let_def init_cmd_ctxt_def init_event_ctxts_def init_chan_ctxts_def size_defs

lemma init_ctxt_run:
  assumes "kmalloc os (n_alloc c) sizeof_mhi_ctxt = Some ctxt" and "dma_alloc os (Suc (n_alloc c)) 98304 = Some (seg, bus)"
    and "seg AND 0xFFF = 0"
  shows "mhi_init_dev_ctxt os c = (Inr (), built_ctxt seg bus ctxt c)"
  using assms by (simp add: mhi_init_dev_ctxt_def call_kmalloc_def mhi_alloc_coherent_def built_ctxt_def Let_def)

lemma built_at:
  assumes "unat (seg :: u64) + 98304 < 2 ^ 64" and "p + 16 * n \<le> 98304"
  shows "unat (seg + of_nat p) + 16 * n < 2 ^ 64"
  using assms unat_plus_of_nat_le [of seg p] by linarith

lemma built_event_ring:
  assumes "unat seg + 98304 < 2 ^ 64" and "i < total_ev_rings c" and "\<not> offload_ev (mhi_event c i)"
    and "0 < unat (elements (ev_ring (mhi_event c i))) \<and> unat (elements (ev_ring (mhi_event c i))) \<le> 1024"
    and "total_ev_rings c \<le> NUM_MHI_EVT_RINGS"
  shows "let c' = built_ctxt seg bus ctxt c; off = of_nat (seg_offsetof event_ring + i * 16384); r = ev_ring (mhi_event c' i) in
    empty_ring_at r (ctrl_seg c' + off) (ctrl_seg_addr c' + off)
    \<and> er_rbase (er_ctxt c' i) = iommu_base r \<and> er_rp (er_ctxt c' i) = iommu_base r \<and> er_rlen (er_ctxt c' i) = ring_len r"
proof -
  have n: "0 < unat (elements (ev_ring (mhi_event c i)))" using assms(4) by simp
  have "32768 + i * 16384 + 16 * unat (elements (ev_ring (mhi_event c i))) \<le> 98304"
    using assms(2,4,5) by (simp add: NUM_MHI_EVT_RINGS_def)
  from empty_ring_at_placed(2) [where bus = bus and f = "\<lambda>_. poison_tre", OF n built_at [OF assms(1) this]] assms(2,3)
  show ?thesis by (simp add: built_defs init_event_ring_def)
qed

lemma built_cmd_ring:
  assumes "unat seg + 98304 < 2 ^ 64"
  shows "let c' = built_ctxt seg bus ctxt c in empty_ring_at (cmd_ring c') (ctrl_seg c' + 81920) (ctrl_seg_addr c' + 81920)"
proof -
  have "unat (seg + of_nat 81920) + 16 * unat (128 :: u64) < 2 ^ 64" using built_at [OF assms, of 81920 128] by simp
  then show ?thesis
    using empty_ring_at_placed(1) [of "(cmd_ring c)\<lparr>elements := 128\<rparr>" seg 81920 bus] by (simp add: built_defs)
qed

lemma built_fields:
  fixes seg bus ctxt :: u64 and c :: mhi_controller
  defines "c' \<equiv> built_ctxt seg bus ctxt c"
  shows "cmd_rbase (cmd_ctxt c') = iommu_base (cmd_ring c')" "cmd_rlen (cmd_ctxt c') = 2048" "ctrl_seg c' = seg" "ctrl_seg_addr c' = bus"
    "mhi_ctxt c' = Some ctxt" "alloc_size c' = 98304" "trace c' = trace c"
    "i < max_chan c \<Longrightarrow> \<not> offload_ch (mhi_chan c i) \<Longrightarrow> ch_state (mhi_chan c' i) = MHI_CH_STATE_DISABLED \<and> chstate (chan_ctxt c' i) = 0"
    "alloc_size (mhi_deinit_dev_ctxt c') = 0" "mhi_ctxt (mhi_deinit_dev_ctxt c') = None"
    "trace (mhi_deinit_dev_ctxt c') = trace c @ [Free_coherent seg bus, Kfree ctxt]"
  unfolding c'_def
  by (simp_all add: built_defs init_chan_entry_def mhi_deinit_dev_ctxt_def mhi_free_coherent_def emit_def)

text \<open>
  \<open>mhi_init_dev_ctxt\<close> fails only with \<open>ENOMEM\<close>, and then holds no memory and leaves the
  controller without contexts as before. When it succeeds (event rings of at most 1024
  elements, a segment that does not wrap) the segment is page aligned, every event ring and
  the command ring are well formed and empty at their places in the segment and so described
  to the device, every channel the host drives is disabled on both sides, and
  \<open>mhi_deinit_dev_ctxt\<close> gives both allocations back.
\<close>

lemma dev_ctxt_balanced:
  assumes "\<And>i. i < total_ev_rings c \<Longrightarrow> \<not> offload_ev (mhi_event c i) \<Longrightarrow>
      0 < unat (elements (ev_ring (mhi_event c i))) \<and> unat (elements (ev_ring (mhi_event c i))) \<le> 1024"
    and "total_ev_rings c \<le> NUM_MHI_EVT_RINGS"
    and "\<forall>seg bus. dma_alloc os (Suc (n_alloc c)) 98304 = Some (seg, bus) \<longrightarrow> unat seg + 98304 < 2 ^ 64"
  shows "case mhi_init_dev_ctxt os c of
      (Inl e, c') \<Rightarrow> e = ENOMEM \<and> alloc_size c' = 0 \<and> mhi_ctxt c' = mhi_ctxt c
        \<and> (\<forall>x \<in> set (drop (length (trace c)) (trace c')). (\<exists>a. x = Kfree a) \<or> (\<exists>a b. x = Free_coherent a b))
    | (Inr _, c') \<Rightarrow> ctrl_seg c' AND 0xFFF = 0
        \<and> (\<forall>i < total_ev_rings c. \<not> offload_ev (mhi_event c i) \<longrightarrow>
             (let off = of_nat (seg_offsetof event_ring + i * 16384); r = ev_ring (mhi_event c' i) in
              empty_ring_at r (ctrl_seg c' + off) (ctrl_seg_addr c' + off)
              \<and> er_rbase (er_ctxt c' i) = iommu_base r \<and> er_rp (er_ctxt c' i) = iommu_base r
              \<and> er_rlen (er_ctxt c' i) = ring_len r))
        \<and> empty_ring_at (cmd_ring c') (ctrl_seg c' + 81920) (ctrl_seg_addr c' + 81920)
        \<and> cmd_rbase (cmd_ctxt c') = iommu_base (cmd_ring c') \<and> cmd_rlen (cmd_ctxt c') = 2048
        \<and> (\<forall>i < max_chan c. \<not> offload_ch (mhi_chan c i) \<longrightarrow>
             ch_state (mhi_chan c' i) = MHI_CH_STATE_DISABLED \<and> chstate (chan_ctxt c' i) = 0)
        \<and> alloc_size (mhi_deinit_dev_ctxt c') = 0 \<and> mhi_ctxt (mhi_deinit_dev_ctxt c') = None
        \<and> trace (mhi_deinit_dev_ctxt c') = trace c
            @ [Free_coherent (ctrl_seg c') (ctrl_seg_addr c'), Kfree (the (mhi_ctxt c'))]"
proof (cases "kmalloc os (n_alloc c) sizeof_mhi_ctxt")
  case None
  then show ?thesis by (simp add: mhi_init_dev_ctxt_def call_kmalloc_def Let_def)
next
  case (Some ctxt)
  note k = Some
  show ?thesis
  proof (cases "dma_alloc os (Suc (n_alloc c)) 98304")
    case None
    then show ?thesis using k
      by (simp add: mhi_init_dev_ctxt_def call_kmalloc_def mhi_alloc_coherent_def Let_def emit_def)
  next
    case (Some sb)
    obtain seg bus where sb: "sb = (seg, bus)" by (cases sb)
    show ?thesis
    proof (cases "seg AND 0xFFF = 0")
      case False
      then show ?thesis using k Some sb
        by (simp add: mhi_init_dev_ctxt_def call_kmalloc_def mhi_alloc_coherent_def Let_def emit_def
            mhi_free_coherent_def)
    next
      case True
      note nw = assms(3) [rule_format, OF Some [unfolded sb]]
      note run = init_ctxt_run [OF k Some [unfolded sb] True]
      show ?thesis unfolding run prod.case sum.case
        using True built_event_ring [OF nw _ _ assms(1) assms(2), of _ bus ctxt] 
          built_cmd_ring [OF nw, where bus = bus and ctxt = ctxt and c = c] by (simp add: built_fields Let_def)
    qed
  qed
qed

lemma dev_ctxt_balanced_instance:
  "case mhi_init_dev_ctxt link_up (zero_controller\<lparr>total_ev_rings := 1,
      mhi_event := (\<lambda>_. zero_event\<lparr>ev_ring := (zero_ring zero_tre)\<lparr>elements := 256\<rparr>\<rparr>)\<rparr>) of
     (Inl e, c') \<Rightarrow> e = ENOMEM
   | (Inr _, c') \<Rightarrow> empty_ring_at (cmd_ring c') (ctrl_seg c' + 81920) (ctrl_seg_addr c' + 81920)
       \<and> alloc_size (mhi_deinit_dev_ctxt c') = 0"
proof -
  let ?ev = "zero_event\<lparr>ev_ring := (zero_ring zero_tre)\<lparr>elements := 256\<rparr>\<rparr>"
  let ?c = "zero_controller\<lparr>total_ev_rings := 1, mhi_event := (\<lambda>_. ?ev)\<rparr>"
  have n: "elements (ev_ring ?ev) = 256" by simp
  have a: "n_alloc ?c = 0" by (simp add: zero_controller_def)
  have h1: "0 < unat (elements (ev_ring (mhi_event ?c i)))
      \<and> unat (elements (ev_ring (mhi_event ?c i))) \<le> 1024" for i by simp
  have h2: "total_ev_rings ?c \<le> NUM_MHI_EVT_RINGS" by (simp add: NUM_MHI_EVT_RINGS_def)
  have h3: "\<forall>seg bus. dma_alloc link_up (Suc (n_alloc ?c)) 98304 = Some (seg, bus) \<longrightarrow>
      unat seg + 98304 < 2 ^ 64"
    using a by (auto simp: link_up_def)
  obtain r c' where r: "mhi_init_dev_ctxt link_up ?c = (r, c')" by fastforce
  note th = dev_ctxt_balanced [of ?c link_up, OF h1 h2 h3, unfolded r prod.case]
  show ?thesis
  proof (cases r)
    case (Inl e)
    then show ?thesis using th unfolding r by simp
  next
    case (Inr x)
    then show ?thesis using th unfolding r prod.case Inr sum.case by blast
  qed
qed

end
