(* ===== verification/Mhi_Chan.thy ===== *)
theory Mhi_Chan
  imports Mhi_Init
begin

text \<open>
  The life of a channel, from \<open>core/mhi_main.c\<close>: commands to the device, starting a channel,
  taking back what is queued on it, stopping it, and binding and unbinding a client
  (\<open>mhi_driver_probe\<close>, \<open>mhi_driver_remove\<close> of \<open>core/mhi_init.c\<close>). \<open>env\<close> is what the rest of
  the system does while an operation waits for the device; \<open>None\<close> is an operation that does
  not return.
\<close>

section \<open>Commands\<close>

text \<open>The command's descriptor, with the state that tells whether it could be built.\<close>

definition cmd_tre :: "MHI_CMD \<Rightarrow> u32 \<Rightarrow> mhi_controller \<Rightarrow> mhi_tre \<times> mhi_controller" where
  "cmd_tre cmd ch c =
     (case cmd of
        MHI_CMD_RESET_CHAN \<Rightarrow> (\<lparr>tre_ptr = 0, dword0 = 0, dword1 = MHI_TRE_CMD_RESET_DWORD1 ch\<rparr>, c)
      | MHI_CMD_START_CHAN \<Rightarrow> (\<lparr>tre_ptr = 0, dword0 = 0, dword1 = MHI_TRE_CMD_START_DWORD1 ch\<rparr>, c)
      | MHI_CMD_TIMSYNC_CFG \<Rightarrow>
          (case mhi_tsync c of
             None \<Rightarrow> (\<lparr>tre_ptr = 0, dword0 = 0, dword1 = MHI_TRE_CMD_TSYNC_CFG_DWORD1 0\<rparr>, c\<lparr>ub := True\<rparr>)
           | Some ts \<Rightarrow> (\<lparr>tre_ptr = 0, dword0 = 0,
                            dword1 = MHI_TRE_CMD_TSYNC_CFG_DWORD1 (ts_er_index ts)\<rparr>, c)))"

definition mon_submit_cmd :: "mhi_tre \<Rightarrow> mhi_controller \<Rightarrow> mhi_controller" where
  "mon_submit_cmd t c =
     (if r_list c \<noteq> []
      then mon_bus_submit 128 (mhi_to_physical (cmd_ring c) (wp (cmd_ring c))) t 0 0 c else c)"

definition mhi_send_cmd :: "nat option \<Rightarrow> MHI_CMD \<Rightarrow> mhi_controller \<Rightarrow> unit res \<times> mhi_controller" where
  "mhi_send_cmd i cmd c =
     (if get_nr_avail_ring_elements (cmd_ring c) = 0 then (Inl ENOMEM, c)
      else
        let ch = (case i of None \<Rightarrow> 0 | Some i \<Rightarrow> chan (mhi_chan c i));
            (t, c) = cmd_tre cmd ch c;
            c = c\<lparr>cmd_ring := ring_write (cmd_ring c) t\<rparr>;
            c = mon_submit_cmd t c;
            c = c\<lparr>cmd_ring := mhi_add_ring_element (cmd_ring c)\<rparr>;
            c = (if MHI_DB_ACCESS_VALID (pm_state c) then mhi_ring_cmd_db c else c)
        in (Inr (), c))"

section \<open>Taking back what is queued\<close>

definition wake_put :: "bool \<Rightarrow> mhi_controller \<Rightarrow> mhi_controller" where
  "wake_put = mhi_deassert_dev_wake"

partial_function (option) mark_loop ::
  "nat \<Rightarrow> u32 \<Rightarrow> u64 \<Rightarrow> u64 \<Rightarrow> mhi_controller \<Rightarrow> mhi_controller option" where
  "mark_loop e ch dev_rp local_rp c =
     (if dev_rp = local_rp then Some c
      else
        let r = ev_ring (mhi_event c e);
            t = slots r local_rp;
            t = (if MHI_TRE_GET_EV_TYPE t = MHI_PKT_TYPE_TX_EVENT \<and> ch = MHI_TRE_GET_EV_CHID t
                 then t\<lparr>dword1 := MHI_TRE_EV_DWORD1 ch (pkt_type_val MHI_PKT_TYPE_STALE_EVENT)\<rparr> else t);
            c = upd_event e (\<lambda>ev. ev\<lparr>ev_ring := (ev_ring ev)\<lparr>slots := (slots (ev_ring ev))(local_rp := t)\<rparr>\<rparr>) c;
            nxt = local_rp + 16
        in mark_loop e ch dev_rp (if nxt = base r + ring_len r then base r else nxt) c)"

definition mhi_mark_stale_events :: "nat \<Rightarrow> u32 \<Rightarrow> mhi_controller \<Rightarrow> mhi_controller option" where
  "mhi_mark_stale_events e ch c =
     (let r = ev_ring (mhi_event c e)
      in mark_loop e ch (mhi_to_virtual r (er_rp (er_ctxt c e))) (rp r) c)"

text \<open>
  One buffer handed back: the votes of an uplink packet, the mapping, the two slots, and the
  client's callback, or the buffer's memory if the driver allocated it. The field \<open>dir\<close> of
  the result is never set.
\<close>

definition give_back :: "mhi_os \<Rightarrow> nat \<Rightarrow> mhi_controller \<Rightarrow> mhi_controller" where
  "give_back os i c =
     (let ch = mhi_chan c i;
          b = slots (buf_ring ch) (rp (buf_ring ch));
          c = (if dir ch = DMA_TO_DEVICE
               then wake_put False (count_completed DMA_TO_DEVICE c) else c);
          c = (if \<not> pre_mapped b then call_unmap_single b c else c);
          c = del_both i c
      in if pre_alloc (mhi_chan c i) then emit (Kfree (cb_buf b)) c
         else emit (Xfer_cb i \<lparr>buf_addr = cb_buf b, res_dir = stack_dir os, bytes_xferd = 0,
                       transaction_status = Some ENOTCONN\<rparr>) c)"

partial_function (option) mhi_reset_data_chan ::
  "mhi_os \<Rightarrow> nat \<Rightarrow> mhi_controller \<Rightarrow> mhi_controller option" where
  "mhi_reset_data_chan os i c =
     (if rp (tre_ring (mhi_chan c i)) = wp (tre_ring (mhi_chan c i)) then Some c
      else mhi_reset_data_chan os i (give_back os i c))"

definition give_back_used :: "mhi_os \<Rightarrow> nat \<Rightarrow> nat \<Rightarrow> mhi_controller \<Rightarrow> mhi_controller" where
  "give_back_used os i k c =
     (let r = buf_ring (mhi_chan c i);
          a = base r + of_nat k * sizeof_mhi_buf_info;
          b = slots r a
      in if \<not> bi_used b then c
         else upd_chan i (\<lambda>ch. ch\<lparr>buf_ring := (buf_ring ch)\<lparr>slots := (slots (buf_ring ch))(a := b\<lparr>bi_used := False\<rparr>)\<rparr>\<rparr>)
                (emit (Xfer_cb i \<lparr>buf_addr = cb_buf b, res_dir = stack_dir os, bytes_xferd = 0,
                         transaction_status = Some ENOTCONN\<rparr>) c))"

definition mhi_reset_rsc_chan :: "mhi_os \<Rightarrow> nat \<Rightarrow> mhi_controller \<Rightarrow> mhi_controller" where
  "mhi_reset_rsc_chan os i c =
     fold (give_back_used os i) [0..<(unat (ring_len (buf_ring (mhi_chan c i))) + 55) div 56] c"

definition mhi_reset_chan :: "mhi_os \<Rightarrow> nat \<Rightarrow> mhi_controller \<Rightarrow> mhi_controller option" where
  "mhi_reset_chan os i c =
     (if offload_ch (mhi_chan c i) then Some c
      else Option.bind (mhi_mark_stale_events (ch_er_index (mhi_chan c i)) (chan (mhi_chan c i)) c)
             (\<lambda>c. if xfer_type (mhi_chan c i) = MHI_XFER_RSC_DMA then Some (mhi_reset_rsc_chan os i c)
                   else mhi_reset_data_chan os i c))"

section \<open>Stopping and starting a channel\<close>

definition set_ch_state :: "nat \<Rightarrow> MHI_CH_STATE \<Rightarrow> mhi_controller \<Rightarrow> mhi_controller" where
  "set_ch_state i s = upd_chan i (\<lambda>ch. ch\<lparr>ch_state := s\<rparr>)"

definition reinit_completion :: "nat \<Rightarrow> mhi_controller \<Rightarrow> mhi_controller" where
  "reinit_completion i = upd_chan i (\<lambda>ch. ch\<lparr>ch_completion := 0\<rparr>)"

definition unprepare_channel ::
  "mhi_os \<Rightarrow> (mhi_controller \<Rightarrow> mhi_controller) \<Rightarrow> nat \<Rightarrow> mhi_controller \<Rightarrow> mhi_controller option" where
  "unprepare_channel os env i c =
     (if ch_state (mhi_chan c i) \<noteq> MHI_CH_STATE_ENABLED then Some c
      else
        let c = reinit_completion i (set_ch_state i MHI_CH_STATE_DISABLED c);
            c = (if MHI_PM_IN_ERROR_STATE (pm_state c) then c
                 else
                   let c = emit Runtime_get (mhi_assert_dev_wake False c);
                       (ret, c) = mhi_send_cmd (Some i) MHI_CMD_RESET_CHAN c;
                       c = (if is_ok ret then snd (wait_chan_completion env i c) else c)
                   in wake_put False (emit Runtime_put c))
        in if offload_ch (mhi_chan c i) then Some c
           else map_option (mhi_deinit_chan_ctxt i) (mhi_reset_chan os i c))"

text \<open>Filling a receive channel with buffers of the driver's own.\<close>

fun prealloc_loop :: "mhi_os \<Rightarrow> nat \<Rightarrow> nat \<Rightarrow> mhi_controller \<Rightarrow> unit res \<times> mhi_controller" where
  "prealloc_loop os i 0 c = (Inr (), c)"
| "prealloc_loop os i (Suc n) c =
     (case call_kmalloc os (buffer_len c) c of
        (None, c) \<Rightarrow> (Inl ENOMEM, c)
      | (Some buf, c) \<Rightarrow>
          (case mhi_gen_tre os i buf buf (buffer_len c) (mhi_flags_val MHI_EOT) c of
             (Inl e, c) \<Rightarrow> (Inl e, emit (Kfree buf) c)
           | (Inr _, c) \<Rightarrow> prealloc_loop os i n c))"

definition drop_chan_ctxt :: "nat \<Rightarrow> mhi_controller \<Rightarrow> mhi_controller" where
  "drop_chan_ctxt i c = (if offload_ch (mhi_chan c i) then c else mhi_deinit_chan_ctxt i c)"

definition start_channel ::
  "(mhi_controller \<Rightarrow> mhi_controller) \<Rightarrow> nat \<Rightarrow> mhi_controller \<Rightarrow> unit res \<times> mhi_controller" where
  "start_channel env i c =
     (case mhi_send_cmd (Some i) MHI_CMD_START_CHAN c of
        (Inl e, c) \<Rightarrow> (Inl e, c)
      | (Inr _, c) \<Rightarrow>
          let (ret, c) = wait_chan_completion env i c
          in if \<not> ret \<or> ccs (mhi_chan c i) \<noteq> MHI_EV_CC_SUCCESS then (Inl EIO, c) else (Inr (), c))"

definition prepare_channel ::
  "mhi_os \<Rightarrow> (mhi_controller \<Rightarrow> mhi_controller) \<Rightarrow> nat \<Rightarrow> mhi_controller \<Rightarrow>
   (unit res \<times> mhi_controller) option" where
  "prepare_channel os env i c =
     (if ee_bit (ee c) AND ee_mask (mhi_chan c i) = 0 then Some (Inl ENOTCONN, c)
      else if ch_state (mhi_chan c i) \<noteq> MHI_CH_STATE_DISABLED then Some (Inl EIO, c)
      else case (if offload_ch (mhi_chan c i) then (Inr (), c) else mhi_init_chan_ctxt os i c) of
          (Inl e, c) \<Rightarrow> Some (Inl e, c)
        | (Inr _, c) \<Rightarrow>
            let c = reinit_completion i c
            in if MHI_PM_IN_ERROR_STATE (pm_state c) then Some (Inl EIO, drop_chan_ctxt i c)
               else case start_channel env i (emit Runtime_get (mhi_assert_dev_wake False c)) of
                   (Inl e, c) \<Rightarrow> Some (Inl e, drop_chan_ctxt i (wake_put False (emit Runtime_put c)))
                 | (Inr _, c) \<Rightarrow>
                     let c = set_ch_state i MHI_CH_STATE_ENABLED (emit Runtime_put c)
                     in if \<not> pre_alloc (mhi_chan c i) then Some (Inr (), wake_put False c)
                        else case prealloc_loop os i
                               (nat (get_nr_avail_ring_elements (tre_ring (mhi_chan c i)))) c of
                            (Inl e, c) \<Rightarrow>
                              map_option (\<lambda>c. (Inl e, c)) (unprepare_channel os env i (wake_put False c))
                          | (Inr _, c) \<Rightarrow> Some (Inr (), wake_put False (ring_db_if_valid i c)))"

text \<open>
  The two channels of a client's device, uplink first. \<open>envs\<close> is the environment of the
  uplink's and of the downlink's wait. A device whose two channels are one has it started once.
\<close>

definition mhi_prepare_for_transfer ::
  "mhi_os \<Rightarrow> (nat \<Rightarrow> mhi_controller \<Rightarrow> mhi_controller) \<Rightarrow> mhi_device \<Rightarrow> mhi_controller \<Rightarrow>
   (unit res \<times> mhi_controller) option" where
  "mhi_prepare_for_transfer os envs d c =
     Option.bind (case ul_chan d of None \<Rightarrow> Some (Inr (), c) | Some u \<Rightarrow> prepare_channel os (envs 0) u c)
       (\<lambda>(ret, c). case ret of
          Inl e \<Rightarrow> Some (Inl e, c)
        | Inr _ \<Rightarrow>
            case dl_chan d of
              None \<Rightarrow> Some (Inr (), c)
            | Some w \<Rightarrow>
                if ul_chan d = Some w then Some (Inr (), c)
                else Option.bind (prepare_channel os (envs 1) w c)
                       (\<lambda>(ret, c). case ret of
                          Inr _ \<Rightarrow> Some (Inr (), c)
                        | Inl e \<Rightarrow> map_option (\<lambda>c. (Inl e, c))
                            (case ul_chan d of None \<Rightarrow> Some c | Some u \<Rightarrow> unprepare_channel os (envs 2) u c)))"

definition mhi_unprepare_from_transfer ::
  "mhi_os \<Rightarrow> (nat \<Rightarrow> mhi_controller \<Rightarrow> mhi_controller) \<Rightarrow> mhi_device \<Rightarrow> mhi_controller \<Rightarrow>
   mhi_controller option" where
  "mhi_unprepare_from_transfer os envs d c =
     Option.bind (case dl_chan d of None \<Rightarrow> Some c | Some w \<Rightarrow> unprepare_channel os (envs 0) w c)
       (\<lambda>c. case ul_chan d of
          None \<Rightarrow> Some c
        | Some u \<Rightarrow> if dl_chan d = Some u then Some c else unprepare_channel os (envs 1) u c)"

section \<open>Clients\<close>

text \<open>
  What a client driver brings: which callbacks it has, and its \<open>probe\<close> and \<open>remove\<close>
  functions, which may use the device in any way.
\<close>

record mhi_driver =
  has_status_cb :: bool
  has_ul_xfer_cb :: bool
  has_dl_xfer_cb :: bool
  drv_probe :: "mhi_controller \<Rightarrow> unit res \<times> mhi_controller"
  drv_remove :: "mhi_controller \<Rightarrow> mhi_controller"

definition ul_acceptable :: "mhi_driver \<Rightarrow> mhi_chan \<Rightarrow> bool" where
  "ul_acceptable drv ch \<longleftrightarrow>
     \<not> (lpm_notify ch \<and> \<not> has_status_cb drv) \<and> \<not> (\<not> offload_ch ch \<and> \<not> has_ul_xfer_cb drv)"

definition dl_acceptable :: "mhi_driver \<Rightarrow> mhi_chan \<Rightarrow> mhi_event \<Rightarrow> bool" where
  "dl_acceptable drv ch ev \<longleftrightarrow>
     \<not> (lpm_notify ch \<and> \<not> has_status_cb drv) \<and> \<not> (\<not> offload_ch ch \<and> \<not> has_dl_xfer_cb drv)
     \<and> \<not> (cl_manage ev \<and> \<not> has_status_cb drv)"

definition mhi_driver_probe ::
  "mhi_os \<Rightarrow> (nat \<Rightarrow> mhi_controller \<Rightarrow> mhi_controller) \<Rightarrow> mhi_driver \<Rightarrow> mhi_device \<Rightarrow> mhi_controller \<Rightarrow>
   (unit res \<times> mhi_device \<times> mhi_controller) option" where
  "mhi_driver_probe os envs drv d c =
     (case mhi_device_get_sync (envs 3) d c of
        (Inl e, d, c) \<Rightarrow> Some (Inl e, d, c)
      | (Inr _, d, c) \<Rightarrow>
          let ul_ok = (case ul_chan d of None \<Rightarrow> True | Some u \<Rightarrow> ul_acceptable drv (mhi_chan c u));
              dl_ok = (case dl_chan d of None \<Rightarrow> True
                       | Some w \<Rightarrow> dl_acceptable drv (mhi_chan c w) (mhi_event c (ch_er_index (mhi_chan c w))));
              start = ((case ul_chan d of None \<Rightarrow> False | Some u \<Rightarrow> auto_start (mhi_chan c u))
                       \<or> (case dl_chan d of None \<Rightarrow> False | Some w \<Rightarrow> auto_start (mhi_chan c w)))
          in if \<not> ul_ok \<or> \<not> dl_ok
             then (let (d, c) = mhi_device_put d c in Some (Inl EINVAL, d, c))
             else let (ret, c) = drv_probe drv c
                  in map_option (\<lambda>c. (ret, mhi_device_put d c))
                       (if is_ok ret \<and> start
                        then map_option snd (mhi_prepare_for_transfer os envs d c) else Some c))"

text \<open>Unbinding: stop, let the client go, drop the contexts, give back its votes.\<close>

definition retire_chan ::
  "mhi_os \<Rightarrow> nat option \<Rightarrow> mhi_controller \<Rightarrow> (MHI_CH_STATE \<times> mhi_controller) option" where
  "retire_chan os ch c =
     (case ch of
        None \<Rightarrow> Some (MHI_CH_STATE_DISABLED, c)
      | Some i \<Rightarrow>
          let st = ch_state (mhi_chan c i);
              c = upd_chan i (\<lambda>ch. ch\<lparr>ccs := MHI_EV_CC_INVALID, ch_completion := completion_all,
                    ch_state := MHI_CH_STATE_SUSPENDED\<rparr>) c
          in map_option (\<lambda>c. (st, c)) (if offload_ch (mhi_chan c i) then Some c else mhi_reset_chan os i c))"

definition bury_chan :: "nat option \<Rightarrow> MHI_CH_STATE \<Rightarrow> mhi_controller \<Rightarrow> mhi_controller" where
  "bury_chan ch st c =
     (case ch of
        None \<Rightarrow> c
      | Some i \<Rightarrow> set_ch_state i MHI_CH_STATE_DISABLED
          (if st = MHI_CH_STATE_ENABLED \<and> \<not> offload_ch (mhi_chan c i) then mhi_deinit_chan_ctxt i c else c))"

partial_function (option) relinquish ::
  "mhi_device \<Rightarrow> mhi_controller \<Rightarrow> (mhi_device \<times> mhi_controller) option" where
  "relinquish d c =
     (if device_wake d = 0 then Some (d, c)
      else let (d, c) = mhi_device_put d c in relinquish d c)"

definition mhi_driver_remove ::
  "mhi_os \<Rightarrow> mhi_driver \<Rightarrow> mhi_device \<Rightarrow> mhi_controller \<Rightarrow> (mhi_device \<times> mhi_controller) option" where
  "mhi_driver_remove os drv d c =
     (if dev_type d = MHI_CONTROLLER_TYPE then Some (d, c)
      else Option.bind (retire_chan os (dl_chan d) c) (\<lambda>(dl_state, c).
             Option.bind (retire_chan os (ul_chan d) c) (\<lambda>(ul_state, c).
               let c = drv_remove drv c;
                   c = bury_chan (dl_chan d) dl_state c;
                   c = bury_chan (ul_chan d) ul_state c
               in relinquish d c)))"

section \<open>Resetting a channel\<close>

text \<open>What a reset does with one buffer, as seen from outside the driver.\<close>

fun is_return :: "obs \<Rightarrow> bool" where
  "is_return (Xfer_cb i r) = True"
| "is_return (Kfree a) = True"
| "is_return _ = False"

definition returns :: "mhi_controller \<Rightarrow> obs list" where
  "returns c = filter is_return (trace c)"

definition handed_back :: "mhi_os \<Rightarrow> nat \<Rightarrow> mhi_chan \<Rightarrow> mhi_buf_info \<Rightarrow> obs" where
  "handed_back os i ch b =
     (if pre_alloc ch then Kfree (cb_buf b)
      else Xfer_cb i \<lparr>buf_addr = cb_buf b, res_dir = stack_dir os, bytes_xferd = 0,
             transaction_status = Some ENOTCONN\<rparr>)"

lemma returns_simps [simp]:
  "returns (emit e c) = returns c @ (if is_return e then [e] else [])"
  "returns (upd_chan i f c) = returns c" "returns (upd_event j g c) = returns c"
  "returns (c\<lparr>cmd_ring := q\<rparr>) = returns c" "returns (c\<lparr>chan_ctxt := x\<rparr>) = returns c"
  "returns (c\<lparr>alloc_size := a\<rparr>) = returns c" "returns (c\<lparr>pending_pkts := p\<rparr>) = returns c"
  by (simp_all add: returns_def upd_event_def)

lemma returns_steps [simp]:
  "returns (call_unmap_single b c) = returns c" "returns (count_completed d c) = returns c"
  "returns (del_both i c) = returns c"
  by (simp_all add: call_unmap_single_def mhi_unmap_single_use_bb_def mhi_unmap_single_no_bb_def
      mhi_free_coherent_def count_completed_def del_both_def Let_def)

lemma returns_unmap_if [simp]: "returns (if p then call_unmap_single b c else c) = returns c"
  by simp

text \<open>
  The votes the driver holds on the bus: runtime references taken and not given back, beyond
  the one it holds as long as uplink packets are outstanding.
\<close>

definition spare_votes :: "mhi_controller \<Rightarrow> int" where
  "spare_votes c = int (length (filter (\<lambda>e. e = Runtime_get) (trace c)))
     - int (length (filter (\<lambda>e. e = Runtime_put) (trace c)))
     - (if 0 < pending_pkts c then 1 else 0)"

lemma spare_votes_simps [simp]:
  "spare_votes (emit e c) = spare_votes c + (if e = Runtime_get then 1 else if e = Runtime_put then -1 else 0)"
  "spare_votes (upd_chan i f c) = spare_votes c" "spare_votes (upd_event j g c) = spare_votes c"
  "spare_votes (mhi_assert_dev_wake b c) = spare_votes c"
  "spare_votes (count_completed d c) = spare_votes c"
  "spare_votes (c\<lparr>cmd_ring := r\<rparr>) = spare_votes c" "spare_votes (c\<lparr>chan_ctxt := x\<rparr>) = spare_votes c"
  by (auto simp: spare_votes_def mhi_assert_dev_wake_def write_db_eq count_completed_def Let_def)

text \<open>Fields a reset does not touch.\<close>

definition reset_frame :: "mhi_controller \<Rightarrow> mhi_controller \<Rightarrow> bool" where
  "reset_frame c c' \<longleftrightarrow> pm_state c' = pm_state c \<and> cmd_ring c' = cmd_ring c
     \<and> chan_ctxt c' = chan_ctxt c \<and> er_ctxt c' = er_ctxt c \<and> mhi_tsync c' = mhi_tsync c
     \<and> spare_votes c' = spare_votes c \<and> dev_state c' = dev_state c \<and> mmio c' = mmio c \<and> ub c' = ub c"

lemma reset_frame_refl [simp]: "reset_frame c c"
  by (simp add: reset_frame_def)

lemma reset_frame_trans: "reset_frame a b \<Longrightarrow> reset_frame b c \<Longrightarrow> reset_frame a c"
  by (simp add: reset_frame_def)

lemma spare_votes_unmap [simp]:
  "spare_votes (call_unmap_single b c) = spare_votes c" "spare_votes (del_both i c) = spare_votes c"
  by (simp_all add: spare_votes_def call_unmap_single_def mhi_unmap_single_use_bb_def mhi_unmap_single_no_bb_def
      mhi_free_coherent_def del_both_def Let_def)

lemma completed_chan_frame [simp]:
  "pm_state (count_completed d c) = pm_state c" "cmd_ring (count_completed d c) = cmd_ring c"
  "mhi_chan (count_completed d c) = mhi_chan c" "mhi_event (count_completed d c) = mhi_event c"
  "er_ctxt (count_completed d c) = er_ctxt c" "chan_ctxt (count_completed d c) = chan_ctxt c"
  "mhi_tsync (count_completed d c) = mhi_tsync c" "dev_state (count_completed d c) = dev_state c"
  "mmio (count_completed d c) = mmio c" "ub (count_completed d c) = ub c"
  by (simp_all add: count_completed_def Let_def)

lemma unmap_frame [simp]:
  "cmd_ring (call_unmap_single b c) = cmd_ring c" "mhi_event (call_unmap_single b c) = mhi_event c"
  "er_ctxt (call_unmap_single b c) = er_ctxt c" "chan_ctxt (call_unmap_single b c) = chan_ctxt c"
  "mhi_tsync (call_unmap_single b c) = mhi_tsync c" "mmio (call_unmap_single b c) = mmio c"
  "ub (call_unmap_single b c) = ub c"
  by (simp_all add: call_unmap_single_def mhi_unmap_single_use_bb_def mhi_unmap_single_no_bb_def
      mhi_free_coherent_def Let_def)

lemma give_back_frame: "reset_frame c (give_back os i c) \<and> mhi_event (give_back os i c) = mhi_event c"
  by (simp add: give_back_def Let_def reset_frame_def wake_put_def)
     (simp add: del_both_def)

lemma give_back_effect:
  "mhi_chan (give_back os i c) = (mhi_chan c)(i := (mhi_chan c i)
      \<lparr>buf_ring := mhi_del_ring_element (buf_ring (mhi_chan c i)),
       tre_ring := mhi_del_ring_element (tre_ring (mhi_chan c i))\<rparr>)"
  "pending_pkts (give_back os i c) =
      pending_pkts c - (if dir (mhi_chan c i) = DMA_TO_DEVICE then 1 else 0)"
  "returns (give_back os i c) = returns c @ [handed_back os i (mhi_chan c i)
      (slots (buf_ring (mhi_chan c i)) (rp (buf_ring (mhi_chan c i))))]"
  by (simp_all add: give_back_def Let_def del_both_def handed_back_def wake_put_def
      mhi_deassert_dev_wake_def)

definition emptied :: "mhi_os \<Rightarrow> nat \<Rightarrow> mhi_controller \<Rightarrow> mhi_controller \<Rightarrow> bool" where
  "emptied os i c c' \<longleftrightarrow>
     (let ch = mhi_chan c i; ch' = mhi_chan c' i; n = ring_count (tre_ring ch) in
      lockstep ch' \<and> ring_content (tre_ring ch') = [] \<and> ring_content (buf_ring ch') = []
      \<and> ch' = ch\<lparr>buf_ring := buf_ring ch', tre_ring := tre_ring ch'\<rparr>
      \<and> base (tre_ring ch') = base (tre_ring ch) \<and> base (buf_ring ch') = base (buf_ring ch)
      \<and> pending_pkts c' = pending_pkts c - (if dir ch = DMA_TO_DEVICE then int n else 0)
      \<and> returns c' = returns c @ map (handed_back os i ch) (ring_content (buf_ring ch))
      \<and> (\<forall>j. j \<noteq> i \<longrightarrow> mhi_chan c' j = mhi_chan c j)
      \<and> mhi_event c' = mhi_event c \<and> reset_frame c c')"

lemma reset_data_emptied:
  assumes "lockstep (mhi_chan c i)"
  shows "\<exists>c'. mhi_reset_data_chan os i c = Some c' \<and> emptied os i c c'"
  using assms
proof (induction "ring_count (tre_ring (mhi_chan c i))" arbitrary: c)
  case 0
  then have w: "ring_wf (tre_ring (mhi_chan c i))" by (simp add: lockstep_def)
  then have "rp (tre_ring (mhi_chan c i)) = wp (tre_ring (mhi_chan c i))"
    using 0(1) ring_empty_iff by metis
  then have "mhi_reset_data_chan os i c = Some c" by (subst mhi_reset_data_chan.simps) simp
  moreover have "ring_content (buf_ring (mhi_chan c i)) = []" "ring_content (tre_ring (mhi_chan c i)) = []"
    using 0(1) lockstep_count [OF 0(2)] by (metis length_0_conv length_ring_content)+
  ultimately show ?case using 0 by (simp add: emptied_def Let_def)
next
  case (Suc n)
  let ?ch = "mhi_chan c i" and ?c = "give_back os i c"
  let ?ch' = "mhi_chan ?c i"
  have w: "ring_wf (tre_ring ?ch)" "ring_wf (buf_ring ?ch)" using Suc(3) by (simp_all add: lockstep_def)
  have ne: "rp (tre_ring ?ch) \<noteq> wp (tre_ring ?ch)" "rp (buf_ring ?ch) \<noteq> wp (buf_ring ?ch)"
    using ring_empty_iff [OF w(1)] ring_empty_iff [OF w(2)] lockstep_count [OF Suc(3)] Suc(2) by auto
  have ch': "?ch' = ?ch\<lparr>buf_ring := mhi_del_ring_element (buf_ring ?ch),
       tre_ring := mhi_del_ring_element (tre_ring ?ch)\<rparr>"
    by (simp add: give_back_effect)
  have l: "lockstep ?ch'" unfolding ch' by (rule lockstep_del [OF Suc(3)])
  have n: "n = ring_count (tre_ring ?ch')"
    using ring_count_del [OF w(1) ne(1)] Suc(2) unfolding ch' by simp
  obtain c' where c': "mhi_reset_data_chan os i ?c = Some c'" "emptied os i ?c c'"
    using Suc(1) [OF n l] by blast
  have run: "mhi_reset_data_chan os i c = Some c'"
    using ne(1) c'(1) by (subst mhi_reset_data_chan.simps) simp
  have hd: "ring_content (buf_ring ?ch) =
      slots (buf_ring ?ch) (rp (buf_ring ?ch)) # ring_content (mhi_del_ring_element (buf_ring ?ch))"
    using ring_content_hd [OF w(2) ne(2)] ring_content_del [OF w(2) ne(2)] ne(2) w(2)
      ring_empty_iff [OF w(2)] by (metis hd_Cons_tl length_0_conv length_ring_content)
  have hb: "handed_back os i ?ch' = handed_back os i ?ch" by (rule ext) (simp add: handed_back_def ch')
  have "emptied os i c c'"
    using c'(2) give_back_effect [of os i c] give_back_frame [of c os i] Suc(2) n hd hb
    unfolding emptied_def Let_def
    by (auto simp: ch' ring_fields intro: reset_frame_trans)
  with run show ?case by blast
qed

text \<open>Marking the pending events of a channel as stale.\<close>

definition stale_mark :: "u32 \<Rightarrow> mhi_tre \<Rightarrow> mhi_tre" where
  "stale_mark ch t = (if MHI_TRE_GET_EV_TYPE t = MHI_PKT_TYPE_TX_EVENT \<and> ch = MHI_TRE_GET_EV_CHID t
     then t\<lparr>dword1 := MHI_TRE_EV_DWORD1 ch (pkt_type_val MHI_PKT_TYPE_STALE_EVENT)\<rparr> else t)"

lemma stale_mark_type:
  "\<not> (MHI_TRE_GET_EV_TYPE (stale_mark ch t) = MHI_PKT_TYPE_TX_EVENT
      \<and> ch = MHI_TRE_GET_EV_CHID (stale_mark ch t))"
proof -
  let ?t = "t\<lparr>dword1 := MHI_TRE_EV_DWORD1 ch (pkt_type_val MHI_PKT_TYPE_STALE_EVENT)\<rparr>"
  have "MHI_TRE_GET_EV_TYPE ?t = pkt_type_of (pkt_type_val MHI_PKT_TYPE_STALE_EVENT)"
    by (rule ev_fields(2) [of _ ch]) simp_all
  then have "MHI_TRE_GET_EV_TYPE ?t \<noteq> MHI_PKT_TYPE_TX_EVENT" by (simp add: pkt_type_of_def)
  then show ?thesis
    by (cases "MHI_TRE_GET_EV_TYPE t = MHI_PKT_TYPE_TX_EVENT \<and> ch = MHI_TRE_GET_EV_CHID t")
       (unfold stale_mark_def, simp_all only: if_True if_False simp_thms)
qed

lemma stale_mark_idem [simp]: "stale_mark ch (stale_mark ch t) = stale_mark ch t"
  unfolding stale_mark_def [of ch "stale_mark ch t"] using stale_mark_type [of ch t] by (rule if_not_P)

text \<open>The slots from one pointer up to another.\<close>

definition pending_slots :: "'a mhi_ring \<Rightarrow> u64 \<Rightarrow> u64 \<Rightarrow> u64 set" where
  "pending_slots r a b = (\<lambda>k. (ring_step r ^^ k) a) ` {..<ring_dist r a b}"

lemma pending_slots_step:
  assumes "ring_geom r" "on_ring r a" "on_ring r b" "a \<noteq> b"
  shows "pending_slots r a b = insert a (pending_slots r (ring_step r a) b)"
proof -
  have "{..<ring_dist r a b} = insert 0 (Suc ` {..<ring_dist r (ring_step r a) b})"
    unfolding ring_dist_step [OF assms, symmetric] by (simp add: lessThan_Suc_eq_insert_0)
  then show ?thesis by (simp add: pending_slots_def image_image funpow_swap1)
qed

lemma pending_slots_empty:
  "ring_geom r \<Longrightarrow> on_ring r a \<Longrightarrow> pending_slots r a a = {}"
  using ring_dist_zero [of r a a] by (simp add: pending_slots_def)

lemma pending_slots_cong:
  assumes "base r' = base r" "el_size r' = el_size r" "ring_len r' = ring_len r" "elements r' = elements r"
  shows "pending_slots r' a b = pending_slots r a b"
proof -
  have "ring_step r' = ring_step r" using assms by (simp add: ring_step_def fun_eq_iff Let_def cong: if_cong)
  moreover have "ring_dist r' a b = ring_dist r a b" using assms by (simp add: ring_dist_def slot_idx_def)
  ultimately show ?thesis by (simp add: pending_slots_def)
qed

definition mark_slots :: "u32 \<Rightarrow> u64 set \<Rightarrow> mhi_tre mhi_ring \<Rightarrow> mhi_tre mhi_ring" where
  "mark_slots ch A r = r\<lparr>slots := (\<lambda>a. if a \<in> A then stale_mark ch (slots r a) else slots r a)\<rparr>"

lemma unat_numeral_16: "unat (16 :: u64) = 16"
  by simp

lemma ring_step_16:
  assumes "ring_geom r" "on_ring r a" "el_size r = 16"
  shows "(if a + 16 = base r + ring_len r then base r else a + 16) = ring_step r a"
proof -
  obtain k where k: "k < unat (elements r)" "unat a = unat (base r) + k * 16"
    using on_ring_slot [OF assms(1,2)] assms(3) by (metis unat_numeral_16)
  have g: "unat (ring_len r) = unat (elements r) * 16" "unat (base r) + unat (ring_len r) < 2 ^ 64"
    using assms(1,3) by (simp_all add: ring_geom_def)
  have b: "unat (base r + ring_len r) = unat (base r) + unat (ring_len r)"
    using g(2) by (simp add: unat_plus_nowrap)
  have a: "unat (a + 16) = unat a + 16" using k g by (subst unat_plus_nowrap) simp_all
  have "unat (a + 16) \<le> unat (base r + ring_len r)" using k g unfolding a b by simp
  then have "a + 16 = base r + ring_len r \<longleftrightarrow> base r + ring_len r \<le> a + 16"
    by (auto simp: word_le_nat_alt word_unat_eq_iff)
  then show ?thesis using assms(3) by (simp add: ring_step_def Let_def)
qed

lemma mark_slots_one: "mark_slots ch {a} r = r\<lparr>slots := (slots r)(a := stale_mark ch (slots r a))\<rparr>"
  by (auto simp: mark_slots_def fun_eq_iff)

lemma mark_loop_step:
  assumes "a \<noteq> d" "ring_geom (ev_ring (mhi_event c e))" "el_size (ev_ring (mhi_event c e)) = 16"
    "on_ring (ev_ring (mhi_event c e)) a"
  shows "mark_loop e ch d a c = mark_loop e ch d (ring_step (ev_ring (mhi_event c e)) a)
    (upd_event e (\<lambda>ev. ev\<lparr>ev_ring := mark_slots ch {a} (ev_ring ev)\<rparr>) c)"
proof -
  have "upd_event e (\<lambda>ev. ev\<lparr>ev_ring := (ev_ring ev)\<lparr>slots := (slots (ev_ring ev))
           (a := stale_mark ch (slots (ev_ring (mhi_event c e)) a))\<rparr>\<rparr>) c
        = upd_event e (\<lambda>ev. ev\<lparr>ev_ring := mark_slots ch {a} (ev_ring ev)\<rparr>) c"
    unfolding mark_slots_one upd_event_def by simp
  then show ?thesis
    by (subst mark_loop.simps)
       (simp only: Let_def stale_mark_def [symmetric] ring_step_16 [OF assms(2,4,3)] assms(1) [symmetric] if_False)
qed

lemma mark_loop_spec:
  assumes "r = ev_ring (mhi_event c e)" "ring_geom r" "el_size r = 16" "on_ring r a" "on_ring r d"
  shows "mark_loop e ch d a c =
    Some (upd_event e (\<lambda>ev. ev\<lparr>ev_ring := mark_slots ch (pending_slots r a d) r\<rparr>) c)"
  using assms
proof (induction "ring_dist r a d" arbitrary: c r a)
  case 0
  then have "a = d" using ring_dist_zero [of r a d] by simp
  then show ?case using 0
    by (subst mark_loop.simps) (simp add: pending_slots_empty mark_slots_def upd_event_def)
next
  case (Suc n)
  let ?r' = "mark_slots ch {a} r"
  let ?c = "upd_event e (\<lambda>ev. ev\<lparr>ev_ring := ?r'\<rparr>) c"
  have ne: "a \<noteq> d" using Suc(2) ring_dist_zero [of r a d] Suc(4,6,7) by auto
  have same: "base ?r' = base r" "el_size ?r' = el_size r" "ring_len ?r' = ring_len r"
    "elements ?r' = elements r" "ring_step ?r' = ring_step r"
    by (simp_all add: mark_slots_def fun_eq_iff)
  have n: "n = ring_dist ?r' (ring_step r a) d"
    using ring_dist_step [OF Suc(4,6,7) ne] Suc(2) by (simp add: ring_dist_def slot_idx_def mark_slots_def)
  have geom: "ring_geom ?r'" "on_ring ?r' (ring_step r a)" "on_ring ?r' d" "el_size ?r' = 16"
    using Suc(4-7) ring_step_slot(1) [OF Suc(4,6)] by (simp_all add: mark_slots_def)
  have ih: "mark_loop e ch d (ring_step r a) ?c = Some (upd_event e (\<lambda>ev. ev\<lparr>ev_ring :=
      mark_slots ch (pending_slots ?r' (ring_step r a) d) ?r'\<rparr>) ?c)"
    using Suc(1) [OF n _ geom(1,4,2,3)] by (simp add: upd_event_def)
  have "mark_loop e ch d a c = mark_loop e ch d (ring_step r a) ?c"
    using mark_loop_step [OF ne, of c e ch] Suc(3-6) by (simp add: upd_event_def)
  moreover have "mark_slots ch (pending_slots ?r' (ring_step r a) d) ?r' = mark_slots ch (pending_slots r a d) r"
    unfolding pending_slots_step [OF Suc(4,6,7) ne] pending_slots_cong [OF same(1-4)]
    by (auto simp: mark_slots_def fun_eq_iff)
  ultimately show ?case using ih by (simp add: upd_event_def)
qed

text \<open>What is left after a data channel is reset, in terms of what was queued before.\<close>

definition reset_done :: "mhi_os \<Rightarrow> nat \<Rightarrow> mhi_controller \<Rightarrow> mhi_controller \<Rightarrow> bool" where
  "reset_done os i c c' \<longleftrightarrow>
     (let ch = mhi_chan c i; ch' = mhi_chan c' i; n = ring_count (tre_ring ch) in
      lockstep ch' \<and> ring_content (tre_ring ch') = [] \<and> ring_content (buf_ring ch') = []
      \<and> ch' = ch\<lparr>buf_ring := buf_ring ch', tre_ring := tre_ring ch'\<rparr>
      \<and> base (buf_ring ch') = base (buf_ring ch)
      \<and> pending_pkts c' = pending_pkts c - (if dir ch = DMA_TO_DEVICE then int n else 0)
      \<and> returns c' = returns c @ map (handed_back os i ch) (ring_content (buf_ring ch))
      \<and> (\<forall>j. j \<noteq> i \<longrightarrow> mhi_chan c' j = mhi_chan c j))"

definition er_dev_rp :: "mhi_controller \<Rightarrow> nat \<Rightarrow> u64" where
  "er_dev_rp c e = mhi_to_virtual (ev_ring (mhi_event c e)) (er_rp (er_ctxt c e))"

definition pending_events :: "mhi_controller \<Rightarrow> nat \<Rightarrow> u64 set" where
  "pending_events c e = pending_slots (ev_ring (mhi_event c e)) (rp (ev_ring (mhi_event c e))) (er_dev_rp c e)"

definition events_ready :: "mhi_controller \<Rightarrow> nat \<Rightarrow> bool" where
  "events_ready c e \<longleftrightarrow> ring_wf (ev_ring (mhi_event c e)) \<and> el_size (ev_ring (mhi_event c e)) = 16
     \<and> on_ring (ev_ring (mhi_event c e)) (er_dev_rp c e)"

lemma mark_stale_run:
  assumes "events_ready c e"
  shows "mhi_mark_stale_events e ch c = Some (upd_event e
    (\<lambda>ev. ev\<lparr>ev_ring := mark_slots ch (pending_events c e) (ev_ring (mhi_event c e))\<rparr>) c)"
  using assms mark_loop_spec [OF refl, of c e "rp (ev_ring (mhi_event c e))" "er_dev_rp c e" ch]
  by (simp add: events_ready_def mhi_mark_stale_events_def Let_def er_dev_rp_def ring_wf_def pending_events_def)

lemma reset_data_chan_run:
  assumes "lockstep (mhi_chan c i)" "\<not> offload_ch (mhi_chan c i)"
    "xfer_type (mhi_chan c i) \<noteq> MHI_XFER_RSC_DMA" "e = ch_er_index (mhi_chan c i)" "events_ready c e"
  shows "\<exists>c'. mhi_reset_chan os i c = Some c' \<and> reset_done os i c c' \<and> reset_frame c c'
    \<and> mhi_event c' = (mhi_event c)(e := (mhi_event c e)\<lparr>ev_ring :=
         mark_slots (chan (mhi_chan c i)) (pending_events c e) (ev_ring (mhi_event c e))\<rparr>)"
proof -
  let ?c = "upd_event e (\<lambda>ev. ev\<lparr>ev_ring := mark_slots (chan (mhi_chan c i)) (pending_events c e)
      (ev_ring (mhi_event c e))\<rparr>) c"
  have ch: "mhi_chan ?c = mhi_chan c" "pending_pkts ?c = pending_pkts c" "returns ?c = returns c"
    by (simp_all add: upd_event_def returns_def)
  obtain c' where c': "mhi_reset_data_chan os i ?c = Some c'" "emptied os i ?c c'"
    using reset_data_emptied [of ?c i os] assms(1) unfolding ch by blast
  have "mhi_reset_chan os i c = Some c'"
    using assms(2-4) mark_stale_run [OF assms(5)] c'(1) by (simp add: mhi_reset_chan_def ch)
  moreover have "reset_done os i c c'"
    using c'(2) unfolding emptied_def reset_done_def Let_def ch by auto
  moreover have "reset_frame c c'"
    using c'(2) unfolding emptied_def Let_def by (auto simp: upd_event_def reset_frame_def spare_votes_def)
  moreover have "mhi_event c' = mhi_event ?c"
    using c'(2) unfolding emptied_def Let_def by auto
  ultimately show ?thesis by (simp add: upd_event_def)
qed

text \<open>
  C22: Resetting a data channel whose rings are in lockstep always returns. Every buffer that
  was queued is handed back exactly once and in the order it was queued, with the status
  \<open>ENOTCONN\<close> (or freed, if the driver allocated it); both rings are empty and still in
  lockstep; the packet count drops by the packets taken back; no completion of this channel is
  left among the events the device has delivered and the host has not processed; and no other
  channel, no other event ring and none of the events of other channels is touched.
\<close>

theorem reset_chan_spec:
  assumes "lockstep (mhi_chan c i)" and "\<not> offload_ch (mhi_chan c i)"
    and "xfer_type (mhi_chan c i) \<noteq> MHI_XFER_RSC_DMA" and "e = ch_er_index (mhi_chan c i)"
    and "events_ready c e"
  shows "\<exists>c'. mhi_reset_chan os i c = Some c'
    \<and> (let ch = mhi_chan c i; ch' = mhi_chan c' i; r = ev_ring (mhi_event c e); r' = ev_ring (mhi_event c' e) in
       lockstep ch' \<and> ring_content (tre_ring ch') = [] \<and> ring_content (buf_ring ch') = []
       \<and> pending_pkts c' = pending_pkts c - (if dir ch = DMA_TO_DEVICE then int (ring_count (tre_ring ch)) else 0)
       \<and> returns c' = returns c @ map (handed_back os i ch) (ring_content (buf_ring ch))
       \<and> pending_events c' e = pending_events c e
       \<and> (\<forall>a \<in> pending_events c' e. \<not> (MHI_TRE_GET_EV_TYPE (slots r' a) = MHI_PKT_TYPE_TX_EVENT
            \<and> MHI_TRE_GET_EV_CHID (slots r' a) = chan ch))
       \<and> (\<forall>a. (MHI_TRE_GET_EV_TYPE (slots r a) \<noteq> MHI_PKT_TYPE_TX_EVENT
            \<or> MHI_TRE_GET_EV_CHID (slots r a) \<noteq> chan ch) \<longrightarrow> slots r' a = slots r a)
       \<and> (\<forall>j. j \<noteq> i \<longrightarrow> mhi_chan c' j = mhi_chan c j) \<and> (\<forall>j. j \<noteq> e \<longrightarrow> mhi_event c' j = mhi_event c j))"
proof -
  let ?ch = "chan (mhi_chan c i)" and ?r = "ev_ring (mhi_event c e)"
  obtain c' where c': "mhi_reset_chan os i c = Some c'" "reset_done os i c c'" "reset_frame c c'"
    "mhi_event c' = (mhi_event c)(e := (mhi_event c e)\<lparr>ev_ring := mark_slots ?ch (pending_events c e) ?r\<rparr>)"
    using reset_data_chan_run [OF assms] by blast
  have r': "ev_ring (mhi_event c' e) = mark_slots ?ch (pending_events c e) ?r" using c'(4) by simp
  have same: "base (mark_slots ?ch A ?r) = base ?r" "el_size (mark_slots ?ch A ?r) = el_size ?r"
    "ring_len (mark_slots ?ch A ?r) = ring_len ?r" "elements (mark_slots ?ch A ?r) = elements ?r"
    "rp (mark_slots ?ch A ?r) = rp ?r" "iommu_base (mark_slots ?ch A ?r) = iommu_base ?r" for A
    by (simp_all add: mark_slots_def)
  have d: "er_dev_rp c' e = er_dev_rp c e"
    using c'(3) by (simp add: er_dev_rp_def r' mhi_to_virtual_def same reset_frame_def)
  have p: "pending_events c' e = pending_events c e"
    unfolding pending_events_def [of c'] d unfolding r' same pending_slots_cong [OF same(1-4)]
    by (simp add: pending_events_def)
  have sl: "slots (ev_ring (mhi_event c' e)) a =
      (if a \<in> pending_events c e then stale_mark ?ch (slots ?r a) else slots ?r a)" for a
    by (simp add: r' mark_slots_def)
  have gone: "\<not> (MHI_TRE_GET_EV_TYPE (slots (ev_ring (mhi_event c' e)) a) = MHI_PKT_TYPE_TX_EVENT
      \<and> MHI_TRE_GET_EV_CHID (slots (ev_ring (mhi_event c' e)) a) = ?ch)" if "a \<in> pending_events c e" for a
    unfolding sl using that stale_mark_type [of ?ch "slots ?r a"] by metis
  have kept: "slots (ev_ring (mhi_event c' e)) a = slots ?r a"
    if "MHI_TRE_GET_EV_TYPE (slots ?r a) \<noteq> MHI_PKT_TYPE_TX_EVENT \<or> MHI_TRE_GET_EV_CHID (slots ?r a) \<noteq> ?ch" for a
    unfolding sl using that by (auto simp: stale_mark_def)
  have others: "\<forall>j. j \<noteq> e \<longrightarrow> mhi_event c' j = mhi_event c j" using c'(4) by simp
  show ?thesis
    using c'(1) c'(2) [unfolded reset_done_def Let_def] gone [folded p] kept p others
    unfolding Let_def by blast
qed

theorem reset_chan_spec_witness:
  "\<exists>c'. mhi_reset_chan link_up 0 ev_demo = Some c' \<and> length (returns c') = 2
     \<and> pending_pkts c' = 0 \<and> ring_content (tre_ring (mhi_chan c' 0)) = []"
proof -
  have l: "lockstep (mhi_chan ev_demo 0)" using busy_lockstep by (simp add: ev_demo_facts busy_controller_def)
  have n: "ring_count (tre_ring busy_chan) = 2" "dir busy_chan = DMA_TO_DEVICE" "pending_pkts ev_demo = 2"
    using busy_fields by (simp_all add: busy_controller_def ev_demo_def)
  have len: "length (ring_content (buf_ring busy_chan)) = 2"
    using lockstep_count [OF l] n by (simp add: ev_demo_facts)
  have t: "returns ev_demo = []" by (simp add: returns_def ev_demo_def busy_defs)
  have x: "\<not> offload_ch (mhi_chan ev_demo 0)" "xfer_type (mhi_chan ev_demo 0) \<noteq> MHI_XFER_RSC_DMA"
    by (simp_all add: ev_demo_facts busy_defs)
  have r: "events_ready ev_demo (ch_er_index (mhi_chan ev_demo 0))"
  proof -
    have "er_dev_rp ev_demo e = 0x4030" for e
      by (simp add: er_dev_rp_def ev_demo_facts(1)) (simp add: ev_demo_def ev_demo_ring_def mhi_to_virtual_def)
    then show ?thesis using ev_demo_wf by (simp add: events_ready_def ev_demo_facts(1)) (simp add: ev_demo_ring_def)
  qed
  show ?thesis
    using reset_chan_spec [OF l x refl r, of link_up] n t len by (auto simp: Let_def ev_demo_facts)
qed

section \<open>Commands and their completions\<close>

definition chan_cmd :: "MHI_CMD \<Rightarrow> bool" where
  "chan_cmd cmd \<longleftrightarrow> cmd = MHI_CMD_RESET_CHAN \<or> cmd = MHI_CMD_START_CHAN"

definition cmd_word :: "MHI_CMD \<Rightarrow> u32 \<Rightarrow> mhi_tre" where
  "cmd_word cmd ch = \<lparr>tre_ptr = 0, dword0 = 0,
     dword1 = (if cmd = MHI_CMD_RESET_CHAN then MHI_TRE_CMD_RESET_DWORD1 ch else MHI_TRE_CMD_START_DWORD1 ch)\<rparr>"

lemma cmd_word_fields:
  "MHI_TRE_GET_CMD_CHID (cmd_word cmd ch) = ch AND 0xFF"
  "MHI_TRE_GET_CMD_TYPE (cmd_word cmd ch) =
     (if cmd = MHI_CMD_RESET_CHAN then MHI_CMD_TYPE_RESET else MHI_CMD_TYPE_START)"
  by (simp_all add: cmd_word_def tre_simps)

lemma cmd_tre_chan: "chan_cmd cmd \<Longrightarrow> cmd_tre cmd ch c = (cmd_word cmd ch, c)"
  by (auto simp: chan_cmd_def cmd_tre_def cmd_word_def)

text \<open>Everything of the controller but the command ring, the trace and the doorbell registers.\<close>

definition cmd_frame :: "mhi_controller \<Rightarrow> mhi_controller \<Rightarrow> bool" where
  "cmd_frame c c' \<longleftrightarrow> mhi_chan c' = mhi_chan c \<and> mhi_event c' = mhi_event c \<and> er_ctxt c' = er_ctxt c
     \<and> chan_ctxt c' = chan_ctxt c \<and> pm_state c' = pm_state c \<and> ee c' = ee c \<and> ub c' = ub c
     \<and> pending_pkts c' = pending_pkts c \<and> dev_state c' = dev_state c \<and> max_chan c' = max_chan c
     \<and> returns c' = returns c \<and> mhi_tsync c' = mhi_tsync c \<and> n_alloc c' = n_alloc c
     \<and> spare_votes c' = spare_votes c \<and> ctrl_seg c' = ctrl_seg c \<and> ctrl_seg_addr c' = ctrl_seg_addr c"

lemma fold_emit: "fold (\<lambda>x. emit (f x)) xs c = c\<lparr>trace := trace c @ map f xs\<rparr>"
  by (induction xs arbitrary: c) (simp_all add: emit_def)

lemma mon_submit_cmd_frame: "cmd_frame c (mon_submit_cmd t c) \<and> cmd_ring (mon_submit_cmd t c) = cmd_ring c
    \<and> pm_state (mon_submit_cmd t c) = pm_state c"
  by (simp add: mon_submit_cmd_def cmd_frame_def mon_bus_submit_def returns_def spare_votes_def
      fold_emit filter_map o_def)

lemma cmd_db_frame: "cmd_frame c (mhi_ring_cmd_db c) \<and> cmd_ring (mhi_ring_cmd_db c) =
    (cmd_ring c)\<lparr>ctxt_wp := mhi_to_physical (cmd_ring c) (wp (cmd_ring c))\<rparr>"
  by (simp add: mhi_ring_cmd_db_def Let_def write_db_eq cmd_frame_def returns_def spare_votes_def
      mhi_to_physical_def)

lemma send_cmd_run:
  assumes "chan_cmd cmd" "get_nr_avail_ring_elements (cmd_ring c) \<noteq> 0"
    "t = cmd_word cmd (chan (mhi_chan c i))"
  shows "\<exists>c' x. mhi_send_cmd (Some i) cmd c = (Inr (), c') \<and> cmd_frame c c'
    \<and> cmd_ring c' = (mhi_add_ring_element (ring_write (cmd_ring c) t))\<lparr>ctxt_wp := x\<rparr>
    \<and> (MHI_DB_ACCESS_VALID (pm_state c) \<longrightarrow> x = mhi_to_physical (cmd_ring c') (wp (cmd_ring c')))"
proof -
  let ?c1 = "mon_submit_cmd t (c\<lparr>cmd_ring := ring_write (cmd_ring c) t\<rparr>)"
  let ?c2 = "?c1\<lparr>cmd_ring := mhi_add_ring_element (cmd_ring ?c1)\<rparr>"
  let ?c3 = "if MHI_DB_ACCESS_VALID (pm_state ?c2) then mhi_ring_cmd_db ?c2 else ?c2"
  have run: "mhi_send_cmd (Some i) cmd c = (Inr (), ?c3)"
    using assms(2) by (simp add: mhi_send_cmd_def cmd_tre_chan [OF assms(1)] assms(3) [symmetric] Let_def)
  have f: "cmd_frame c ?c2" "cmd_ring ?c2 = mhi_add_ring_element (ring_write (cmd_ring c) t)"
    "pm_state ?c2 = pm_state c"
    using mon_submit_cmd_frame [of "c\<lparr>cmd_ring := ring_write (cmd_ring c) t\<rparr>" t]
    by (simp_all add: cmd_frame_def)
  show ?thesis
  proof (cases "MHI_DB_ACCESS_VALID (pm_state c)")
    case True
    then have "mhi_send_cmd (Some i) cmd c = (Inr (), mhi_ring_cmd_db ?c2)" using run f(3) by simp
    moreover have "cmd_frame c (mhi_ring_cmd_db ?c2)"
      using f(1) cmd_db_frame [of ?c2] by (simp add: cmd_frame_def)
    moreover have "cmd_ring (mhi_ring_cmd_db ?c2) =
        (cmd_ring ?c2)\<lparr>ctxt_wp := mhi_to_physical (cmd_ring ?c2) (wp (cmd_ring ?c2))\<rparr>"
      using cmd_db_frame [of ?c2] by blast
    ultimately show ?thesis using f(2) by (auto simp: mhi_to_physical_def)
  next
    case False
    have "cmd_ring ?c2 = (cmd_ring ?c2)\<lparr>ctxt_wp := ctxt_wp (cmd_ring ?c2)\<rparr>" by simp
    with False show ?thesis using run f by metis
  qed
qed

lemma of_nat_mask_8: "i < 256 \<Longrightarrow> (of_nat i :: u32) AND 0xFF = of_nat i"
proof -
  assume i: "i < 256"
  have "(0xFF :: u32) = mask 8" by (simp add: mask_eq_exp_minus_1)
  then have "(of_nat i :: u32) AND 0xFF = take_bit 8 (of_nat i)" by (simp add: take_bit_eq_mask)
  also have "\<dots> = of_nat (take_bit 8 i)" by (simp add: take_bit_of_nat)
  finally show ?thesis using i by (simp add: take_bit_nat_eq_self)
qed

lemma ring_content_append:
  assumes "ring_wf r" "unat (elements r) < 2 ^ 31" "get_nr_avail_ring_elements r \<noteq> 0"
  shows "ring_content (mhi_add_ring_element (ring_write r x)) = ring_content r @ [x]"
proof -
  have "\<not> mhi_is_ring_full r"
    using nr_avail_is_room [OF assms(1,2)] ring_room_pos_iff [OF assms(1)] assms(3) by simp
  then show ?thesis using ring_content_put [OF assms(1)] by (simp add: ring_put_def)
qed

text \<open>
  C23: A channel command and its completion: \<open>mhi_send_cmd\<close> refuses only a full command ring;
  else it appends one descriptor, and the completion event the device sends for that
  descriptor leads \<open>mhi_process_cmd_completion\<close> back to the channel the command was for, which
  gets the event's completion code and one completion; one descriptor is retired and no other
  channel sees anything.
\<close>

theorem command_roundtrip:
  assumes "ring_wf (cmd_ring c)" and "chan_cmd cmd" and "unat (elements (cmd_ring c)) < 2 ^ 31"
    and "get_nr_avail_ring_elements (cmd_ring c) \<noteq> 0"
    and "i < 256" and "i < max_chan c" and "chan (mhi_chan c i) = of_nat i"
    and "MHI_TRE_GET_EV_PTR ev = mhi_to_physical (cmd_ring c) (wp (cmd_ring c))"
  shows "case mhi_send_cmd (Some i) cmd c of (ret, c1) \<Rightarrow>
    ret = Inr () \<and> mhi_chan c1 = mhi_chan c
    \<and> ring_content (cmd_ring c1) = ring_content (cmd_ring c) @ [cmd_word cmd (of_nat i)]
    \<and> (case mhi_process_cmd_completion ev c1 of None \<Rightarrow> False | Some c2 \<Rightarrow>
         mhi_chan c2 = (mhi_chan c)(i := (mhi_chan c i)\<lparr>ccs := MHI_TRE_GET_EV_CODE ev,
             ch_completion := complete_one (ch_completion (mhi_chan c i))\<rparr>)
         \<and> ring_content (cmd_ring c2) = tl (ring_content (cmd_ring c) @ [cmd_word cmd (of_nat i)])
         \<and> ub c2 = ub c)"
proof -
  let ?t = "cmd_word cmd (of_nat i)" and ?r = "cmd_ring c"
  obtain c1 x where c1: "mhi_send_cmd (Some i) cmd c = (Inr (), c1)" "cmd_frame c c1"
    "cmd_ring c1 = (mhi_add_ring_element (ring_write ?r ?t))\<lparr>ctxt_wp := x\<rparr>"
    using send_cmd_run [OF assms(2,4) refl, of i] unfolding assms(7) by blast
  have cont: "ring_content (cmd_ring c1) = ring_content ?r @ [?t]"
    using ring_content_append [OF assms(1,3,4)] unfolding c1(3) ring_content_ctxt .
  have wf: "ring_wf (cmd_ring c1)" using assms(1) unfolding c1(3) by auto
  have a: "mhi_to_virtual (cmd_ring c1) (MHI_TRE_GET_EV_PTR ev) = wp ?r"
    unfolding assms(8) c1(3)
    by (simp add: mhi_to_virtual_def mhi_to_physical_def ring_fields ring_write_def)
  have sl: "slots (cmd_ring c1) (wp ?r) = ?t" unfolding c1(3) by (simp add: ring_fields ring_write_def)
  have on: "on_ring (cmd_ring c1) (wp ?r)"
    using assms(1) unfolding c1(3) by (simp add: on_ring_def ring_fields ring_write_def ring_wf_def)
  have ne: "rp (cmd_ring c1) \<noteq> wp (cmd_ring c1)"
    using ring_empty_iff [OF wf] cont by (metis length_ring_content length_append_singleton nat.distinct(1))
  have id: "unat (MHI_TRE_GET_CMD_CHID ?t) = i" "MHI_TRE_GET_CMD_TYPE ?t \<noteq> MHI_CMD_TYPE_TSYNC"
  proof -
    have "(of_nat i :: u32) AND 0xFF = of_nat i"
      using assms(5) of_nat_mask_8 [of i] by simp
    then show "unat (MHI_TRE_GET_CMD_CHID ?t) = i" "MHI_TRE_GET_CMD_TYPE ?t \<noteq> MHI_CMD_TYPE_TSYNC"
      using assms(5) by (simp_all add: cmd_word_fields unat_of_nat take_bit_nat_eq_self)
  qed
  have "mhi_process_cmd_completion ev c1 = Some ((upd_chan i (\<lambda>ch. ch\<lparr>ccs := MHI_TRE_GET_EV_CODE ev,
     ch_completion := complete_one (ch_completion ch)\<rparr>) c1)\<lparr>cmd_ring := mhi_del_ring_element (cmd_ring c1)\<rparr>)"
  proof -
    have "mhi_process_cmd_completion ev c1 = map_option (\<lambda>c. c\<lparr>cmd_ring := mhi_del_ring_element (cmd_ring c)\<rparr>)
       (Some (upd_chan i (\<lambda>ch. ch\<lparr>ccs := MHI_TRE_GET_EV_CODE ev,
          ch_completion := complete_one (ch_completion ch)\<rparr>) (touch_chan i (touch_ring (cmd_ring c1) (wp ?r) c1))))"
      unfolding mhi_process_cmd_completion_def Let_def a sl id(1) using id(2) by (simp only: if_False)
    moreover have "touch_chan i (touch_ring (cmd_ring c1) (wp ?r) c1) = c1"
      using on assms(6) c1(2) by (simp add: touch_chan_def touch_ring_def cmd_frame_def)
    ultimately show ?thesis by simp
  qed
  then show ?thesis
    using c1(1,2) cont ring_content_del [OF wf ne] by (simp add: cmd_frame_def)
qed

text \<open>
  What the rest of the system may do to a channel while its command is outstanding: report a
  completion. The channel is not enabled then, so nothing is completed or queued on it.
\<close>

definition answers :: "nat \<Rightarrow> mhi_controller \<Rightarrow> mhi_controller \<Rightarrow> bool" where
  "answers i c c' \<longleftrightarrow> spare_votes c' = spare_votes c
     \<and> (\<exists>s n. mhi_chan c' i = (mhi_chan c i)\<lparr>ccs := s, ch_completion := n\<rparr>)"

lemma answersI:
  "spare_votes c' = spare_votes c \<Longrightarrow> mhi_chan c' i = (mhi_chan c i)\<lparr>ccs := s, ch_completion := n\<rparr> \<Longrightarrow> answers i c c'"
  unfolding answers_def by blast

lemma answers_refl [simp]: "answers i c c"
  by (rule answersI [where s = "ccs (mhi_chan c i)" and n = "ch_completion (mhi_chan c i)"]) simp_all

lemma answers_trans: "answers i a b \<Longrightarrow> answers i b c \<Longrightarrow> answers i a c"
  unfolding answers_def by (elim conjE exE) (intro conjI exI, simp_all)

lemma answersD:
  assumes "answers i c c'"
  shows "buf_ring (mhi_chan c' i) = buf_ring (mhi_chan c i)" "tre_ring (mhi_chan c' i) = tre_ring (mhi_chan c i)"
    "ch_state (mhi_chan c' i) = ch_state (mhi_chan c i)" "offload_ch (mhi_chan c' i) = offload_ch (mhi_chan c i)"
    "pre_alloc (mhi_chan c' i) = pre_alloc (mhi_chan c i)" "xfer_type (mhi_chan c' i) = xfer_type (mhi_chan c i)"
    "ch_er_index (mhi_chan c' i) = ch_er_index (mhi_chan c i)" "chan (mhi_chan c' i) = chan (mhi_chan c i)"
    "dir (mhi_chan c' i) = dir (mhi_chan c i)" "spare_votes c' = spare_votes c"
proof -
  obtain s n where e: "mhi_chan c' i = (mhi_chan c i)\<lparr>ccs := s, ch_completion := n\<rparr>" "spare_votes c' = spare_votes c"
    using assms unfolding answers_def by blast
  show "buf_ring (mhi_chan c' i) = buf_ring (mhi_chan c i)" "tre_ring (mhi_chan c' i) = tre_ring (mhi_chan c i)"
    "ch_state (mhi_chan c' i) = ch_state (mhi_chan c i)" "offload_ch (mhi_chan c' i) = offload_ch (mhi_chan c i)"
    "pre_alloc (mhi_chan c' i) = pre_alloc (mhi_chan c i)" "xfer_type (mhi_chan c' i) = xfer_type (mhi_chan c i)"
    "ch_er_index (mhi_chan c' i) = ch_er_index (mhi_chan c i)" "chan (mhi_chan c' i) = chan (mhi_chan c i)"
    "dir (mhi_chan c' i) = dir (mhi_chan c i)" "spare_votes c' = spare_votes c"
    unfolding e by simp_all
qed

lemma cmd_frame_refl [simp]: "cmd_frame c c"
  by (simp add: cmd_frame_def)

lemma send_cmd_frame: "chan_cmd cmd \<Longrightarrow> cmd_frame c (snd (mhi_send_cmd (Some i) cmd c))"
  using send_cmd_run [of cmd c _ i] by (cases "get_nr_avail_ring_elements (cmd_ring c) = 0")
    (auto simp: mhi_send_cmd_def)

lemma wait_answers:
  assumes "\<forall>x. answers i x (env x)"
  shows "answers i c (snd (wait_chan_completion env i c))"
proof -
  let ?c = "if 0 < ch_completion (mhi_chan c i) then c else env c"
  have "answers i c ?c" using assms by simp
  moreover have "answers i ?c (upd_chan i (\<lambda>ch. ch\<lparr>ch_completion := consume_one (ch_completion ch)\<rparr>) ?c)"
    by (rule answersI [where s = "ccs (mhi_chan ?c i)"]) (simp_all del: if_image_distrib)
  ultimately show ?thesis unfolding wait_chan_completion_def Let_def snd_conv by (rule answers_trans)
qed

lemma start_answers:
  assumes "\<forall>x. answers i x (env x)"
  shows "case start_channel env i c of (ret, c') \<Rightarrow>
    answers i c c' \<and> (ret = Inr () \<longrightarrow> ccs (mhi_chan c' i) = MHI_EV_CC_SUCCESS)"
proof -
  obtain r c1 where c1: "mhi_send_cmd (Some i) MHI_CMD_START_CHAN c = (r, c1)" by (cases "mhi_send_cmd (Some i) MHI_CMD_START_CHAN c")
  then have "cmd_frame c c1" using send_cmd_frame [of MHI_CMD_START_CHAN c i] by (simp add: chan_cmd_def)
  then have a1: "answers i c c1"
    by (intro answersI [where s = "ccs (mhi_chan c i)" and n = "ch_completion (mhi_chan c i)"])
       (simp_all add: cmd_frame_def)
  obtain w c2 where c2: "wait_chan_completion env i c1 = (w, c2)" by (cases "wait_chan_completion env i c1")
  then have "answers i c1 c2" using wait_answers [OF assms, of c1] by simp
  then have "answers i c c2" using answers_trans a1 by blast
  then show ?thesis using a1 by (auto simp: start_channel_def c1 c2 split: sum.splits)
qed

text \<open>
  C24: The outcomes of \<open>prepare_channel\<close> for a data channel: refused untouched in the wrong
  execution environment or when it is not disabled; else either enabled, with two empty rings
  in lockstep, the device having answered the start command with success, or, on every error
  path, disabled with its bookkeeping memory freed. No path keeps a vote.
\<close>

theorem prepare_outcomes:
  assumes env: "\<forall>x. answers i x (env x)" and ch: "ch = mhi_chan c i"
    and "\<not> offload_ch ch" and "\<not> pre_alloc ch"
    and "0 < unat (elements (tre_ring ch))" and "elements (buf_ring ch) = elements (tre_ring ch)"
    and "unat (ctrl_seg c + of_nat (tre_ring_offset ch)) + 16 * unat (elements (tre_ring ch)) < 2 ^ 64"
    and "\<forall>a. kmalloc os (n_alloc c) (56 * elements (buf_ring ch)) = Some a \<longrightarrow>
          unat a + 56 * unat (elements (tre_ring ch)) < 2 ^ 64"
  shows "\<exists>ret c'. prepare_channel os env i c = Some (ret, c') \<and> spare_votes c' = spare_votes c
    \<and> (ee_bit (ee c) AND ee_mask ch = 0 \<longrightarrow> ret = Inl ENOTCONN \<and> c' = c)
    \<and> (ee_bit (ee c) AND ee_mask ch \<noteq> 0 \<and> ch_state ch \<noteq> MHI_CH_STATE_DISABLED \<longrightarrow> ret = Inl EIO \<and> c' = c)
    \<and> (ee_bit (ee c) AND ee_mask ch \<noteq> 0 \<and> ch_state ch = MHI_CH_STATE_DISABLED \<longrightarrow>
        (case ret of
           Inl _ \<Rightarrow> ch_state (mhi_chan c' i) = MHI_CH_STATE_DISABLED \<and> base (buf_ring (mhi_chan c' i)) = 0
         | Inr _ \<Rightarrow> \<not> MHI_PM_IN_ERROR_STATE (pm_state c) \<and> ch_state (mhi_chan c' i) = MHI_CH_STATE_ENABLED
             \<and> ccs (mhi_chan c' i) = MHI_EV_CC_SUCCESS \<and> lockstep (mhi_chan c' i)
             \<and> ring_content (tre_ring (mhi_chan c' i)) = [] \<and> ring_content (buf_ring (mhi_chan c' i)) = []))"
proof (cases "ee_bit (ee c) AND ee_mask ch = 0 \<or> ch_state ch \<noteq> MHI_CH_STATE_DISABLED")
  case True
  then show ?thesis using ch by (auto simp: prepare_channel_def)
next
  case False
  then have ok: "ee_bit (ee c) AND ee_mask (mhi_chan c i) \<noteq> 0" "ch_state (mhi_chan c i) = MHI_CH_STATE_DISABLED"
    "ee_bit (ee c) AND ee_mask ch \<noteq> 0" "ch_state ch = MHI_CH_STATE_DISABLED"
    unfolding ch by auto
  show ?thesis
  proof (cases "kmalloc os (n_alloc c) (56 * elements (buf_ring ch))")
    case None
    then have "\<exists>c'. mhi_init_chan_ctxt os i c = (Inl ENOMEM, c') \<and> spare_votes c' = spare_votes c
        \<and> ch_state (mhi_chan c' i) = ch_state ch \<and> base (buf_ring (mhi_chan c' i)) = 0"
      unfolding ch by (simp add: mhi_init_chan_ctxt_def Let_def call_kmalloc_def upd_chan_def
          sizeof_mhi_buf_info_def spare_votes_def)
    then show ?thesis using ok assms(3) by (auto simp: prepare_channel_def ch)
  next
    case (Some a)
    note run = init_chan_run [OF Some [unfolded ch]]
    obtain c1 where c1: "mhi_init_chan_ctxt os i c = (Inr (), c1)"
      "mhi_chan c1 i = ready_chan (ctrl_seg c) (ctrl_seg_addr c) a ch" "pm_state c1 = pm_state c"
      "spare_votes c1 = spare_votes c"
      using run by (simp add: ch spare_votes_def)
    let ?c2 = "reinit_completion i c1"
    have f2: "spare_votes ?c2 = spare_votes c" "pm_state ?c2 = pm_state c"
      "mhi_chan ?c2 i = (ready_chan (ctrl_seg c) (ctrl_seg_addr c) a ch)\<lparr>ch_completion := 0\<rparr>"
      using c1 by (simp_all add: reinit_completion_def)
    have static: "offload_ch (mhi_chan ?c2 i) = offload_ch ch" "pre_alloc (mhi_chan ?c2 i) = pre_alloc ch"
      "ch_state (mhi_chan ?c2 i) = MHI_CH_STATE_DISABLED"
      using ok(4) unfolding f2 by (simp_all add: ready_chan_def)
    have drop: "ch_state (mhi_chan (drop_chan_ctxt i x) i) = ch_state (mhi_chan x i)
        \<and> base (buf_ring (mhi_chan (drop_chan_ctxt i x) i)) = 0 \<and> spare_votes (drop_chan_ctxt i x) = spare_votes x"
      if "\<not> offload_ch (mhi_chan x i)" for x
      using that by (simp add: drop_chan_ctxt_def mhi_deinit_chan_ctxt_def Let_def spare_votes_def)
    show ?thesis
    proof (cases "MHI_PM_IN_ERROR_STATE (pm_state c)")
      case True
      have "prepare_channel os env i c = Some (Inl EIO, drop_chan_ctxt i ?c2)"
        using ok(1,2) assms(3) True f2(2) by (simp add: prepare_channel_def ch c1(1) Let_def)
      then show ?thesis using drop [of ?c2] assms(3) static f2(1) ok(3,4) by auto
    next
      case False
      let ?c3 = "emit Runtime_get (mhi_assert_dev_wake False ?c2)"
      obtain r c4 where c4: "start_channel env i ?c3 = (r, c4)" by (cases "start_channel env i ?c3")
      have a: "answers i ?c3 c4" "r = Inr () \<Longrightarrow> ccs (mhi_chan c4 i) = MHI_EV_CC_SUCCESS"
        using start_answers [OF env, of ?c3] unfolding c4 by simp_all
      have f3: "mhi_chan ?c3 = mhi_chan ?c2" "spare_votes ?c3 = spare_votes c + 1"
        using f2(1) by simp_all
      note f4 = answersD [OF a(1), unfolded f3 static]
      show ?thesis
      proof (cases r)
        case (Inl e)
        let ?c5 = "wake_put False (emit Runtime_put c4)"
        have "prepare_channel os env i c = Some (Inl e, drop_chan_ctxt i ?c5)"
          using ok(1,2) assms(3) False f2(2) c4 Inl by (simp add: prepare_channel_def ch c1(1) Let_def)
        moreover have "mhi_chan ?c5 = mhi_chan c4" "spare_votes ?c5 = spare_votes c"
          using f4(10) by (simp_all add: wake_put_def)
        ultimately show ?thesis using drop [of ?c5] assms(3) f4(3,4) ok(3,4) by auto
      next
        case (Inr u)
        let ?c5 = "set_ch_state i MHI_CH_STATE_ENABLED (emit Runtime_put c4)"
        have ch5: "mhi_chan ?c5 i = (mhi_chan c4 i)\<lparr>ch_state := MHI_CH_STATE_ENABLED\<rparr>"
          by (simp add: set_ch_state_def)
        have "prepare_channel os env i c = Some (Inr (), ?c5)"
          using ok(1,2) assms(3,4) False f2(2) c4 Inr f4(5) ch5
          by (simp add: prepare_channel_def ch c1(1) Let_def wake_put_def)
        moreover have "spare_votes ?c5 = spare_votes c" using f4(10) by (simp add: set_ch_state_def)
        moreover have "lockstep (ready_chan (ctrl_seg c) (ctrl_seg_addr c) a ch)
            \<and> ring_content (tre_ring (ready_chan (ctrl_seg c) (ctrl_seg_addr c) a ch)) = []
            \<and> ring_content (buf_ring (ready_chan (ctrl_seg c) (ctrl_seg_addr c) a ch)) = []"
          using ready_chan_lockstep [OF assms(5,6,7)] assms(8) Some by blast
        ultimately show ?thesis
          using a(2) Inr False ok(3,4) f4(1,2) f2(3) unfolding ch5 by (simp add: ch5 lockstep_def f2(3))
      qed
    qed
  qed
qed

lemma cmd_frame_ready: "cmd_frame c c' \<Longrightarrow> events_ready c' e = events_ready c e"
  by (simp add: cmd_frame_def events_ready_def er_dev_rp_def)

text \<open>
  The whole exchange about the reset: a vote, the command, the wait, the vote given back.
\<close>

definition reset_exchange :: "(mhi_controller \<Rightarrow> mhi_controller) \<Rightarrow> nat \<Rightarrow> mhi_controller \<Rightarrow> mhi_controller" where
  "reset_exchange env i c =
     (if MHI_PM_IN_ERROR_STATE (pm_state c) then c
      else let (ret, c) = mhi_send_cmd (Some i) MHI_CMD_RESET_CHAN (emit Runtime_get (mhi_assert_dev_wake False c));
               c = (if is_ok ret then snd (wait_chan_completion env i c) else c)
           in wake_put False (emit Runtime_put c))"

lemma unprepare_eq:
  "unprepare_channel os env i c =
     (if ch_state (mhi_chan c i) \<noteq> MHI_CH_STATE_ENABLED then Some c
      else let c = reset_exchange env i (reinit_completion i (set_ch_state i MHI_CH_STATE_DISABLED c))
        in if offload_ch (mhi_chan c i) then Some c
           else map_option (mhi_deinit_chan_ctxt i) (mhi_reset_chan os i c))"
  by (simp add: unprepare_channel_def reset_exchange_def Let_def)

lemma reset_exchange_answers:
  assumes env: "\<forall>x. answers i x (env x) \<and> (events_ready x e \<longrightarrow> events_ready (env x) e)"
    and "events_ready c e"
  shows "answers i c (reset_exchange env i c) \<and> events_ready (reset_exchange env i c) e"
proof (cases "MHI_PM_IN_ERROR_STATE (pm_state c)")
  case True
  then show ?thesis using assms(2) by (simp add: reset_exchange_def)
next
  case False
  let ?c1 = "emit Runtime_get (mhi_assert_dev_wake False c)"
  obtain r c2 where c2: "mhi_send_cmd (Some i) MHI_CMD_RESET_CHAN ?c1 = (r, c2)"
    by (cases "mhi_send_cmd (Some i) MHI_CMD_RESET_CHAN ?c1")
  let ?c3 = "if is_ok r then snd (wait_chan_completion env i c2) else c2"
  have eq: "reset_exchange env i c = emit Runtime_put ?c3"
    using False c2 by (simp add: reset_exchange_def wake_put_def)
  have f: "cmd_frame ?c1 c2" using send_cmd_frame [of MHI_CMD_RESET_CHAN ?c1 i] c2 by (simp add: chan_cmd_def)
  have e2: "events_ready c2 e"
    using cmd_frame_ready [OF f] assms(2)
    by (simp add: events_ready_def er_dev_rp_def mhi_assert_dev_wake_def write_db_eq)
  have v2: "spare_votes c2 = spare_votes c + 1" "mhi_chan c2 = mhi_chan c"
    using f by (simp_all add: cmd_frame_def)
  have u: "events_ready (upd_chan i f x) e = events_ready x e" for f x
    by (simp add: events_ready_def er_dev_rp_def)
  have w: "answers i c2 ?c3 \<and> events_ready ?c3 e"
    using wait_answers [of i env c2] env e2 by (simp add: wait_chan_completion_def Let_def u)
  obtain s n where sn: "mhi_chan ?c3 i = (mhi_chan c2 i)\<lparr>ccs := s, ch_completion := n\<rparr>" "spare_votes ?c3 = spare_votes c2"
    using w unfolding answers_def by blast
  have "answers i c (emit Runtime_put ?c3)"
    by (rule answersI [where s = s and n = n]) (simp_all only: sn v2 emit_fields spare_votes_simps, simp_all)
  moreover have "events_ready (emit Runtime_put ?c3) e"
    using w by (simp only: events_ready_def er_dev_rp_def emit_fields)
  ultimately show ?thesis unfolding eq by blast
qed

text \<open>
  C25: Stopping an enabled data channel always returns and leaves nothing behind: the channel is
  disabled, every buffer that was queued has been handed back with \<open>ENOTCONN\<close>, once and in
  order, before the bookkeeping memory is freed, both rings are empty and unmapped, the
  device's context no longer points at the ring, and the votes taken for the exchange are given
  back; whether the device answers, the command ring is full or the link is in error.
\<close>

theorem unprepare_spec:
  assumes env: "\<forall>x. answers i x (env x) \<and> (events_ready x e \<longrightarrow> events_ready (env x) e)"
    and ch: "ch = mhi_chan c i" and "ch_state ch = MHI_CH_STATE_ENABLED" and "lockstep ch"
    and "\<not> offload_ch ch" and "xfer_type ch \<noteq> MHI_XFER_RSC_DMA" and "e = ch_er_index ch" and "events_ready c e"
  shows "\<exists>c' pre. unprepare_channel os env i c = Some c'
    \<and> (let ch' = mhi_chan c' i in
       ch_state ch' = MHI_CH_STATE_DISABLED \<and> base (tre_ring ch') = 0 \<and> base (buf_ring ch') = 0
       \<and> rp (tre_ring ch') = wp (tre_ring ch') \<and> rp (buf_ring ch') = wp (buf_ring ch')
       \<and> cc_rbase (chan_ctxt c' (unat (chan ch))) = 0 \<and> spare_votes c' = spare_votes c
       \<and> returns c' = pre @ map (handed_back os i ch) (ring_content (buf_ring ch)) @ [Kfree (base (buf_ring ch))])"
proof -
  let ?c1 = "reinit_completion i (set_ch_state i MHI_CH_STATE_DISABLED c)"
  let ?c2 = "reset_exchange env i ?c1"
  have ch1: "mhi_chan ?c1 i = ch\<lparr>ch_state := MHI_CH_STATE_DISABLED, ch_completion := 0\<rparr>"
    by (simp add: reinit_completion_def set_ch_state_def ch)
  have "events_ready ?c1 e"
    using assms(8) by (simp add: reinit_completion_def set_ch_state_def events_ready_def er_dev_rp_def)
  then have a: "answers i ?c1 ?c2" "events_ready ?c2 e" using reset_exchange_answers [OF env] by blast+
  note f = answersD [OF a(1), unfolded ch1, simplified]
  have l: "lockstep (mhi_chan ?c2 i)" using assms(4) f(1,2) by (simp add: lockstep_def)
  obtain c3 where c3: "mhi_reset_chan os i ?c2 = Some c3" "reset_done os i ?c2 c3" "reset_frame ?c2 c3"
    using reset_data_chan_run [OF l _ _ _ a(2), of os] f assms(5-7) by auto
  let ?c4 = "mhi_deinit_chan_ctxt i c3"
  let ?ch3 = "mhi_chan c3 i"
  have run: "unprepare_channel os env i c = Some ?c4"
    using assms(3,5) c3(1) f(4) by (simp add: unprepare_eq ch Let_def)
  have v: "spare_votes c3 = spare_votes c"
    using c3(3) f(10) by (simp add: reset_frame_def reinit_completion_def set_ch_state_def)
  have hb: "handed_back os i (mhi_chan ?c2 i) = handed_back os i ch"
    by (rule ext) (simp add: handed_back_def f)
  have d: "lockstep ?ch3" "ring_content (tre_ring ?ch3) = []" "ring_content (buf_ring ?ch3) = []"
    "base (buf_ring ?ch3) = base (buf_ring ch)" "ch_state ?ch3 = MHI_CH_STATE_DISABLED" "chan ?ch3 = chan ch"
    "returns c3 = returns ?c2 @ map (handed_back os i ch) (ring_content (buf_ring ch))"
  proof -
    have same: "?ch3 = (mhi_chan ?c2 i)\<lparr>buf_ring := buf_ring ?ch3, tre_ring := tre_ring ?ch3\<rparr>"
      using c3(2) unfolding reset_done_def Let_def by blast
    show "ch_state ?ch3 = MHI_CH_STATE_DISABLED" by (subst same) (simp add: f)
    show "chan ?ch3 = chan ch" by (subst same) (simp add: f)
    show "returns c3 = returns ?c2 @ map (handed_back os i ch) (ring_content (buf_ring ch))"
      "base (buf_ring ?ch3) = base (buf_ring ch)"
      using c3(2) f(1) unfolding reset_done_def Let_def hb by simp_all
  qed (use c3(2) in \<open>simp_all add: reset_done_def Let_def\<close>)
  have p: "rp (tre_ring ?ch3) = wp (tre_ring ?ch3)" "rp (buf_ring ?ch3) = wp (buf_ring ?ch3)"
    using d(1-3) ring_empty_iff length_ring_content unfolding lockstep_def by (metis list.size(3))+
  show ?thesis unfolding run
    by (rule exI [of _ ?c4], rule exI [of _ "returns ?c2"])
       (simp add: mhi_deinit_chan_ctxt_def Let_def p d v)
qed

text \<open>The device's answers as the driver's own handler takes them are such an environment.\<close>

definition completion_env :: "mhi_tre \<Rightarrow> mhi_controller \<Rightarrow> mhi_controller" where
  "completion_env ev c = (case mhi_process_cmd_completion ev c of None \<Rightarrow> c | Some c' \<Rightarrow> c')"

lemma touch_answers [simp]:
  "mhi_chan (touch_chan k (touch_ring r a c)) = mhi_chan c" "spare_votes (touch_chan k (touch_ring r a c)) = spare_votes c"
  "spare_votes (c\<lparr>mhi_tsync := ts\<rparr>) = spare_votes c" "mhi_chan (touch_ring r a c) = mhi_chan c"
  "spare_votes (touch_ring r a c) = spare_votes c"
  by (simp_all add: touch_chan_def touch_ring_def spare_votes_def)

lemma same_answers: "mhi_chan c' i = mhi_chan c i \<Longrightarrow> spare_votes c' = spare_votes c \<Longrightarrow> answers i c c'"
  by (rule answersI [where s = "ccs (mhi_chan c i)" and n = "ch_completion (mhi_chan c i)"]) simp_all

lemma reported_answers:
  "mhi_chan x = mhi_chan c \<Longrightarrow> spare_votes x = spare_votes c \<Longrightarrow>
   answers i c ((upd_chan k (\<lambda>ch. ch\<lparr>ccs := s, ch_completion := f (ch_completion ch)\<rparr>) x)\<lparr>cmd_ring := r\<rparr>)"
  by (cases "i = k")
     (auto intro: answersI [where s = s and n = "f (ch_completion (mhi_chan c i))"] same_answers)

lemma completion_answers: "answers i c (completion_env ev c)"
proof (cases "mhi_process_cmd_completion ev c")
  case None
  then show ?thesis by (simp add: completion_env_def)
next
  case (Some c')
  have "answers i c c'"
  proof (cases "MHI_TRE_GET_CMD_TYPE (slots (cmd_ring c) (mhi_to_virtual (cmd_ring c) (MHI_TRE_GET_EV_PTR ev))) = MHI_CMD_TYPE_TSYNC")
    case True
    then show ?thesis using Some
      by (auto simp: mhi_process_cmd_completion_def Let_def split: option.splits intro!: same_answers)
  next
    case False
    let ?k = "unat (MHI_TRE_GET_CMD_CHID (slots (cmd_ring c) (mhi_to_virtual (cmd_ring c) (MHI_TRE_GET_EV_PTR ev))))"
    let ?x = "touch_chan ?k (touch_ring (cmd_ring c) (mhi_to_virtual (cmd_ring c) (MHI_TRE_GET_EV_PTR ev)) c)"
    have "c' = (upd_chan ?k (\<lambda>ch. ch\<lparr>ccs := MHI_TRE_GET_EV_CODE ev,
        ch_completion := complete_one (ch_completion ch)\<rparr>) ?x)\<lparr>cmd_ring := mhi_del_ring_element (cmd_ring ?x)\<rparr>"
      using Some False unfolding mhi_process_cmd_completion_def Let_def by simp
    then show ?thesis using reported_answers [of ?x c] by simp
  qed
  with Some show ?thesis by (simp add: completion_env_def)
qed

lemma completion_ready: "events_ready (completion_env ev c) e = events_ready c e"
proof -
  have "mhi_event (completion_env ev c) = mhi_event c \<and> er_ctxt (completion_env ev c) = er_ctxt c"
    by (auto simp: completion_env_def mhi_process_cmd_completion_def Let_def touch_chan_def touch_ring_def
        split: option.splits)
  then show ?thesis by (simp add: events_ready_def er_dev_rp_def)
qed

definition cmd_demo_ring :: "mhi_tre mhi_ring" where
  "cmd_demo_ring = (zero_ring zero_tre)\<lparr>base := 0x7000, rp := 0x7000, wp := 0x7000, iommu_base := 0xB000,
     el_size := 16, ring_len := 2048, elements := 128\<rparr>"

definition cmd_demo :: mhi_controller where
  "cmd_demo = ev_demo\<lparr>cmd_ring := cmd_demo_ring, max_chan := 128, trace := [Runtime_get]\<rparr>"

definition cmd_done :: mhi_tre where
  "cmd_done = \<lparr>tre_ptr = 0xB000, dword0 = 0x01000000, dword1 = 0x00210000\<rparr>"

lemma cmd_demo_facts:
  "cmd_ring cmd_demo = cmd_demo_ring" "mhi_chan cmd_demo i = busy_chan" "max_chan cmd_demo = 128"
  "spare_votes cmd_demo = 0" "chan busy_chan = 0"
  by (simp_all add: cmd_demo_def ev_demo_facts)
     (simp_all add: spare_votes_def ev_demo_def busy_defs)

lemma cmd_demo_wf:
  "ring_wf cmd_demo_ring" "get_nr_avail_ring_elements cmd_demo_ring = 127"
  by (simp_all add: cmd_demo_ring_def ring_wf_def ring_geom_def on_ring_def zero_defs)
     (simp add: get_nr_avail_ring_elements_def to_c_int_def)

theorem command_roundtrip_witness:
  "case mhi_send_cmd (Some 0) MHI_CMD_START_CHAN cmd_demo of (ret, c1) \<Rightarrow>
     ret = Inr () \<and> (case mhi_process_cmd_completion cmd_done c1 of None \<Rightarrow> False | Some c2 \<Rightarrow>
       ccs (mhi_chan c2 0) = MHI_EV_CC_SUCCESS \<and> ch_completion (mhi_chan c2 0) = 1)"
proof -
  have "mhi_to_physical cmd_demo_ring (wp cmd_demo_ring) = 0xB000"
    by (simp add: cmd_demo_ring_def mhi_to_physical_def)
  moreover have "unat (elements cmd_demo_ring) < 2 ^ 31" by (simp add: cmd_demo_ring_def)
  moreover have "MHI_TRE_GET_EV_CODE cmd_done = MHI_EV_CC_SUCCESS" "MHI_TRE_GET_EV_PTR cmd_done = 0xB000"
    by (simp_all add: cmd_done_def MHI_TRE_GET_EV_CODE_def MHI_TRE_GET_EV_PTR_def ccs_of_def)
  moreover have "ch_completion busy_chan = 0" by (simp add: busy_defs)
  ultimately show ?thesis
    using command_roundtrip [of cmd_demo MHI_CMD_START_CHAN 0 cmd_done] cmd_demo_wf
    by (auto simp: cmd_demo_facts chan_cmd_def complete_one_def completion_all_def split: option.splits prod.splits)
qed

theorem unprepare_spec_witness:
  "\<exists>c'. unprepare_channel link_up (completion_env cmd_done) 0 cmd_demo = Some c'
     \<and> ch_state (mhi_chan c' 0) = MHI_CH_STATE_DISABLED \<and> spare_votes c' = 0 \<and> 3 \<le> length (returns c')"
proof -
  have l: "lockstep busy_chan" using busy_lockstep by (simp add: busy_controller_def)
  have n: "length (ring_content (buf_ring busy_chan)) = 2"
    using lockstep_count [OF l] busy_fields(3) by (simp add: busy_controller_def)
  have s: "ch_state busy_chan = MHI_CH_STATE_ENABLED" "\<not> offload_ch busy_chan" "xfer_type busy_chan \<noteq> MHI_XFER_RSC_DMA"
    by (simp_all add: busy_defs)
  have "events_ready cmd_demo e" for e
  proof -
    have "er_dev_rp ev_demo e = 0x4030"
      by (simp add: er_dev_rp_def ev_demo_facts(1)) (simp add: ev_demo_def ev_demo_ring_def mhi_to_virtual_def)
    then show ?thesis using ev_demo_wf
      by (simp add: events_ready_def cmd_demo_def er_dev_rp_def ev_demo_facts(1)) (simp add: ev_demo_ring_def)
  qed
  then show ?thesis
    using unprepare_spec [where c = cmd_demo and i = 0 and os = link_up and env = "completion_env cmd_done",
        OF _ refl _ _ _ _ refl] completion_answers completion_ready l s n
    by (auto simp: cmd_demo_facts Let_def)
qed

definition fresh_demo :: mhi_controller where
  "fresh_demo = cmd_demo\<lparr>mhi_chan := (\<lambda>_. boot_chan\<lparr>ee_mask := 4\<rparr>), ee := MHI_EE_AMSS, ctrl_seg := 0x4000\<rparr>"

theorem prepare_outcomes_witness:
  "\<exists>ret c'. prepare_channel link_up (completion_env cmd_done) 0 fresh_demo = Some (ret, c') \<and> spare_votes c' = 0
     \<and> (ret = Inr () \<longrightarrow> ch_state (mhi_chan c' 0) = MHI_CH_STATE_ENABLED \<and> lockstep (mhi_chan c' 0))
     \<and> (\<forall>e. ret = Inl e \<longrightarrow> ch_state (mhi_chan c' 0) = MHI_CH_STATE_DISABLED)"
proof -
  have f: "mhi_chan fresh_demo 0 = boot_chan\<lparr>ee_mask := 4\<rparr>" "ee fresh_demo = MHI_EE_AMSS"
    "ctrl_seg fresh_demo = 0x4000" "spare_votes fresh_demo = 0"
    by (simp_all add: fresh_demo_def) (simp add: spare_votes_def cmd_demo_def ev_demo_def busy_defs)
  have b: "\<not> offload_ch boot_chan" "\<not> pre_alloc boot_chan" "ch_state boot_chan = MHI_CH_STATE_DISABLED"
    "tre_ring_offset (boot_chan\<lparr>ee_mask := 4\<rparr>) = tre_ring_offset boot_chan"
    by (simp_all add: boot_chan_def zero_defs tre_ring_offset_def)
  have e: "ee_bit MHI_EE_AMSS AND 4 \<noteq> 0" by (simp add: ee_bit_def)
  have k: "kmalloc link_up (n_alloc fresh_demo) n = Some 0x10000" for n
    by (simp add: link_up_def fresh_demo_def cmd_demo_def ev_demo_def busy_defs)
  obtain ret c' where r: "prepare_channel link_up (completion_env cmd_done) 0 fresh_demo = Some (ret, c')"
    "spare_votes c' = spare_votes fresh_demo"
    "case ret of Inl _ \<Rightarrow> ch_state (mhi_chan c' 0) = MHI_CH_STATE_DISABLED \<and> base (buf_ring (mhi_chan c' 0)) = 0
      | Inr _ \<Rightarrow> \<not> MHI_PM_IN_ERROR_STATE (pm_state fresh_demo) \<and> ch_state (mhi_chan c' 0) = MHI_CH_STATE_ENABLED
             \<and> ccs (mhi_chan c' 0) = MHI_EV_CC_SUCCESS \<and> lockstep (mhi_chan c' 0)
             \<and> ring_content (tre_ring (mhi_chan c' 0)) = [] \<and> ring_content (buf_ring (mhi_chan c' 0)) = []"
    using prepare_outcomes [where c = fresh_demo and i = 0 and os = link_up and env = "completion_env cmd_done",
        OF _ refl] completion_answers b e boot_chan_fields
    by (auto simp: f k)
  then show ?thesis using f(4) by (cases ret) auto
qed

end
