(* ===== verification/Mhi_Boot.thy ===== *)
theory Mhi_Boot
  imports Mhi_Chan
begin

text \<open>
  Getting the device ready (\<open>mhi_ready_state_transition\<close> of \<open>core/mhi_pm.c\<close>) and loading
  firmware and collecting ram dumps over the boot interface (\<open>core/mhi_boot.c\<close>).
\<close>

section \<open>Waiting with a reading\<close>

text \<open>
  \<open>wait_event_timeout\<close> with a condition that stores what it reads in local variables \<open>x\<close>. The
  condition is evaluated on entry and after every step of the rest of the system, until it
  holds or the steps \<open>es\<close> that fit the time are used up.
\<close>

fun wait_reading ::
  "(mhi_controller \<Rightarrow> mhi_controller) list \<Rightarrow> ('x \<Rightarrow> mhi_controller \<Rightarrow> bool \<times> 'x) \<Rightarrow>
   'x \<Rightarrow> mhi_controller \<Rightarrow> bool \<times> 'x \<times> mhi_controller" where
  "wait_reading [] cond x c = (let (h, x) = cond x c in (h, x, c))"
| "wait_reading (e # es) cond x c =
     (let (h, x) = cond x c in if h then (True, x, c) else wait_reading es cond x (e c))"

text \<open>The usual condition: stop on an error state, a failed read, or a status other than 0.\<close>

definition status_cond ::
  "mhi_os \<Rightarrow> (mhi_controller \<Rightarrow> u64) \<Rightarrow> u32 \<Rightarrow> u32 \<Rightarrow> nat \<Rightarrow> u32 \<Rightarrow> mhi_controller \<Rightarrow> bool \<times> u32" where
  "status_cond os b off msk shift x c =
     (if MHI_PM_IN_ERROR_STATE (pm_state c) then (True, x)
      else case mhi_read_reg_field os c (b c) off msk shift of
          Inl e \<Rightarrow> (True, x) | Inr v \<Rightarrow> (v \<noteq> 0, v))"

section \<open>Getting ready\<close>

definition ready_cond :: "mhi_os \<Rightarrow> u32 \<times> u32 \<Rightarrow> mhi_controller \<Rightarrow> bool \<times> u32 \<times> u32" where
  "ready_cond os x c =
     (if MHI_PM_IN_FATAL_STATE (pm_state c) then (True, x)
      else case mhi_read_reg_field os c (regs c) MHICTRL MHICTRL_RESET_MASK 1 of
          Inl e \<Rightarrow> (True, x)
        | Inr reset \<Rightarrow>
            (case mhi_read_reg_field os c (regs c) MHISTATUS MHISTATUS_READY_MASK 0 of
               Inl e \<Rightarrow> (True, (reset, snd x))
             | Inr ready \<Rightarrow> (reset = 0 \<and> ready \<noteq> 0, (reset, ready))))"

text \<open>An event ring handed to the device: all of its elements but one.\<close>

definition arm_ring :: "mhi_tre mhi_ring \<Rightarrow> mhi_tre mhi_ring" where
  "arm_ring r = r\<lparr>wp := base r + ring_len r - el_size r, ctxt_wp := iommu_base r + ring_len r - el_size r\<rparr>"

definition arm_sw_event :: "nat \<Rightarrow> mhi_controller \<Rightarrow> mhi_controller" where
  "arm_sw_event i c =
     (if offload_ev (mhi_event c i) \<or> hw_ring (mhi_event c i) then c
      else mhi_ring_er_db i (upd_event i (\<lambda>e. e\<lparr>ev_ring := arm_ring (ev_ring e)\<rparr>) c))"

definition mhi_ready_state_transition ::
  "mhi_os \<Rightarrow> (mhi_controller \<Rightarrow> mhi_controller) list \<Rightarrow> mhi_controller \<Rightarrow> unit res \<times> mhi_controller" where
  "mhi_ready_state_transition os es c =
     (let (_, (reset, ready), c) = wait_reading es (ready_cond os) (1, 0) c
      in if MHI_PM_IN_FATAL_STATE (pm_state c) then (Inl EIO, c)
         else if reset \<noteq> 0 \<or> ready = 0 then (Inl ETIMEDOUT, c)
         else
           let (cur_state, c) = mhi_tryset_pm_state MHI_PM_POR c;
               c = c\<lparr>dev_state := MHI_STATE_READY\<rparr>
           in if cur_state \<noteq> MHI_PM_POR then (Inl EIO, c)
              else if \<not> MHI_REG_ACCESS_VALID (pm_state c) then (Inl EIO, c)
              else case mhi_init_mmio os c of
                  (Inl e, c) \<Rightarrow> (Inl EIO, c)
                | (Inr _, c) \<Rightarrow>
                    (Inr (), mhi_set_mhi_state os MHI_STATE_M0
                       (fold arm_sw_event [0..<total_ev_rings c] c)))"

section \<open>The boot interface\<close>

definition BHI_IMGADDR_LOW :: u32 where "BHI_IMGADDR_LOW = 0x08"
definition BHI_IMGADDR_HIGH :: u32 where "BHI_IMGADDR_HIGH = 0x0C"
definition BHI_IMGSIZE :: u32 where "BHI_IMGSIZE = 0x10"
definition BHI_IMGTXDB :: u32 where "BHI_IMGTXDB = 0x18"
definition BHI_STATUS :: u32 where "BHI_STATUS = 0x2C"
definition BHI_STATUS_MASK :: u32 where "BHI_STATUS_MASK = 0xC0000000"
definition BHI_STATUS_SUCCESS :: u32 where "BHI_STATUS_SUCCESS = 2"
definition BHI_STATUS_ERROR :: u32 where "BHI_STATUS_ERROR = 3"
definition BHIE_TXVECADDR_LOW_OFFS :: u32 where "BHIE_TXVECADDR_LOW_OFFS = 0x2C"
definition BHIE_TXVECADDR_HIGH_OFFS :: u32 where "BHIE_TXVECADDR_HIGH_OFFS = 0x30"
definition BHIE_TXVECSIZE_OFFS :: u32 where "BHIE_TXVECSIZE_OFFS = 0x34"
definition BHIE_TXVECDB_OFFS :: u32 where "BHIE_TXVECDB_OFFS = 0x3C"
definition BHIE_TXVECSTATUS_OFFS :: u32 where "BHIE_TXVECSTATUS_OFFS = 0x44"
definition BHIE_RXVECADDR_LOW_OFFS :: u32 where "BHIE_RXVECADDR_LOW_OFFS = 0x60"
definition BHIE_RXVECADDR_HIGH_OFFS :: u32 where "BHIE_RXVECADDR_HIGH_OFFS = 0x64"
definition BHIE_RXVECSIZE_OFFS :: u32 where "BHIE_RXVECSIZE_OFFS = 0x68"
definition BHIE_RXVECDB_OFFS :: u32 where "BHIE_RXVECDB_OFFS = 0x70"
definition BHIE_RXVECSTATUS_OFFS :: u32 where "BHIE_RXVECSTATUS_OFFS = 0x78"
definition BHIE_SEQNUM_BMSK :: u32 where "BHIE_SEQNUM_BMSK = 0x3FFFFFFF"
definition BHIE_STATUS_BMSK :: u32 where "BHIE_STATUS_BMSK = 0xC0000000"
definition BHIE_STATUS_XFER_COMPL :: u32 where "BHIE_STATUS_XFER_COMPL = 2"
definition MHI_SOC_RESET_REQ_OFFSET :: u32 where "MHI_SOC_RESET_REQ_OFFSET = 0xB0"
definition MHI_SOC_RESET_REQ :: u32 where "MHI_SOC_RESET_REQ = 1"
definition NUM_MHI_HW_EVT_RINGS :: nat where "NUM_MHI_HW_EVT_RINGS = 4"

lemmas bhi_defs = BHI_IMGADDR_LOW_def BHI_IMGADDR_HIGH_def BHI_IMGSIZE_def BHI_IMGTXDB_def
  BHI_STATUS_def BHI_STATUS_MASK_def BHI_STATUS_SUCCESS_def BHI_STATUS_ERROR_def
  BHIE_TXVECADDR_LOW_OFFS_def BHIE_TXVECADDR_HIGH_OFFS_def BHIE_TXVECSIZE_OFFS_def
  BHIE_TXVECDB_OFFS_def BHIE_TXVECSTATUS_OFFS_def BHIE_RXVECADDR_LOW_OFFS_def
  BHIE_RXVECADDR_HIGH_OFFS_def BHIE_RXVECSIZE_OFFS_def BHIE_RXVECDB_OFFS_def
  BHIE_RXVECSTATUS_OFFS_def BHIE_SEQNUM_BMSK_def BHIE_STATUS_BMSK_def BHIE_STATUS_XFER_COMPL_def
  MHI_SOC_RESET_REQ_OFFSET_def MHI_SOC_RESET_REQ_def NUM_MHI_HW_EVT_RINGS_def

subsection \<open>Device information\<close>

text \<open>
  The offset is not used: the register read is \<open>BHI_EXECENV\<close> whichever is asked for.
\<close>

definition bhi_read_reg :: "mhi_os \<Rightarrow> mhi_controller \<Rightarrow> u32 \<Rightarrow> u32" where
  "bhi_read_reg os c offset = (case mhi_read_reg os c (bhi c) BHI_EXECENV of Inl e \<Rightarrow> 0 | Inr out \<Rightarrow> out)"

record bhi_info =
  bhi_ver_minor :: u32
  bhi_ver_major :: u32
  bhi_image_address_low :: u32
  bhi_image_address_high :: u32
  bhi_image_size :: u32
  bhi_rsvd1 :: u32
  bhi_imgtxdb :: u32
  bhi_rsvd2 :: u32
  bhi_msivec :: u32
  bhi_rsvd3 :: u32
  bhi_ee :: u32
  bhi_status :: u32
  bhi_errorcode :: u32
  bhi_errdbg1 :: u32
  bhi_errdbg2 :: u32
  bhi_errdbg3 :: u32
  bhi_sernum :: u32
  bhi_sblantirollbackver :: u32
  bhi_numsegs :: u32
  bhi_msmhwid :: "u32 list"
  bhi_oempkhash :: "u32 list"
  bhi_rsvd5 :: u32

definition BhiRead :: "mhi_os \<Rightarrow> mhi_controller \<Rightarrow> bhi_info" where
  "BhiRead os c = (let r = bhi_read_reg os c in
     \<lparr>bhi_ver_minor = r 0x00, bhi_ver_major = r 0x00, bhi_image_address_low = r 0x08,
      bhi_image_address_high = r 0x0C, bhi_image_size = r 0x10, bhi_rsvd1 = r 0x14,
      bhi_imgtxdb = r 0x18, bhi_rsvd2 = r 0x1C, bhi_msivec = r 0x20, bhi_rsvd3 = r 0x24,
      bhi_ee = r 0x28, bhi_status = r 0x2C, bhi_errorcode = r 0x30, bhi_errdbg1 = r 0x34,
      bhi_errdbg2 = r 0x38, bhi_errdbg3 = r 0x3C, bhi_sernum = r 0x40,
      bhi_sblantirollbackver = r 0x44, bhi_numsegs = r 0x48,
      bhi_msmhwid = map (\<lambda>n. r (0x4C + 4 * of_nat n)) [0..<6],
      bhi_oempkhash = map (\<lambda>n. r (0x64 + 4 * of_nat n)) [0..<48],
      bhi_rsvd5 = r 0xC4\<rparr>)"

text \<open>
  The copy to user space, which says how many bytes it could not write: that number is the
  result of the request.
\<close>

definition bhi_get_dev_info :: "nat \<Rightarrow> mhi_os \<Rightarrow> mhi_controller \<Rightarrow> nat \<times> bhi_info" where
  "bhi_get_dev_info uncopied os c = (uncopied, BhiRead os c)"

section \<open>Image tables\<close>

definition sizeof_image_info :: u64 where "sizeof_image_info = 24"

text \<open>\<open>DIV_ROUND_UP\<close> on \<open>size_t\<close>, and the number of pieces: one more, for the table itself.\<close>

definition table_segments :: "u64 \<Rightarrow> u64 \<Rightarrow> int" where
  "table_segments alloc_sz seg_sz = to_c_int ((alloc_sz + seg_sz - 1) div seg_sz + 1)"

fun alloc_segments ::
  "mhi_os \<Rightarrow> u64 \<Rightarrow> nat \<Rightarrow> nat \<Rightarrow> mhi_buf list \<Rightarrow> mhi_controller \<Rightarrow> bool \<times> mhi_buf list \<times> mhi_controller" where
  "alloc_segments os seg_sz segments 0 bufs c = (True, bufs, c)"
| "alloc_segments os seg_sz segments (Suc n) bufs c =
     (let i = segments - Suc n;
          vec_sz = (if i = segments - 1 then 16 * of_nat i else seg_sz)
      in case mhi_alloc_coherent os vec_sz c of
           (None, c) \<Rightarrow> (False, bufs, c)
         | (Some (buf, dma), c) \<Rightarrow>
             alloc_segments os seg_sz segments n
               (bufs @ [\<lparr>mb_buf = buf, mb_dma = dma, mb_len = vec_sz,
                          mb_data = replicate (unat vec_sz) 0\<rparr>]) c)"

definition free_buf :: "mhi_buf \<Rightarrow> mhi_controller \<Rightarrow> mhi_controller" where
  "free_buf b = mhi_free_coherent (mb_len b) (mb_buf b) (mb_dma b)"

text \<open>
  On failure the pieces and the image are freed, the array of the pieces is not. A table of
  no pieces at all would be accessed before its start.
\<close>

definition mhi_alloc_bhie_table ::
  "mhi_os \<Rightarrow> u64 \<Rightarrow> mhi_controller \<Rightarrow> (errno + image_info) \<times> mhi_controller" where
  "mhi_alloc_bhie_table os alloc_sz c =
     (let segments = table_segments alloc_sz (seg_len c)
      in case call_kmalloc os sizeof_image_info c of
           (None, c) \<Rightarrow> (Inl ENOMEM, c)
         | (Some img, c) \<Rightarrow>
             (case (if segments < 0 then (None, c)
                    else call_kmalloc os (of_int segments * sizeof_mhi_buf os) c) of
                (None, c) \<Rightarrow> (Inl ENOMEM, emit (Kfree img) c)
              | (Some arr, c) \<Rightarrow>
                  (case alloc_segments os (seg_len c) (nat segments) (nat segments) [] c of
                     (False, bufs, c) \<Rightarrow> (Inl ENOMEM, emit (Kfree img) (fold free_buf (rev bufs) c))
                   | (True, bufs, c) \<Rightarrow>
                       (Inr \<lparr>img_addr = img, bufs_addr = arr, mhi_bufs = bufs, bhi_vec = [],
                          img_entries = nat segments\<rparr>,
                        if segments = 0 then c\<lparr>ub := True\<rparr> else c))))"

definition mhi_free_bhie_table :: "image_info \<Rightarrow> mhi_controller \<Rightarrow> mhi_controller" where
  "mhi_free_bhie_table img c =
     emit (Kfree (img_addr img)) (emit (Kfree (bufs_addr img)) (fold free_buf (mhi_bufs img) c))"

text \<open>The table of a ram dump lists every piece but the last.\<close>

definition mhi_rddm_prepare :: "image_info \<Rightarrow> image_info" where
  "mhi_rddm_prepare img =
     (let n = img_entries img - 1
      in img\<lparr>bhi_vec := map (\<lambda>b. \<lparr>vec_dma = mb_dma b, vec_size = mb_len b\<rparr>) (take n (mhi_bufs img))
                  @ drop n (bhi_vec img)\<rparr>)"

text \<open>
  The copy of an image into the pieces, with the table entries it writes; \<open>None\<close> when the image
  does not fit, where the code goes on beyond the array.
\<close>

fun copy_pieces :: "u8 list \<Rightarrow> mhi_buf list \<Rightarrow> (mhi_buf list \<times> bhi_vec_entry list) option" where
  "copy_pieces [] bufs = Some (bufs, [])"
| "copy_pieces (x # xs) [] = None"
| "copy_pieces (x # xs) (b # bufs) =
     (let n = min (length (x # xs)) (unat (mb_len b))
      in map_option (\<lambda>(bs, vs).
           (b\<lparr>mb_data := take n (x # xs) @ drop n (mb_data b)\<rparr> # bs,
            \<lparr>vec_dma = mb_dma b, vec_size = of_nat n\<rparr> # vs))
         (copy_pieces (drop n (x # xs)) bufs))"

definition mhi_firmware_copy :: "u8 list \<Rightarrow> image_info \<Rightarrow> image_info option" where
  "mhi_firmware_copy fw img =
     map_option (\<lambda>(bs, vs). img\<lparr>mhi_bufs := bs, bhi_vec := vs @ drop (length vs) (bhi_vec img)\<rparr>)
       (copy_pieces fw (mhi_bufs img))"

text \<open>The piece that holds the table, \<open>mhi_buf[entries - 1]\<close>.\<close>

definition vec_table :: "image_info \<Rightarrow> mhi_buf" where
  "vec_table img = mhi_bufs img ! (img_entries img - 1)"

section \<open>Ram dumps\<close>

definition program_rxvec :: "mhi_os \<Rightarrow> mhi_buf \<Rightarrow> u32 \<Rightarrow> mhi_controller \<Rightarrow> mhi_controller" where
  "program_rxvec os b sequence c =
     (let base = bhie c;
          c = mhi_write_reg base BHIE_RXVECADDR_HIGH_OFFS (upper_32_bits (mb_dma b)) c;
          c = mhi_write_reg base BHIE_RXVECADDR_LOW_OFFS (lower_32_bits (mb_dma b)) c;
          c = mhi_write_reg base BHIE_RXVECSIZE_OFFS (ucast (mb_len b)) c
      in mhi_write_reg_field os base BHIE_RXVECDB_OFFS BHIE_SEQNUM_BMSK 0 sequence c)"

text \<open>
  The two polling loops of the panic path; \<open>env\<close> is one delay. The first one's result is the
  counter the loop leaves behind.
\<close>

fun rddm_enter :: "mhi_os \<Rightarrow> (mhi_controller \<Rightarrow> mhi_controller) \<Rightarrow> nat \<Rightarrow> mhi_controller \<Rightarrow> int \<times> mhi_controller" where
  "rddm_enter os env 0 c = (-1, c)"
| "rddm_enter os env (Suc n) c =
     (if mhi_get_exec_env os c = MHI_EE_RDDM then (int n, c) else rddm_enter os env n (env c))"

fun rddm_collect :: "mhi_os \<Rightarrow> (mhi_controller \<Rightarrow> mhi_controller) \<Rightarrow> nat \<Rightarrow> mhi_controller \<Rightarrow> unit res \<times> mhi_controller" where
  "rddm_collect os env 0 c = (Inl EIO, c)"
| "rddm_collect os env (Suc n) c =
     (case mhi_read_reg_field os c (bhie c) BHIE_RXVECSTATUS_OFFS BHIE_STATUS_BMSK 30 of
        Inl e \<Rightarrow> (Inl EIO, c)
      | Inr st \<Rightarrow> if st = BHIE_STATUS_XFER_COMPL then (Inr (), c) else rddm_collect os env n (env c))"

definition mhi_download_rddm_in_panic ::
  "mhi_os \<Rightarrow> (mhi_controller \<Rightarrow> mhi_controller) \<Rightarrow> image_info \<Rightarrow> mhi_controller \<Rightarrow> unit res \<times> mhi_controller" where
  "mhi_download_rddm_in_panic os env rddm c =
     (let retry = unat ((timeout_ms c * 1000) div 2000);
          img = mhi_rddm_prepare rddm;
          c = c\<lparr>pm_state := MHI_PM_LD_ERR_FATAL_DETECT, rddm_image := Some img\<rparr>;
          sequence = get_random_u32 os AND BHIE_SEQNUM_BMSK;
          c = program_rxvec os (vec_table img) (if sequence = 0 then 1 else sequence) c;
          c = mhi_set_mhi_state os MHI_STATE_SYS_ERR c;
          (left, c) = rddm_enter os env 100 c;
          c = (if left \<le> 0
               then env (mhi_write_reg (regs c) MHI_SOC_RESET_REQ_OFFSET MHI_SOC_RESET_REQ c) else c)
      in rddm_collect os env retry c)"

definition mhi_download_rddm_img ::
  "mhi_os \<Rightarrow> (mhi_controller \<Rightarrow> mhi_controller) \<Rightarrow> (mhi_controller \<Rightarrow> mhi_controller) list \<Rightarrow>
   bool \<Rightarrow> mhi_controller \<Rightarrow> unit res \<times> mhi_controller" where
  "mhi_download_rddm_img os env es in_panic c =
     (case rddm_image c of
        None \<Rightarrow> (Inl ENOMEM, c)
      | Some rddm \<Rightarrow>
          if in_panic then mhi_download_rddm_in_panic os env rddm c
          else
            let (ret, c) = wait_event_timeout env
                  (\<lambda>c. ee c = MHI_EE_RDDM \<or> MHI_PM_IN_ERROR_STATE (pm_state c)) c
            in if \<not> ret \<or> MHI_PM_IN_ERROR_STATE (pm_state c) then (Inl EIO, c)
               else
                 let img = mhi_rddm_prepare rddm;
                     c = c\<lparr>rddm_image := Some img\<rparr>
                 in if \<not> MHI_REG_ACCESS_VALID (pm_state c) then (Inl EIO, c)
                    else
                      let c = program_rxvec os (vec_table img) (get_random_u32 os AND BHIE_SEQNUM_BMSK) c;
                          (_, rx_status, c) = wait_reading es
                            (status_cond os bhie BHIE_RXVECSTATUS_OFFS BHIE_STATUS_BMSK 30) (stack_word os) c
                      in (if MHI_PM_IN_ERROR_STATE (pm_state c) then Inl EIO
                          else if rx_status = BHIE_STATUS_XFER_COMPL then Inr () else Inl EIO, c))"

section \<open>Firmware\<close>

definition mhi_fw_load_amss ::
  "mhi_os \<Rightarrow> (mhi_controller \<Rightarrow> mhi_controller) list \<Rightarrow> mhi_buf \<Rightarrow> mhi_controller \<Rightarrow> unit res \<times> mhi_controller" where
  "mhi_fw_load_amss os es b c =
     (if \<not> MHI_REG_ACCESS_VALID (pm_state c) then (Inl EIO, c)
      else
        let base = bhie c;
            c = mhi_write_reg base BHIE_TXVECADDR_HIGH_OFFS (upper_32_bits (mb_dma b)) c;
            c = mhi_write_reg base BHIE_TXVECADDR_LOW_OFFS (lower_32_bits (mb_dma b)) c;
            c = mhi_write_reg base BHIE_TXVECSIZE_OFFS (ucast (mb_len b)) c;
            c = c\<lparr>sequence_id := get_random_u32 os AND BHIE_SEQNUM_BMSK\<rparr>;
            c = mhi_write_reg_field os base BHIE_TXVECDB_OFFS BHIE_SEQNUM_BMSK 0 (sequence_id c) c;
            (_, tx_status, c) = wait_reading es
              (status_cond os bhie BHIE_TXVECSTATUS_OFFS BHIE_STATUS_BMSK 30) (stack_word os) c
        in (if MHI_PM_IN_ERROR_STATE (pm_state c) then Inl EIO
            else if tx_status = BHIE_STATUS_XFER_COMPL then Inr () else Inl EIO, c))"

definition set_num_rings :: "mhi_os \<Rightarrow> mhi_controller \<Rightarrow> mhi_controller" where
  "set_num_rings os c =
     mhi_write_reg_field os (regs c) MHICFG MHICFG_NHWER_MASK 24 (of_nat NUM_MHI_HW_EVT_RINGS)
       (mhi_write_reg_field os (regs c) MHICFG MHICFG_NER_MASK 16 (of_nat NUM_MHI_EVT_RINGS) c)"

definition mhi_fw_load_sbl ::
  "mhi_os \<Rightarrow> (mhi_controller \<Rightarrow> mhi_controller) list \<Rightarrow> u64 \<Rightarrow> u64 \<Rightarrow> mhi_controller \<Rightarrow> unit res \<times> mhi_controller" where
  "mhi_fw_load_sbl os es dma sz c =
     (if \<not> MHI_REG_ACCESS_VALID (pm_state c) then (Inl EIO, c)
      else
        let base = bhi c;
            c = mhi_write_reg base BHI_STATUS 0 c;
            c = mhi_write_reg base BHI_IMGADDR_HIGH (upper_32_bits dma) c;
            c = mhi_write_reg base BHI_IMGADDR_LOW (lower_32_bits dma) c;
            c = mhi_write_reg base BHI_IMGSIZE (ucast sz) c;
            c = set_num_rings os c;
            c = mhi_write_reg (bhi c) BHI_INTVEC (msi_irq_base c) c;
            c = mhi_write_reg base BHI_IMGTXDB 1 c;
            (_, tx_status, c) = wait_reading es (status_cond os bhi BHI_STATUS BHI_STATUS_MASK 30) (stack_word os) c
        in (if MHI_PM_IN_ERROR_STATE (pm_state c) then Inl EIO
            else if tx_status = BHI_STATUS_ERROR then Inl EIO
            else if tx_status = BHI_STATUS_SUCCESS then Inr () else Inl ETIMEDOUT, c))"

text \<open>
  The worker waits five times: for PBL, in the two loaders, for READY and for the second stage
  boot loader. \<open>env\<close> and \<open>es\<close> are what happens meanwhile, by wait. \<open>None\<close> is the copy running
  beyond its table.
\<close>

definition load_sbl_image ::
  "mhi_os \<Rightarrow> (mhi_controller \<Rightarrow> mhi_controller) list \<Rightarrow> u8 list \<Rightarrow> mhi_controller \<Rightarrow>
   (errno + unit res) \<times> mhi_controller" where
  "load_sbl_image os es img c =
     (let sz = of_nat (length img)
      in case mhi_alloc_coherent os sz c of
           (None, c) \<Rightarrow> (Inl ENOMEM, c)
         | (Some (buf, dma), c) \<Rightarrow>
             let (ret, c) = mhi_fw_load_sbl os es dma sz (emit (Dma_fill buf img) c)
             in (Inr ret, mhi_free_coherent sz buf dma c))"

definition drop_fbc_image :: "mhi_controller \<Rightarrow> mhi_controller" where
  "drop_fbc_image c =
     (case fbc_image c of None \<Rightarrow> c | Some img \<Rightarrow> (mhi_free_bhie_table img c)\<lparr>fbc_image := None\<rparr>)"

definition fill_fbc_table :: "mhi_os \<Rightarrow> u8 list \<Rightarrow> mhi_controller \<Rightarrow> (unit res \<times> mhi_controller) option" where
  "fill_fbc_table os fw c =
     (case mhi_alloc_bhie_table os (of_nat (length fw)) c of
        (Inl e, c) \<Rightarrow> Some (Inl e, c)
      | (Inr img, c) \<Rightarrow>
          map_option (\<lambda>img. (Inr (), c\<lparr>fbc_image := Some img\<rparr>)) (mhi_firmware_copy fw img))"

definition after_sbl ::
  "mhi_os \<Rightarrow> (mhi_controller \<Rightarrow> mhi_controller) list \<Rightarrow> (mhi_controller \<Rightarrow> mhi_controller) \<Rightarrow>
   (mhi_controller \<Rightarrow> mhi_controller) list \<Rightarrow> u8 list \<Rightarrow> mhi_controller \<Rightarrow> mhi_controller option" where
  "after_sbl os es_ready env_sbl es_amss fw c =
     map_option (\<lambda>(ret, c).
       case ret of
         Inl e \<Rightarrow> c
       | Inr _ \<Rightarrow>
           let (ret, c) = mhi_ready_state_transition os es_ready c
           in if \<not> fbc_download c then c
              else if \<not> is_ok ret then drop_fbc_image c
              else
                let (ret, c) = wait_event_timeout env_sbl
                      (\<lambda>c. ee c = MHI_EE_SBL \<or> MHI_PM_IN_ERROR_STATE (pm_state c)) c
                in if \<not> ret \<or> MHI_PM_IN_ERROR_STATE (pm_state c) then drop_fbc_image c
                   else (case fbc_image c of
                           None \<Rightarrow> c\<lparr>ub := True\<rparr>
                         | Some img \<Rightarrow> snd (mhi_fw_load_amss os es_amss (vec_table img) c)))
       (let c = c\<lparr>dev_state := MHI_STATE_RESET\<rparr>
        in if fbc_download c then fill_fbc_table os fw c else Some (Inr (), c))"

definition mhi_fw_load_worker ::
  "mhi_os \<Rightarrow> (mhi_controller \<Rightarrow> mhi_controller) \<Rightarrow> (mhi_controller \<Rightarrow> mhi_controller) list \<Rightarrow>
   (mhi_controller \<Rightarrow> mhi_controller) list \<Rightarrow> (mhi_controller \<Rightarrow> mhi_controller) \<Rightarrow>
   (mhi_controller \<Rightarrow> mhi_controller) list \<Rightarrow> mhi_controller \<Rightarrow> mhi_controller option" where
  "mhi_fw_load_worker os env_pbl es_bhi es_ready env_sbl es_amss c =
     (let (ret, c) = wait_event_timeout env_pbl
            (\<lambda>c. MHI_IN_PBL (ee c) \<or> MHI_PM_IN_ERROR_STATE (pm_state c)) c
      in if \<not> ret \<or> MHI_PM_IN_ERROR_STATE (pm_state c) then Some c
         else if ee c = MHI_EE_PTHRU then Some c
         else case (if ee c = MHI_EE_EDL then edl_image c else fw_image c) of
             None \<Rightarrow> Some c
           | Some name \<Rightarrow>
               if fbc_download c \<and> (sbl_size c = 0 \<or> seg_len c = 0) then Some c
               else (case firmware os name of
                   None \<Rightarrow> Some c
                 | Some fw \<Rightarrow>
                     let sz = (if fbc_download c then min (unat (sbl_size c)) (length fw) else length fw)
                     in case load_sbl_image os es_bhi (take sz fw) c of
                          (Inl e, c) \<Rightarrow> Some c
                        | (Inr ret, c) \<Rightarrow>
                            if \<not> is_ok ret \<or> ee c = MHI_EE_EDL then Some c
                            else after_sbl os es_ready env_sbl es_amss fw c))"

section \<open>Images from user space\<close>

text \<open>
  What the requests return: an error, or a number, which is 0 for success. \<open>uncopied\<close> is what
  \<open>copy_from_user\<close> answers; \<open>wait_event_timeout\<close> returns the time left, 0 when it timed out
  and at least 1 otherwise.
\<close>

definition BhiWrite ::
  "mhi_os \<Rightarrow> nat \<Rightarrow> (mhi_controller \<Rightarrow> mhi_controller) list \<Rightarrow> (mhi_controller \<Rightarrow> mhi_controller) list \<Rightarrow>
   (mhi_controller \<Rightarrow> mhi_controller) \<Rightarrow> u8 list \<Rightarrow> mhi_controller \<Rightarrow> nat res \<times> mhi_controller" where
  "BhiWrite os uncopied es_bhi es_ready env_fp ubuf c =
     (if ee c \<noteq> MHI_EE_EDL then (Inl EINVAL, c)
      else
        let sz = of_nat (length ubuf)
        in case mhi_alloc_coherent os sz c of
             (None, c) \<Rightarrow> (Inl ENOMEM, c)
           | (Some (buf, dma), c) \<Rightarrow>
               let c = emit (Dma_fill buf (take (length ubuf - uncopied) ubuf)) c
               in if uncopied \<noteq> 0 then (Inr uncopied, mhi_free_coherent sz buf dma c)
                  else
                    let (ret, c) = mhi_fw_load_sbl os es_bhi dma sz c;
                        c = mhi_free_coherent sz buf dma c
                    in case ret of
                         Inl e \<Rightarrow> (Inl e, c)
                       | Inr _ \<Rightarrow>
                           let (ret, c) = mhi_ready_state_transition os es_ready (c\<lparr>dev_state := MHI_STATE_RESET\<rparr>)
                           in case ret of
                                Inl e \<Rightarrow> (Inl e, c)
                              | Inr _ \<Rightarrow>
                                  let (ret, c) = wait_event_timeout env_fp
                                        (\<lambda>c. ee c = MHI_EE_FP \<or> MHI_PM_IN_ERROR_STATE (pm_state c)) c
                                  in if \<not> ret \<or> MHI_PM_IN_ERROR_STATE (pm_state c)
                                     then (Inr (if ret then 1 else 0), c) else (Inr 0, c))"

definition bhi_write_image ::
  "mhi_os \<Rightarrow> nat \<Rightarrow> nat \<Rightarrow> (mhi_controller \<Rightarrow> mhi_controller) list \<Rightarrow> (mhi_controller \<Rightarrow> mhi_controller) list \<Rightarrow>
   (mhi_controller \<Rightarrow> mhi_controller) \<Rightarrow> u8 list \<Rightarrow> mhi_controller \<Rightarrow> nat res \<times> mhi_controller" where
  "bhi_write_image os size_uncopied uncopied es_bhi es_ready env_fp ubuf c =
     (if size_uncopied \<noteq> 0 then (Inr size_uncopied, c)
      else if ubuf = [] then (Inl EINVAL, c)
      else BhiWrite os uncopied es_bhi es_ready env_fp ubuf c)"

section \<open>Image tables and their contents\<close>

text \<open>The pieces a table is made of: all of one size but the last, which holds the table.\<close>

definition piece_size :: "u64 \<Rightarrow> nat \<Rightarrow> nat \<Rightarrow> u64" where
  "piece_size sg n i = (if i = n - 1 then 16 * of_nat i else sg)"

lemma alloc_segments_spec:
  assumes "n \<le> segs" "length bufs = segs - n"
  shows "case alloc_segments os sg segs n bufs c of (ok, bufs', c') \<Rightarrow>
     \<exists>more. bufs' = bufs @ more \<and> (if ok then length bufs' = segs else length bufs' < segs)
       \<and> (\<forall>k < length more. mb_len (more ! k) = piece_size sg segs (length bufs + k)
            \<and> mb_data (more ! k) = replicate (unat (mb_len (more ! k))) 0)
       \<and> trace c' = trace c \<and> ub c' = ub c \<and> seg_len c' = seg_len c
       \<and> alloc_size c' = alloc_size c + sum_list (map (\<lambda>b. int (unat (mb_len b))) more)"
  using assms
proof (induction n arbitrary: bufs c)
  case 0
  then show ?case by simp
next
  case (Suc n)
  let ?i = "segs - Suc n"
  have vs: "(if ?i = segs - 1 then 16 * of_nat ?i else sg) = piece_size sg segs (length bufs)"
    using Suc(3) by (simp add: piece_size_def)
  obtain r c1 where a: "mhi_alloc_coherent os (piece_size sg segs (length bufs)) c = (r, c1)"
    by (cases "mhi_alloc_coherent os (piece_size sg segs (length bufs)) c")
  have f: "trace c1 = trace c" "ub c1 = ub c" "seg_len c1 = seg_len c"
    "alloc_size c1 = alloc_size c + (if r = None then 0 else int (unat (piece_size sg segs (length bufs))))"
    using a by (auto simp: mhi_alloc_coherent_def Let_def split: option.splits)
  show ?case
  proof (cases r)
    case None
    then show ?thesis using a f vs Suc(2,3) by (simp add: Let_def)
  next
    case (Some p)
    obtain buf dma where p: "p = (buf, dma)" by (cases p)
    let ?b = "\<lparr>mb_buf = buf, mb_dma = dma, mb_len = piece_size sg segs (length bufs),
        mb_data = replicate (unat (piece_size sg segs (length bufs))) 0\<rparr>"
    have run: "alloc_segments os sg segs (Suc n) bufs c = alloc_segments os sg segs n (bufs @ [?b]) c1"
      using a Some p vs by (simp add: Let_def)
    have len: "n \<le> segs" "length (bufs @ [?b]) = segs - n" using Suc(2,3) by simp_all
    obtain ok bufs' c' where r: "alloc_segments os sg segs n (bufs @ [?b]) c1 = (ok, bufs', c')"
      by (cases "alloc_segments os sg segs n (bufs @ [?b]) c1")
    obtain more where m: "bufs' = bufs @ [?b] @ more" "if ok then length bufs' = segs else length bufs' < segs"
      "\<forall>k < length more. mb_len (more ! k) = piece_size sg segs (Suc (length bufs + k))
            \<and> mb_data (more ! k) = replicate (unat (mb_len (more ! k))) 0"
      "trace c' = trace c1" "ub c' = ub c1" "seg_len c' = seg_len c1"
      "alloc_size c' = alloc_size c1 + sum_list (map (\<lambda>b. int (unat (mb_len b))) more)"
      using Suc(1) [OF len, of c1] unfolding r by auto
    have "\<forall>k < length (?b # more). mb_len ((?b # more) ! k) = piece_size sg segs (length bufs + k)
            \<and> mb_data ((?b # more) ! k) = replicate (unat (mb_len ((?b # more) ! k))) 0"
      using m(3) by (auto simp: nth_Cons split: nat.split)
    then show ?thesis unfolding run r prod.case
      using m f Some by (intro exI [of _ "?b # more"]) simp
  qed
qed

lemma free_bufs_fields:
  "trace (fold free_buf bs c) = trace c @ map (\<lambda>b. Free_coherent (mb_buf b) (mb_dma b)) bs"
  "alloc_size (fold free_buf bs c) = alloc_size c - sum_list (map (\<lambda>b. int (unat (mb_len b))) bs)"
  by (induction bs arbitrary: c) (simp_all add: free_buf_def mhi_free_coherent_def emit_def)

lemma copy_pieces_spec:
  assumes "length fw \<le> sum_list (map (\<lambda>b. unat (mb_len b)) bufs)"
    and "\<forall>b \<in> set bufs. length (mb_data b) = unat (mb_len b)"
  shows "\<exists>bs vs. copy_pieces fw (bufs @ rest) = Some (bs @ rest, vs) \<and> length bs = length bufs
    \<and> length vs \<le> length bufs \<and> map mb_dma bs = map mb_dma bufs \<and> map mb_len bs = map mb_len bufs
    \<and> map vec_dma vs = take (length vs) (map mb_dma bufs)
    \<and> concat (map2 (\<lambda>v b. take (unat (vec_size v)) (mb_data b)) vs bs) = fw
    \<and> (\<forall>b \<in> set bs. length (mb_data b) = unat (mb_len b))"
  using assms
proof (induction bufs arbitrary: fw)
  case Nil
  then show ?case by (intro exI [of _ "[]"]) simp
next
  case (Cons b bufs)
  show ?case
  proof (cases fw)
    case Nil
    then show ?thesis using Cons(3) by (intro exI [of _ "b # bufs"] exI [of _ "[]"]) simp
  next
    case (Cons x xs)
    let ?n = "min (length fw) (unat (mb_len b))"
    have le: "length (drop ?n fw) \<le> sum_list (map (\<lambda>b. unat (mb_len b)) bufs)"
      using Cons.prems(1) by simp
    obtain bs vs where ih: "copy_pieces (drop ?n fw) (bufs @ rest) = Some (bs @ rest, vs)"
      "length bs = length bufs" "length vs \<le> length bufs" "map mb_dma bs = map mb_dma bufs"
      "map mb_len bs = map mb_len bufs" "map vec_dma vs = take (length vs) (map mb_dma bufs)"
      "concat (map2 (\<lambda>v b. take (unat (vec_size v)) (mb_data b)) vs bs) = drop ?n fw"
      "\<forall>b \<in> set bs. length (mb_data b) = unat (mb_len b)"
      using Cons.IH [OF le] Cons.prems(2) by auto
    have u: "unat (of_nat ?n :: u64) = ?n"
    proof -
      have "?n < 2 ^ 64" using unsigned_less [of "mb_len b", where ?'a = nat] by simp
      then show ?thesis by (simp add: unat_of_nat take_bit_nat_eq_self)
    qed
    let ?b = "b\<lparr>mb_data := take ?n fw @ drop ?n (mb_data b)\<rparr>" and ?v = "\<lparr>vec_dma = mb_dma b, vec_size = of_nat ?n\<rparr>"
    have "copy_pieces fw ((b # bufs) @ rest) = Some ((?b # bs) @ rest, ?v # vs)"
      using ih(1) unfolding Cons by (simp add: Let_def)
    moreover have "concat (map2 (\<lambda>v b. take (unat (vec_size v)) (mb_data b)) (?v # vs) (?b # bs)) = fw"
      using ih(7) u by simp
    moreover have "length (mb_data ?b) = unat (mb_len b)"
      using Cons.prems(2) by simp
    ultimately show ?thesis using ih
      by (intro exI [of _ "?b # bs"] exI [of _ "?v # vs"]) auto
  qed
qed

lemma round_up_covers:
  fixes l g :: nat
  assumes "0 < g"
  shows "l \<le> (l + g - 1) div g * g"
proof -
  have "(l + g - 1) div g * g + (l + g - 1) mod g = l + g - 1" by simp
  moreover have "(l + g - 1) mod g < g" using assms by simp
  ultimately show ?thesis using assms by linarith
qed

lemma table_segments_nat:
  assumes "0 < unat sg" "l + unat sg < 2 ^ 31"
  shows "table_segments (of_nat l) sg = int ((l + unat sg - 1) div unat sg + 1)"
proof -
  let ?g = "unat sg" and ?n = "(l + unat sg - 1) div unat sg"
  have l: "unat (of_nat l :: u64) = l" using assms by (simp add: unat_of_nat take_bit_nat_eq_self)
  have s: "unat (of_nat l + sg) = l + ?g" using assms l by (subst unat_plus_nowrap) simp_all
  have s1: "unat (of_nat l + sg - 1) = l + ?g - 1"
    using assms s by (subst unat_minus_le) (simp_all add: word_le_nat_alt)
  have n: "?n < 2 ^ 31"
    using assms div_le_dividend [of "l + ?g - 1" ?g] by linarith
  have d: "unat ((of_nat l + sg - 1) div sg) = ?n" by (simp add: unat_div s1)
  have "unat ((of_nat l + sg - 1) div sg + 1) = ?n + 1"
    using n d by (subst unat_plus_nowrap) simp_all
  moreover have "?n + 1 < 2 ^ 31"
  proof (cases "?g = 1")
    case True
    then show ?thesis using assms by simp
  next
    case False
    then have "2 * ?n \<le> ?g * ?n" using assms(1) by simp
    also have "\<dots> \<le> l + ?g - 1" by (rule times_div_less_eq_dividend)
    finally show ?thesis using assms by linarith
  qed
  ultimately show ?thesis unfolding table_segments_def by (simp add: to_c_int_small)
qed

lemma alloc_table_run:
  assumes "mhi_alloc_bhie_table os (of_nat l) c = (Inr img, c')" "0 < unat (seg_len c)"
    "l + unat (seg_len c) < 2 ^ 31" "n = (l + unat (seg_len c) - 1) div unat (seg_len c)"
  shows "img_entries img = Suc n \<and> length (mhi_bufs img) = Suc n \<and> bhi_vec img = []
    \<and> (\<forall>k < Suc n. mb_len (mhi_bufs img ! k) = (if k = n then 16 * of_nat n else seg_len c)
         \<and> mb_data (mhi_bufs img ! k) = replicate (unat (mb_len (mhi_bufs img ! k))) 0)"
proof -
  have seg: "table_segments (of_nat l) (seg_len c) = int (Suc n)"
    using table_segments_nat [OF assms(2,3)] assms(4) by simp
  obtain a c1 where k1: "call_kmalloc os sizeof_image_info c = (Some a, c1)"
    using assms(1) by (auto simp: mhi_alloc_bhie_table_def Let_def split: prod.splits option.splits)
  obtain b c2 where k2: "call_kmalloc os (of_int (int (Suc n)) * sizeof_mhi_buf os) c1 = (Some b, c2)"
    using assms(1) by (auto simp: mhi_alloc_bhie_table_def Let_def seg k1 split: prod.splits option.splits)
  have sl: "seg_len c2 = seg_len c" using k1 k2 by (auto simp: call_kmalloc_def)
  obtain ok bufs c3 where al: "alloc_segments os (seg_len c2) (nat (int (Suc n))) (nat (int (Suc n))) [] c2 = (ok, bufs, c3)"
    by (cases "alloc_segments os (seg_len c2) (nat (int (Suc n))) (nat (int (Suc n))) [] c2")
  have ok: ok "img = \<lparr>img_addr = a, bufs_addr = b, mhi_bufs = bufs, bhi_vec = [], img_entries = Suc n\<rparr>"
    using assms(1) k2 al unfolding mhi_alloc_bhie_table_def Let_def seg k1
    by (auto simp del: alloc_segments.simps of_nat_Suc split: bool.splits)
  show ?thesis
    using alloc_segments_spec [where n = "Suc n" and segs = "Suc n" and bufs = "[]" and os = os and sg = "seg_len c" and c = c2] ok al [unfolded sl nat_int]
    by (auto simp del: alloc_segments.simps simp: piece_size_def)
qed

text \<open>
  C26: A firmware image copied into a table allocated for its size fits: the entries of the table
  list the pieces from the first on with the number of image bytes in each, those bytes one
  after the other are the image, the last piece is not among them and keeps its place, and it
  has room for all the entries.
\<close>

theorem firmware_table_roundtrip:
  assumes "mhi_alloc_bhie_table os (of_nat (length fw)) c = (Inr img, c')"
    and "0 < unat (seg_len c)" and "length fw + unat (seg_len c) < 2 ^ 31"
  shows "case mhi_firmware_copy fw img of None \<Rightarrow> False | Some img' \<Rightarrow>
    concat (map2 (\<lambda>v b. take (unat (vec_size v)) (mb_data b)) (bhi_vec img') (mhi_bufs img')) = fw
    \<and> map vec_dma (bhi_vec img') = take (length (bhi_vec img')) (map mb_dma (mhi_bufs img'))
    \<and> map mb_dma (mhi_bufs img') = map mb_dma (mhi_bufs img)
    \<and> length (bhi_vec img') < img_entries img' \<and> img_entries img' = length (mhi_bufs img')
    \<and> vec_table img' = vec_table img
    \<and> 16 * length (bhi_vec img') \<le> unat (mb_len (vec_table img'))"
proof -
  define n where "n = (length fw + unat (seg_len c) - 1) div unat (seg_len c)"
  note run = alloc_table_run [OF assms n_def]
  let ?bufs = "take n (mhi_bufs img)" and ?last = "mhi_bufs img ! n"
  have split: "mhi_bufs img = ?bufs @ [?last]" and len: "length ?bufs = n"
    using run by (simp_all flip: take_Suc_conv_app_nth)
  have sz: "map (\<lambda>b. unat (mb_len b)) ?bufs = replicate n (unat (seg_len c))"
    using run by (intro nth_equalityI) auto
  have fits: "length fw \<le> sum_list (map (\<lambda>b. unat (mb_len b)) ?bufs)"
    unfolding sz using round_up_covers [OF assms(2), of "length fw"] by (simp add: n_def sum_list_replicate)
  have data: "\<forall>b \<in> set ?bufs. length (mb_data b) = unat (mb_len b)"
    using run by (auto simp: in_set_conv_nth)
  obtain bs vs where cp: "copy_pieces fw (?bufs @ [?last]) = Some (bs @ [?last], vs)" "length bs = n"
    "length vs \<le> n" "map mb_dma bs = map mb_dma ?bufs" "map vec_dma vs = take (length vs) (map mb_dma ?bufs)"
    "concat (map2 (\<lambda>v b. take (unat (vec_size v)) (mb_data b)) vs bs) = fw"
    using copy_pieces_spec [OF fits data, of "[?last]"] len by auto
  let ?img = "img\<lparr>mhi_bufs := bs @ [?last], bhi_vec := vs\<rparr>"
  have copy: "mhi_firmware_copy fw img = Some ?img"
    using cp(1) run unfolding split [symmetric] mhi_firmware_copy_def by simp
  have vt: "vec_table ?img = ?last" "vec_table img = ?last"
    using run cp(2) by (simp_all add: vec_table_def nth_append)
  have small: "n < 2 ^ 31" unfolding n_def using assms(3) div_le_dividend [of "length fw + unat (seg_len c) - 1"] by (meson add_diff_inverse_nat le_less_trans less_imp_diff_less)
  have room: "unat (mb_len ?last) = 16 * n"
  proof -
    have "mb_len ?last = 16 * of_nat n" using run by simp
    also have "\<dots> = of_nat (16 * n)" by simp
    finally show ?thesis using small by (simp only: unat_of_nat) (simp add: take_bit_nat_eq_self)
  qed
  have z: "zip vs (bs @ [?last]) = zip vs bs"
    using cp(2,3) by (simp add: zip_append1 [of vs] zip_append2)
  have dma: "map mb_dma (bs @ [?last]) = map mb_dma (mhi_bufs img)"
    by (subst split) (simp add: cp(4))
  have vd: "map vec_dma vs = take (length vs) (map mb_dma bs)" unfolding cp(4) by (rule cp(5))
  have "take (length vs) (map mb_dma (mhi_bufs img)) = take (length vs) (map mb_dma bs)"
    unfolding dma [symmetric] using cp(2,3) by simp
  note vd = vd this
  show ?thesis unfolding copy option.case
    using run cp(2,3,6) vt room dma vd by (simp add: z)
qed

text \<open>
  What allocating an image table leaves behind. When it succeeds, freeing the table gives
  back every piece once, then the array of pieces and the image, and the memory accounted for
  is what it was. When it fails, the result is \<open>ENOMEM\<close>, every piece that was allocated is freed
  once and the memory accounted for is what it was, but of the two structures only the image is
  freed: the array of pieces is lost.
\<close>

lemma bhie_table_outcomes:
  "case mhi_alloc_bhie_table os sz c of
     (Inl e, c') \<Rightarrow> e = ENOMEM \<and> alloc_size c' = alloc_size c
       \<and> (\<exists>bs :: mhi_buf list. trace c' = trace c @ map (\<lambda>b. Free_coherent (mb_buf b) (mb_dma b)) bs
            @ (case kmalloc os (n_alloc c) sizeof_image_info of None \<Rightarrow> [] | Some a \<Rightarrow> [Kfree a]))
   | (Inr img, c') \<Rightarrow> trace c' = trace c \<and> alloc_size (mhi_free_bhie_table img c') = alloc_size c
       \<and> trace (mhi_free_bhie_table img c') = trace c
            @ map (\<lambda>b. Free_coherent (mb_buf b) (mb_dma b)) (mhi_bufs img)
            @ [Kfree (bufs_addr img), Kfree (img_addr img)]"
proof (cases "kmalloc os (n_alloc c) sizeof_image_info")
  case None
  then show ?thesis
    by (simp add: mhi_alloc_bhie_table_def Let_def call_kmalloc_def)
next
  case (Some a)
  define n where "n = table_segments sz (seg_len c)"
  let ?c1 = "c\<lparr>n_alloc := Suc (n_alloc c)\<rparr>"
  obtain r c2 where k: "(if n < 0 then (None, ?c1) else call_kmalloc os (of_int n * sizeof_mhi_buf os) ?c1) = (r, c2)"
    by (cases "if n < 0 then (None, ?c1) else call_kmalloc os (of_int n * sizeof_mhi_buf os) ?c1")
  have k1: "call_kmalloc os sizeof_image_info c = (Some a, ?c1)" using Some by (simp add: call_kmalloc_def)
  note run = mhi_alloc_bhie_table_def Let_def n_def [symmetric] k1 prod.case option.case k
  have f2: "trace c2 = trace c" "alloc_size c2 = alloc_size c"
    using k by (auto simp: call_kmalloc_def split: if_splits)
  show ?thesis
  proof (cases r)
    case None
    have "mhi_alloc_bhie_table os sz c = (Inl ENOMEM, emit (Kfree a) c2)"
      by (simp only: run None)
    then show ?thesis using Some f2 by simp
  next
    case r: (Some arr)
    obtain ok bufs c3 where al: "alloc_segments os (seg_len c2) (nat n) (nat n) [] c2 = (ok, bufs, c3)"
      by (cases "alloc_segments os (seg_len c2) (nat n) (nat n) [] c2")
    have f3: "trace c3 = trace c" "alloc_size c3 = alloc_size c + sum_list (map (\<lambda>b. int (unat (mb_len b))) bufs)"
      using alloc_segments_spec [where n = "nat n" and segs = "nat n" and bufs = "[]" and os = os and
          sg = "seg_len c2" and c = c2] f2 unfolding al by auto
    show ?thesis
    proof (cases ok)
      case False
      have "mhi_alloc_bhie_table os sz c = (Inl ENOMEM, emit (Kfree a) (fold free_buf (rev bufs) c3))"
        using False by (simp only: run r al) simp
      then show ?thesis using Some f3 sum_list_rev [of "map (\<lambda>b. int (unat (mb_len b))) bufs"]
        by (simp add: free_bufs_fields rev_map) (rule exI [of _ "rev bufs"], rule refl)
    next
      case True
      let ?img = "\<lparr>img_addr = a, bufs_addr = arr, mhi_bufs = bufs, bhi_vec = [], img_entries = nat n\<rparr>"
      have "mhi_alloc_bhie_table os sz c = (Inr ?img, if n = 0 then c3\<lparr>ub := True\<rparr> else c3)"
        using True by (simp only: run r al) simp
      then show ?thesis using f3
        by (simp add: mhi_free_bhie_table_def free_bufs_fields)
    qed
  qed
qed

section \<open>An image from user space\<close>

text \<open>
  Once the image is loaded and the device ready, what \<open>BhiWrite\<close> returns does not depend on
  whether the device enters the flash programmer: it is 0, the success, also when the device
  never does so within the time, and 1 if the controller is in an error state by then.
\<close>

lemma bhi_write_reports:
  assumes "ee c = MHI_EE_EDL" and "sz = of_nat (length ubuf)"
    and "mhi_alloc_coherent os sz c = (Some (buf, dma), c1)"
    and "mhi_fw_load_sbl os es dma sz (emit (Dma_fill buf ubuf) c1) = (Inr (), c2)"
    and "mhi_ready_state_transition os es' ((mhi_free_coherent sz buf dma c2)\<lparr>dev_state := MHI_STATE_RESET\<rparr>) = (Inr (), c3)"
    and "c4 = (if ee c3 = MHI_EE_FP \<or> MHI_PM_IN_ERROR_STATE (pm_state c3) then c3 else env c3)"
  shows "BhiWrite os 0 es es' env ubuf c = (Inr (if MHI_PM_IN_ERROR_STATE (pm_state c4) then 1 else 0), c4)"
  using assms by (simp add: BhiWrite_def Let_def wait_event_timeout_def)

text \<open>Everything the boot interface tells about the device is one register.\<close>

lemma bhi_info_is_execenv:
  "BhiRead os c = (let e = bhi_read_reg os c BHI_EXECENV in
     \<lparr>bhi_ver_minor = e, bhi_ver_major = e, bhi_image_address_low = e, bhi_image_address_high = e,
      bhi_image_size = e, bhi_rsvd1 = e, bhi_imgtxdb = e, bhi_rsvd2 = e, bhi_msivec = e, bhi_rsvd3 = e,
      bhi_ee = e, bhi_status = e, bhi_errorcode = e, bhi_errdbg1 = e, bhi_errdbg2 = e, bhi_errdbg3 = e,
      bhi_sernum = e, bhi_sblantirollbackver = e, bhi_numsegs = e, bhi_msmhwid = replicate 6 e,
      bhi_oempkhash = replicate 48 e, bhi_rsvd5 = e\<rparr>)"
  by (simp add: BhiRead_def bhi_read_reg_def Let_def map_replicate_const)

text \<open>
  The panic path resets the device although it has entered the ram dump mode, when it is seen
  there only at the last poll.
\<close>

lemma rddm_last_poll:
  assumes "mhi_get_exec_env os c \<noteq> MHI_EE_RDDM" and "mhi_get_exec_env os (env c) = MHI_EE_RDDM"
  shows "rddm_enter os env 2 c = (0, env c)"
  using assms by (simp add: numeral_2_eq_2)

section \<open>Ready\<close>

text \<open>Steps that only write device registers.\<close>

definition mmio_only :: "mhi_controller \<Rightarrow> mhi_controller \<Rightarrow> bool" where
  "mmio_only c c' \<longleftrightarrow> (\<exists>m t. c' = c\<lparr>mmio := m, trace := t\<rparr>)"

lemma mmio_only_refl [simp]: "mmio_only c c"
  unfolding mmio_only_def by (rule exI [of _ "mmio c"], rule exI [of _ "trace c"]) simp

lemma mmio_only_trans: "mmio_only a b \<Longrightarrow> mmio_only b c \<Longrightarrow> mmio_only a c"
  unfolding mmio_only_def by (elim exE) (intro exI, simp)

lemma write_field_mmio_only: "mmio_only c (mhi_write_reg_field os b off m sh v c)"
proof (cases "mhi_read_reg os c b off")
  case (Inl e)
  then show ?thesis by (simp add: mhi_write_reg_field_def)
next
  case (Inr w)
  then show ?thesis
    by (simp add: mhi_write_reg_field_def mhi_write_reg_def emit_def mmio_only_def)
       (rule exI, rule exI, rule refl)
qed

lemma write_fields_mmio_only:
  "mmio_only c (fold (\<lambda>(off, v). mhi_write_reg_field os b off m sh v) info c)"
  by (induction info arbitrary: c) (auto intro: mmio_only_trans write_field_mmio_only)

lemma mmio_onlyD:
  assumes "mmio_only c c'"
  shows "pm_state c' = pm_state c" "dev_state c' = dev_state c" "ee c' = ee c"
    "total_ev_rings c' = total_ev_rings c" "mhi_event c' = mhi_event c" "mhi_chan c' = mhi_chan c"
    "cmd_ring c' = cmd_ring c" "er_ctxt c' = er_ctxt c"
proof -
  obtain m t where "c' = c\<lparr>mmio := m, trace := t\<rparr>" using assms unfolding mmio_only_def by blast
  then show "pm_state c' = pm_state c" "dev_state c' = dev_state c" "ee c' = ee c"
    "total_ev_rings c' = total_ev_rings c" "mhi_event c' = mhi_event c" "mhi_chan c' = mhi_chan c"
    "cmd_ring c' = cmd_ring c" "er_ctxt c' = er_ctxt c" by simp_all
qed

lemma init_mmio_frame:
  assumes "mhi_init_mmio os c = (Inr u, c')"
  shows "pm_state c' = pm_state c \<and> dev_state c' = dev_state c \<and> ee c' = ee c
    \<and> total_ev_rings c' = total_ev_rings c"
proof -
  obtain v where r: "mhi_read_reg_field os c (regs c) CHDBOFF 0xFFFFFFFF 0 = Inr v"
    using assms by (auto simp: mhi_init_mmio_def Let_def split: sum.splits)
  let ?c1 = "c\<lparr>wake_db := regs c + ucast v + ucast (8 * MHI_DEV_WAKE_DB),
                   mhi_chan := (\<lambda>i. if i < max_chan c
                     then (mhi_chan c i)\<lparr>tre_ring := (tre_ring (mhi_chan c i))\<lparr>db_addr := db_at (regs c) v i\<rparr>\<rparr>
                     else mhi_chan c i)\<rparr>"
  obtain w where w: "mhi_read_reg_field os ?c1 (regs c) ERDBOFF 0xFFFFFFFF 0 = Inr w"
    using assms r by (auto simp: mhi_init_mmio_def Let_def cong: if_cong split: sum.splits)
  let ?c2 = "?c1\<lparr>mhi_event := (\<lambda>i. if i < total_ev_rings ?c1 \<and> \<not> offload_ev (mhi_event ?c1 i)
          then (mhi_event ?c1 i)\<lparr>ev_ring := (ev_ring (mhi_event ?c1 i))\<lparr>db_addr := db_at (regs c) w i\<rparr>\<rparr>
          else mhi_event ?c1 i), cmd_ring := (cmd_ring ?c1)\<lparr>db_addr := regs c + ucast CRDB_LOWER\<rparr>\<rparr>"
  have "c' = fold (\<lambda>(off, v). mhi_write_reg_field os (regs c) off 0xFFFFFFFF 0 v) (reg_info c) ?c2"
    using assms unfolding mhi_init_mmio_def Let_def r sum.case w by simp
  then have "mmio_only ?c2 c'" using write_fields_mmio_only by simp
  from mmio_onlyD [OF this] show ?thesis by simp
qed

definition armed :: "mhi_tre mhi_ring \<Rightarrow> bool" where
  "armed r \<longleftrightarrow> wp r = base r + ring_len r - el_size r \<and> ctxt_wp r = iommu_base r + ring_len r - el_size r"

lemma arm_ring_armed [simp]: "armed (arm_ring r)"
  by (simp add: armed_def arm_ring_def)

lemma er_db_role [simp]:
  "offload_ev (mhi_event (mhi_ring_er_db i c) j) = offload_ev (mhi_event c j)"
  "hw_ring (mhi_event (mhi_ring_er_db i c) j) = hw_ring (mhi_event c j)"
  by (simp_all add: mhi_ring_er_db_def Let_def split_beta)

lemma arm_sw_event_fields:
  "pm_state (arm_sw_event i c) = pm_state c" "dev_state (arm_sw_event i c) = dev_state c"
  "ee (arm_sw_event i c) = ee c" "total_ev_rings (arm_sw_event i c) = total_ev_rings c"
  "offload_ev (mhi_event (arm_sw_event i c) j) = offload_ev (mhi_event c j)"
  "hw_ring (mhi_event (arm_sw_event i c) j) = hw_ring (mhi_event c j)"
  "ev_ring (mhi_event (arm_sw_event i c) j) =
     (if j = i \<and> \<not> offload_ev (mhi_event c i) \<and> \<not> hw_ring (mhi_event c i)
      then arm_ring (ev_ring (mhi_event c j)) else ev_ring (mhi_event c j))"
  by (auto simp: arm_sw_event_def)

lemma arm_sw_events:
  "let c' = fold arm_sw_event [0..<n] c in
     pm_state c' = pm_state c \<and> dev_state c' = dev_state c \<and> ee c' = ee c
     \<and> total_ev_rings c' = total_ev_rings c
     \<and> (\<forall>j. offload_ev (mhi_event c' j) = offload_ev (mhi_event c j) \<and> hw_ring (mhi_event c' j) = hw_ring (mhi_event c j)
          \<and> (j < n \<and> \<not> offload_ev (mhi_event c j) \<and> \<not> hw_ring (mhi_event c j) \<longrightarrow> armed (ev_ring (mhi_event c' j))))"
proof (induction n)
  case 0
  then show ?case by simp
next
  case (Suc n)
  then show ?case by (auto simp: Let_def arm_sw_event_fields less_Suc_eq)
qed

lemma armed_full: "armed r \<Longrightarrow> rp r = base r \<Longrightarrow> mhi_is_ring_full r"
  by (simp add: armed_def mhi_is_ring_full_def Let_def)

lemma ready_outcomes:
  "case mhi_ready_state_transition os es c of
     (Inl e, c') \<Rightarrow> e = EIO \<or> e = ETIMEDOUT
   | (Inr _, c') \<Rightarrow> pm_state c' = MHI_PM_POR \<and> dev_state c' = MHI_STATE_READY
       \<and> (\<forall>i < total_ev_rings c'. offload_ev (mhi_event c' i) \<or> hw_ring (mhi_event c' i)
            \<or> armed (ev_ring (mhi_event c' i)) \<and> (rp (ev_ring (mhi_event c' i)) = base (ev_ring (mhi_event c' i))
                 \<longrightarrow> mhi_is_ring_full (ev_ring (mhi_event c' i))))"
proof -
  obtain h reset ready c1 where w: "wait_reading es (ready_cond os) (1, 0) c = (h, (reset, ready), c1)"
    by (metis prod_cases3 surj_pair)
  obtain cur c2 where t: "mhi_tryset_pm_state MHI_PM_POR c1 = (cur, c2)" by (cases "mhi_tryset_pm_state MHI_PM_POR c1")
  let ?c3 = "c2\<lparr>dev_state := MHI_STATE_READY\<rparr>"
  obtain r c4 where m: "mhi_init_mmio os ?c3 = (r, c4)" by (cases "mhi_init_mmio os ?c3")
  show ?thesis
  proof (cases "MHI_PM_IN_FATAL_STATE (pm_state c1) \<or> reset \<noteq> 0 \<or> ready = 0 \<or> cur \<noteq> MHI_PM_POR
      \<or> \<not> MHI_REG_ACCESS_VALID (pm_state c2) \<or> \<not> is_ok r")
    case True
    then show ?thesis using w t m
      by (auto simp: mhi_ready_state_transition_def Let_def split: sum.splits)
  next
    case False
    then obtain u where u: "r = Inr u" by (cases r) auto
    let ?c5 = "fold arm_sw_event [0..<total_ev_rings c4] c4"
    have run: "mhi_ready_state_transition os es c = (Inr (), mhi_set_mhi_state os MHI_STATE_M0 ?c5)"
      using False w t m u by (simp add: mhi_ready_state_transition_def Let_def)
    have "pm_state c2 = MHI_PM_POR"
      using t False by (auto simp: tryset_eq)
    then have f: "pm_state c4 = MHI_PM_POR" "dev_state c4 = MHI_STATE_READY"
      using init_mmio_frame [OF m [unfolded u]] by simp_all
    note a = arm_sw_events [of "total_ev_rings c4" c4, unfolded Let_def]
    have roles: "mhi_event (mhi_set_mhi_state os MHI_STATE_M0 ?c5) = mhi_event ?c5" by simp
    show ?thesis unfolding run prod.case sum.case roles using a f armed_full by auto
  qed
qed

lemma ready_outcome_state:
  "mhi_ready_state_transition os es c = (Inr u, c') \<Longrightarrow> pm_state c' = MHI_PM_POR"
  using ready_outcomes [of os es c] by simp


lemma init_mmio_link_up: "link_status os = 0 \<Longrightarrow> \<exists>c'. mhi_init_mmio os c = (Inr (), c')"
  by (simp add: mhi_init_mmio_def Let_def mhi_read_reg_field_def mhi_read_reg_def)

definition ready_demo :: mhi_controller where
  "ready_demo = ev_demo\<lparr>pm_state := MHI_PM_POR, mmio := (\<lambda>_. 0)(0x48 := 1), regs := 0, bhi := 0x1000,
     ee := MHI_EE_EDL\<rparr>"

lemma POR_again: "tryset_target MHI_PM_POR MHI_PM_POR = MHI_PM_POR" "MHI_REG_ACCESS_VALID MHI_PM_POR"
  "\<not> MHI_PM_IN_FATAL_STATE MHI_PM_POR" "\<not> MHI_PM_IN_ERROR_STATE MHI_PM_POR"
  by code_simp+

lemma device_ready:
  assumes "pm_state c = MHI_PM_POR" "regs c = 0" "mmio c 0x38 = 0" "mmio c 0x48 = 1"
  shows "\<exists>c'. mhi_ready_state_transition link_up es c = (Inr (), c')"
proof -
  let ?c3 = "c\<lparr>pm_state := MHI_PM_POR, dev_state := MHI_STATE_READY\<rparr>"
  have cond: "ready_cond link_up x c = (True, (0, 1))" for x
    using assms POR_again
    by (simp add: ready_cond_def mhi_read_reg_field_def mhi_read_reg_def Let_def link_up_def reg_defs PCI_INVALID_READ_def)
  then have w: "wait_reading es (ready_cond link_up) (1, 0) c = (True, (0, 1), c)" by (cases es) simp_all
  obtain c4 where m: "mhi_init_mmio link_up ?c3 = (Inr (), c4)"
    using init_mmio_link_up [of link_up ?c3] by (auto simp: link_up_def)
  show ?thesis
    using assms POR_again m by (simp add: mhi_ready_state_transition_def w Let_def tryset_eq)
qed


definition loaded_demo :: mhi_controller where
  "loaded_demo = ready_demo\<lparr>mmio := (\<lambda>_. 0)(0x48 := 1, 0x102C := 0x80000000)\<rparr>"

lemma ready_demo_fields:
  "pm_state ready_demo = MHI_PM_POR" "bhi ready_demo = 0x1000" "regs ready_demo = 0"
  "mmio ready_demo = (\<lambda>_. 0)(0x48 := 1)" "ee ready_demo = MHI_EE_EDL" "n_alloc ready_demo = 0"
  "alloc_size ready_demo = 0"
  by (simp_all add: ready_demo_def ev_demo_def busy_defs)

lemma loaded_demo_fields:
  "pm_state loaded_demo = MHI_PM_POR" "bhi loaded_demo = 0x1000" "regs loaded_demo = 0"
  "mmio loaded_demo = (\<lambda>_. 0)(0x48 := 1, 0x102C := 0x80000000)" "ee loaded_demo = MHI_EE_EDL"
  using ready_demo_fields by (simp_all add: loaded_demo_def)

lemma link_up_read [simp]: "mhi_read_reg link_up c b off = Inr (mmio c (b + ucast off))"
  by (simp add: mhi_read_reg_def link_up_def Let_def)

lemma status_loaded:
  "status_cond link_up bhi BHI_STATUS BHI_STATUS_MASK 30 x loaded_demo = (True, 2)"
  using POR_again loaded_demo_fields
  by (simp add: status_cond_def mhi_read_reg_field_def BHI_STATUS_def BHI_STATUS_MASK_def)

lemma sbl_demo:
  assumes "pm_state c = MHI_PM_POR" "bhi c = 0x1000" "regs c = 0"
  shows "mhi_fw_load_sbl link_up [\<lambda>_. loaded_demo] dma sz c = (Inr (), loaded_demo)"
proof -
  let ?c = "mhi_write_reg 0x1000 BHI_IMGTXDB 1 (mhi_write_reg 0x1000 BHI_INTVEC (msi_irq_base c)
     (set_num_rings link_up (mhi_write_reg 0x1000 BHI_IMGSIZE (ucast sz)
       (mhi_write_reg 0x1000 BHI_IMGADDR_LOW (lower_32_bits dma)
         (mhi_write_reg 0x1000 BHI_IMGADDR_HIGH (upper_32_bits dma) (mhi_write_reg 0x1000 BHI_STATUS 0 c))))))"
  have st: "status_cond link_up bhi BHI_STATUS BHI_STATUS_MASK 30 x ?c = (False, 0)" for x
    using POR_again assms
    by (simp add: status_cond_def mhi_read_reg_field_def set_num_rings_def mhi_write_reg_field_def mhi_write_reg_def
        bhi_defs BHI_INTVEC_def MHICFG_def)
  have bh: "bhi (set_num_rings link_up x) = bhi x" "msi_irq_base (set_num_rings link_up x) = msi_irq_base x"
    "bhi (mhi_write_reg b o' v x) = bhi x" "msi_irq_base (mhi_write_reg b o' v x) = msi_irq_base x" for x b o' v
    by (simp_all add: set_num_rings_def mhi_write_reg_field_def mhi_write_reg_def emit_def)
  have "wait_reading [\<lambda>_. loaded_demo] (status_cond link_up bhi BHI_STATUS BHI_STATUS_MASK 30) x ?c = (True, 2, loaded_demo)" for x
    by (simp add: st status_loaded Let_def)
  then show ?thesis
    using assms POR_again loaded_demo_fields
    by (simp add: mhi_fw_load_sbl_def Let_def bh BHI_STATUS_ERROR_def BHI_STATUS_SUCCESS_def del: wait_reading.simps)
qed

lemma bhi_write_reports_instance:
  "fst (BhiWrite link_up 0 [\<lambda>_. loaded_demo] [] (\<lambda>_. loaded_demo) [1, 2, 3] ready_demo) = Inr 0"
proof -
  let ?dma = "0x10000 :: u64"
  let ?c1 = "ready_demo\<lparr>n_alloc := 1, alloc_size := 3\<rparr>"
  let ?c2 = "(mhi_free_coherent 3 ?dma ?dma loaded_demo)\<lparr>dev_state := MHI_STATE_RESET\<rparr>"
  have al: "mhi_alloc_coherent link_up 3 ready_demo = (Some (?dma, ?dma), ?c1)"
    by (simp add: mhi_alloc_coherent_def Let_def link_up_def ready_demo_fields)
  have sbl: "mhi_fw_load_sbl link_up [\<lambda>_. loaded_demo] ?dma 3 (emit (Dma_fill ?dma [1, 2, 3]) ?c1) = (Inr (), loaded_demo)"
    by (rule sbl_demo) (simp_all add: ready_demo_fields)
  obtain c3 where rd: "mhi_ready_state_transition link_up [] ?c2 = (Inr (), c3)"
    using device_ready [of ?c2 "[]"] by (auto simp: mhi_free_coherent_def loaded_demo_fields)
  have "pm_state c3 = MHI_PM_POR" using ready_outcome_state [OF rd] .
  then show ?thesis
    using bhi_write_reports [OF _ _ al sbl rd refl, where env = "\<lambda>_. loaded_demo"]
    by (simp add: ready_demo_fields loaded_demo_fields POR_again)
qed

lemma table_demo:
  "\<exists>img c'. mhi_alloc_bhie_table link_up (of_nat (length [1, 2, 3 :: u8])) (zero_controller\<lparr>seg_len := 2\<rparr>) = (Inr img, c')"
proof -
  have n: "table_segments 3 2 = 3"
    using table_segments_nat [of 2 3] by simp
  show ?thesis
    by (simp add: mhi_alloc_bhie_table_def Let_def call_kmalloc_def link_up_def mhi_alloc_coherent_def n
        zero_controller_def numeral_3_eq_3)
qed

theorem firmware_table_roundtrip_witness:
  "case mhi_alloc_bhie_table link_up 3 (zero_controller\<lparr>seg_len := 2\<rparr>) of (Inl e, c') \<Rightarrow> False | (Inr img, c') \<Rightarrow>
     (case mhi_firmware_copy [1, 2, 3] img of None \<Rightarrow> False | Some img' \<Rightarrow>
        concat (map2 (\<lambda>v b. take (unat (vec_size v)) (mb_data b)) (bhi_vec img') (mhi_bufs img')) = [1, 2, 3])"
proof -
  obtain img c' where r: "mhi_alloc_bhie_table link_up (of_nat (length [1, 2, 3 :: u8])) (zero_controller\<lparr>seg_len := 2\<rparr>) = (Inr img, c')"
    using table_demo by blast
  show ?thesis using firmware_table_roundtrip [OF r] r by (auto split: option.splits)
qed

end
