(* ===== verification/Mhi_Pm.thy ===== *)
theory Mhi_Pm
  imports Mhi_Boot
begin

text \<open>
  Powering the controller up and down: time sync set-up and queries, the devices on the bus, the
  workers and the power transitions of \<open>core/mhi_pm.c\<close>, with the parts of \<open>core/mhi_init.c\<close> and
  \<open>core/mhi_main.c\<close> they call. \<open>bind\<close> is what the bus does when a device is added (it may find a
  driver and probe it), \<open>unbind\<close> what it does when one is removed; \<open>env\<close> and \<open>es\<close> are what the
  rest of the system does while an operation waits.
\<close>

section \<open>Time sync\<close>

definition TIMESYNC_CAP_ID :: u32 where "TIMESYNC_CAP_ID = 2"
definition TIMESYNC_DB_OFFSET :: u32 where "TIMESYNC_DB_OFFSET = 4"
definition TIMESYNC_TIME_LOW_OFFSET :: u32 where "TIMESYNC_TIME_LOW_OFFSET = 8"
definition sizeof_tsync_node :: u64 where "sizeof_tsync_node = 56"

definition mhi_get_tsync_er_cfg :: "mhi_controller \<Rightarrow> nat res" where
  "mhi_get_tsync_er_cfg c =
     (case find (\<lambda>i. data_type (mhi_event c i) = MHI_ER_TSYNC_ELEMENT_TYPE) [0..<total_ev_rings c] of
        None \<Rightarrow> Inl ENOENT | Some i \<Rightarrow> Inr (er_index (mhi_event c i)))"

definition wait_tsync_completion ::
  "(mhi_controller \<Rightarrow> mhi_controller) \<Rightarrow> mhi_controller \<Rightarrow> bool \<times> mhi_controller" where
  "wait_tsync_completion env c =
     (let done = (\<lambda>c. case mhi_tsync c of None \<Rightarrow> False | Some ts \<Rightarrow> 0 < ts_completion ts);
          c = (if done c then c else env c)
      in (done c, c\<lparr>mhi_tsync := map_option (\<lambda>ts. ts\<lparr>ts_completion := consume_one (ts_completion ts)\<rparr>) (mhi_tsync c)\<rparr>))"

text \<open>The second half of the set-up: the doorbell, the event ring, and the command.\<close>

definition tsync_doorbell ::
  "mhi_os \<Rightarrow> (mhi_controller \<Rightarrow> mhi_controller) \<Rightarrow> u32 \<Rightarrow> mhi_controller \<Rightarrow> unit res \<times> mhi_controller" where
  "tsync_doorbell os env time_offset c =
     (if \<not> MHI_REG_ACCESS_VALID (pm_state c) then (Inl EIO, c)
      else case mhi_read_reg os c (regs c) (time_offset + TIMESYNC_DB_OFFSET) of
          Inl e \<Rightarrow> (Inr (), c)
        | Inr db_offset \<Rightarrow>
            if db_offset = 0 then (Inr (), c)
            else
              let c = c\<lparr>mhi_tsync := map_option (\<lambda>ts. ts\<lparr>ts_db := regs c + ucast db_offset\<rparr>) (mhi_tsync c)\<rparr>
              in case mhi_get_tsync_er_cfg c of
                   Inl e \<Rightarrow> (Inl e, c)
                 | Inr er \<Rightarrow>
                     let c = c\<lparr>mhi_tsync := map_option (\<lambda>ts. ts\<lparr>ts_er_index := of_nat er\<rparr>) (mhi_tsync c)\<rparr>
                     in case mhi_send_cmd None MHI_CMD_TIMSYNC_CFG c of
                          (Inl e, c) \<Rightarrow> (Inl e, c)
                        | (Inr _, c) \<Rightarrow>
                            let (ret, c) = wait_tsync_completion env c
                            in if \<not> ret \<or> map_option ts_ccs (mhi_tsync c) \<noteq> Some MHI_EV_CC_SUCCESS
                               then (Inl EIO, c) else (Inr (), c))"

definition mhi_init_timesync ::
  "mhi_os \<Rightarrow> (mhi_controller \<Rightarrow> mhi_controller) \<Rightarrow> mhi_controller \<Rightarrow> (unit res \<times> mhi_controller) option" where
  "mhi_init_timesync os env c =
     (if \<not> MHI_REG_ACCESS_VALID (pm_state c) then Some (Inl EIO, c)
      else map_option (\<lambda>cap. case cap of
          Inl e \<Rightarrow> (Inl e, c)
        | Inr time_offset \<Rightarrow>
            if \<not> sync_methods os then (Inl EINVAL, c)
            else case call_kmalloc os (sizeof_timesync os) c of
                (None, c) \<Rightarrow> (Inl ENOMEM, c)
              | (Some a, c) \<Rightarrow>
                  tsync_doorbell os env time_offset
                    (emit Tsync_sysfs (c\<lparr>mhi_tsync := Some
                       \<lparr>ts_er_index = 0, ts_db = 0,
                        time_reg = regs c + ucast time_offset + ucast TIMESYNC_TIME_LOW_OFFSET,
                        ts_ccs = ccs_of 0, ts_completion = 0, ts_lock = False, ts_head = []\<rparr>\<rparr>)))
        (mhi_get_capability_offset os c TIMESYNC_CAP_ID))"

text \<open>The requests queued on the structure are freed with it or lost with it: they are not looked at.\<close>

definition mhi_destroy_timesync :: "mhi_controller \<Rightarrow> mhi_controller" where
  "mhi_destroy_timesync c =
     (if mhi_tsync c \<noteq> None then (emit Tsync_sysfs_remove c)\<lparr>mhi_tsync := None\<rparr> else c)"

text \<open>Both times, the host's first; \<open>readq\<close> reads two registers.\<close>

definition read_time :: "mhi_controller \<Rightarrow> u64 \<Rightarrow> u64" where
  "read_time c a = push_bit 32 (ucast (mmio c (a + 4))) OR ucast (mmio c a)"

definition mhi_get_remote_time_sync ::
  "mhi_os \<Rightarrow> (mhi_controller \<Rightarrow> mhi_controller) \<Rightarrow> mhi_controller \<Rightarrow> (u64 \<times> u64) res \<times> mhi_controller" where
  "mhi_get_remote_time_sync os env c =
     (case mhi_tsync c of
        None \<Rightarrow> (Inl EIO, c)
      | Some ts \<Rightarrow>
          (case device_get_sync env c of
             (Inl e, c) \<Rightarrow> (Inl e, c)
           | (Inr _, c) \<Rightarrow>
               if MHI_PM_IN_ERROR_STATE (pm_state c) then (Inl EIO, wake_put False c)
               else let c = emit Lpm_disable c
                    in case lpm_disable_ret os of
                         Some e \<Rightarrow> (Inl e, wake_put False c)
                       | None \<Rightarrow> (Inr (host_time os, read_time c (time_reg ts)),
                                  wake_put False (emit Lpm_enable c))))"

text \<open>
  A request for the device's time: the host's time is noted, the request is queued for the
  event handler, and the doorbell is rung with its sequence number. A structure without a
  doorbell has the doorbell address 0, and writing there leaves the registers.
\<close>

definition mhi_get_remote_time ::
  "mhi_os \<Rightarrow> (mhi_controller \<Rightarrow> mhi_controller) \<Rightarrow> nat \<Rightarrow> u32 \<Rightarrow> mhi_controller \<Rightarrow> unit res \<times> mhi_controller" where
  "mhi_get_remote_time os env d sequence c =
     (if mhi_tsync c = None then (Inl EIO, c)
      else case device_get_sync env c of
          (Inl e, c) \<Rightarrow> (Inl e, c)
        | (Inr _, c) \<Rightarrow>
            (case call_kmalloc os sizeof_tsync_node c of
               (None, c) \<Rightarrow> (Inl ENOMEM, wake_put False c)
             | (Some node, c) \<Rightarrow>
                 let c = emit Lpm_disable c
                 in if MHI_PM_IN_ERROR_STATE (pm_state c)
                    then (Inl EIO, wake_put False (emit Lpm_enable (emit (Kfree node) c)))
                    else (case mhi_tsync c of
                        None \<Rightarrow> (Inr (), c\<lparr>ub := True\<rparr>)
                      | Some ts \<Rightarrow>
                          let c = c\<lparr>mhi_tsync := Some (ts\<lparr>ts_head := ts_head ts @
                                [\<lparr>ts_sequence = sequence, local_time = host_time os, ts_mhi_dev = d\<rparr>]\<rparr>)\<rparr>;
                              c = (if ts_db ts = 0 then c\<lparr>ub := True\<rparr> else mhi_write_reg (ts_db ts) 0 sequence c)
                          in (Inr (), wake_put False (emit Lpm_enable c)))))"

section \<open>Devices on the bus\<close>

text \<open>A device is named by the number of the allocation that made it.\<close>

definition mhi_alloc_device :: "mhi_os \<Rightarrow> mhi_controller \<Rightarrow> nat option \<times> mhi_controller" where
  "mhi_alloc_device os c =
     (case call_kmalloc os (sizeof_mhi_device os) c of
        (None, c') \<Rightarrow> (None, c')
      | (Some a, c') \<Rightarrow> (Some (n_alloc c), c'\<lparr>devices := (devices c')(n_alloc c := zero_device\<lparr>mtu := ucast MHI_MAX_MTU\<rparr>)\<rparr>))"

definition upd_device :: "nat \<Rightarrow> (mhi_device \<Rightarrow> mhi_device) \<Rightarrow> mhi_controller \<Rightarrow> mhi_controller" where
  "upd_device d f c = c\<lparr>devices := (devices c)(d := f (devices c d))\<rparr>"

text \<open>\<open>device_add\<close>: the result, and on success the device on the bus and what the bus does with it.\<close>

definition device_add ::
  "mhi_os \<Rightarrow> (nat \<Rightarrow> mhi_controller \<Rightarrow> mhi_controller) \<Rightarrow> nat \<Rightarrow> mhi_controller \<Rightarrow> bool \<times> mhi_controller" where
  "device_add os bind d c =
     (case device_add_ret os d of
        Some e \<Rightarrow> (False, c)
      | None \<Rightarrow> (True, bind d (emit (Device_add d) (c\<lparr>bus_devs := bus_devs c @ [d]\<rparr>))))"

definition mhi_dealloc_device :: "nat \<Rightarrow> mhi_controller \<Rightarrow> mhi_controller" where
  "mhi_dealloc_device d c = emit (Device_free d) c"

definition mhi_create_time_sync_dev ::
  "mhi_os \<Rightarrow> (nat \<Rightarrow> mhi_controller \<Rightarrow> mhi_controller) \<Rightarrow> mhi_controller \<Rightarrow> mhi_controller" where
  "mhi_create_time_sync_dev os bind c =
     (if \<not> MHI_IN_MISSION_MODE (ee c) then c
      else case mhi_alloc_device os c of
          (None, c) \<Rightarrow> c
        | (Some d, c) \<Rightarrow>
            let (ok, c) = device_add os bind d
                  (upd_device d (\<lambda>dev. dev\<lparr>dev_type := MHI_TIMESYNC_TYPE, dev_chan_name := ''TIME_SYNC''\<rparr>) c)
            in if \<not> ok then mhi_dealloc_device d c else c\<lparr>tsync_dev := Some d\<rparr>)"

definition as_ul :: "nat \<Rightarrow> mhi_chan \<Rightarrow> mhi_device \<Rightarrow> mhi_device" where
  "as_ul i ch dev = dev\<lparr>ul_chan := Some i, ul_chan_id := int (unat (chan ch)), ul_xfer := Some (queue_xfer ch),
     ul_event_id := int (ch_er_index ch)\<rparr>"

definition as_dl :: "nat \<Rightarrow> mhi_chan \<Rightarrow> mhi_device \<Rightarrow> mhi_device" where
  "as_dl i ch dev = dev\<lparr>dl_chan := Some i, dl_chan_id := int (unat (chan ch)), dl_xfer := Some (queue_xfer ch),
     dl_event_id := int (ch_er_index ch)\<rparr>"

definition first_chan :: "nat \<Rightarrow> mhi_chan \<Rightarrow> mhi_device \<Rightarrow> mhi_device" where
  "first_chan i ch dev =
     (case dir ch of
        DMA_TO_DEVICE \<Rightarrow> as_ul i ch dev
      | DMA_FROM_DEVICE \<Rightarrow> as_dl i ch dev
      | _ \<Rightarrow> as_dl i ch (dev\<lparr>ul_chan_id := int (unat (chan ch)), ul_event_id := int (ch_er_index ch)\<rparr>))"

definition second_chan :: "nat \<Rightarrow> mhi_chan \<Rightarrow> mhi_device \<Rightarrow> mhi_device" where
  "second_chan i ch dev = (if dir ch = DMA_TO_DEVICE then as_ul i ch dev else as_dl i ch dev)"

definition wants_device :: "mhi_controller \<Rightarrow> nat \<Rightarrow> bool" where
  "wants_device c i \<longleftrightarrow> configured (mhi_chan c i) \<and> ch_mhi_dev (mhi_chan c i) = None
     \<and> ee_mask (mhi_chan c i) AND ee_bit (ee c) \<noteq> 0"

definition pairs_with_next :: "mhi_controller \<Rightarrow> nat \<Rightarrow> bool" where
  "pairs_with_next c i \<longleftrightarrow> Suc i < max_chan c \<and> configured (mhi_chan c (Suc i))
     \<and> ch_name (mhi_chan c (Suc i)) = ch_name (mhi_chan c i)"

definition set_ch_dev :: "nat \<Rightarrow> nat \<Rightarrow> mhi_controller \<Rightarrow> mhi_controller" where
  "set_ch_dev i d = upd_chan i (\<lambda>ch. ch\<lparr>ch_mhi_dev := Some d\<rparr>)"

text \<open>
  One round of the loop: the next index, or \<open>None\<close> where a failed allocation ends it. After a
  failed \<open>device_add\<close> the device is freed, yet its attributes are created and the channels
  still point to it.
\<close>

definition create_one ::
  "mhi_os \<Rightarrow> (nat \<Rightarrow> mhi_controller \<Rightarrow> mhi_controller) \<Rightarrow> nat \<Rightarrow> mhi_controller \<Rightarrow> nat option \<times> mhi_controller" where
  "create_one os bind i c =
     (if \<not> wants_device c i then (Some (Suc i), c)
      else case mhi_alloc_device os c of
          (None, c) \<Rightarrow> (None, c)
        | (Some d, c) \<Rightarrow>
            let c = upd_device d (\<lambda>dev. first_chan i (mhi_chan c i) (dev\<lparr>dev_type := MHI_XFER_TYPE\<rparr>)) c;
                c = set_ch_dev i d c;
                pair = pairs_with_next c i;
                j = (if pair then Suc i else i);
                c = (if pair then set_ch_dev j d (upd_device d (second_chan j (mhi_chan c j)) c) else c);
                c = upd_device d (\<lambda>dev. dev\<lparr>dev_chan_name := ch_name (mhi_chan c j)\<rparr>) c;
                (ok, c) = device_add os bind d c;
                c = (if \<not> ok then (mhi_dealloc_device d c)\<lparr>ub := True\<rparr> else c)
            in (Some (Suc j), emit (Sysfs_group d) c))"

fun create_loop ::
  "mhi_os \<Rightarrow> (nat \<Rightarrow> mhi_controller \<Rightarrow> mhi_controller) \<Rightarrow> nat \<Rightarrow> nat \<Rightarrow> mhi_controller \<Rightarrow> mhi_controller" where
  "create_loop os bind 0 i c = c"
| "create_loop os bind (Suc fuel) i c =
     (if max_chan c \<le> i then c
      else case create_one os bind i c of
          (None, c) \<Rightarrow> c
        | (Some j, c) \<Rightarrow> create_loop os bind fuel j c)"

text \<open>Every round moves on by one channel at least, so \<open>max_chan\<close> rounds are enough.\<close>

definition mhi_create_devices ::
  "mhi_os \<Rightarrow> (nat \<Rightarrow> mhi_controller \<Rightarrow> mhi_controller) \<Rightarrow> mhi_controller \<Rightarrow> mhi_controller" where
  "mhi_create_devices os bind c =
     (let c = mhi_create_time_sync_dev os bind c in create_loop os bind (max_chan c) 0 c)"

definition clear_ch_dev :: "nat option \<Rightarrow> mhi_controller \<Rightarrow> mhi_controller" where
  "clear_ch_dev ch c = (case ch of None \<Rightarrow> c | Some i \<Rightarrow> upd_chan i (\<lambda>ch. ch\<lparr>ch_mhi_dev := None\<rparr>) c)"

definition mhi_release_device :: "nat \<Rightarrow> mhi_controller \<Rightarrow> mhi_controller" where
  "mhi_release_device d c =
     emit (Device_free d) (clear_ch_dev (dl_chan (devices c d)) (clear_ch_dev (ul_chan (devices c d)) c))"

definition mhi_destroy_device ::
  "(nat \<Rightarrow> mhi_controller \<Rightarrow> mhi_controller option) \<Rightarrow> nat \<Rightarrow> mhi_controller \<Rightarrow> mhi_controller option" where
  "mhi_destroy_device unbind d c =
     (if dev_type (devices c d) = MHI_CONTROLLER_TYPE then Some c
      else map_option (\<lambda>c. mhi_release_device d (c\<lparr>bus_devs := removeAll d (bus_devs c)\<rparr>))
             (unbind d (emit (Device_del d) (emit (Sysfs_remove d) c))))"

fun destroy_each ::
  "(nat \<Rightarrow> mhi_controller \<Rightarrow> mhi_controller option) \<Rightarrow> nat list \<Rightarrow> mhi_controller \<Rightarrow> mhi_controller option" where
  "destroy_each unbind [] c = Some c"
| "destroy_each unbind (d # ds) c = Option.bind (mhi_destroy_device unbind d c) (destroy_each unbind ds)"

section \<open>Mission mode\<close>

definition arm_hw_event :: "nat \<Rightarrow> mhi_controller \<Rightarrow> mhi_controller" where
  "arm_hw_event i c =
     (if offload_ev (mhi_event c i) \<or> \<not> hw_ring (mhi_event c i) then c
      else
        let c = upd_event i (\<lambda>e. e\<lparr>ev_ring := arm_ring (ev_ring e)\<rparr>) c
        in if MHI_DB_ACCESS_VALID (pm_state c) then mhi_ring_er_db i c else c)"

definition mhi_pm_mission_mode_transition ::
  "mhi_os \<Rightarrow> (mhi_controller \<Rightarrow> mhi_controller) \<Rightarrow> (mhi_controller \<Rightarrow> mhi_controller) \<Rightarrow>
   (nat \<Rightarrow> mhi_controller \<Rightarrow> mhi_controller) \<Rightarrow> mhi_controller \<Rightarrow> (unit res \<times> mhi_controller) option" where
  "mhi_pm_mission_mode_transition os env_m0 env_ts bind c =
     (case device_get_sync env_m0 (emit (Status_cb MHI_CB_EE_MISSION_MODE) c) of
        (Inl e, c) \<Rightarrow> Some (Inl e, c)
      | (Inr _, c) \<Rightarrow>
          let c = (if MHI_REG_ACCESS_VALID (pm_state c) then c\<lparr>ee := mhi_get_exec_env os c\<rparr> else c)
          in if \<not> MHI_IN_MISSION_MODE (ee c) then Some (Inl EIO, wake_put False c)
             else
               let c = emit Wake_up_all c
               in if MHI_PM_IN_ERROR_STATE (pm_state c) then Some (Inl EIO, wake_put False c)
                  else map_option (\<lambda>(_, c). (Inr (), wake_put False (mhi_create_devices os bind c)))
                         (mhi_init_timesync os env_ts (fold arm_hw_event [0..<total_ev_rings c] c)))"

section \<open>Shutting down and recovering\<close>

definition reset_cond :: "mhi_os \<Rightarrow> u32 \<Rightarrow> mhi_controller \<Rightarrow> bool \<times> u32" where
  "reset_cond os x c =
     (case mhi_read_reg_field os c (regs c) MHICTRL MHICTRL_RESET_MASK 1 of
        Inl e \<Rightarrow> (True, x) | Inr v \<Rightarrow> (v = 0, v))"

definition rewind_ring :: "u64 \<Rightarrow> mhi_tre mhi_ring \<Rightarrow> mhi_tre mhi_ring" where
  "rewind_ring rbase r = r\<lparr>rp := base r, wp := base r, ctxt_wp := rbase\<rparr>"

definition rewind_event :: "nat \<Rightarrow> mhi_controller \<Rightarrow> mhi_controller" where
  "rewind_event i c =
     (if offload_ev (mhi_event c i) then c
      else (upd_event i (\<lambda>e. e\<lparr>ev_ring := rewind_ring (er_rbase (er_ctxt c i)) (ev_ring e)\<rparr>) c)
             \<lparr>er_ctxt := (er_ctxt c)(i := (er_ctxt c i)\<lparr>er_rp := er_rbase (er_ctxt c i)\<rparr>)\<rparr>)"

definition rewind_cmd :: "mhi_controller \<Rightarrow> mhi_controller" where
  "rewind_cmd c = c\<lparr>cmd_ring := rewind_ring (cmd_rbase (cmd_ctxt c)) (cmd_ring c),
     cmd_ctxt := (cmd_ctxt c)\<lparr>cmd_rp := cmd_rbase (cmd_ctxt c)\<rparr>\<rparr>"

definition kill_tasklets :: "mhi_controller \<Rightarrow> mhi_controller" where
  "kill_tasklets c = fold (\<lambda>i c. if offload_ev (mhi_event c i) then c else emit (Tasklet_kill i) c) [0..<total_ev_rings c] c"

text \<open>The reset of the device; \<open>False\<close> when a device in recovery does not come out of it.\<close>

definition reset_device ::
  "mhi_os \<Rightarrow> (mhi_controller \<Rightarrow> mhi_controller) list \<Rightarrow> u32 \<Rightarrow> u32 \<Rightarrow> mhi_controller \<Rightarrow> bool \<times> mhi_controller" where
  "reset_device os es prev_state cur_state c =
     (if \<not> MHI_REG_ACCESS_VALID prev_state then (True, c)
      else
        let c = mhi_set_mhi_state os MHI_STATE_RESET c;
            (ret, in_reset, c) = wait_reading es (reset_cond os) 0xFFFFFFFF c
        in if (\<not> ret \<or> in_reset \<noteq> 0) \<and> cur_state = MHI_PM_SYS_ERR_PROCESS then (False, c)
           else (True, mhi_write_reg (bhi c) BHI_INTVEC (msi_irq_base c) (set_num_rings os c)))"

definition after_devices ::
  "mhi_os \<Rightarrow> (mhi_controller \<Rightarrow> mhi_controller) list \<Rightarrow> u32 \<Rightarrow> mhi_controller \<Rightarrow> mhi_controller" where
  "after_devices os es_ready cur_state c =
     (let c = emit (Flush_work Fw_worker) (emit (Flush_work St_worker) (emit (Flush_work Ready_worker) (emit Wake_up_all c)));
          c = mhi_destroy_timesync (fold rewind_event [0..<total_ev_rings c] (rewind_cmd c))
      in if cur_state = MHI_PM_SYS_ERR_PROCESS
         then (if mhi_get_exec_env os c = MHI_EE_EDL \<and> mhi_get_mhi_state os c = MHI_STATE_RESET
               then snd (mhi_tryset_pm_state MHI_PM_POR (c\<lparr>ee := MHI_EE_EDL\<rparr>))
               else snd (mhi_ready_state_transition os es_ready c))
         else snd (mhi_tryset_pm_state MHI_PM_DISABLE c))"

definition mhi_pm_disable_transition ::
  "mhi_os \<Rightarrow> (mhi_controller \<Rightarrow> mhi_controller) list \<Rightarrow> (mhi_controller \<Rightarrow> mhi_controller) list \<Rightarrow>
   (nat \<Rightarrow> mhi_controller \<Rightarrow> mhi_controller option) \<Rightarrow> u32 \<Rightarrow> mhi_controller \<Rightarrow> mhi_controller option" where
  "mhi_pm_disable_transition os es_reset es_ready unbind target c =
     (let c = (if target = MHI_PM_SYS_ERR_PROCESS then emit (Status_cb MHI_CB_SYS_ERROR) c else c);
          prev_state = pm_state c;
          (cur_state, c) = mhi_tryset_pm_state target c;
          c = (if cur_state = target then c\<lparr>ee := MHI_EE_DISABLE_TRANSITION, dev_state := MHI_STATE_RESET\<rparr> else c);
          c = emit Wake_up_all c
      in if cur_state \<noteq> target then Some c
         else
           let (ok, c) = reset_device os es_reset prev_state cur_state c
           in if \<not> ok then Some c
              else let c = kill_tasklets c
                   in map_option (after_devices os es_ready cur_state) (destroy_each unbind (bus_devs c) c))"

definition mhi_pm_sys_err_worker ::
  "mhi_os \<Rightarrow> (mhi_controller \<Rightarrow> mhi_controller) list \<Rightarrow> (mhi_controller \<Rightarrow> mhi_controller) list \<Rightarrow>
   (nat \<Rightarrow> mhi_controller \<Rightarrow> mhi_controller option) \<Rightarrow> mhi_controller \<Rightarrow> mhi_controller option" where
  "mhi_pm_sys_err_worker os es_reset es_ready unbind c =
     mhi_pm_disable_transition os es_reset es_ready unbind MHI_PM_SYS_ERR_PROCESS c"

definition mhi_debugfs_trigger_reset ::
  "(mhi_controller \<Rightarrow> mhi_controller) \<Rightarrow> mhi_controller \<Rightarrow> unit res \<times> mhi_controller" where
  "mhi_debugfs_trigger_reset env c =
     (let (ret, c) = wait_event_timeout env
            (\<lambda>c. dev_state c = MHI_STATE_M0 \<or> MHI_PM_IN_ERROR_STATE (pm_state c))
            (emit Runtime_put (emit Runtime_get c))
      in if \<not> ret \<or> MHI_PM_IN_ERROR_STATE (pm_state c) then (Inl EIO, c)
         else let (cur_state, c) = mhi_tryset_pm_state MHI_PM_SYS_ERR_DETECT c
              in (Inr (), if cur_state = MHI_PM_SYS_ERR_DETECT then emit (Schedule_work Syserr_worker) c else c))"

definition mhi_force_rddm_mode ::
  "mhi_os \<Rightarrow> (mhi_controller \<Rightarrow> mhi_controller) \<Rightarrow> mhi_controller \<Rightarrow> unit res \<times> mhi_controller" where
  "mhi_force_rddm_mode os env c =
     (let (ret, c) = wait_event_timeout env (\<lambda>c. ee c = MHI_EE_RDDM) (mhi_set_mhi_state os MHI_STATE_SYS_ERR c)
      in (if ret then Inr () else Inl EIO, c))"

section \<open>Workers\<close>

text \<open>A delayed work is recorded as scheduled; when it runs is up to the kernel.\<close>

definition mhi_pm_ready_worker :: "mhi_os \<Rightarrow> mhi_controller \<Rightarrow> mhi_controller" where
  "mhi_pm_ready_worker os c =
     (if dev_state c \<noteq> MHI_STATE_RESET then c
      else
        let env = (if MHI_REG_ACCESS_VALID (pm_state c) then mhi_get_exec_env os c else MHI_EE_MAX)
        in if env = MHI_EE_PTHRU then emit (Delayed_work Ready_worker) c
           else if env = MHI_EE_AMSS \<or> env = MHI_EE_SBL
           then snd (mhi_queue_state_transition os MHI_ST_TRANSITION_READY c)
           else if env = MHI_EE_EDL then snd (mhi_queue_state_transition os MHI_ST_TRANSITION_PBL c)
           else c)"

text \<open>What happens during the waits of one transition.\<close>

record st_env =
  env_m0 :: "mhi_controller \<Rightarrow> mhi_controller"
  env_ts :: "mhi_controller \<Rightarrow> mhi_controller"
  env_ready :: "(mhi_controller \<Rightarrow> mhi_controller) list"

definition st_transition ::
  "mhi_os \<Rightarrow> st_env \<Rightarrow> (nat \<Rightarrow> mhi_controller \<Rightarrow> mhi_controller) \<Rightarrow> MHI_ST_TRANSITION \<Rightarrow> mhi_controller \<Rightarrow>
   mhi_controller option" where
  "st_transition os e bind st c =
     (case st of
        MHI_ST_TRANSITION_PBL \<Rightarrow>
          (let c = (if MHI_REG_ACCESS_VALID (pm_state c) then c\<lparr>ee := mhi_get_exec_env os c\<rparr> else c)
           in Some (if MHI_IN_PBL (ee c) then emit Wake_up_all c else c))
      | MHI_ST_TRANSITION_SBL \<Rightarrow>
          Some (mhi_create_devices os bind (emit Wake_up_all (c\<lparr>ee := MHI_EE_SBL\<rparr>)))
      | MHI_ST_TRANSITION_MISSION_MODE \<Rightarrow>
          map_option snd (mhi_pm_mission_mode_transition os (env_m0 e) (env_ts e) bind c)
      | MHI_ST_TRANSITION_READY \<Rightarrow> Some (snd (mhi_ready_state_transition os (env_ready e) c))
      | MHI_ST_TRANSITION_FP \<Rightarrow>
          Some (mhi_create_devices os bind (emit Wake_up_all (c\<lparr>ee := MHI_EE_FP\<rparr>)))
      | MHI_ST_TRANSITION_MAX \<Rightarrow> Some c)"

fun st_run ::
  "mhi_os \<Rightarrow> (nat \<Rightarrow> st_env) \<Rightarrow> (nat \<Rightarrow> mhi_controller \<Rightarrow> mhi_controller) \<Rightarrow> nat \<Rightarrow> MHI_ST_TRANSITION list \<Rightarrow>
   mhi_controller \<Rightarrow> mhi_controller option" where
  "st_run os es bind n [] c = Some c"
| "st_run os es bind n (st # sts) c =
     Option.bind (st_transition os (es n) bind st c) (st_run os es bind (Suc n) sts)"

definition mhi_pm_st_worker ::
  "mhi_os \<Rightarrow> (nat \<Rightarrow> st_env) \<Rightarrow> (nat \<Rightarrow> mhi_controller \<Rightarrow> mhi_controller) \<Rightarrow> mhi_controller \<Rightarrow>
   mhi_controller option" where
  "mhi_pm_st_worker os es bind c = st_run os es bind 0 (transition_list c) (c\<lparr>transition_list := []\<rparr>)"

section \<open>Power up\<close>

definition free_irqs_and_ctxt :: "mhi_controller \<Rightarrow> mhi_controller" where
  "free_irqs_and_ctxt c = (if pre_init c then c else mhi_deinit_dev_ctxt (mhi_deinit_free_irq c))"

definition set_up_ctxt :: "mhi_os \<Rightarrow> mhi_controller \<Rightarrow> unit res \<times> mhi_controller" where
  "set_up_ctxt os c =
     (if pre_init c then (Inr (), c)
      else case mhi_init_dev_ctxt os c of
          (Inl e, c) \<Rightarrow> (Inl e, c)
        | (Inr _, c) \<Rightarrow>
            (case mhi_init_irq_setup os c of
               (Inl e, c) \<Rightarrow> (Inl e, mhi_deinit_dev_ctxt c)
             | (Inr _, c) \<Rightarrow> (Inr (), c)))"

definition set_up_bhi :: "mhi_os \<Rightarrow> mhi_controller \<Rightarrow> unit res \<times> mhi_controller" where
  "set_up_bhi os c =
     (case mhi_read_reg os c (regs c) BHIOFF of
        Inl e \<Rightarrow> (Inl e, free_irqs_and_ctxt c)
      | Inr v \<Rightarrow>
          let c = c\<lparr>bhi := regs c + ucast v\<rparr>
          in case mhi_read_reg os c (regs c) BHIEOFF of
               Inl e \<Rightarrow> (Inl e, free_irqs_and_ctxt c)
             | Inr v \<Rightarrow> (Inr (), c\<lparr>bhie := regs c + ucast v\<rparr>))"

text \<open>\<open>env\<close> is what happens during the sleep after a device that is still up has been reset.\<close>

definition set_event_ring_counts :: "mhi_os \<Rightarrow> mhi_controller \<Rightarrow> mhi_controller" where
  "set_event_ring_counts os c =
     (let v = (case mhi_read_reg os c (regs c) MHICFG of Inl e \<Rightarrow> stack_word os | Inr v \<Rightarrow> v);
          v = (v AND NOT MHICFG_NER_MASK) OR push_bit 16 (of_nat NUM_MHI_EVT_RINGS);
          v = (v AND NOT MHICFG_NHWER_MASK) OR push_bit 24 (of_nat NUM_MHI_HW_EVT_RINGS)
      in mhi_write_reg (regs c) MHICFG v c)"

text \<open>The list of the monitors starts empty; the files themselves are not modelled.\<close>

definition mhi_init_debugfs :: "mhi_controller \<Rightarrow> mhi_controller" where
  "mhi_init_debugfs c = c\<lparr>r_list := []\<rparr>"

lemma mhi_init_debugfs_frame [simp]:
  "pm_state (mhi_init_debugfs c) = pm_state c" "dev_state (mhi_init_debugfs c) = dev_state c"
  "ee (mhi_init_debugfs c) = ee c" "mhi_ctxt (mhi_init_debugfs c) = mhi_ctxt c"
  "transition_list (mhi_init_debugfs c) = transition_list c" "trace (mhi_init_debugfs c) = trace c"
  "n_alloc (mhi_init_debugfs c) = n_alloc c" "mhi_get_exec_env os (mhi_init_debugfs c) = mhi_get_exec_env os c"
  by (simp_all add: mhi_init_debugfs_def mhi_get_exec_env_def mhi_read_reg_def)

definition mhi_async_power_up ::
  "mhi_os \<Rightarrow> (mhi_controller \<Rightarrow> mhi_controller) \<Rightarrow> mhi_controller \<Rightarrow> unit res \<times> mhi_controller" where
  "mhi_async_power_up os env c =
     (let c = (if dev_state_val MHI_STATE_M0 \<le> dev_state_val (mhi_get_mhi_state os c)
               then env (mhi_set_mhi_state os MHI_STATE_RESET c) else c);
          c = set_event_ring_counts os c;
          c = c\<lparr>pm_state := MHI_PM_DISABLE, dev_state := MHI_STATE_RESET\<rparr>
      in case set_up_ctxt os c of
           (Inl e, c) \<Rightarrow> (Inl e, c)
         | (Inr _, c) \<Rightarrow>
             (case set_up_bhi os c of
                (Inl e, c) \<Rightarrow> (Inl e, c)
              | (Inr _, c) \<Rightarrow>
                  let c = mhi_write_reg (bhi c) BHI_INTVEC (msi_irq_base c) c;
                      c = c\<lparr>pm_state := MHI_PM_POR, ee := MHI_EE_MAX\<rparr>
                  in (Inr (), mhi_init_debugfs
                        (if MHI_IN_PBL (mhi_get_exec_env os c) then emit (Delayed_work Ready_worker) c
                         else snd (mhi_queue_state_transition os MHI_ST_TRANSITION_READY c)))))"

definition mhi_sync_power_up ::
  "mhi_os \<Rightarrow> (mhi_controller \<Rightarrow> mhi_controller) \<Rightarrow> (mhi_controller \<Rightarrow> mhi_controller) \<Rightarrow> mhi_controller \<Rightarrow>
   unit res \<times> mhi_controller" where
  "mhi_sync_power_up os env env_up c =
     (case mhi_async_power_up os env c of
        (Inl e, c) \<Rightarrow> (Inl e, c)
      | (Inr _, c) \<Rightarrow>
          let (_, c) = wait_event_timeout env_up
                (\<lambda>c. MHI_IN_MISSION_MODE (ee c) \<or> MHI_PM_IN_ERROR_STATE (pm_state c)) c
          in (if MHI_IN_MISSION_MODE (ee c) then Inr () else Inl EIO, c))"

definition drop_rddm_image :: "mhi_controller \<Rightarrow> mhi_controller" where
  "drop_rddm_image c =
     (case rddm_image c of None \<Rightarrow> c | Some img \<Rightarrow> (mhi_free_bhie_table img c)\<lparr>rddm_image := None\<rparr>)"

definition mhi_prepare_for_power_up :: "mhi_os \<Rightarrow> mhi_controller \<Rightarrow> unit res \<times> mhi_controller" where
  "mhi_prepare_for_power_up os c =
     (case mhi_init_dev_ctxt os c of
        (Inl e, c) \<Rightarrow> (Inl e, c)
      | (Inr _, c) \<Rightarrow>
          (case mhi_init_irq_setup os c of
             (Inl e, c) \<Rightarrow> (Inl e, mhi_deinit_dev_ctxt c)
           | (Inr _, c) \<Rightarrow>
               if rddm_size c = 0 then (Inr (), c\<lparr>pre_init := True\<rparr>)
               else
                 let c = (case mhi_alloc_bhie_table os (rddm_size c) c of
                            (Inl e, c) \<Rightarrow> c | (Inr img, c) \<Rightarrow> c\<lparr>rddm_image := Some img\<rparr>)
                 in case mhi_read_reg os c (regs c) BHIEOFF of
                      Inl e \<Rightarrow> (Inl e, mhi_deinit_dev_ctxt (mhi_deinit_free_irq (drop_rddm_image c)))
                    | Inr off \<Rightarrow>
                        (Inr (), (fold (\<lambda>k. mhi_write_reg (regs c + ucast off + ucast BHIE_RXVECADDR_LOW_OFFS + 4 * of_nat k) 0 0)
                                   [0..<7] c)\<lparr>pre_init := True\<rparr>)))"

section \<open>Power down\<close>

definition mhi_power_down ::
  "mhi_os \<Rightarrow> (mhi_controller \<Rightarrow> mhi_controller) list \<Rightarrow> (mhi_controller \<Rightarrow> mhi_controller) list \<Rightarrow>
   (nat \<Rightarrow> mhi_controller \<Rightarrow> mhi_controller option) \<Rightarrow> bool \<Rightarrow> mhi_controller \<Rightarrow> mhi_controller option" where
  "mhi_power_down os es_reset es_ready unbind graceful c =
     map_option (\<lambda>c. if pre_init c then c else mhi_deinit_dev_ctxt (mhi_deinit_free_irq (drop_fbc_image c)))
       (mhi_pm_disable_transition os es_reset es_ready unbind MHI_PM_SHUTDOWN_PROCESS
          (if graceful then c else snd (mhi_tryset_pm_state MHI_PM_LD_ERR_FATAL_DETECT c)))"

definition mhi_unprepare_after_power_down :: "mhi_controller \<Rightarrow> mhi_controller" where
  "mhi_unprepare_after_power_down c =
     (mhi_deinit_dev_ctxt (mhi_deinit_free_irq (drop_rddm_image (drop_fbc_image c))))\<lparr>pre_init := False\<rparr>"

section \<open>Shutting down\<close>

text \<open>What the rest of the system leaves alone while the controller is being shut down.\<close>

definition down_keeps :: "mhi_controller \<Rightarrow> mhi_controller \<Rightarrow> bool" where
  "down_keeps c c' \<longleftrightarrow> pm_state c' = pm_state c \<and> ee c' = ee c \<and> dev_state c' = dev_state c
     \<and> bus_devs c' = bus_devs c \<and> devices c' = devices c \<and> total_ev_rings c' = total_ev_rings c
     \<and> pre_init c' = pre_init c \<and> (\<forall>i. offload_ev (mhi_event c' i) = offload_ev (mhi_event c i))"

lemma down_keeps_refl [simp]: "down_keeps c c"
  by (simp add: down_keeps_def)

lemma down_keeps_trans [trans]: "down_keeps a b \<Longrightarrow> down_keeps b c \<Longrightarrow> down_keeps a c"
  by (simp add: down_keeps_def)

lemma down_keeps_emit [simp]: "down_keeps c (emit e x) = down_keeps c x" "down_keeps (emit e c) x = down_keeps c x"
  by (simp_all add: down_keeps_def emit_def)

lemma mmio_only_keeps: "mmio_only c c' \<Longrightarrow> down_keeps c c'"
  unfolding mmio_only_def by (elim exE) (simp add: down_keeps_def)

lemma mmio_only_writes:
  "mmio_only c (mhi_write_reg b off v c)" "mmio_only c (mhi_set_mhi_state os st c)"
  "mmio_only c (set_num_rings os c)"
proof -
  show "mmio_only c (mhi_write_reg b off v c)"
    unfolding mmio_only_def mhi_write_reg_def emit_def by (intro exI, simp)
  show "mmio_only c (mhi_set_mhi_state os st c)"
    by (simp add: mhi_set_mhi_state_def write_field_mmio_only)
  show "mmio_only c (set_num_rings os c)"
    unfolding set_num_rings_def by (rule mmio_only_trans [OF write_field_mmio_only write_field_mmio_only])
qed

lemma wait_reading_keeps:
  "\<forall>e \<in> set es. \<forall>x. down_keeps x (e x) \<Longrightarrow> down_keeps c (snd (snd (wait_reading es cond x c)))"
proof (induction es arbitrary: x c)
  case Nil
  then show ?case by (simp add: Let_def split: prod.split)
next
  case (Cons e es)
  have "down_keeps c (e c)" using Cons.prems by simp
  moreover have "down_keeps (e c) (snd (snd (wait_reading es cond y (e c))))" for y
    using Cons by simp
  ultimately show ?case by (auto simp: Let_def split: prod.split intro: down_keeps_trans)
qed

lemma reset_device_keeps:
  assumes "\<forall>e \<in> set es. \<forall>x. down_keeps x (e x)"
  shows "down_keeps c (snd (reset_device os es prev cur c))"
    and "cur \<noteq> MHI_PM_SYS_ERR_PROCESS \<Longrightarrow> fst (reset_device os es prev cur c)"
proof -
  let ?c1 = "mhi_set_mhi_state os MHI_STATE_RESET c"
  obtain r x c2 where w: "wait_reading es (reset_cond os) 0xFFFFFFFF ?c1 = (r, x, c2)"
    by (cases "wait_reading es (reset_cond os) 0xFFFFFFFF ?c1")
  have "down_keeps ?c1 c2" using wait_reading_keeps [OF assms, of ?c1 "reset_cond os" "0xFFFFFFFF"] w by simp
  then have k: "down_keeps c c2" using mmio_only_keeps [OF mmio_only_writes(2)] down_keeps_trans by blast
  have "down_keeps c2 (mhi_write_reg (bhi c3) BHI_INTVEC v (set_num_rings os c2))" for c3 v
    using mmio_only_keeps mmio_only_writes mmio_only_trans by blast
  then show "down_keeps c (snd (reset_device os es prev cur c))"
    using k down_keeps_trans by (simp add: reset_device_def w Let_def) blast
  show "cur \<noteq> MHI_PM_SYS_ERR_PROCESS \<Longrightarrow> fst (reset_device os es prev cur c)"
    by (simp add: reset_device_def w Let_def)
qed

lemma kill_tasklets_keeps: "down_keeps c (kill_tasklets c)"
proof -
  have "down_keeps c (fold (\<lambda>i c. if offload_ev (mhi_event c i) then c else emit (Tasklet_kill i) c) xs c)" for xs
  proof (induction xs arbitrary: c)
    case (Cons i xs)
    show ?case using Cons [of c] Cons [of "emit (Tasklet_kill i) c"] by simp
  qed simp
  then show ?thesis by (simp add: kill_tasklets_def)
qed

definition unbind_ok :: "(nat \<Rightarrow> mhi_controller \<Rightarrow> mhi_controller option) \<Rightarrow> bool" where
  "unbind_ok unbind \<longleftrightarrow> (\<forall>d x. \<exists>y. unbind d x = Some y \<and> down_keeps x y)"

lemma release_device_keeps: "down_keeps c (mhi_release_device d c)"
  by (simp add: mhi_release_device_def clear_ch_dev_def down_keeps_def emit_def upd_chan_def split: option.split)

text \<open>The controller's own device stays on the bus, every other one goes.\<close>

definition own_devs :: "mhi_controller \<Rightarrow> nat list" where
  "own_devs c = filter (\<lambda>d. dev_type (devices c d) = MHI_CONTROLLER_TYPE) (bus_devs c)"

definition destroy_one :: "nat \<Rightarrow> mhi_controller \<Rightarrow> mhi_controller" where
  "destroy_one d c = (if dev_type (devices c d) = MHI_CONTROLLER_TYPE then c else c\<lparr>bus_devs := removeAll d (bus_devs c)\<rparr>)"

lemma destroy_device_keeps:
  assumes "unbind_ok unbind"
  shows "\<exists>c'. mhi_destroy_device unbind d c = Some c' \<and> down_keeps (destroy_one d c) c'"
proof -
  obtain y where y: "unbind d (emit (Device_del d) (emit (Sysfs_remove d) c)) = Some y" "down_keeps c y"
    using assms unfolding unbind_ok_def by (metis down_keeps_emit(2))
  show ?thesis
    using y release_device_keeps [of "y\<lparr>bus_devs := removeAll d (bus_devs y)\<rparr>" d]
    by (simp add: mhi_destroy_device_def destroy_one_def down_keeps_def)
qed

lemma destroy_each_all:
  assumes "unbind_ok unbind"
  shows "\<exists>c'. destroy_each unbind ds c = Some c' \<and> down_keeps
    (c\<lparr>bus_devs := filter (\<lambda>d. d \<in> set ds \<longrightarrow> dev_type (devices c d) = MHI_CONTROLLER_TYPE) (bus_devs c)\<rparr>) c'"
proof (induction ds arbitrary: c)
  case Nil
  then show ?case by (simp add: down_keeps_def)
next
  case (Cons d ds)
  obtain y where y: "mhi_destroy_device unbind d c = Some y" "down_keeps (destroy_one d c) y"
    using destroy_device_keeps [OF assms] by blast
  obtain c' where c': "destroy_each unbind ds y = Some c'"
    "down_keeps (y\<lparr>bus_devs := filter (\<lambda>d. d \<in> set ds \<longrightarrow> dev_type (devices y d) = MHI_CONTROLLER_TYPE) (bus_devs y)\<rparr>) c'"
    using Cons.IH by blast
  have "filter (\<lambda>d. d \<in> set ds \<longrightarrow> dev_type (devices y d) = MHI_CONTROLLER_TYPE) (bus_devs y)
      = filter (\<lambda>x. x \<in> set (d # ds) \<longrightarrow> dev_type (devices c x) = MHI_CONTROLLER_TYPE) (bus_devs c)"
    using y(2) by (auto simp: down_keeps_def destroy_one_def removeAll_filter_not_eq intro!: filter_cong)
  then show ?case using c' y by (simp add: down_keeps_def destroy_one_def split: if_splits)
qed

lemma destroy_bus:
  assumes "unbind_ok unbind"
  shows "\<exists>c'. destroy_each unbind (bus_devs c) c = Some c' \<and> down_keeps (c\<lparr>bus_devs := own_devs c\<rparr>) c'"
proof -
  have "filter (\<lambda>d. d \<in> set (bus_devs c) \<longrightarrow> dev_type (devices c d) = MHI_CONTROLLER_TYPE) (bus_devs c) = own_devs c"
    unfolding own_devs_def by (rule filter_cong) simp_all
  then show ?thesis using destroy_each_all [OF assms, of "bus_devs c" c] by simp
qed

text \<open>Both rings of the host side rewound.\<close>

lemma rewind_event_fields:
  "pm_state (rewind_event i c) = pm_state c" "down_keeps c (rewind_event i c)"
  "ev_ring (mhi_event (rewind_event i c) j) = (if j = i \<and> \<not> offload_ev (mhi_event c i)
     then rewind_ring (er_rbase (er_ctxt c i)) (ev_ring (mhi_event c i)) else ev_ring (mhi_event c j))"
  "cmd_ring (rewind_event i c) = cmd_ring c"
  by (simp_all add: rewind_event_def down_keeps_def upd_event_def)

lemma rewind_events:
  "let c' = fold rewind_event [0..<n] c in down_keeps c c' \<and> cmd_ring c' = cmd_ring c
     \<and> (\<forall>i < n. \<not> offload_ev (mhi_event c i) \<longrightarrow>
          rp (ev_ring (mhi_event c' i)) = base (ev_ring (mhi_event c' i))
          \<and> wp (ev_ring (mhi_event c' i)) = base (ev_ring (mhi_event c' i)))"
proof (induction n)
  case 0
  then show ?case by simp
next
  case (Suc n)
  let ?c = "fold rewind_event [0..<n] c"
  have IH: "down_keeps c ?c" "cmd_ring ?c = cmd_ring c" "\<forall>i < n. \<not> offload_ev (mhi_event c i) \<longrightarrow>
          rp (ev_ring (mhi_event ?c i)) = base (ev_ring (mhi_event ?c i))
          \<and> wp (ev_ring (mhi_event ?c i)) = base (ev_ring (mhi_event ?c i))"
    using Suc by (simp_all add: Let_def)
  have o: "offload_ev (mhi_event ?c n) = offload_ev (mhi_event c n)" using IH(1) by (simp add: down_keeps_def)
  have "down_keeps c (rewind_event n ?c)" using IH(1) rewind_event_fields(2) down_keeps_trans by blast
  then show ?case using IH o
    by (auto simp: Let_def rewind_event_fields less_Suc_eq rewind_ring_def)
qed

lemma shutdown_to_disable: "tryset_target MHI_PM_SHUTDOWN_PROCESS MHI_PM_DISABLE = MHI_PM_DISABLE"
  "MHI_PM_SHUTDOWN_PROCESS \<noteq> MHI_PM_SYS_ERR_PROCESS"
  by code_simp+

lemma destroy_timesync_fields [simp]:
  "pm_state (mhi_destroy_timesync c) = pm_state c" "mhi_tsync (mhi_destroy_timesync c) = None"
  "mhi_event (mhi_destroy_timesync c) = mhi_event c" "cmd_ring (mhi_destroy_timesync c) = cmd_ring c"
  "down_keeps x (mhi_destroy_timesync c) = down_keeps x c"
  by (auto simp: mhi_destroy_timesync_def down_keeps_def emit_def)

definition host_quiet :: "mhi_controller \<Rightarrow> bool" where
  "host_quiet c \<longleftrightarrow> mhi_tsync c = None \<and> rp (cmd_ring c) = base (cmd_ring c) \<and> wp (cmd_ring c) = base (cmd_ring c)
     \<and> (\<forall>i < total_ev_rings c. \<not> offload_ev (mhi_event c i) \<longrightarrow>
          rp (ev_ring (mhi_event c i)) = base (ev_ring (mhi_event c i))
          \<and> wp (ev_ring (mhi_event c i)) = base (ev_ring (mhi_event c i)))"

lemma after_devices_shutdown:
  assumes "pm_state c = MHI_PM_SHUTDOWN_PROCESS"
  shows "let c' = after_devices os es MHI_PM_SHUTDOWN_PROCESS c in
     down_keeps (c\<lparr>pm_state := MHI_PM_DISABLE\<rparr>) c' \<and> host_quiet c'"
proof -
  define c1 where "c1 = emit (Flush_work Fw_worker) (emit (Flush_work St_worker) (emit (Flush_work Ready_worker) (emit Wake_up_all c)))"
  have k1: "down_keeps c (rewind_cmd c1)" by (simp add: c1_def down_keeps_def rewind_cmd_def emit_def)
  define c2 where "c2 = fold rewind_event [0..<total_ev_rings c1] (rewind_cmd c1)"
  have r: "down_keeps (rewind_cmd c1) c2" "cmd_ring c2 = cmd_ring (rewind_cmd c1)"
    "\<forall>i < total_ev_rings c1. \<not> offload_ev (mhi_event (rewind_cmd c1) i) \<longrightarrow>
          rp (ev_ring (mhi_event c2 i)) = base (ev_ring (mhi_event c2 i))
          \<and> wp (ev_ring (mhi_event c2 i)) = base (ev_ring (mhi_event c2 i))"
    using rewind_events [of "total_ev_rings c1" "rewind_cmd c1"] unfolding c2_def Let_def by blast+
  have k2: "down_keeps c c2" using k1 r(1) down_keeps_trans by blast
  let ?c3 = "mhi_destroy_timesync c2"
  have run: "after_devices os es MHI_PM_SHUTDOWN_PROCESS c = ?c3\<lparr>pm_state := MHI_PM_DISABLE\<rparr>"
    using k2 assms shutdown_to_disable
    by (simp add: after_devices_def c1_def [symmetric] c2_def [symmetric] Let_def tryset_eq down_keeps_def)
  have "down_keeps c ?c3" using k2 by simp
  then have "down_keeps (c\<lparr>pm_state := MHI_PM_DISABLE\<rparr>) (?c3\<lparr>pm_state := MHI_PM_DISABLE\<rparr>)" by (simp add: down_keeps_def)
  moreover have "host_quiet (?c3\<lparr>pm_state := MHI_PM_DISABLE\<rparr>)"
  proof -
    have t: "total_ev_rings ?c3 = total_ev_rings c1" "offload_ev (mhi_event (rewind_cmd c1) i) = offload_ev (mhi_event c2 i)" for i
      using k2 r(1) by (simp_all add: mhi_destroy_timesync_def down_keeps_def c1_def)
    have "rp (cmd_ring c2) = base (cmd_ring c2)" "wp (cmd_ring c2) = base (cmd_ring c2)"
      by (simp_all add: r(2) rewind_cmd_def rewind_ring_def)
    then show ?thesis using r(3) unfolding t(2) by (simp add: host_quiet_def t(1))
  qed
  ultimately show ?thesis unfolding run Let_def by blast
qed

section \<open>Taking the link down\<close>

text \<open>The state a shutdown starts from, and the states in which none can start.\<close>

definition down_start :: "bool \<Rightarrow> u32 \<Rightarrow> u32" where
  "down_start graceful s = (if graceful then s else tryset_target s MHI_PM_LD_ERR_FATAL_DETECT)"

lemma down_start_table:
  "list_all (\<lambda>s. list_all (\<lambda>g. s \<noteq> MHI_PM_DISABLE \<and> (s = MHI_PM_SHUTDOWN_PROCESS \<longrightarrow> \<not> g)
     \<longrightarrow> tryset_target (down_start g s) MHI_PM_SHUTDOWN_PROCESS = MHI_PM_SHUTDOWN_PROCESS) [True, False]) pm_states"
  "tryset_target (down_start g MHI_PM_DISABLE) MHI_PM_SHUTDOWN_PROCESS = MHI_PM_DISABLE"
proof -
  show "list_all (\<lambda>s. list_all (\<lambda>g. s \<noteq> MHI_PM_DISABLE \<and> (s = MHI_PM_SHUTDOWN_PROCESS \<longrightarrow> \<not> g)
     \<longrightarrow> tryset_target (down_start g s) MHI_PM_SHUTDOWN_PROCESS = MHI_PM_SHUTDOWN_PROCESS) [True, False]) pm_states"
    by code_simp
  have "tryset_target (down_start True MHI_PM_DISABLE) MHI_PM_SHUTDOWN_PROCESS = MHI_PM_DISABLE"
    "tryset_target (down_start False MHI_PM_DISABLE) MHI_PM_SHUTDOWN_PROCESS = MHI_PM_DISABLE"
    by code_simp+
  then show "tryset_target (down_start g MHI_PM_DISABLE) MHI_PM_SHUTDOWN_PROCESS = MHI_PM_DISABLE"
    by (cases g) simp_all
qed

lemma down_start_step:
  assumes "s \<in> set pm_states" and "s \<noteq> MHI_PM_DISABLE" and "s = MHI_PM_SHUTDOWN_PROCESS \<longrightarrow> \<not> g"
  shows "tryset_target (down_start g s) MHI_PM_SHUTDOWN_PROCESS = MHI_PM_SHUTDOWN_PROCESS"
  using down_start_table(1) assms by (cases g) (auto simp: list_all_iff)

lemma disable_transition_shutdown:
  assumes go: "tryset_target (pm_state c) MHI_PM_SHUTDOWN_PROCESS = MHI_PM_SHUTDOWN_PROCESS"
    and es: "\<forall>e \<in> set es. \<forall>x. down_keeps x (e x)" and un: "unbind_ok unbind"
  shows "\<exists>c'. mhi_pm_disable_transition os es es_ready unbind MHI_PM_SHUTDOWN_PROCESS c = Some c'
    \<and> down_keeps (c\<lparr>pm_state := MHI_PM_DISABLE, ee := MHI_EE_DISABLE_TRANSITION, dev_state := MHI_STATE_RESET,
               bus_devs := own_devs c\<rparr>) c' \<and> host_quiet c'"
proof -
  let ?c1 = "emit Wake_up_all (c\<lparr>pm_state := MHI_PM_SHUTDOWN_PROCESS, ee := MHI_EE_DISABLE_TRANSITION,
    dev_state := MHI_STATE_RESET\<rparr>)"
  obtain ok c2 where r: "reset_device os es (pm_state c) MHI_PM_SHUTDOWN_PROCESS ?c1 = (ok, c2)" by fastforce
  have ok: ok and k2: "down_keeps ?c1 c2"
    using reset_device_keeps [OF es, where c = ?c1 and os = os and prev = "pm_state c" and cur = MHI_PM_SHUTDOWN_PROCESS] r shutdown_to_disable(2)
    by simp_all
  let ?c3 = "kill_tasklets c2"
  have k3: "down_keeps ?c1 ?c3" using k2 kill_tasklets_keeps down_keeps_trans by blast
  have own: "own_devs ?c3 = own_devs c" using k3 by (simp add: own_devs_def down_keeps_def emit_def)
  obtain c4 where d: "destroy_each unbind (bus_devs ?c3) ?c3 = Some c4" and k4: "down_keeps (?c3\<lparr>bus_devs := own_devs c\<rparr>) c4"
    using destroy_bus [OF un, of ?c3] unfolding own by blast
  have k: "down_keeps (?c1\<lparr>bus_devs := own_devs c\<rparr>) c4" using k3 k4 by (simp add: down_keeps_def emit_def)
  then have p: "pm_state c4 = MHI_PM_SHUTDOWN_PROCESS" by (simp add: down_keeps_def emit_def)
  have run: "mhi_pm_disable_transition os es es_ready unbind MHI_PM_SHUTDOWN_PROCESS c
      = Some (after_devices os es_ready MHI_PM_SHUTDOWN_PROCESS c4)"
    using go r ok d shutdown_to_disable(2)
    by (simp add: mhi_pm_disable_transition_def Let_def tryset_eq)
  have a: "down_keeps (c4\<lparr>pm_state := MHI_PM_DISABLE\<rparr>) (after_devices os es_ready MHI_PM_SHUTDOWN_PROCESS c4)"
    "host_quiet (after_devices os es_ready MHI_PM_SHUTDOWN_PROCESS c4)"
    using after_devices_shutdown [OF p, of os es_ready] by (simp_all add: Let_def)
  have "down_keeps (c\<lparr>pm_state := MHI_PM_DISABLE, ee := MHI_EE_DISABLE_TRANSITION, dev_state := MHI_STATE_RESET,
               bus_devs := own_devs c\<rparr>) (after_devices os es_ready MHI_PM_SHUTDOWN_PROCESS c4)"
    using a(1) k by (simp add: down_keeps_def emit_def)
  with a(2) run show ?thesis by blast
qed

lemma deinit_fields [simp]:
  "pm_state (mhi_deinit_dev_ctxt c) = pm_state c" "ee (mhi_deinit_dev_ctxt c) = ee c"
  "dev_state (mhi_deinit_dev_ctxt c) = dev_state c" "bus_devs (mhi_deinit_dev_ctxt c) = bus_devs c"
  "mhi_tsync (mhi_deinit_dev_ctxt c) = mhi_tsync c" "mhi_ctxt (mhi_deinit_dev_ctxt c) = None"
  "fbc_image (mhi_deinit_dev_ctxt c) = fbc_image c" "pre_init (mhi_deinit_dev_ctxt c) = pre_init c"
  by (simp_all add: mhi_deinit_dev_ctxt_def Let_def emit_def mhi_free_coherent_def split: option.split)

text \<open>Interrupt lines come and go without touching anything else.\<close>

definition irq_only :: "mhi_controller \<Rightarrow> mhi_controller \<Rightarrow> bool" where
  "irq_only c c' \<longleftrightarrow> (\<exists>u t. c' = c\<lparr>ub := u, trace := t\<rparr>)"

lemma irq_only_trans: "irq_only a b \<Longrightarrow> irq_only b c \<Longrightarrow> irq_only a c"
  unfolding irq_only_def by (elim exE) (intro exI, simp)

lemma irq_only_touch: "irq_only c (touch_irq k c)" and irq_only_emit: "irq_only c (emit e c)"
  and irq_only_refl: "irq_only c c"
proof -
  have "touch_irq k c = c\<lparr>ub := ub (touch_irq k c), trace := trace c\<rparr>" by (simp add: touch_irq_def)
  then show "irq_only c (touch_irq k c)" unfolding irq_only_def by blast
  have "emit e c = c\<lparr>ub := ub c, trace := trace c @ [e]\<rparr>" by (simp add: emit_def)
  then show "irq_only c (emit e c)" unfolding irq_only_def by blast
  have "c = c\<lparr>ub := ub c, trace := trace c\<rparr>" by simp
  then show "irq_only c c" unfolding irq_only_def by blast
qed

lemma irq_only_step: "irq_only c c" "irq_only c (free_irq k c)" "irq_only c (snd (request_irq os k c))"
  using irq_only_touch irq_only_emit irq_only_refl irq_only_trans
  by (simp_all add: free_irq_def request_irq_def Let_def split: option.split) blast+

lemma irq_only_loops: "irq_only c (free_event_irqs ks c)" "irq_only c (snd (request_event_irqs os ks c))"
proof -
  show "irq_only c (free_event_irqs ks c)"
    unfolding free_event_irqs_def by (induction ks arbitrary: c) (auto intro: irq_only_step irq_only_trans)
  show "irq_only c (snd (request_event_irqs os ks c))"
  proof (induction ks arbitrary: c)
    case (Cons i ks)
    show ?case using Cons irq_only_step(3) [of c os "unat (ev_msi (mhi_event c i))"]
      by (auto split: prod.split sum.split intro: irq_only_trans)
  qed (simp add: irq_only_step)
qed

lemma irq_only_deinit: "irq_only c (mhi_deinit_free_irq c)"
  using irq_only_loops(1) irq_only_step(2) irq_only_trans by (simp add: mhi_deinit_free_irq_def) blast

lemma free_irq_fields [simp]:
  "pm_state (mhi_deinit_free_irq c) = pm_state c" "ee (mhi_deinit_free_irq c) = ee c"
  "dev_state (mhi_deinit_free_irq c) = dev_state c" "bus_devs (mhi_deinit_free_irq c) = bus_devs c"
  "mhi_tsync (mhi_deinit_free_irq c) = mhi_tsync c" "transition_list (mhi_deinit_free_irq c) = transition_list c"
  "fbc_image (mhi_deinit_free_irq c) = fbc_image c" "pre_init (mhi_deinit_free_irq c) = pre_init c"
  using irq_only_deinit [of c] by (auto simp: irq_only_def)

lemma freed_bufs_keep: "down_keeps c (fold free_buf bs c) \<and> mhi_tsync (fold free_buf bs c) = mhi_tsync c"
  by (induction bs arbitrary: c) (auto simp: free_buf_def mhi_free_coherent_def emit_def down_keeps_def)

lemma drop_fbc_fields [simp]: "down_keeps c (drop_fbc_image c)" "mhi_tsync (drop_fbc_image c) = mhi_tsync c"
  "fbc_image (drop_fbc_image c) = None"
  using freed_bufs_keep by (auto simp: drop_fbc_image_def mhi_free_bhie_table_def down_keeps_def emit_def split: option.split)



section \<open>Bringing the link up\<close>

text \<open>How often a line has been asked for and not given back.\<close>

definition irqs_held :: "mhi_controller \<Rightarrow> nat \<Rightarrow> int" where
  "irqs_held c k = int (count_list (trace c) (Request_irq k)) - int (count_list (trace c) (Free_irq k))"

lemma count_list_lines:
  "count_list (map Request_irq xs) (Request_irq k) = count (mset xs) k"
  "count_list (map Free_irq xs) (Free_irq k) = count (mset xs) k"
  "count_list (map Request_irq xs) (Free_irq k) = 0" "count_list (map Free_irq xs) (Request_irq k) = 0"
  by (induction xs) simp_all

lemma irqs_held_append:
  "trace c' = trace c @ xs \<Longrightarrow> irqs_held c' k = irqs_held c k
     + int (count_list xs (Request_irq k)) - int (count_list xs (Free_irq k))"
  by (simp add: irqs_held_def)

lemma irqs_held_emit [simp]:
  "\<forall>k. e \<noteq> Request_irq k \<and> e \<noteq> Free_irq k \<Longrightarrow> irqs_held (emit e c) = irqs_held c"
  by (rule ext) (simp add: irqs_held_def emit_def)

lemma init_ctxt_frame:
  "case mhi_init_dev_ctxt os c of
     (Inl e, c') \<Rightarrow> irqs_held c' = irqs_held c \<and> mhi_ctxt c' = mhi_ctxt c \<and> alloc_size c' = 0
       \<and> pm_state c' = pm_state c \<and> transition_list c' = transition_list c
   | (Inr _, c') \<Rightarrow> trace c' = trace c \<and> mhi_ctxt c' \<noteq> None \<and> pm_state c' = pm_state c
       \<and> transition_list c' = transition_list c \<and> dev_state c' = dev_state c \<and> pre_init c' = pre_init c
       \<and> msi_allocated c' = msi_allocated c \<and> msi_irq_base c' = msi_irq_base c
       \<and> alloc_size c' = 98304"
  by (auto simp: mhi_init_dev_ctxt_def call_kmalloc_def mhi_alloc_coherent_def Let_def mhi_free_coherent_def
      init_cmd_ctxt_def init_event_ctxts_def init_chan_ctxts_def init_event_ring_def irqs_held_def emit_def fun_eq_iff split: option.split)

lemma init_irq_frame:
  "case mhi_init_irq_setup os c of (r, c') \<Rightarrow> mhi_ctxt c' = mhi_ctxt c \<and> pm_state c' = pm_state c
     \<and> transition_list c' = transition_list c \<and> dev_state c' = dev_state c \<and> pre_init c' = pre_init c
     \<and> alloc_size c' = alloc_size c"
proof -
  have r: "case request_irq os k x of (r, c') \<Rightarrow> irq_only x c'" for k x
    using irq_only_step(3) [of x os k] by (cases "request_irq os k x") simp
  have l: "case request_event_irqs os ks x of (r, c') \<Rightarrow> irq_only x c'" for ks x
    using irq_only_loops(2) [of x os ks] by (cases "request_event_irqs os ks x") simp
  show ?thesis
  proof (cases "msi_allocated c = 1")
    case True
    then show ?thesis
      using r [where k = 0 and x = "c\<lparr>mhi_event := (\<lambda>i. if i < total_ev_rings c then (mhi_event c i)\<lparr>ev_msi := 0\<rparr> else mhi_event c i)\<rparr>"]
      by (auto simp: mhi_init_irq_setup_def irq_only_def split: prod.splits)
  next
    case False
    obtain r1 c1 where q1: "request_irq os (unat (msi_irq_base c)) c = (r1, c1)" by fastforce
    obtain r2 c2 where q2: "request_event_irqs os [0..<total_ev_rings c1] c1 = (r2, c2)" by fastforce
    have k1: "irq_only c c1" and k2: "irq_only c1 c2" using r l q1 q2 by (metis prod.case)+
    have k3: "irq_only c2 (free_irq 0 (free_event_irqs ks c2))" for ks
      using irq_only_loops(1) irq_only_step(2) irq_only_trans by blast
    have "\<exists>x. snd (mhi_init_irq_setup os c) = x \<and> irq_only c x"
      using False q1 q2 k1 k2 k3 irq_only_trans [OF k1 k2] irq_only_trans [OF irq_only_trans [OF k1 k2] k3]
      by (simp add: mhi_init_irq_setup_def split: sum.split option.split)
    then show ?thesis by (auto simp: irq_only_def split: prod.splits)
  qed
qed

text \<open>What the lines are after the contexts and the lines have been set up, or have not.\<close>

lemma set_up_ctxt_spec:
  assumes "\<not> pre_init c" and "mhi_ctxt c = None" and "msi_irq_base c = 0"
  shows "case set_up_ctxt os c of
     (Inl e, c') \<Rightarrow> irqs_held c' = irqs_held c \<and> mhi_ctxt c' = None \<and> alloc_size c' = 0
        \<and> pm_state c' = pm_state c \<and> transition_list c' = transition_list c
   | (Inr _, c') \<Rightarrow> mhi_ctxt c' \<noteq> None \<and> pm_state c' = pm_state c \<and> dev_state c' = dev_state c
        \<and> transition_list c' = transition_list c \<and> pre_init c' = pre_init c \<and> alloc_size c' = 98304
        \<and> irqs_held (mhi_deinit_free_irq c') = irqs_held c"
proof -
  obtain r1 c1 where i: "mhi_init_dev_ctxt os c = (r1, c1)" by fastforce
  obtain r2 c2 where q: "mhi_init_irq_setup os c1 = (r2, c2)" by fastforce
  note f1 = init_ctxt_frame [where os = os and c = c, unfolded i prod.case]
  note f2 = init_irq_frame [where os = os and c = c1, unfolded q prod.case]
  show ?thesis
  proof (cases r1)
    case (Inl e)
    then show ?thesis using f1 assms i by (simp add: set_up_ctxt_def)
  next
    case (Inr x)
    then have f1: "trace c1 = trace c" "mhi_ctxt c1 \<noteq> None" "pm_state c1 = pm_state c" "dev_state c1 = dev_state c"
      "transition_list c1 = transition_list c" "msi_irq_base c1 = 0" "pre_init c1 = pre_init c" "alloc_size c1 = 98304"
      using f1 assms by simp_all
    note b = irq_setup_balance [OF f1(6), where os = os, unfolded q prod.case]
    show ?thesis
    proof (cases r2)
      case (Inl e)
      then obtain got given where t: "trace c2 = trace c @ map Request_irq got @ map Free_irq given"
        "mset given = mset got" using b f1(1) by auto
      have "irqs_held c2 = irqs_held c"
        by (rule ext) (simp add: irqs_held_append [OF t(1)] count_list_lines t(2))
      then have "irqs_held (mhi_deinit_dev_ctxt c2) = irqs_held c"
        by (auto simp: fun_eq_iff irqs_held_def mhi_deinit_dev_ctxt_def Let_def emit_def mhi_free_coherent_def
            split: option.split)
      moreover have "transition_list (mhi_deinit_dev_ctxt c2) = transition_list c2"
        "alloc_size (mhi_deinit_dev_ctxt c2) = 0"
        using f1(2,8) f2 by (auto simp: mhi_deinit_dev_ctxt_def Let_def emit_def mhi_free_coherent_def
            split: option.split)
      ultimately show ?thesis using i q Inl \<open>r1 = Inr x\<close> assms f1 f2 by (simp add: set_up_ctxt_def)
    next
      case (Inr y)
      then obtain given where t: "trace (mhi_deinit_free_irq c2)
          = trace c @ map Request_irq (irq_lines c1) @ map Free_irq given" "mset given = mset (irq_lines c1)"
        using b f1 by auto
      have d: "irqs_held (mhi_deinit_free_irq c2) = irqs_held c"
        by (rule ext) (simp add: irqs_held_append [OF t(1)] count_list_lines t(2))
      show ?thesis using i q Inr \<open>r1 = Inr x\<close> assms f1 f2 d by (simp add: set_up_ctxt_def)
    qed
  qed
qed
lemma deinit_trace: "trace (mhi_deinit_free_irq c) = trace c @ map Free_irq
    (if msi_allocated c = 1 then [unat (msi_irq_base c)]
     else event_lines c [0..<total_ev_rings c] @ [unat (msi_irq_base c)])"
  using free_event_irqs_frame [of c "[0..<total_ev_rings c]"] free_event_irqs_trace [of "[0..<total_ev_rings c]" c]
  by (simp add: mhi_deinit_free_irq_def free_irq_def irq_frame_def)

text \<open>Setting up the rest, once the lines and contexts are held.\<close>

lemma set_up_bhi_spec:
  assumes "\<not> pre_init c" and "irqs_held (mhi_deinit_free_irq c) = held" and "mhi_ctxt c \<noteq> None"
    and "alloc_size c = 98304"
  shows "case set_up_bhi os c of
     (Inl e, c') \<Rightarrow> irqs_held c' = held \<and> mhi_ctxt c' = None \<and> alloc_size c' = 0
        \<and> pm_state c' = pm_state c \<and> transition_list c' = transition_list c
   | (Inr _, c') \<Rightarrow> \<exists>a b. c' = c\<lparr>bhi := a, bhie := b\<rparr>"
proof -
  have f: "irqs_held (mhi_deinit_dev_ctxt x) = irqs_held x" for x
    by (auto simp: fun_eq_iff irqs_held_def mhi_deinit_dev_ctxt_def Let_def emit_def mhi_free_coherent_def
        split: option.split)
  have b: "irqs_held (mhi_deinit_free_irq (c\<lparr>bhi := v\<rparr>)) = irqs_held (mhi_deinit_free_irq c)" for v
    by (rule ext) (simp add: irqs_held_def deinit_trace event_lines_def)
  have al: "alloc_size (mhi_deinit_dev_ctxt (mhi_deinit_free_irq x)) = 0"
    "transition_list (mhi_deinit_dev_ctxt x) = transition_list x" if "mhi_ctxt x \<noteq> None" "alloc_size x = 98304" for x
    using irq_only_deinit [of x] that
    by (auto simp: mhi_deinit_dev_ctxt_def Let_def emit_def mhi_free_coherent_def irq_only_def split: option.split)
  have "transition_list (mhi_deinit_dev_ctxt x) = transition_list x" for x
    by (simp add: mhi_deinit_dev_ctxt_def Let_def emit_def mhi_free_coherent_def split: option.split)
  then show ?thesis using assms al f b
    by (auto simp: set_up_bhi_def Let_def free_irqs_and_ctxt_def split: sum.split)
qed

lemma held_writes [simp]:
  "irqs_held (mhi_write_reg b off v c) = irqs_held c" "irqs_held (mhi_set_mhi_state os st c) = irqs_held c"
proof -
  show w: "irqs_held (mhi_write_reg b off v c) = irqs_held c" for b off v c
    by (rule ext) (simp add: mhi_write_reg_def emit_def irqs_held_def)
  show "irqs_held (mhi_set_mhi_state os st c) = irqs_held c"
    by (simp add: mhi_set_mhi_state_def mhi_write_reg_field_def w Let_def split: sum.split)
qed

lemma held_deinit_cong:
  assumes "irqs_held x = irqs_held c" and "mhi_event x = mhi_event c" and "total_ev_rings x = total_ev_rings c"
    and "msi_allocated x = msi_allocated c" and "msi_irq_base x = msi_irq_base c"
  shows "irqs_held (mhi_deinit_free_irq x) = irqs_held (mhi_deinit_free_irq c)"
proof
  fix k
  have e: "event_lines x ks = event_lines c ks" for ks using assms(2) by (simp add: event_lines_def)
  have "irqs_held x k = irqs_held c k" by (simp add: assms(1))
  then show "irqs_held (mhi_deinit_free_irq x) k = irqs_held (mhi_deinit_free_irq c) k"
    by (simp add: irqs_held_def deinit_trace e assms(3-))
qed

lemma held_cong: "trace x = trace c \<Longrightarrow> irqs_held x = irqs_held c"
  by (rule ext) (simp add: irqs_held_def)

lemma before_ctxt:
  fixes c :: mhi_controller and os :: mhi_os
  assumes "\<forall>x. \<exists>m. env x = x\<lparr>mmio := m\<rparr>"
  defines "c1 \<equiv> set_event_ring_counts os
     (if dev_state_val MHI_STATE_M0 \<le> dev_state_val (mhi_get_mhi_state os c)
      then env (mhi_set_mhi_state os MHI_STATE_RESET c) else c)"
  shows "irqs_held c1 = irqs_held c" "mmio_only c c1"
proof -
  have e: "irqs_held (env x) = irqs_held x" "mmio_only x (env x)" for x
  proof -
    obtain m where m: "env x = x\<lparr>mmio := m\<rparr>" using assms(1) by blast
    show "irqs_held (env x) = irqs_held x" by (rule ext) (simp add: m irqs_held_def)
    show "mmio_only x (env x)" unfolding m mmio_only_def by (rule exI [of _ m], rule exI [of _ "trace x"]) simp
  qed
  show "irqs_held c1 = irqs_held c" by (simp add: c1_def set_event_ring_counts_def Let_def e)
  show "mmio_only c c1" unfolding c1_def set_event_ring_counts_def Let_def
    using mmio_only_trans mmio_only_writes(1,2) e(2) by (simp split: if_split) blast
qed

lemma queue_transition_cases:
  "snd (mhi_queue_state_transition os st c) = c\<lparr>n_alloc := Suc (n_alloc c)\<rparr>
     \<and> kmalloc os (n_alloc c) sizeof_state_transition = None
   \<or> (\<exists>a. kmalloc os (n_alloc c) sizeof_state_transition = Some a)
     \<and> snd (mhi_queue_state_transition os st c) = emit (Schedule_work St_worker)
       (c\<lparr>n_alloc := Suc (n_alloc c), transition_list := transition_list c @ [st]\<rparr>)"
  by (simp add: mhi_queue_state_transition_def call_kmalloc_def split: option.split)

text \<open>The worker that waits for the boot loader, or the transition to ready.\<close>

lemma queue_or_wait:
  fixes os :: mhi_os
  shows "let c' = mhi_init_debugfs (if MHI_IN_PBL (mhi_get_exec_env os x) then emit (Delayed_work Ready_worker) x
                 else snd (mhi_queue_state_transition os MHI_ST_TRANSITION_READY x)) in
    pm_state c' = pm_state x \<and> ee c' = ee x \<and> dev_state c' = dev_state x \<and> mhi_ctxt c' = mhi_ctxt x
    \<and> irqs_held (mhi_deinit_free_irq c') = irqs_held (mhi_deinit_free_irq x)
    \<and> (if MHI_IN_PBL (mhi_get_exec_env os c')
         then last (trace c') = Delayed_work Ready_worker \<and> transition_list c' = transition_list x
         else if kmalloc os (n_alloc c' - 1) sizeof_state_transition = None
         then transition_list c' = transition_list x
         else last (trace c') = Schedule_work St_worker
              \<and> transition_list c' = transition_list x @ [MHI_ST_TRANSITION_READY])"
proof -
  have ex: "mhi_get_exec_env os (emit e y) = mhi_get_exec_env os y"
    "mhi_get_exec_env os (y\<lparr>n_alloc := n, transition_list := l\<rparr>) = mhi_get_exec_env os y"
    "mhi_get_exec_env os (y\<lparr>n_alloc := n\<rparr>) = mhi_get_exec_env os y" for e y n l
    by (simp_all add: mhi_get_exec_env_def mhi_read_reg_def emit_def Let_def)
  have l: "last (trace (emit e y)) = e" for e y by (simp add: emit_def)
  have h: "irqs_held (mhi_deinit_free_irq (emit e y)) = irqs_held (mhi_deinit_free_irq y)"
    if "\<forall>k. e \<noteq> Request_irq k \<and> e \<noteq> Free_irq k" for e y
    by (rule held_deinit_cong; use that in \<open>simp add: emit_def irqs_held_def fun_eq_iff\<close>)
  have n: "irqs_held (mhi_deinit_free_irq (y\<lparr>n_alloc := n, transition_list := l\<rparr>)) = irqs_held (mhi_deinit_free_irq y)"
    "irqs_held (mhi_deinit_free_irq (y\<lparr>n_alloc := n\<rparr>)) = irqs_held (mhi_deinit_free_irq y)" for y n l
    by (rule held_deinit_cong; simp add: irqs_held_def fun_eq_iff)+
  have g: "irqs_held (mhi_deinit_free_irq (mhi_init_debugfs y)) = irqs_held (mhi_deinit_free_irq y)" for y
    by (rule held_deinit_cong; simp add: mhi_init_debugfs_def irqs_held_def fun_eq_iff)
  show ?thesis
  proof (cases "MHI_IN_PBL (mhi_get_exec_env os x)")
    case True
    then show ?thesis by (simp add: Let_def ex l h g) (simp add: emit_def)
  next
    case False
    show ?thesis
      using queue_transition_cases [of os MHI_ST_TRANSITION_READY x]
    proof (elim disjE conjE exE)
      assume q: "snd (mhi_queue_state_transition os MHI_ST_TRANSITION_READY x) = x\<lparr>n_alloc := Suc (n_alloc x)\<rparr>"
        "kmalloc os (n_alloc x) sizeof_state_transition = None"
      show ?thesis using False q(2) by (simp add: q(1) Let_def ex n g)
    next
      fix a
      assume q: "kmalloc os (n_alloc x) sizeof_state_transition = Some a"
        "snd (mhi_queue_state_transition os MHI_ST_TRANSITION_READY x) = emit (Schedule_work St_worker)
          (x\<lparr>n_alloc := Suc (n_alloc x), transition_list := transition_list x @ [MHI_ST_TRANSITION_READY]\<rparr>)"
      show ?thesis using False q(1) by (simp add: q(2) Let_def ex n l h g) (simp add: emit_def)
    qed
  qed
qed

text \<open>
  C29: \<open>mhi_async_power_up\<close> of a controller that was not prepared either leaves nothing behind
  or leaves a controller that will come up. When it fails, whatever stage failed, every
  interrupt line asked for has been given back, no context is held, the state is the disabled
  one and nothing was put to work. When it succeeds the link is in power on reset with an
  unknown execution environment, the contexts are held, giving back the lines would balance
  them, and either the worker that waits for the boot loader is scheduled or the transition to
  ready is queued behind the ones that were. In the last case nothing is queued, and success
  reported all the same, when there is no memory for the entry.
\<close>

theorem power_up_spec:
  assumes "\<not> pre_init c" and "mhi_ctxt c = None" and "msi_irq_base c = 0"
    and "\<forall>x. \<exists>m. env x = x\<lparr>mmio := m\<rparr>"
  shows "case mhi_async_power_up os env c of
     (Inl e, c') \<Rightarrow> irqs_held c' = irqs_held c \<and> mhi_ctxt c' = None \<and> alloc_size c' = 0
        \<and> pm_state c' = MHI_PM_DISABLE \<and> transition_list c' = transition_list c
   | (Inr _, c') \<Rightarrow> pm_state c' = MHI_PM_POR \<and> ee c' = MHI_EE_MAX \<and> dev_state c' = MHI_STATE_RESET
        \<and> mhi_ctxt c' \<noteq> None \<and> irqs_held (mhi_deinit_free_irq c') = irqs_held c
        \<and> (if MHI_IN_PBL (mhi_get_exec_env os c')
           then last (trace c') = Delayed_work Ready_worker \<and> transition_list c' = transition_list c
           else if kmalloc os (n_alloc c' - 1) sizeof_state_transition = None
           then transition_list c' = transition_list c
           else last (trace c') = Schedule_work St_worker
                \<and> transition_list c' = transition_list c @ [MHI_ST_TRANSITION_READY])"
proof -
  define c1 where "c1 = set_event_ring_counts os
     (if dev_state_val MHI_STATE_M0 \<le> dev_state_val (mhi_get_mhi_state os c)
      then env (mhi_set_mhi_state os MHI_STATE_RESET c) else c)"
  let ?c2 = "c1\<lparr>pm_state := MHI_PM_DISABLE, dev_state := MHI_STATE_RESET\<rparr>"
  have h1: "irqs_held c1 = irqs_held c" and m1: "mmio_only c c1"
    using before_ctxt [OF assms(4), where os = os and c = c] by (simp_all add: c1_def)
  have c2: "\<not> pre_init ?c2" "mhi_ctxt ?c2 = None" "msi_irq_base ?c2 = 0" "transition_list ?c2 = transition_list c"
    "irqs_held ?c2 = irqs_held c"
    using m1 assms h1 by (auto simp: mmio_only_def irqs_held_def fun_eq_iff)
  obtain r3 c3 where s3: "set_up_ctxt os ?c2 = (r3, c3)" by fastforce
  note unf = mhi_async_power_up_def [of os env c, unfolded Let_def, folded c1_def]
  note f3 = set_up_ctxt_spec [OF c2(1-3), where os = os, unfolded s3 prod.case]
  show ?thesis
  proof (cases r3)
    case (Inl e)
    then show ?thesis using f3 c2 unfolding unf s3 by simp
  next
    case (Inr x)
    then have f3: "mhi_ctxt c3 \<noteq> None" "pm_state c3 = MHI_PM_DISABLE" "dev_state c3 = MHI_STATE_RESET"
      "transition_list c3 = transition_list c" "\<not> pre_init c3" "alloc_size c3 = 98304"
      "irqs_held (mhi_deinit_free_irq c3) = irqs_held c"
      using f3 c2 by simp_all
    obtain r4 c4 where s4: "set_up_bhi os c3 = (r4, c4)" by fastforce
    note f4 = set_up_bhi_spec [OF f3(5,7,1,6), where os = os, unfolded s4 prod.case]
    show ?thesis
    proof (cases r4)
      case (Inl e)
      then show ?thesis using f4 f3 unfolding unf s3 \<open>r3 = Inr x\<close> prod.case sum.case s4 by simp
    next
      case (Inr y)
      then obtain a b where c4: "c4 = c3\<lparr>bhi := a, bhie := b\<rparr>" using f4 by auto
      define c5 where "c5 = (mhi_write_reg (bhi c4) BHI_INTVEC (msi_irq_base c4) c4)\<lparr>pm_state := MHI_PM_POR, ee := MHI_EE_MAX\<rparr>"
      define c6 where "c6 = mhi_init_debugfs (if MHI_IN_PBL (mhi_get_exec_env os c5) then emit (Delayed_work Ready_worker) c5
                 else snd (mhi_queue_state_transition os MHI_ST_TRANSITION_READY c5))"
      have run: "mhi_async_power_up os env c = (Inr (), c6)"
        unfolding unf s3 \<open>r3 = Inr x\<close> prod.case sum.case s4 Inr c6_def c5_def ..
      have d: "irqs_held (mhi_deinit_free_irq c5) = irqs_held c"
        using f3(7) by (subst held_deinit_cong [of _ c3])
          (simp_all add: c5_def c4 mhi_write_reg_def emit_def irqs_held_def fun_eq_iff)
      have st: "pm_state c5 = MHI_PM_POR" "ee c5 = MHI_EE_MAX" "dev_state c5 = MHI_STATE_RESET"
        "mhi_ctxt c5 \<noteq> None" "transition_list c5 = transition_list c"
        using f3 by (simp_all add: c5_def c4 mhi_write_reg_def emit_def)
      show ?thesis
        using queue_or_wait [of os c5, unfolded Let_def, folded c6_def] st(4)
        unfolding run prod.case sum.case d st(1-3,5) by simp
    qed
  qed
qed

theorem power_up_spec_witness:
  "case mhi_async_power_up link_up (\<lambda>c. c) zero_controller of
     (Inl e, c') \<Rightarrow> alloc_size c' = 0
   | (Inr _, c') \<Rightarrow> pm_state c' = MHI_PM_POR \<and> irqs_held (mhi_deinit_free_irq c') = irqs_held zero_controller"
proof -
  have z: "\<not> pre_init zero_controller" "mhi_ctxt zero_controller = None" "msi_irq_base zero_controller = 0"
    by (simp_all add: zero_controller_def)
  have e: "\<forall>x :: mhi_controller. \<exists>m. (\<lambda>c. c) x = x\<lparr>mmio := m\<rparr>"
  proof
    fix x :: mhi_controller
    show "\<exists>m. (\<lambda>c. c) x = x\<lparr>mmio := m\<rparr>" by (rule exI [of _ "mmio x"]) simp
  qed
  show ?thesis using power_up_spec [OF z e, where os = link_up] by (auto split: prod.splits sum.splits)
qed

section \<open>Channels and the devices on the bus\<close>

text \<open>
  A channel that belongs to a device belongs to one on the bus that names it, and a device on
  the bus names channels of the controller, on the side of their direction; the controller's own
  device names none.
\<close>

definition bus_typed :: "mhi_controller \<Rightarrow> bool" where
  "bus_typed c \<longleftrightarrow>
     (\<forall>i d. ch_mhi_dev (mhi_chan c i) = Some d \<longrightarrow> d \<in> set (bus_devs c)
        \<and> (ul_chan (devices c d) = Some i \<or> dl_chan (devices c d) = Some i))
     \<and> (\<forall>d \<in> set (bus_devs c). d < n_alloc c
        \<and> (\<forall>i. ul_chan (devices c d) = Some i \<longrightarrow> i < max_chan c \<and> dir (mhi_chan c i) = DMA_TO_DEVICE)
        \<and> (\<forall>i. dl_chan (devices c d) = Some i \<longrightarrow> i < max_chan c \<and> dir (mhi_chan c i) \<noteq> DMA_TO_DEVICE)
        \<and> (dev_type (devices c d) = MHI_CONTROLLER_TYPE \<longrightarrow> ul_chan (devices c d) = None \<and> dl_chan (devices c d) = None))"

text \<open>Neighbours of one name are one channel to the device and one from it.\<close>

definition pair_sides :: "mhi_controller \<Rightarrow> bool" where
  "pair_sides c \<longleftrightarrow> (\<forall>i. pairs_with_next c i \<longrightarrow>
     (dir (mhi_chan c i) = DMA_TO_DEVICE) \<noteq> (dir (mhi_chan c (Suc i)) = DMA_TO_DEVICE))"

text \<open>What a client may not change when it is bound or unbound.\<close>

definition links_kept :: "mhi_controller \<Rightarrow> mhi_controller \<Rightarrow> bool" where
  "links_kept x y \<longleftrightarrow> bus_devs y = bus_devs x \<and> n_alloc x \<le> n_alloc y \<and> max_chan y = max_chan x
     \<and> (\<forall>d. ul_chan (devices y d) = ul_chan (devices x d) \<and> dl_chan (devices y d) = dl_chan (devices x d)
          \<and> dev_type (devices y d) = dev_type (devices x d))
     \<and> (\<forall>i. ch_mhi_dev (mhi_chan y i) = ch_mhi_dev (mhi_chan x i) \<and> dir (mhi_chan y i) = dir (mhi_chan x i)
          \<and> ch_name (mhi_chan y i) = ch_name (mhi_chan x i) \<and> configured (mhi_chan y i) = configured (mhi_chan x i))"

lemma links_kept_refl [simp]: "links_kept x x"
  by (simp add: links_kept_def)

lemma links_kept_trans: "links_kept a b \<Longrightarrow> links_kept b c \<Longrightarrow> links_kept a c"
  by (auto simp: links_kept_def)

lemma links_kept_typed: "links_kept x y \<Longrightarrow> bus_typed x \<Longrightarrow> bus_typed y"
  by (auto simp: bus_typed_def links_kept_def) (use order_less_le_trans in blast)?

lemma links_kept_sides: "links_kept x y \<Longrightarrow> pair_sides x \<Longrightarrow> pair_sides y"
  by (simp add: pair_sides_def links_kept_def pairs_with_next_def)

lemma links_kept_emit: "links_kept x (emit e x)"
  by (simp add: links_kept_def emit_def)

text \<open>The device a round of the loop makes, and the state it hands to the bus.\<close>

definition new_device :: "mhi_controller \<Rightarrow> nat \<Rightarrow> mhi_device" where
  "new_device c i =
     (let D = first_chan i (mhi_chan c i) (zero_device\<lparr>mtu := ucast MHI_MAX_MTU, dev_type := MHI_XFER_TYPE\<rparr>)
      in if pairs_with_next c i
         then (second_chan (Suc i) (mhi_chan c (Suc i)) D)\<lparr>dev_chan_name := ch_name (mhi_chan c (Suc i))\<rparr>
         else D\<lparr>dev_chan_name := ch_name (mhi_chan c i)\<rparr>)"

definition with_device :: "mhi_controller \<Rightarrow> nat \<Rightarrow> mhi_controller" where
  "with_device c i = c\<lparr>n_alloc := Suc (n_alloc c), mhi_chan := (if pairs_with_next c i
       then (mhi_chan c)(i := (mhi_chan c i)\<lparr>ch_mhi_dev := Some (n_alloc c)\<rparr>,
              Suc i := (mhi_chan c (Suc i))\<lparr>ch_mhi_dev := Some (n_alloc c)\<rparr>)
       else (mhi_chan c)(i := (mhi_chan c i)\<lparr>ch_mhi_dev := Some (n_alloc c)\<rparr>)),
     devices := (devices c)(n_alloc c := new_device c i)\<rparr>"

lemma create_one_eq:
  assumes "wants_device c i" and "kmalloc os (n_alloc c) (sizeof_mhi_device os) \<noteq> None"
    and "device_add_ret os (n_alloc c) = None"
  shows "create_one os bind i c =
    (Some (Suc (if pairs_with_next c i then Suc i else i)),
     emit (Sysfs_group (n_alloc c)) (bind (n_alloc c) (emit (Device_add (n_alloc c))
       ((with_device c i)\<lparr>bus_devs := bus_devs c @ [n_alloc c]\<rparr>))))"
proof -
  have p: "pairs_with_next (c\<lparr>n_alloc := n, devices := g, mhi_chan := (mhi_chan c)(i := (mhi_chan c i)\<lparr>ch_mhi_dev := d\<rparr>)\<rparr>) i
      = pairs_with_next c i" for n g d
    by (simp add: pairs_with_next_def)
  show ?thesis using assms
    by (auto simp: create_one_def mhi_alloc_device_def call_kmalloc_def device_add_def Let_def p
        with_device_def new_device_def set_ch_dev_def upd_device_def upd_chan_def)
qed

lemma sides_simps:
  "ul_chan (as_ul i ch dev) = Some i" "dl_chan (as_ul i ch dev) = dl_chan dev"
  "dl_chan (as_dl i ch dev) = Some i" "ul_chan (as_dl i ch dev) = ul_chan dev"
  by (simp_all add: as_ul_def as_dl_def)

lemma new_device_sides:
  assumes "pair_sides c" and "i < max_chan c"
  shows "ul_chan (new_device c i) = Some k \<Longrightarrow> k < max_chan c \<and> dir (mhi_chan c k) = DMA_TO_DEVICE"
    and "dl_chan (new_device c i) = Some k \<Longrightarrow> k < max_chan c \<and> dir (mhi_chan c k) \<noteq> DMA_TO_DEVICE"
    and "k = i \<or> k = Suc i \<and> pairs_with_next c i \<Longrightarrow> ul_chan (new_device c i) = Some k \<or> dl_chan (new_device c i) = Some k"
proof -
  have p: "pairs_with_next c i \<Longrightarrow> (dir (mhi_chan c i) = DMA_TO_DEVICE) \<noteq> (dir (mhi_chan c (Suc i)) = DMA_TO_DEVICE)
      \<and> Suc i < max_chan c"
    using assms(1) by (simp add: pair_sides_def pairs_with_next_def)
  note d = new_device_def Let_def first_chan_def second_chan_def sides_simps
  show "ul_chan (new_device c i) = Some k \<Longrightarrow> k < max_chan c \<and> dir (mhi_chan c k) = DMA_TO_DEVICE"
    using p assms(2) by (auto simp: d zero_device_def split: if_splits dma_data_direction.splits)
  show "dl_chan (new_device c i) = Some k \<Longrightarrow> k < max_chan c \<and> dir (mhi_chan c k) \<noteq> DMA_TO_DEVICE"
    using p assms(2) by (auto simp: d zero_device_def split: if_splits dma_data_direction.splits)
  show "k = i \<or> k = Suc i \<and> pairs_with_next c i \<Longrightarrow> ul_chan (new_device c i) = Some k \<or> dl_chan (new_device c i) = Some k"
    using p by (auto simp: d zero_device_def split: dma_data_direction.splits)
qed

lemma with_device_fields:
  "max_chan (with_device c i) = max_chan c" "n_alloc (with_device c i) = Suc (n_alloc c)"
  "devices (with_device c i) d = (if d = n_alloc c then new_device c i else devices c d)"
  "ch_mhi_dev (mhi_chan (with_device c i) k) = (if k = i \<or> k = Suc i \<and> pairs_with_next c i then Some (n_alloc c)
     else ch_mhi_dev (mhi_chan c k))"
  "dir (mhi_chan (with_device c i) k) = dir (mhi_chan c k)"
  "ch_name (mhi_chan (with_device c i) k) = ch_name (mhi_chan c k)"
  "configured (mhi_chan (with_device c i) k) = configured (mhi_chan c k)"
  by (auto simp: with_device_def)

lemma new_device_type: "dev_type (new_device c i) = MHI_XFER_TYPE"
  by (simp add: new_device_def first_chan_def second_chan_def as_ul_def as_dl_def Let_def split: dma_data_direction.split)

lemma with_device_typed:
  assumes "pair_sides c" and "i < max_chan c" and "bus_typed c"
  shows "bus_typed ((with_device c i)\<lparr>bus_devs := bus_devs c @ [n_alloc c]\<rparr>)"
proof -
  have old: "d < n_alloc c" if "d \<in> set (bus_devs c)" for d using assms(3) that by (simp add: bus_typed_def)
  have ch: "ch_mhi_dev (mhi_chan c k) = Some d \<Longrightarrow> d \<in> set (bus_devs c)
      \<and> (ul_chan (devices c d) = Some k \<or> dl_chan (devices c d) = Some k)" for k d
    using assms(3) by (simp add: bus_typed_def)
  note nd = new_device_sides [OF assms(1,2)]
  let ?y = "(with_device c i)\<lparr>bus_devs := bus_devs c @ [n_alloc c]\<rparr>"
  show ?thesis unfolding bus_typed_def
  proof (intro conjI allI impI ballI)
    fix k d assume a: "ch_mhi_dev (mhi_chan ?y k) = Some d"
    then show "d \<in> set (bus_devs ?y)"
      using ch by (auto simp: with_device_fields split: if_splits)
    show "ul_chan (devices ?y d) = Some k
        \<or> dl_chan (devices ?y d) = Some k"
      using a ch [of k d] old [of d] nd(3) [of k] by (auto simp: with_device_fields split: if_splits)
  next
    fix d k
    assume d: "d \<in> set (bus_devs ?y)"
    then show "d < n_alloc ?y"
      using old by (auto simp: with_device_fields less_SucI)
    { assume "ul_chan (devices ?y d) = Some k"
      then have "k < max_chan c \<and> dir (mhi_chan c k) = DMA_TO_DEVICE"
        using d assms(3) nd(1) [of k] by (auto simp: with_device_fields bus_typed_def split: if_splits) }
    note u = this
    { assume "dl_chan (devices ?y d) = Some k"
      then have "k < max_chan c \<and> dir (mhi_chan c k) \<noteq> DMA_TO_DEVICE"
        using d assms(3) nd(2) [of k] by (auto simp: with_device_fields bus_typed_def split: if_splits) }
    note l = this
    { assume "ul_chan (devices ?y d) = Some k"
      from u [OF this] show "k < max_chan ?y"
        "dir (mhi_chan ?y k) = DMA_TO_DEVICE"
        by (simp_all add: with_device_fields) }
    { assume "dl_chan (devices ?y d) = Some k"
      from l [OF this] show "k < max_chan ?y"
        "dir (mhi_chan ?y k) \<noteq> DMA_TO_DEVICE"
        by (simp_all add: with_device_fields) }
    { assume "dev_type (devices ?y d) = MHI_CONTROLLER_TYPE"
      then have "d \<noteq> n_alloc c" "d \<in> set (bus_devs c)" "dev_type (devices c d) = MHI_CONTROLLER_TYPE"
        using d new_device_type [of c i] by (auto simp: with_device_fields split: if_splits)
      then show "ul_chan (devices ?y d) = None" "dl_chan (devices ?y d) = None"
        using assms(3) by (simp_all add: with_device_fields bus_typed_def) }
  qed
qed

definition bind_keeps :: "(nat \<Rightarrow> mhi_controller \<Rightarrow> mhi_controller) \<Rightarrow> bool" where
  "bind_keeps bind \<longleftrightarrow> (\<forall>d x. links_kept x (bind d x))"

lemma bind_step: "bind_keeps bind \<Longrightarrow> links_kept x (bind d (emit e x))"
  unfolding bind_keeps_def by (rule links_kept_trans [OF links_kept_emit [of x e]]) simp

lemma create_one_typed:
  assumes "bus_typed c" and "pair_sides c" and "i < max_chan c" and "bind_keeps bind"
    and "\<forall>d. device_add_ret os d = None"
  shows "case create_one os bind i c of (r, c') \<Rightarrow> bus_typed c' \<and> pair_sides c' \<and> max_chan c' = max_chan c"
proof (cases "wants_device c i \<and> kmalloc os (n_alloc c) (sizeof_mhi_device os) \<noteq> None")
  case True
  let ?y = "(with_device c i)\<lparr>bus_devs := bus_devs c @ [n_alloc c]\<rparr>"
  let ?z = "emit (Sysfs_group (n_alloc c)) (bind (n_alloc c) (emit (Device_add (n_alloc c)) ?y))"
  have k: "links_kept ?y ?z"
    by (rule links_kept_trans [OF bind_step [OF assms(4)] links_kept_emit])
  have "pair_sides ?y" using assms(2) by (simp add: pair_sides_def pairs_with_next_def with_device_fields)
  from links_kept_sides [OF k this] links_kept_typed [OF k with_device_typed [OF assms(2,3,1)]]
  have "bus_typed ?z" "pair_sides ?z" by simp_all
  moreover have "max_chan ?z = max_chan c" using k by (simp add: links_kept_def with_device_fields)
  ultimately show ?thesis using create_one_eq [where bind = bind] True assms(5) by simp
next
  case False
  have n: "links_kept c (c\<lparr>n_alloc := Suc (n_alloc c)\<rparr>)" by (simp add: links_kept_def)
  show ?thesis using False assms links_kept_typed [OF n] links_kept_sides [OF n]
    by (auto simp: create_one_def mhi_alloc_device_def call_kmalloc_def)
qed

lemma create_loop_typed:
  assumes "bus_typed c" and "pair_sides c" and "bind_keeps bind" and "\<forall>d. device_add_ret os d = None"
  shows "bus_typed (create_loop os bind fuel i c) \<and> pair_sides (create_loop os bind fuel i c)"
  using assms(1,2)
proof (induction fuel arbitrary: i c)
  case (Suc fuel)
  show ?case
  proof (cases "max_chan c \<le> i")
    case False
    obtain r c' where r: "create_one os bind i c = (r, c')" by fastforce
    have "bus_typed c' \<and> pair_sides c'"
      using create_one_typed [OF Suc.prems(1,2) _ assms(3,4), of i] False r by simp
    then show ?thesis using False r Suc.IH by (simp split: option.split)
  qed (use Suc.prems in simp)
qed simp

text \<open>The time sync device has no channels.\<close>

lemma time_sync_dev_typed:
  assumes "bus_typed c" and "pair_sides c" and "bind_keeps bind" and "\<forall>d. device_add_ret os d = None"
  shows "bus_typed (mhi_create_time_sync_dev os bind c) \<and> pair_sides (mhi_create_time_sync_dev os bind c)"
proof (cases "MHI_IN_MISSION_MODE (ee c) \<and> kmalloc os (n_alloc c) (sizeof_mhi_device os) \<noteq> None")
  case True
  let ?d = "n_alloc c"
  let ?D = "zero_device\<lparr>mtu := ucast MHI_MAX_MTU, dev_type := MHI_TIMESYNC_TYPE, dev_chan_name := ''TIME_SYNC''\<rparr>"
  let ?y = "c\<lparr>n_alloc := Suc ?d, devices := (devices c)(?d := ?D), bus_devs := bus_devs c @ [?d]\<rparr>"
  let ?z = "(bind ?d (emit (Device_add ?d) ?y))\<lparr>tsync_dev := Some ?d\<rparr>"
  have run: "mhi_create_time_sync_dev os bind c = ?z"
    using True assms(4) by (auto simp: mhi_create_time_sync_dev_def mhi_alloc_device_def call_kmalloc_def
        device_add_def upd_device_def)
  have "links_kept ?y (bind ?d (emit (Device_add ?d) ?y))"
    by (rule bind_step [OF assms(3)])
  then have k: "links_kept ?y ?z" by (simp add: links_kept_def)
  have n: "?d \<notin> set (bus_devs c)" using assms(1) by (auto simp: bus_typed_def)
  have "bus_typed ?y" unfolding bus_typed_def
  proof (intro conjI allI impI ballI)
    fix i d assume "ch_mhi_dev (mhi_chan ?y i) = Some d"
    then show "d \<in> set (bus_devs ?y)" "ul_chan (devices ?y d) = Some i \<or> dl_chan (devices ?y d) = Some i"
      using assms(1) n by (auto simp: bus_typed_def)
  qed (use assms(1) in \<open>auto simp: bus_typed_def zero_device_def less_Suc_eq split: if_splits\<close>)
  moreover have "pair_sides ?y" using assms(2) by (simp add: pair_sides_def pairs_with_next_def)
  ultimately show ?thesis unfolding run using k links_kept_typed links_kept_sides by blast
next
  case False
  have n: "links_kept c (c\<lparr>n_alloc := Suc (n_alloc c)\<rparr>)" by (simp add: links_kept_def)
  show ?thesis using False assms links_kept_typed [OF n] links_kept_sides [OF n]
    by (auto simp: mhi_create_time_sync_dev_def mhi_alloc_device_def call_kmalloc_def)
qed

text \<open>Unbinding and release keep the links of the others.\<close>

definition unbind_keeps :: "(nat \<Rightarrow> mhi_controller \<Rightarrow> mhi_controller option) \<Rightarrow> bool" where
  "unbind_keeps unbind \<longleftrightarrow> (\<forall>d x. \<exists>y. unbind d x = Some y \<and> links_kept x y)"

lemma release_fields:
  "bus_devs (mhi_release_device d c) = bus_devs c" "devices (mhi_release_device d c) = devices c"
  "n_alloc (mhi_release_device d c) = n_alloc c" "max_chan (mhi_release_device d c) = max_chan c"
  "ch_mhi_dev (mhi_chan (mhi_release_device d c) i) =
     (if ul_chan (devices c d) = Some i \<or> dl_chan (devices c d) = Some i then None else ch_mhi_dev (mhi_chan c i))"
  "dir (mhi_chan (mhi_release_device d c) i) = dir (mhi_chan c i)"
  by (auto simp: mhi_release_device_def clear_ch_dev_def emit_def upd_chan_def split: option.split)

lemma destroy_typed:
  assumes "bus_typed c" and "unbind_keeps unbind"
  shows "\<exists>c'. mhi_destroy_device unbind d c = Some c' \<and> bus_typed c' \<and> bus_devs c' = bus_devs (destroy_one d c)
    \<and> (\<forall>x. dev_type (devices c' x) = dev_type (devices c x))"
proof -
  obtain y where y: "unbind d (emit (Device_del d) (emit (Sysfs_remove d) c)) = Some y"
    "links_kept (emit (Device_del d) (emit (Sysfs_remove d) c)) y"
    using assms(2) unfolding unbind_keeps_def by blast
  then have k: "links_kept c y" using links_kept_trans links_kept_emit by metis
  have t: "bus_typed y" by (rule links_kept_typed [OF k assms(1)])
  let ?z = "mhi_release_device d (y\<lparr>bus_devs := removeAll d (bus_devs y)\<rparr>)"
  have "bus_typed ?z" using t by (auto simp: bus_typed_def release_fields)
  then show ?thesis using y(1) assms(1) k
    by (cases "dev_type (devices c d) = MHI_CONTROLLER_TYPE")
       (simp_all add: mhi_destroy_device_def destroy_one_def release_fields links_kept_def)
qed

lemma destroy_each_typed:
  assumes "unbind_keeps unbind" and "bus_typed c"
  shows "\<exists>c'. destroy_each unbind ds c = Some c' \<and> bus_typed c'
    \<and> set (bus_devs c') = {d \<in> set (bus_devs c). d \<in> set ds \<longrightarrow> dev_type (devices c d) = MHI_CONTROLLER_TYPE}
    \<and> (\<forall>x. dev_type (devices c' x) = dev_type (devices c x))"
  using assms(2)
proof (induction ds arbitrary: c)
  case (Cons d ds)
  from destroy_typed [OF Cons.prems(1) assms(1)] obtain c1 where c1: "mhi_destroy_device unbind d c = Some c1"
    "bus_typed c1" "bus_devs c1 = bus_devs (destroy_one d c)" "\<forall>x. dev_type (devices c1 x) = dev_type (devices c x)"
    by blast
  from Cons.IH [OF c1(2)] show ?case using c1(1,3,4) by (auto simp: destroy_one_def split: if_splits)
qed simp

text \<open>
  C40: Channels and devices stay typed: \<open>mhi_create_devices\<close> keeps it true that every channel given to
  a device is named by a device on the bus, on the side of the channel's direction, and that the
  devices on the bus name existing channels only, whichever allocation fails, when the bus
  accepts the devices and neighbours of one name have different directions. Destroying whatever
  is on the bus afterwards leaves the controller's own device there and no channel with a device,
  so that every channel can be given to a new one. Clients must leave the links alone.
\<close>

theorem device_links:
  assumes "bus_typed c" and "pair_sides c" and "bind_keeps bind" and "unbind_keeps unbind"
    and "\<forall>d. device_add_ret os d = None"
  shows "bus_typed (mhi_create_devices os bind c)
    \<and> (\<exists>c'. destroy_each unbind (bus_devs (mhi_create_devices os bind c)) (mhi_create_devices os bind c) = Some c'
          \<and> set (bus_devs c') = set (own_devs (mhi_create_devices os bind c)) \<and> (\<forall>i. ch_mhi_dev (mhi_chan c' i) = None))"
proof -
  let ?c = "mhi_create_devices os bind c"
  have t: "bus_typed ?c"
    using create_loop_typed [OF _ _ assms(3,5)] time_sync_dev_typed [OF assms(1-3,5)]
    by (simp add: mhi_create_devices_def Let_def)
  obtain c' where c': "destroy_each unbind (bus_devs ?c) ?c = Some c'" "bus_typed c'"
    "set (bus_devs c') = set (own_devs ?c)" "\<forall>x. dev_type (devices c' x) = dev_type (devices ?c x)"
    using destroy_each_typed [OF assms(4) t, of "bus_devs ?c"] by (auto simp: own_devs_def)
  have "ch_mhi_dev (mhi_chan c' i) = None" for i
  proof (cases "ch_mhi_dev (mhi_chan c' i)")
    case (Some d)
    then have "d \<in> set (bus_devs c')" "ul_chan (devices c' d) = Some i \<or> dl_chan (devices c' d) = Some i"
      using c'(2) by (simp_all add: bus_typed_def)
    moreover from this(1) have "dev_type (devices c' d) = MHI_CONTROLLER_TYPE" using c'(3,4) by (simp add: own_devs_def)
    ultimately show ?thesis using c'(2) by (auto simp: bus_typed_def)
  qed
  with t c'(1,3) show ?thesis by blast
qed

definition pair_demo :: mhi_controller where
  "pair_demo = zero_controller\<lparr>max_chan := 2, ee := MHI_EE_SBL,
     mhi_chan := (\<lambda>i. zero_chan\<lparr>configured := True, ch_name := ''SAHARA'', ee_mask := 0xFFFFFFFF,
       dir := (if i = 0 then DMA_TO_DEVICE else DMA_FROM_DEVICE)\<rparr>)\<rparr>"

theorem device_links_witness:
  "bus_typed (mhi_create_devices link_up (\<lambda>d c. c) pair_demo) \<and> ch_mhi_dev (mhi_chan (mhi_create_devices link_up (\<lambda>d c. c) pair_demo) 1) = Some 0"
proof -
  have h: "bus_typed pair_demo" "pair_sides pair_demo" "bind_keeps (\<lambda>d c. c)" "unbind_keeps (\<lambda>d c. Some c)"
    "\<forall>d. device_add_ret link_up d = None"
    by (auto simp: pair_demo_def bus_typed_def zero_controller_def zero_chan_def pair_sides_def pairs_with_next_def
        bind_keeps_def unbind_keeps_def link_up_def)
  have e: "ch_mhi_dev (mhi_chan (mhi_create_devices link_up (\<lambda>d c. c) pair_demo) 1) = Some 0"
    by code_simp
  show ?thesis using device_links [OF h] e by blast
qed

text \<open>
  When the bus refuses a device, the device is freed and used afterwards, and the channel still
  points to it.
\<close>

lemma failed_add_dangles:
  "let c = mhi_create_devices (link_up\<lparr>device_add_ret := (\<lambda>d. Some ENOMEM)\<rparr>) (\<lambda>d c. c) pair_demo in
     ub c \<and> bus_devs c = [] \<and> ch_mhi_dev (mhi_chan c 0) = Some 0 \<and> Device_free 0 \<in> set (trace c)"
  by code_simp

end
