(* ===== verification/Mhi_Qti.thy ===== *)
theory Mhi_Qti
  imports Mhi_Pm
begin

text \<open>
  The PCIe glue, \<open>controllers/mhi_qti.c\<close>, with the registration of controllers of
  \<open>core/mhi_init.c\<close>: resources of the PCI device, probing and removing it, suspend and resume as
  the kernel calls them, and the numbers controllers get. The state is the driver's own part of
  the device; what it does to the PCI device is a trace, and what the PCI core answers is an
  argument. The branches for one platform's power management of the link are not built.
\<close>

section \<open>Controller numbers\<close>

text \<open>
  A controller is known by device id, domain, bus and slot; a row of the table that is zero is
  free. A row is never given back.
\<close>

type_synonym pci_key = "u32 \<times> u32 \<times> u32 \<times> u32"

definition MAX_MHI_CONTROLLER :: nat where "MAX_MHI_CONTROLLER = 16"

definition no_key :: pci_key where "no_key = (0, 0, 0, 0)"

fun claim_minor :: "nat \<Rightarrow> pci_key \<Rightarrow> pci_key list \<Rightarrow> nat option \<times> pci_key list" where
  "claim_minor i k [] = (None, [])"
| "claim_minor i k (r # rs) =
     (if r = k then (Some i, r # rs)
      else if r = no_key then (Some i, k # rs)
      else case claim_minor (Suc i) k rs of (m, rs) \<Rightarrow> (m, r # rs))"

section \<open>The PCI device\<close>

text \<open>What the driver does to the device, and what is done at its runtime power management.\<close>

datatype pci_obs =
    Assign_resource | Enable_device | Disable_device | Request_region | Release_region
  | Set_master | Clear_master | Ioremap u64 | Iounmap u64 | Alloc_vectors nat | Free_vectors
  | Alloc_irqs | Free_irqs | Set_drvdata
  | Rpm_autosuspend | Rpm_no_autosuspend | Rpm_disable | Rpm_mark_busy | Rpm_put_noidle | Rpm_get_sync
  | Rpm_get | Rpm_put | Rpm_forbid | Rpm_request_suspend
  | Stay_awake | Relax | Class_device nat | Class_device_remove nat | Controller_free

record qti_dev =
  pci_key :: pci_key
  cntrl_idx :: nat
  qti_mhi_dev :: "nat option"
  qti_cmd :: u64
  resn :: nat
  powered_on :: bool
  lpm_disabled :: bool
  lnkctl :: u8
  irq_vec :: "u32 list option"
  pci_trace :: "pci_obs list"

text \<open>
  The answers of the PCI core. \<open>vectors\<close> is the number of interrupt vectors it gives, \<open>cfg_device\<close>
  and \<open>cfg_vendor\<close> what the configuration space reads as.
\<close>

record pci_os =
  assign_ret :: "errno option"
  enable_ret :: "errno option"
  region_ret :: "errno option"
  dma64_ok :: bool
  coherent64 :: "errno option"
  dma32_ok :: bool
  coherent32 :: "errno option"
  ioremap_ret :: "u64 option"
  vectors :: "errno + nat"
  irq_array_ok :: bool
  vector_irq :: "nat \<Rightarrow> errno + u32"
  cfg_device :: "u16 option"
  cfg_vendor :: "u16 option"
  lnkctl_read :: "errno option"
  lnkctl_write :: "errno option"
  controller_ok :: bool
  class_device_ok :: bool
  sizeof_mhi_cmd :: u64

text \<open>A C return value: 0, a negative error number, or a positive number.\<close>

datatype pci_ret = Ret_ok | Ret_err errno | Ret_pos nat

definition ret_of :: "errno option \<Rightarrow> pci_ret" where
  "ret_of r = (case r of None \<Rightarrow> Ret_ok | Some e \<Rightarrow> Ret_err e)"

definition res_ret :: "unit res \<Rightarrow> pci_ret" where
  "res_ret r = (case r of Inl e \<Rightarrow> Ret_err e | Inr _ \<Rightarrow> Ret_ok)"

definition see :: "pci_obs list \<Rightarrow> qti_dev \<Rightarrow> qti_dev" where
  "see es q = q\<lparr>pci_trace := pci_trace q @ es\<rparr>"

section \<open>Resources\<close>

definition MHI_PCI_BAR_NUM :: nat where "MHI_PCI_BAR_NUM = 0"

definition mhi_deinit_pci_dev :: "qti_dev \<Rightarrow> mhi_controller \<Rightarrow> qti_dev \<times> mhi_controller" where
  "mhi_deinit_pci_dev q c =
     (see [Rpm_mark_busy, Rpm_no_autosuspend, Rpm_disable, Free_vectors, Free_irqs, Iounmap (regs c), Clear_master,
           Release_region, Disable_device] (q\<lparr>irq_vec := None\<rparr>),
      c\<lparr>regs := 0\<rparr>)"

text \<open>The widest DMA mask the device takes; the error is reported to the log only, and kept in \<open>ret\<close>.\<close>

definition dma_ret :: "pci_os \<Rightarrow> pci_ret" where
  "dma_ret po = (if dma64_ok po then ret_of (coherent64 po) else if dma32_ok po then ret_of (coherent32 po) else Ret_err EIO)"

text \<open>The labels of the error path, last one first.\<close>

definition error_enable_device :: "qti_dev \<Rightarrow> qti_dev" where
  "error_enable_device = see [Release_region]"

definition error_request_region :: "qti_dev \<Rightarrow> qti_dev" where
  "error_request_region q = error_enable_device (see [Disable_device] q)"

definition error_ioremap :: "qti_dev \<Rightarrow> qti_dev" where
  "error_ioremap q = error_request_region (see [Clear_master] q)"

definition error_req_msi :: "u64 \<Rightarrow> qti_dev \<Rightarrow> qti_dev" where
  "error_req_msi a q = error_ioremap (see [Iounmap a] q)"

definition error_alloc_msi_vec :: "u64 \<Rightarrow> qti_dev \<Rightarrow> qti_dev" where
  "error_alloc_msi_vec a q = error_req_msi a (see [Free_vectors] q)"

definition error_get_irq_vec :: "u64 \<Rightarrow> qti_dev \<Rightarrow> qti_dev" where
  "error_get_irq_vec a q = error_alloc_msi_vec a ((see [Free_irqs] q)\<lparr>irq_vec := None\<rparr>)"

text \<open>The interrupt line of each vector, or the first error.\<close>

fun irq_of_vectors :: "(nat \<Rightarrow> errno + u32) \<Rightarrow> nat list \<Rightarrow> errno + u32 list" where
  "irq_of_vectors f [] = Inr []"
| "irq_of_vectors f (i # ks) =
     (case f i of Inl e \<Rightarrow> Inl e | Inr irq \<Rightarrow> (case irq_of_vectors f ks of Inl e \<Rightarrow> Inl e | Inr irqs \<Rightarrow> Inr (irq # irqs)))"

text \<open>One vector is enough, or all that are needed; any other number is an error.\<close>

definition enough_vectors :: "u32 \<Rightarrow> nat \<Rightarrow> bool" where
  "enough_vectors required n \<longleftrightarrow> unat required \<le> n \<or> n = 1"

definition take_vectors :: "pci_os \<Rightarrow> u64 \<Rightarrow> qti_dev \<Rightarrow> mhi_controller \<Rightarrow> pci_ret \<times> qti_dev \<times> mhi_controller" where
  "take_vectors po a q c =
     (case vectors po of
        Inl e \<Rightarrow> (Ret_err e, error_req_msi a q, c)
      | Inr n \<Rightarrow>
          let q = see [Alloc_vectors n] q
          in if \<not> enough_vectors (msi_required c) n then (Ret_pos n, error_req_msi a q, c)
             else
               let c = c\<lparr>msi_allocated := of_nat n\<rparr>
               in if \<not> irq_array_ok po then (Ret_err ENOMEM, error_alloc_msi_vec a q, c)
                  else
                    let q = see [Alloc_irqs] q
                    in case irq_of_vectors (vector_irq po) [0..<n] of
                         Inl e \<Rightarrow> (Ret_err e, error_get_irq_vec a q, c)
                       | Inr irqs \<Rightarrow>
                           (Ret_ok, see [Set_drvdata, Rpm_autosuspend, Rpm_mark_busy, Rpm_put_noidle] (q\<lparr>irq_vec := Some irqs\<rparr>), c))"

definition mhi_init_pci_dev :: "pci_os \<Rightarrow> qti_dev \<Rightarrow> mhi_controller \<Rightarrow> pci_ret \<times> qti_dev \<times> mhi_controller" where
  "mhi_init_pci_dev po q c =
     (let q = q\<lparr>resn := MHI_PCI_BAR_NUM\<rparr>
      in case assign_ret po of
           Some e \<Rightarrow> (Ret_err e, q, c)
         | None \<Rightarrow> (let q = see [Assign_resource] q
           in case enable_ret po of
                Some e \<Rightarrow> (Ret_err e, error_enable_device q, c)
              | None \<Rightarrow> (let q = see [Enable_device] q
                in case region_ret po of
                     Some e \<Rightarrow> (Ret_err e, error_request_region q, c)
                   | None \<Rightarrow> (let q = see [Request_region, Set_master] q
                     in case ioremap_ret po of
                          None \<Rightarrow> (dma_ret po, error_ioremap q, c\<lparr>regs := 0\<rparr>)
                        | Some a \<Rightarrow> take_vectors po a (see [Ioremap a] q) (c\<lparr>regs := a\<rparr>)))))"

section \<open>The link\<close>

definition mhi_link_status :: "pci_os \<Rightarrow> qti_dev \<Rightarrow> pci_ret" where
  "mhi_link_status po q =
     (if map_option ucast (cfg_device po) = Some (fst (pci_key q)) then Ret_ok else Ret_err EIO)"

definition PCI_EXP_LNKCTL_ASPM_L1 :: u8 where "PCI_EXP_LNKCTL_ASPM_L1 = 2"

definition mhi_lpm_disable :: "pci_os \<Rightarrow> qti_dev \<Rightarrow> pci_ret \<times> qti_dev" where
  "mhi_lpm_disable po q =
     (case lnkctl_read po of
        Some e \<Rightarrow> (Ret_err e, q)
      | None \<Rightarrow>
          if lnkctl q AND PCI_EXP_LNKCTL_ASPM_L1 = 0 then (Ret_ok, q)
          else case lnkctl_write po of
              Some e \<Rightarrow> (Ret_err e, q)
            | None \<Rightarrow> (Ret_ok, q\<lparr>lnkctl := lnkctl q AND NOT PCI_EXP_LNKCTL_ASPM_L1, lpm_disabled := True\<rparr>))"

definition mhi_lpm_enable :: "pci_os \<Rightarrow> qti_dev \<Rightarrow> pci_ret \<times> qti_dev" where
  "mhi_lpm_enable po q =
     (if \<not> lpm_disabled q then (Ret_ok, q)
      else case lnkctl_read po of
        Some e \<Rightarrow> (Ret_err e, q)
      | None \<Rightarrow>
          case lnkctl_write po of
            Some e \<Rightarrow> (Ret_err e, q)
          | None \<Rightarrow> (Ret_ok, q\<lparr>lnkctl := lnkctl q OR PCI_EXP_LNKCTL_ASPM_L1, lpm_disabled := False\<rparr>))"

definition mhi_pci_is_alive :: "pci_os \<Rightarrow> bool" where
  "mhi_pci_is_alive po = (case cfg_vendor po of None \<Rightarrow> False | Some v \<Rightarrow> v \<noteq> 0xFFFF \<and> v \<noteq> 0)"

text \<open>Turning the link off and on does nothing where the platform does not do it.\<close>

definition mhi_arch_link_off :: "unit res" where "mhi_arch_link_off = Inr ()"
definition mhi_arch_link_on :: "unit res" where "mhi_arch_link_on = Inr ()"

section \<open>Power management\<close>

definition mhi_runtime_suspend ::
  "mhi_os \<Rightarrow> (mhi_controller \<Rightarrow> mhi_controller) \<Rightarrow> (mhi_controller \<Rightarrow> mhi_controller) \<Rightarrow> qti_dev \<Rightarrow> mhi_controller \<Rightarrow>
   unit res \<times> mhi_controller" where
  "mhi_runtime_suspend os env1 env2 q c =
     (if \<not> powered_on q then (Inr (), c)
      else if ee c \<noteq> MHI_EE_AMSS then (Inl EBUSY, c)
      else case mhi_pm_suspend os env1 env2 c of
          (Inl e, c) \<Rightarrow> (Inl e, c)
        | (Inr _, c) \<Rightarrow> (mhi_arch_link_off, c))"

definition mhi_runtime_idle :: "mhi_controller \<Rightarrow> unit res" where
  "mhi_runtime_idle c =
     (if (dev_state c = MHI_STATE_M0 \<or> dev_state c = MHI_STATE_M3) \<and> ee c = MHI_EE_AMSS then Inr () else Inl EBUSY)"

definition mhi_runtime_resume ::
  "mhi_os \<Rightarrow> (mhi_controller \<Rightarrow> mhi_controller) \<Rightarrow> qti_dev \<Rightarrow> mhi_controller \<Rightarrow> unit res \<times> mhi_controller" where
  "mhi_runtime_resume os env q c =
     (if \<not> powered_on q then (Inr (), c)
      else case mhi_arch_link_on of
          Inl e \<Rightarrow> (Inl e, c)
        | Inr _ \<Rightarrow> mhi_pm_resume os env c)"

definition mhi_system_resume ::
  "mhi_os \<Rightarrow> (mhi_controller \<Rightarrow> mhi_controller) \<Rightarrow> qti_dev \<Rightarrow> mhi_controller \<Rightarrow> unit res \<times> mhi_controller" where
  "mhi_system_resume os env q c = mhi_runtime_resume os env q c"

text \<open>\<open>suspended\<close> is whether the device is suspended already, as its runtime power management has it.\<close>

definition mhi_system_suspend ::
  "mhi_os \<Rightarrow> (mhi_controller \<Rightarrow> mhi_controller) \<Rightarrow> (mhi_controller \<Rightarrow> mhi_controller) \<Rightarrow> bool \<Rightarrow> qti_dev \<Rightarrow> mhi_controller \<Rightarrow>
   unit res \<times> mhi_controller" where
  "mhi_system_suspend os env1 env2 suspended q c =
     (if pending_pkts c \<noteq> 0 then (Inl EBUSY, c)
      else if suspended then (Inr (), c)
      else mhi_runtime_suspend os env1 env2 q c)"

definition mhi_runtime_get :: "qti_dev \<Rightarrow> qti_dev" where "mhi_runtime_get = see [Rpm_get]"
definition mhi_runtime_put :: "qti_dev \<Rightarrow> qti_dev" where "mhi_runtime_put = see [Rpm_mark_busy, Rpm_put]"
definition mhi_runtime_mark_last_busy :: "qti_dev \<Rightarrow> qti_dev" where "mhi_runtime_mark_last_busy = see [Rpm_mark_busy]"
definition mhi_debugfs_trigger_m0 :: "qti_dev \<Rightarrow> qti_dev" where "mhi_debugfs_trigger_m0 = see [Rpm_get, Rpm_put]"
definition mhi_debugfs_trigger_m3 :: "qti_dev \<Rightarrow> qti_dev" where "mhi_debugfs_trigger_m3 = see [Rpm_mark_busy, Rpm_request_suspend]"

definition mhi_status_cb :: "MHI_CB \<Rightarrow> qti_dev \<Rightarrow> qti_dev" where
  "mhi_status_cb r q = (if r = MHI_CB_FATAL_ERROR \<or> r = MHI_CB_SYS_ERROR then see [Rpm_forbid] q else q)"

text \<open>
  Powering up a device that is in the error state: it is reset and looked at until it has left
  the state, at most \<open>n\<close> times; \<open>env k\<close> is what happens before it is looked at for the \<open>k\<close>th time.
\<close>

fun leave_sys_err ::
  "mhi_os \<Rightarrow> (nat \<Rightarrow> mhi_controller \<Rightarrow> mhi_controller) \<Rightarrow> nat \<Rightarrow> nat \<Rightarrow> mhi_controller \<Rightarrow> bool \<times> mhi_controller" where
  "leave_sys_err os env k 0 c = (False, c)"
| "leave_sys_err os env k (Suc n) c =
     (let c = env k c
      in if mhi_get_mhi_state os c \<noteq> MHI_STATE_SYS_ERR then (True, c) else leave_sys_err os env (Suc k) n c)"

definition reset_polls :: "mhi_controller \<Rightarrow> nat" where
  "reset_polls c = unat ((timeout_ms c * 1000 + 9) div 10)"

definition mhi_power_up ::
  "mhi_os \<Rightarrow> (nat \<Rightarrow> mhi_controller \<Rightarrow> mhi_controller) \<Rightarrow> (mhi_controller \<Rightarrow> mhi_controller) \<Rightarrow> mhi_controller \<Rightarrow>
   unit res \<times> mhi_controller" where
  "mhi_power_up os polls env c =
     (case (if mhi_get_mhi_state os c = MHI_STATE_SYS_ERR
            then leave_sys_err os polls 0 (reset_polls c) (mhi_set_mhi_state os MHI_STATE_RESET c)
            else (True, c)) of
        (left, c) \<Rightarrow> if \<not> left then (Inl EIO, c) else mhi_async_power_up os env c)"

definition timeout_ms_store :: "u32 option \<Rightarrow> mhi_controller \<Rightarrow> unit res \<times> mhi_controller" where
  "timeout_ms_store v c = (case v of None \<Rightarrow> (Inl EINVAL, c) | Some t \<Rightarrow> (Inr (), c\<lparr>timeout_ms := t\<rparr>))"

definition power_up_store ::
  "mhi_os \<Rightarrow> (nat \<Rightarrow> mhi_controller \<Rightarrow> mhi_controller) \<Rightarrow> (mhi_controller \<Rightarrow> mhi_controller) \<Rightarrow> mhi_controller \<Rightarrow>
   unit res \<times> mhi_controller" where
  "power_up_store = mhi_power_up"

section \<open>Registration\<close>

text \<open>
  The controller's own device on the bus, its tables and its number. \<open>mbim\<close> and \<open>rmnet\<close> are the
  modes the channel table depends on. The interrupt handlers, workers and locks that are set up
  on the way are those the other theories call by name.
\<close>

definition of_register_mhi_controller ::
  "mhi_os \<Rightarrow> pci_os \<Rightarrow> (nat \<Rightarrow> mhi_controller \<Rightarrow> mhi_controller) \<Rightarrow> bool \<Rightarrow> bool \<Rightarrow> pci_key list \<Rightarrow> qti_dev \<Rightarrow> mhi_controller \<Rightarrow>
   unit res \<times> pci_key list \<times> qti_dev \<times> mhi_controller" where
  "of_register_mhi_controller os po bind mbim rmnet minors q c =
     (case claim_minor 0 (pci_key q) minors of
        (None, minors) \<Rightarrow> (Inl EINVAL, minors, q, c)
      | (Some i, minors) \<Rightarrow>
          let q = q\<lparr>cntrl_idx := i\<rparr>;
              free_tables = (\<lambda>c. emit (Kfree (event_mem c)) (emit (Kfree (chan_mem c)) c))
          in case of_parse_dt os mbim rmnet c of
               (Inl e, c) \<Rightarrow> (Inl EINVAL, minors, q, c)
             | (Inr _, c) \<Rightarrow>
                 case call_kmalloc os (sizeof_mhi_cmd po) c of
                   (None, c) \<Rightarrow> (Inl ENOMEM, minors, q, free_tables c)
                 | (Some cmd, c) \<Rightarrow>
                     let q = q\<lparr>qti_cmd := cmd\<rparr>; c = c\<lparr>transition_list := []\<rparr>
                     in case mhi_alloc_device os c of
                          (None, c) \<Rightarrow> (Inl ENOMEM, minors, q, free_tables (emit (Kfree cmd) c))
                        | (Some d, c) \<Rightarrow>
                            let c = upd_device d (\<lambda>dev. dev\<lparr>dev_type := MHI_CONTROLLER_TYPE\<rparr>) c
                            in case device_add_ret os d of
                                 Some e \<Rightarrow> (Inl e, minors, q, free_tables (emit (Kfree cmd) (mhi_dealloc_device d c)))
                               | None \<Rightarrow>
                                   (Inr (), minors,
                                    (if class_device_ok po then see [Class_device i] q else q)\<lparr>qti_mhi_dev := Some d\<rparr>,
                                    bind d (emit (Device_add d) (c\<lparr>bus_devs := bus_devs c @ [d]\<rparr>))))"

definition mhi_unregister_mhi_controller :: "pci_os \<Rightarrow> qti_dev \<Rightarrow> mhi_controller \<Rightarrow> qti_dev \<times> mhi_controller" where
  "mhi_unregister_mhi_controller po q c =
     (let c = emit (Kfree (chan_mem c)) (emit (Kfree (event_mem c)) (emit (Kfree (qti_cmd q)) c));
          q = (if class_device_ok po then see [Class_device_remove (cntrl_idx q)] q else q)
      in case qti_mhi_dev q of
           None \<Rightarrow> (q, c)
         | Some d \<Rightarrow> (q, emit (Device_free d) (emit (Device_del d) (c\<lparr>bus_devs := filter (\<lambda>x. x \<noteq> d) (bus_devs c)\<rparr>))))"

definition new_qti_dev :: "pci_key \<Rightarrow> u8 \<Rightarrow> qti_dev" where
  "new_qti_dev k l =
     \<lparr>pci_key = k, cntrl_idx = 0, qti_mhi_dev = None, qti_cmd = 0, resn = 0, powered_on = False, lpm_disabled = False, lnkctl = l,
      irq_vec = None, pci_trace = []\<rparr>"

text \<open>A new controller is zeroed memory; the window of addresses it may use is fixed.\<close>

definition mhi_register_controller ::
  "mhi_os \<Rightarrow> pci_os \<Rightarrow> (nat \<Rightarrow> mhi_controller \<Rightarrow> mhi_controller) \<Rightarrow> bool \<Rightarrow> bool \<Rightarrow> pci_key list \<Rightarrow> qti_dev \<Rightarrow>
   unit res \<times> pci_key list \<times> qti_dev \<times> mhi_controller" where
  "mhi_register_controller os po bind mbim rmnet minors q =
     (if \<not> controller_ok po then (Inl ENOMEM, minors, q, zero_controller)
      else
        let c = zero_controller\<lparr>iova_start := 0, iova_stop := 0x2000000000\<rparr>
        in case of_register_mhi_controller os po bind mbim rmnet minors q c of
             (Inl e, minors, q, c) \<Rightarrow> (Inl EINVAL, minors, see [Controller_free] q, c)
           | (Inr _, minors, q, c) \<Rightarrow> (Inr (), minors, q, c))"

section \<open>Probing and removing\<close>

text \<open>
  \<open>known\<close> is the controller that is registered for this device already. A probe function that
  fails leaves the controller registered and powered on, as far as its flag goes.
\<close>

definition mhi_pci_probe ::
  "mhi_os \<Rightarrow> pci_os \<Rightarrow> (nat \<Rightarrow> mhi_controller \<Rightarrow> mhi_controller) \<Rightarrow> (nat \<Rightarrow> mhi_controller \<Rightarrow> mhi_controller) \<Rightarrow>
   (mhi_controller \<Rightarrow> mhi_controller) \<Rightarrow> bool \<Rightarrow> bool \<Rightarrow> bool \<Rightarrow> pci_key \<Rightarrow> u8 \<Rightarrow> (qti_dev \<times> mhi_controller) option \<Rightarrow>
   pci_key list \<Rightarrow> pci_ret \<times> pci_key list \<times> (qti_dev \<times> mhi_controller) option" where
  "mhi_pci_probe os po bind polls env debug mbim rmnet key l known minors =
     (if \<not> mhi_pci_is_alive po then (Ret_err EIO, minors, known)
      else
        case (case known of
                Some (q, c) \<Rightarrow> (Inr (), minors, q, c)
              | None \<Rightarrow> mhi_register_controller os po bind mbim rmnet minors (new_qti_dev key l)) of
          (Inl e, minors, q, c) \<Rightarrow> (Ret_err e, minors, None)
        | (Inr _, minors, q, c) \<Rightarrow>
            (case mhi_init_pci_dev po (q\<lparr>powered_on := True\<rparr>) c of
               (ret, q, c) \<Rightarrow>
                 if ret \<noteq> Ret_ok then (ret, minors, Some (q, c))
                 else case (if debug then (Inr (), c) else mhi_power_up os polls env c) of
                     (Inl e, c) \<Rightarrow> (Ret_err e, minors, Some (mhi_deinit_pci_dev q c))
                   | (Inr _, c) \<Rightarrow> (Ret_ok, minors, Some (see [Rpm_mark_busy] q, c))))"

definition mhi_pci_device_removed ::
  "mhi_os \<Rightarrow> pci_os \<Rightarrow> (mhi_controller \<Rightarrow> mhi_controller) list \<Rightarrow> (mhi_controller \<Rightarrow> mhi_controller) list \<Rightarrow>
   (nat \<Rightarrow> mhi_controller \<Rightarrow> mhi_controller option) \<Rightarrow> qti_dev \<Rightarrow> mhi_controller \<Rightarrow> (qti_dev \<times> mhi_controller) option" where
  "mhi_pci_device_removed os po es_reset es_ready unbind q c =
     (let q = see [Stay_awake, Rpm_get_sync] q
      in if \<not> powered_on q then Some (see [Rpm_put_noidle] q, c)
         else
           let q = see [Rpm_put_noidle] (q\<lparr>powered_on := False\<rparr>)
           in map_option (\<lambda>c.
                case mhi_deinit_pci_dev q c of
                  (q, c) \<Rightarrow> mhi_unregister_mhi_controller po (see [Relax] q) c)
                (mhi_power_down os es_reset es_ready unbind False c))"

section \<open>Controllers keep their numbers\<close>

lemma claim_minor_known:
  assumes "k \<in> set u" and "no_key \<notin> set u"
  shows "\<exists>j. claim_minor i k (u @ v) = (Some (i + j), u @ v) \<and> j < length u \<and> u ! j = k"
  using assms
proof (induction u arbitrary: i)
  case (Cons r u)
  show ?case
  proof (cases "r = k")
    case False
    then obtain j where "claim_minor (Suc i) k (u @ v) = (Some (Suc i + j), u @ v)" "j < length u" "u ! j = k"
      using Cons.IH [of "Suc i"] Cons.prems by auto
    then show ?thesis using False Cons.prems by (intro exI [of _ "Suc j"]) auto
  qed (auto intro: exI [of _ 0])
qed simp

lemma claim_minor_new:
  assumes "k \<notin> set u" and "no_key \<notin> set u" and "k \<noteq> no_key"
  shows "claim_minor i k (u @ replicate n no_key) =
    (if n = 0 then (None, u) else (Some (i + length u), (u @ [k]) @ replicate (n - 1) no_key))"
  using assms
proof (induction u arbitrary: i)
  case Nil
  then show ?case by (cases n) auto
qed auto

text \<open>Every controller that is registered, in order, with the number it gets.\<close>

fun claim_all :: "pci_key list \<Rightarrow> pci_key list \<Rightarrow> nat option list \<times> pci_key list" where
  "claim_all [] t = ([], t)"
| "claim_all (k # ks) t =
     (case claim_minor 0 k t of (m, t) \<Rightarrow> (case claim_all ks t of (ms, t) \<Rightarrow> (m # ms, t)))"

definition rows :: "pci_key list \<Rightarrow> pci_key list" where
  "rows u = u @ replicate (MAX_MHI_CONTROLLER - length u) no_key"

definition rows_ok :: "pci_key list \<Rightarrow> bool" where
  "rows_ok u \<longleftrightarrow> distinct u \<and> no_key \<notin> set u \<and> length u \<le> MAX_MHI_CONTROLLER"

text \<open>A device has its row, or the table is full of others.\<close>

definition served :: "pci_key list \<Rightarrow> pci_key \<Rightarrow> nat option \<Rightarrow> bool" where
  "served u k m \<longleftrightarrow> (case m of Some j \<Rightarrow> j < length u \<and> u ! j = k | None \<Rightarrow> length u = MAX_MHI_CONTROLLER \<and> k \<notin> set u)"

lemma served_grow:
  assumes "served u k m" and "rows_ok (u @ v)"
  shows "served (u @ v) k m"
proof (cases m)
  case None
  then show ?thesis using assms by (simp add: served_def rows_ok_def)
next
  case (Some j)
  then show ?thesis using assms(1) by (simp add: served_def nth_append)
qed

lemma served_same:
  assumes "distinct u" and "served u k (Some i)" and "served u l m"
  shows "Some i = m \<longleftrightarrow> k = l"
proof -
  have i: "i < length u" "u ! i = k" using assms(2) by (simp_all add: served_def)
  show ?thesis
  proof (cases m)
    case None
    then show ?thesis using i assms(3) nth_mem [OF i(1)] by (auto simp: served_def)
  next
    case (Some j)
    then show ?thesis using i assms(3) nth_eq_iff_index_eq [OF assms(1) i(1), of j] by (auto simp: served_def)
  qed
qed

lemma claim_row:
  assumes "rows_ok u" and "k \<noteq> no_key"
  shows "\<exists>m v. claim_minor 0 k (rows u) = (m, rows (u @ v)) \<and> rows_ok (u @ v) \<and> set v \<subseteq> {k} \<and> served (u @ v) k m"
proof (cases "k \<in> set u")
  case True
  then obtain j where "claim_minor 0 k (rows u) = (Some (0 + j), rows u)" "j < length u" "u ! j = k"
    using claim_minor_known [of k u 0 "replicate (MAX_MHI_CONTROLLER - length u) no_key"] assms(1) by (auto simp: rows_def rows_ok_def)
  then show ?thesis using assms(1) by (intro exI [of _ "Some j"] exI [of _ "[]"]) (simp add: served_def)
next
  case False
  let ?n = "MAX_MHI_CONTROLLER - length u"
  have c: "claim_minor 0 k (rows u) = (if ?n = 0 then (None, u) else (Some (length u), (u @ [k]) @ replicate (?n - 1) no_key))"
    using claim_minor_new [of k u 0 ?n] False assms by (simp add: rows_def rows_ok_def)
  show ?thesis
  proof (cases "?n = 0")
    case True
    then have "length u = MAX_MHI_CONTROLLER" "rows u = u" using assms(1) by (simp_all add: rows_ok_def rows_def)
    then show ?thesis using c False assms(1) True by (intro exI [of _ None] exI [of _ "[]"]) (simp add: served_def)
  next
    case n: False
    have "rows_ok (u @ [k])" "rows (u @ [k]) = (u @ [k]) @ replicate (?n - 1) no_key"
      using False assms n by (simp_all add: rows_ok_def rows_def)
    then show ?thesis using c n by (intro exI [of _ "Some (length u)"] exI [of _ "[k]"]) (simp add: served_def)
  qed
qed

lemma claim_rows:
  assumes "rows_ok u" and "no_key \<notin> set ks" and "claim_all ks (rows u) = (ms, t)"
  shows "\<exists>v. t = rows (u @ v) \<and> rows_ok (u @ v) \<and> set v \<subseteq> set ks \<and> list_all2 (served (u @ v)) ks ms"
  using assms
proof (induction ks arbitrary: u ms)
  case Nil
  then show ?case by auto
next
  case (Cons k ks)
  have k: "k \<noteq> no_key" and ks: "no_key \<notin> set ks" using Cons.prems(2) by auto
  obtain m v where m: "claim_minor 0 k (rows u) = (m, rows (u @ v))" "rows_ok (u @ v)" "set v \<subseteq> {k}" "served (u @ v) k m"
    using claim_row [OF Cons.prems(1) k] by blast
  obtain ms' where ms': "claim_all ks (rows (u @ v)) = (ms', t)" "ms = m # ms'"
    using Cons.prems(3) m(1) by (auto split: prod.splits)
  obtain w where w: "t = rows ((u @ v) @ w)" "rows_ok ((u @ v) @ w)" "set w \<subseteq> set ks" "list_all2 (served ((u @ v) @ w)) ks ms'"
    using Cons.IH [OF m(2) ks ms'(1)] by blast
  have "served ((u @ v) @ w) k m" by (rule served_grow [OF m(4) w(2)])
  then show ?case using w m(3) ms'(2) by (intro exI [of _ "v @ w"]) auto
qed

text \<open>
  A controller keeps its number for as long as the module is loaded. However many times
  controllers are registered, two of them get the same number exactly if they are the same
  device (by id, domain, bus and slot), every number is below the size of the table, and a
  controller is refused only if there are more devices than rows.
\<close>

lemma controller_numbers:
  assumes "no_key \<notin> set ks" and "claim_all ks (replicate MAX_MHI_CONTROLLER no_key) = (ms, t)"
  shows "length ms = length ks
    \<and> (\<forall>a < length ks. \<forall>b < length ks. ms ! a \<noteq> None \<longrightarrow> (ms ! a = ms ! b \<longleftrightarrow> ks ! a = ks ! b))
    \<and> (\<forall>a < length ks. case ms ! a of Some i \<Rightarrow> i < MAX_MHI_CONTROLLER | None \<Rightarrow> MAX_MHI_CONTROLLER < card (set ks))"
proof -
  have z: "rows_ok []" "replicate MAX_MHI_CONTROLLER no_key = rows []" by (simp_all add: rows_ok_def rows_def)
  obtain v where v: "rows_ok v" "set v \<subseteq> set ks" "list_all2 (served v) ks ms"
    using claim_rows [OF z(1) assms(1) assms(2) [unfolded z(2)], unfolded append_Nil] by blast
  have s: "served v (ks ! a) (ms ! a)" if "a < length ks" for a using v(3) that by (rule list_all2_nthD)
  have d: "distinct v" "length v \<le> MAX_MHI_CONTROLLER" using v(1) by (simp_all add: rows_ok_def)
  have same: "ms ! a = ms ! b \<longleftrightarrow> ks ! a = ks ! b" if "a < length ks" "b < length ks" "ms ! a \<noteq> None" for a b
    using served_same [OF d(1) _ s [OF that(2)], of "ks ! a" "the (ms ! a)"] s [OF that(1)] that(3) by auto
  have "case ms ! a of Some i \<Rightarrow> i < MAX_MHI_CONTROLLER | None \<Rightarrow> MAX_MHI_CONTROLLER < card (set ks)" if "a < length ks" for a
  proof (cases "ms ! a")
    case None
    then have n: "length v = MAX_MHI_CONTROLLER" "ks ! a \<notin> set v" using s [OF that] by (simp_all add: served_def)
    have "set v \<subset> set ks" using v(2) n(2) that by auto
    then have "card (set v) < card (set ks)" by (simp add: psubset_card_mono)
    then show ?thesis using None n(1) distinct_card [OF d(1)] by simp
  next
    case (Some i)
    then show ?thesis using s [OF that] d(2) by (simp add: served_def)
  qed
  then show ?thesis using same list_all2_lengthD [OF v(3)] by auto
qed

lemma controller_numbers_instance:
  "\<exists>ms t. claim_all [(0x306, 0, 1, 0), (0x308, 0, 2, 0), (0x306, 0, 1, 0)] (replicate MAX_MHI_CONTROLLER no_key) = (ms, t)
    \<and> length ms = 3 \<and> ms ! 0 = ms ! 2 \<and> ms ! 0 \<noteq> ms ! 1"
proof -
  let ?ks = "[(0x306, 0, 1, 0), (0x308, 0, 2, 0), (0x306, 0, 1, 0)] :: pci_key list"
  obtain ms t where r: "claim_all ?ks (replicate MAX_MHI_CONTROLLER no_key) = (ms, t)" by fastforce
  have "ms ! 0 = Some 0" using r by (auto simp: MAX_MHI_CONTROLLER_def no_key_def numeral_eq_Suc split: prod.splits)
  moreover have k: "no_key \<notin> set ?ks" by (simp add: no_key_def)
  ultimately show ?thesis using controller_numbers [OF k r] r by fastforce
qed

section \<open>What is held of the PCI device\<close>

datatype pci_resource = Pci_device | Pci_region | Pci_master | Pci_mapping | Pci_vectors | Pci_irqs

fun change :: "pci_resource \<Rightarrow> pci_obs \<Rightarrow> int" where
  "change Pci_device e = (if e = Enable_device then 1 else if e = Disable_device then -1 else 0)"
| "change Pci_region e = (if e = Request_region then 1 else if e = Release_region then -1 else 0)"
| "change Pci_master e = (if e = Set_master then 1 else if e = Clear_master then -1 else 0)"
| "change Pci_mapping e = (case e of Ioremap a \<Rightarrow> 1 | Iounmap a \<Rightarrow> -1 | _ \<Rightarrow> 0)"
| "change Pci_vectors e = (case e of Alloc_vectors n \<Rightarrow> 1 | Free_vectors \<Rightarrow> -1 | _ \<Rightarrow> 0)"
| "change Pci_irqs e = (if e = Alloc_irqs then 1 else if e = Free_irqs then -1 else 0)"

definition pci_held :: "pci_resource \<Rightarrow> qti_dev \<Rightarrow> int" where
  "pci_held r q = sum_list (map (change r) (pci_trace q))"

lemma pci_held_see [simp]: "pci_held r (see es q) = pci_held r q + sum_list (map (change r) es)"
  by (simp add: pci_held_def see_def)

lemma pci_held_upd [simp]: "pci_held r (q\<lparr>irq_vec := v\<rparr>) = pci_held r q" "pci_held r (q\<lparr>resn := n\<rparr>) = pci_held r q"
  by (simp_all add: pci_held_def)

text \<open>What each label of the error path gives back.\<close>

lemma undo_region: "pci_held r (error_enable_device q) = pci_held r q - (if r = Pci_region then 1 else 0)"
  by (cases r) (simp_all add: error_enable_device_def)

lemma undo_device: "pci_held r (error_request_region q) = pci_held r q - (if r \<in> {Pci_region, Pci_device} then 1 else 0)"
  by (cases r) (simp_all add: error_request_region_def undo_region)

lemma undo_master: "pci_held r (error_ioremap q) = pci_held r q - (if r \<in> {Pci_region, Pci_device, Pci_master} then 1 else 0)"
  by (cases r) (simp_all add: error_ioremap_def undo_device)

lemma undo_mapping: "pci_held r (error_req_msi a q) = pci_held r q - (if r \<in> {Pci_vectors, Pci_irqs} then 0 else 1)"
  by (cases r) (simp_all add: error_req_msi_def undo_master)

lemma undo_vectors: "pci_held r (error_alloc_msi_vec a q) = pci_held r q - (if r = Pci_irqs then 0 else 1)"
  by (cases r) (simp_all add: error_alloc_msi_vec_def undo_mapping)

lemma undo_irqs: "pci_held r (error_get_irq_vec a q) = pci_held r q - 1"
  by (cases r) (simp_all add: error_get_irq_vec_def undo_vectors)

lemmas undone = undo_region undo_device undo_master undo_mapping undo_vectors undo_irqs

text \<open>Giving everything back takes one of each.\<close>

lemma deinit_held: "pci_held r (fst (mhi_deinit_pci_dev q c)) = pci_held r q - 1"
  by (cases r) (simp_all add: mhi_deinit_pci_dev_def)

definition region_refused :: "pci_os \<Rightarrow> bool" where
  "region_refused po \<longleftrightarrow> assign_ret po = None \<and> (enable_ret po \<noteq> None \<or> region_ret po \<noteq> None)"

definition mapped :: "pci_os \<Rightarrow> bool" where
  "mapped po \<longleftrightarrow> assign_ret po = None \<and> enable_ret po = None \<and> region_ret po = None \<and> ioremap_ret po \<noteq> None"

lemma take_vectors_held:
  assumes "take_vectors po a q c = (ret, q', c')"
  shows "pci_held r q' = pci_held r q
    + (if ret = Ret_ok then (if r \<in> {Pci_vectors, Pci_irqs} then 1 else 0)
       else if r = Pci_irqs then 0
       else if r = Pci_vectors then (case ret of Ret_pos n \<Rightarrow> 1 | _ \<Rightarrow> 0)
       else -1)"
  using assms
  by (cases r) (auto simp: take_vectors_def Let_def undone split: sum.splits if_splits)

text \<open>
  C30: What setting the PCI device up leaves behind. When it succeeds on a device whose registers
  could be mapped, every resource is held once and \<open>mhi_deinit_pci_dev\<close> gives each back. When it
  fails, nothing is held that was not held before, but for two faults: the memory region is
  released although it is not owned when the device or the region itself was refused, and the
  interrupt vectors are kept, with a positive result, when their number is not one of the two
  that will do. And when the registers cannot be mapped everything is given back and yet the
  result is the one of the DMA mask, which is success as a rule.
\<close>

theorem pci_set_up_outcomes:
  assumes "mhi_init_pci_dev po q c = (ret, q', c')"
  shows "if ret = Ret_ok \<and> mapped po
    then (\<forall>r. pci_held r q' = pci_held r q + 1 \<and> pci_held r (fst (mhi_deinit_pci_dev q' c')) = pci_held r q)
      \<and> Some (regs c') = ioremap_ret po \<and> irq_vec q' \<noteq> None
    else (\<forall>r. pci_held r q' = pci_held r q
          + (if r = Pci_region \<and> region_refused po then -1 else 0)
          + (if r = Pci_vectors \<and> (\<exists>n. ret = Ret_pos n) then 1 else 0))
      \<and> (ret = Ret_ok \<longrightarrow> regs c' = 0 \<and> dma_ret po = Ret_ok)"
proof (cases "mapped po")
  case True
  then obtain a where a: "ioremap_ret po = Some a" by (auto simp: mapped_def)
  define q1 where "q1 = see [Ioremap a] (see [Request_region, Set_master] (see [Enable_device] (see [Assign_resource] (q\<lparr>resn := MHI_PCI_BAR_NUM\<rparr>))))"
  have run: "take_vectors po a q1 (c\<lparr>regs := a\<rparr>) = (ret, q', c')"
    using assms True a by (simp add: mhi_init_pci_dev_def Let_def mapped_def q1_def)
  have q1: "pci_held r q1 = pci_held r q + (if r \<in> {Pci_vectors, Pci_irqs} then 0 else 1)" for r
    by (cases r) (simp_all add: q1_def)
  have g: "regs c' = a" and irqs: "ret = Ret_ok \<longrightarrow> irq_vec q' \<noteq> None"
    using run by (auto simp: take_vectors_def Let_def see_def split: sum.splits if_splits)
  have nr: "\<not> region_refused po" using True by (simp add: mapped_def region_refused_def)
  note h = take_vectors_held [OF run, unfolded q1]
  show ?thesis
  proof (cases "ret = Ret_ok")
    case True
    then show ?thesis using h g a irqs \<open>mapped po\<close> by (auto simp: deinit_held)
  next
    case False
    then show ?thesis using h nr by (auto split: pci_ret.splits)
  qed
next
  case False
  have "pci_held r q' = pci_held r q + (if r = Pci_region \<and> region_refused po then -1 else 0)
      + (if r = Pci_vectors \<and> (\<exists>n. ret = Ret_pos n) then 1 else 0)" for r
    using assms False
    by (cases r) (auto simp: mhi_init_pci_dev_def Let_def mapped_def region_refused_def undone dma_ret_def ret_of_def split: option.splits if_splits)
  moreover have "ret = Ret_ok \<longrightarrow> regs c' = 0 \<and> dma_ret po = Ret_ok"
    using assms False by (auto simp: mhi_init_pci_dev_def Let_def mapped_def split: option.splits)
  ultimately show ?thesis using False by simp
qed

text \<open>A device that takes a 64-bit mask and gives its vectors, but whose registers cannot be mapped.\<close>

definition no_map_pci :: pci_os where
  "no_map_pci = \<lparr>assign_ret = None, enable_ret = None, region_ret = None, dma64_ok = True, coherent64 = None, dma32_ok = True,
     coherent32 = None, ioremap_ret = None, vectors = Inr 1, irq_array_ok = True, vector_irq = (\<lambda>i. Inr (of_nat i)),
     cfg_device = Some 0x306, cfg_vendor = Some 0x17CB, lnkctl_read = None, lnkctl_write = None, controller_ok = True,
     class_device_ok = True, sizeof_mhi_cmd = 160\<rparr>"

theorem pci_set_up_outcomes_witness:
  "\<exists>q' c'. mhi_init_pci_dev no_map_pci (new_qti_dev (0x306, 0, 1, 0) 2) zero_controller = (Ret_ok, q', c')
    \<and> pci_held Pci_device q' = 0 \<and> pci_held Pci_region q' = 0 \<and> regs c' = 0"
proof -
  obtain q' c' where r: "mhi_init_pci_dev no_map_pci (new_qti_dev (0x306, 0, 1, 0) 2) zero_controller = (Ret_ok, q', c')"
    by (simp add: mhi_init_pci_dev_def Let_def no_map_pci_def dma_ret_def ret_of_def)
  have "\<not> mapped no_map_pci" "\<not> region_refused no_map_pci" by (simp_all add: mapped_def region_refused_def no_map_pci_def)
  moreover have "pci_held x (new_qti_dev (0x306, 0, 1, 0) 2) = 0" for x by (simp add: pci_held_def new_qti_dev_def)
  ultimately show ?thesis using pci_set_up_outcomes [OF r] r by simp
qed

section \<open>Saving power on the link\<close>

text \<open>Disabling and enabling the low power state of the link gives the control byte back.\<close>

lemma lpm_restored:
  assumes "\<not> lpm_disabled q" and "mhi_lpm_disable po q = (Ret_ok, q1)" and "mhi_lpm_enable po q1 = (Ret_ok, q2)"
  shows "lnkctl q2 = lnkctl q \<and> \<not> lpm_disabled q2"
proof -
  have b: "(x AND NOT 2) OR 2 = x" if "x AND 2 \<noteq> 0" for x :: u8
  proof -
    have "bit x 1" using that by (simp add: bit_iff_and_push_bit_not_eq_0)
    then show ?thesis by (auto intro!: bit_eqI simp: bit_simps bit_2_iff)
  qed
  show ?thesis using assms b
    by (auto simp: mhi_lpm_disable_def mhi_lpm_enable_def PCI_EXP_LNKCTL_ASPM_L1_def split: option.splits if_splits)
qed

end
