(* ===== verification/Mhi_Client.thy ===== *)
theory Mhi_Client
  imports Mhi_Chan
begin

text \<open>
  What the clients of the bus (the network device, the character devices and the modem control
  lines) rely on when they hand buffers to a channel: a buffer is queued behind the others or
  nothing is, and the rest of the channel stays as it is. The contract is a locale; the queue
  functions for socket buffers and for plain buffers provide it.
\<close>

section \<open>The contract\<close>

locale client_queue =
  fixes post :: "'p \<Rightarrow> 'c \<Rightarrow> unit res \<times> 'c"
    and posted :: "'c \<Rightarrow> 'p list"
    and room :: "'c \<Rightarrow> nat"
    and ok :: "'c \<Rightarrow> bool"
    and same :: "'c \<Rightarrow> 'c \<Rightarrow> bool"
  assumes post_ok: "ok c \<Longrightarrow> post p c = (Inr u, c') \<Longrightarrow>
      ok c' \<and> posted c' = posted c @ [p] \<and> Suc (room c') = room c \<and> same c c'"
    and post_err: "ok c \<Longrightarrow> post p c = (Inl e, c') \<Longrightarrow> ok c' \<and> posted c' = posted c \<and> room c' = room c \<and> same c c'"
    and same_refl: "same c c"
    and same_trans: "same a b \<Longrightarrow> same b c \<Longrightarrow> same a c"

text \<open>Queueing a list of buffers up to the first that is refused.\<close>

fun post_list :: "('p \<Rightarrow> 'c \<Rightarrow> unit res \<times> 'c) \<Rightarrow> 'p list \<Rightarrow> 'c \<Rightarrow> unit res \<times> 'c" where
  "post_list post [] c = (Inr (), c)"
| "post_list post (p # ps) c =
     (case post p c of (Inl e, c) \<Rightarrow> (Inl e, c) | (Inr _, c) \<Rightarrow> post_list post ps c)"

context client_queue
begin

lemma post_list_result:
  assumes "ok c" and "post_list post ps c = (r, c')"
  shows "\<exists>k. posted c' = posted c @ take k ps \<and> room c' + k = room c \<and> k \<le> length ps
    \<and> (is_ok r \<longleftrightarrow> k = length ps) \<and> ok c' \<and> same c c'"
  using assms
proof (induction ps arbitrary: c)
  case Nil
  then show ?case using same_refl by (intro exI [of _ 0]) auto
next
  case (Cons p ps)
  obtain q c1 where q: "post p c = (q, c1)" by (cases "post p c")
  show ?case
  proof (cases q)
    case (Inl e)
    then show ?thesis using Cons.prems q post_err [of c p e c1] by (intro exI [of _ 0]) auto
  next
    case (Inr u)
    note s = post_ok [OF Cons.prems(1) q [unfolded Inr]]
    have "post_list post ps c1 = (r, c')" using Cons.prems(2) q Inr by simp
    then obtain k where k: "posted c' = posted c1 @ take k ps" "room c' + k = room c1" "k \<le> length ps"
      "is_ok r \<longleftrightarrow> k = length ps" "ok c'" "same c1 c'"
      using Cons.IH [of c1] s by blast
    show ?thesis using k s same_trans [of c c1 c'] by (intro exI [of _ "Suc k"]) auto
  qed
qed

end

section \<open>The channels provide it\<close>

text \<open>The clients' own pointers to the buffers a channel holds, and the room it has left.\<close>

definition posted_on :: "nat \<Rightarrow> mhi_controller \<Rightarrow> u64 list" where
  "posted_on i c = map cb_buf (ring_content (buf_ring (mhi_chan c i)))"

definition room_on :: "nat \<Rightarrow> mhi_controller \<Rightarrow> nat" where
  "room_on i c = ring_room (tre_ring (mhi_chan c i))"

definition client_chan :: "nat \<Rightarrow> mhi_controller \<Rightarrow> bool" where
  "client_chan i c \<longleftrightarrow> lockstep (mhi_chan c i) \<and> unat (elements (tre_ring (mhi_chan c i))) < 2 ^ 31"

definition same_client :: "nat \<Rightarrow> mhi_controller \<Rightarrow> mhi_controller \<Rightarrow> bool" where
  "same_client i c c' \<longleftrightarrow> chan_rest (mhi_chan c' i) = chan_rest (mhi_chan c i) \<and> pm_state c' = pm_state c
     \<and> (\<forall>j. j \<noteq> i \<longrightarrow> mhi_chan c' j = mhi_chan c j)"

text \<open>Either queue function refines the contract, whatever it promises of the descriptor.\<close>

lemma queue_spec_post:
  assumes "queue_spec i good c (r, c')" and "client_chan i c" and "\<And>t b. good t b \<Longrightarrow> cb_buf b = p"
  shows "client_chan i c' \<and> same_client i c c'
    \<and> (if is_ok r then posted_on i c' = posted_on i c @ [p] \<and> Suc (room_on i c') = room_on i c
       else posted_on i c' = posted_on i c \<and> room_on i c' = room_on i c)"
proof (cases r)
  case (Inl e)
  then show ?thesis using assms(1,2)
    by (auto simp: queue_spec_def same_queue_def client_chan_def same_client_def posted_on_def room_on_def)
next
  case (Inr u)
  have wf: "ring_wf (tre_ring (mhi_chan c i))" using assms(2) by (simp add: client_chan_def lockstep_def)
  obtain t b where b: "good t b" "appended (mhi_chan c i) t b (mhi_chan c' i)"
    using assms(1) Inr by (auto simp: queue_spec_def)
  have nf: "0 < ring_room (tre_ring (mhi_chan c i))"
    using assms(1) Inr ring_room_pos_iff [OF wf] by (simp add: queue_spec_def)
  have "length (ring_content (tre_ring (mhi_chan c' i))) = Suc (ring_count (tre_ring (mhi_chan c i)))"
    using b(2) by (simp add: appended_def del: length_ring_content) simp
  then have "Suc (room_on i c') = room_on i c"
    using b(2) nf by (simp add: room_on_def ring_room_def appended_def)
  then show ?thesis using assms b Inr
    by (auto simp: queue_spec_def appended_def client_chan_def same_client_def posted_on_def)
qed

interpretation skb_client: client_queue "\<lambda>p. mhi_queue_skb os i p (dat p) ln" "posted_on i" "room_on i"
  "client_chan i" "same_client i" for os i dat ln
proof (unfold_locales, goal_cases)
  case (1 c p u c')
  then show ?case
    using queue_spec_post [OF queue_skb_appends [of c i ln os "dat p" p, unfolded 1(2)] 1(1), of p]
    by (auto simp: client_chan_def host_buf_def)
next
  case (2 c p e c')
  then show ?case
    using queue_spec_post [OF queue_skb_appends [of c i ln os "dat p" p, unfolded 2(2)] 2(1), of p]
    by (auto simp: client_chan_def host_buf_def)
qed (auto simp: same_client_def)

interpretation buf_client: client_queue "\<lambda>p. mhi_queue_buf os i p ln flags" "posted_on i" "room_on i"
  "client_chan i" "same_client i" for os i ln flags
proof (unfold_locales, goal_cases)
  case (1 c p u c')
  then show ?case
    using queue_spec_post [OF queue_buf_appends [of c i ln flags os p, unfolded 1(2)] 1(1), of p]
    by (auto simp: client_chan_def host_buf_def)
next
  case (2 c p e c')
  then show ?case
    using queue_spec_post [OF queue_buf_appends [of c i ln flags os p, unfolded 2(2)] 2(1), of p]
    by (auto simp: client_chan_def host_buf_def)
qed (auto simp: same_client_def)

text \<open>The number of descriptors a client is told to be free is the room.\<close>

lemma free_descriptors:
  assumes "client_chan i c" and "dev_channel d r = Some i" and "\<not> offload_ch (mhi_chan c i)"
  shows "mhi_get_no_free_descriptors d r c = Some (int (room_on i c))"
proof -
  have "get_nr_avail_ring_elements (tre_ring (mhi_chan c i)) = int (room_on i c)"
    unfolding room_on_def using assms(1) by (intro nr_avail_is_room) (auto simp: client_chan_def lockstep_def)
  then show ?thesis using assms(2,3) by (simp add: mhi_get_no_free_descriptors_def)
qed

section \<open>Completions\<close>

text \<open>
  An event for the queued descriptor number \<open>k\<close> hands the oldest \<open>k + 1\<close> buffers back to the
  client, in order, and leaves the others queued.
\<close>

definition result_of :: "mhi_chan \<Rightarrow> mhi_tre \<Rightarrow> u64 \<Rightarrow> mhi_result" where
  "result_of ch ev p = \<lparr>buf_addr = p, res_dir = dir ch, bytes_xferd = ucast (ucast (MHI_TRE_GET_EV_LEN ev) :: u16),
     transaction_status = event_status ev\<rparr>"

lemma completed_posted:
  assumes "client_chan i c" and "\<not> pre_alloc (mhi_chan c i)" and "ch_state (mhi_chan c i) = MHI_CH_STATE_ENABLED"
    and "transfer_code ev" and "names_queued (tre_ring (mhi_chan c i)) ev k"
  shows "\<exists>c'. parse_xfer_event os ev i c = Some c' \<and> client_chan i c' \<and> posted_on i c' = drop (Suc k) (posted_on i c)
    \<and> drop (length (callbacks c)) (callbacks c') = map (\<lambda>p. Xfer_cb i (result_of (mhi_chan c i) ev p)) (take (Suc k) (posted_on i c))
    \<and> queue_xfer (mhi_chan c' i) = queue_xfer (mhi_chan c i) \<and> offload_ch (mhi_chan c' i) = offload_ch (mhi_chan c i)
    \<and> k < length (posted_on i c)"
proof -
  let ?ch = "mhi_chan c i" and ?len = "ucast (MHI_TRE_GET_EV_LEN ev) :: u16" and ?st = "event_status ev"
  let ?c0 = "count_used_event i (MHI_TRE_GET_EV_CODE ev) (touch_chan i c)"
  define c' where "c' = (xfer_one os i ?len ?st ^^ Suc k) ?c0"
  have l: "lockstep ?ch" and el: "unat (elements (tre_ring ?ch)) < 2 ^ 31" using assms(1) by (simp_all add: client_chan_def)
  have run: "parse_xfer_event os ev i c = Some c'"
    unfolding c'_def by (rule completion_run(1) [OF l assms(3,4,5)])
  have c0: "lockstep (mhi_chan ?c0 i)" "\<not> pre_alloc (mhi_chan ?c0 i)" "Suc k \<le> ring_count (tre_ring (mhi_chan ?c0 i))"
    "callbacks ?c0 = callbacks c"
    using l assms(2) completion_run(2) [OF l assms(3,4,5)] by simp_all
  have o: "queue_xfer (mhi_chan ?c0 i) = queue_xfer ?ch" "offload_ch (mhi_chan ?c0 i) = offload_ch ?ch"
    by (simp_all add: count_used_event_def)
  note s = xfer_steps [OF c0(1-3), of os ?len ?st, folded c'_def, unfolded Let_def]
  note f = xfer_steps_kept [OF c0(2), where os = os and n = ?len and st = ?st and k = "Suc k", folded c'_def, unfolded Let_def]
  have cb: "drop (length (callbacks c)) (callbacks c') = map (\<lambda>p. Xfer_cb i (result_of ?ch ev p)) (take (Suc k) (posted_on i c))"
    using s c0(4) by (simp add: completion_of_def result_of_def posted_on_def take_map)
  have ps: "posted_on i c' = drop (Suc k) (posted_on i c)" using s by (simp add: posted_on_def drop_map)
  have "k < length (posted_on i c)"
    using completion_run(2) [OF l assms(3,4,5)] lockstep_count [OF l] by (simp add: posted_on_def)
  then show ?thesis using run cb ps s f o el by (simp add: client_chan_def)
qed

end
