(* ===== verification/Mhi_Uci.thy ===== *)
theory Mhi_Uci
  imports Mhi_Client
begin

text \<open>
  The character devices, \<open>devices/mhi_uci.c\<close>: a program in user space reads and writes a pair of
  channels through them. The receive side owns an array of pages, one more than the ring takes;
  a page that has been read gives its predecessor back to the device, so the addresses in the
  ring never change. Channels of the DUN, QMI and MBIM protocols give a page back at once and
  keep a copy. As built, a device stays open once it has been opened. What the device writes to
  a page is an argument, and so is what user space memory lets be copied.
\<close>

section \<open>State\<close>

record uci_buf =
  ub_data :: u64
  ub_bytes :: "u8 list"
  ub_len :: nat

text \<open>A buffer user space is to read: a page of the array by its number, or a copy.\<close>

datatype uci_item = Slot nat | Copy "u8 list"

datatype uci_obs = Wake_ul | Wake_dl | Free_pages | Free_dev | Fill u64 "u8 list"

text \<open>
  \<open>uci_bufs\<close> is the array, which stays where it was when its memory is freed: \<open>pages_freed\<close>.
  \<open>pages_init\<close> is how many of its elements have been written.
\<close>

record uci_dev =
  uci_mhi :: mhi_device
  uci_pending :: "uci_item list"
  cur_buf :: "uci_item option"
  rx_size :: nat
  uci_mtu :: u64
  ref_count :: int
  uci_enabled :: bool
  rx_error :: u32
  nr_trb :: nat
  nr_trbs :: nat
  uci_bufs :: "(nat \<Rightarrow> uci_buf) option"
  pages_init :: nat
  pages_freed :: bool
  max_xferd :: u64
  termios :: "u8 list"
  uci_minor :: nat
  uci_ub :: bool
  uci_trace :: "uci_obs list"

definition uci_see :: "uci_obs \<Rightarrow> uci_dev \<Rightarrow> uci_dev" where
  "uci_see e d = d\<lparr>uci_trace := uci_trace d @ [e]\<rparr>"

text \<open>Any use of the array after it has been freed is noted.\<close>

definition touch_bufs :: "uci_dev \<Rightarrow> uci_dev" where
  "touch_bufs d = (if pages_freed d then d\<lparr>uci_ub := True\<rparr> else d)"

definition buf_at :: "uci_dev \<Rightarrow> nat \<Rightarrow> uci_buf" where
  "buf_at d k = (case uci_bufs d of None \<Rightarrow> \<lparr>ub_data = 0, ub_bytes = [], ub_len = 0\<rparr> | Some b \<Rightarrow> b k)"

definition prev_trb :: "uci_dev \<Rightarrow> nat \<Rightarrow> nat" where
  "prev_trb d k = (if k = 0 then nr_trbs d - 1 else k - 1)"

text \<open>A system call returns a number of bytes or an error; a failed copy returns what was not copied.\<close>

datatype uci_ret = Bytes nat | Error errno

section \<open>Giving pages to the device\<close>

definition post_page :: "mhi_os \<Rightarrow> uci_dev \<Rightarrow> nat \<Rightarrow> mhi_controller \<Rightarrow> (unit res \<times> mhi_controller) option" where
  "post_page os d k c =
     mhi_queue_transfer os (uci_mhi d) DMA_FROM_DEVICE (ub_data (buf_at d k)) (ub_data (buf_at d k)) (uci_mtu d)
       (mhi_flags_val MHI_EOT) c"

fun post_pages :: "mhi_os \<Rightarrow> uci_dev \<Rightarrow> nat list \<Rightarrow> unit res \<Rightarrow> mhi_controller \<Rightarrow> (unit res \<times> mhi_controller) option" where
  "post_pages os d [] ret c = Some (ret, c)"
| "post_pages os d (k # ks) ret c =
     Option.bind (post_page os d k c)
       (\<lambda>(ret, c). case ret of Inl e \<Rightarrow> Some (Inl e, c) | Inr _ \<Rightarrow> post_pages os d ks ret c)"

text \<open>
  The pages: \<open>pages\<close> gives their addresses or refuses one, which leaves the rest of the array
  as the allocator gave it.
\<close>

definition alloc_pages :: "bool \<Rightarrow> (nat \<Rightarrow> u64 option) \<Rightarrow> nat \<Rightarrow> uci_dev \<Rightarrow> unit res \<times> uci_dev" where
  "alloc_pages array_ok pages n d =
     (let d = d\<lparr>nr_trb := 0, nr_trbs := n\<rparr>
      in if \<not> array_ok then (Inl ENOMEM, d)
         else
           let d = d\<lparr>uci_bufs := Some (\<lambda>k. \<lparr>ub_data = (case pages k of None \<Rightarrow> 0 | Some a \<Rightarrow> a), ub_bytes = [], ub_len = 0\<rparr>),
                     pages_freed := False\<rparr>;
               bad = filter (\<lambda>k. pages k = None) [0..<n]
           in case bad of k # ks \<Rightarrow> (Inl ENOMEM, d\<lparr>pages_init := Suc k\<rparr>) | [] \<Rightarrow> (Inr (), d\<lparr>pages_init := n\<rparr>))"

definition mhi_queue_inbound ::
  "mhi_os \<Rightarrow> bool \<Rightarrow> (nat \<Rightarrow> u64 option) \<Rightarrow> uci_dev \<Rightarrow> mhi_controller \<Rightarrow> (unit res \<times> uci_dev \<times> mhi_controller) option" where
  "mhi_queue_inbound os array_ok pages d c =
     Option.bind (mhi_get_no_free_descriptors (uci_mhi d) DMA_FROM_DEVICE c) (\<lambda>free.
       let n = nat free
       in case (if uci_bufs d = None then alloc_pages array_ok pages (n + 1) d else (Inr (), touch_bufs d)) of
            (Inl e, d) \<Rightarrow> Some (Inl e, d, c)
          | (Inr _, d) \<Rightarrow>
              map_option (\<lambda>(ret, c). (ret, d, c)) (post_pages os d [0..<n] (Inl EIO) c))"

section \<open>Completions\<close>

definition mhi_ul_xfer_cb :: "mhi_result \<Rightarrow> uci_dev \<Rightarrow> mhi_controller \<Rightarrow> uci_dev \<times> mhi_controller" where
  "mhi_ul_xfer_cb r d c =
     (if transaction_status r = None then uci_see Wake_ul d else d, emit (Kfree (buf_addr r)) c)"

definition MHI_CLIENT_MBIM_IN :: int where "MHI_CLIENT_MBIM_IN = 13"
definition MHI_CLIENT_QMI_IN :: int where "MHI_CLIENT_QMI_IN = 15"
definition MHI_CLIENT_DUN_IN :: int where "MHI_CLIENT_DUN_IN = 33"

definition copies :: "uci_dev \<Rightarrow> bool" where
  "copies d \<longleftrightarrow> dl_chan_id (uci_mhi d) \<in> {MHI_CLIENT_DUN_IN, MHI_CLIENT_QMI_IN, MHI_CLIENT_MBIM_IN}"

definition next_trb :: "uci_dev \<Rightarrow> nat" where
  "next_trb d = (if Suc (nr_trb d) = nr_trbs d then 0 else Suc (nr_trb d))"

text \<open>
  The completion of a page into which the device has written \<open>bs\<close>; \<open>copy_ok\<close> says whether there
  is memory for a copy. A copy is not kept when only the device itself has it open.
\<close>

definition mhi_dl_xfer_cb ::
  "mhi_os \<Rightarrow> bool \<Rightarrow> u8 list \<Rightarrow> mhi_result \<Rightarrow> uci_dev \<Rightarrow> mhi_controller \<Rightarrow> (uci_dev \<times> mhi_controller) option" where
  "mhi_dl_xfer_cb os copy_ok bs r d c =
     (let d = touch_bufs d; k = nr_trb d
      in if uci_bufs d = None then Some (d, c)
         else if ub_data (buf_at d k) \<noteq> buf_addr r then Some (d\<lparr>rx_error := rx_error d + 1\<rparr>, c)
         else
           let d = d\<lparr>nr_trb := next_trb d\<rparr>
           in if transaction_status r = Some ENOTCONN then Some (d, c)
              else if uci_mtu d < bytes_xferd r \<or> bytes_xferd r = 0 then Some (d, c)
              else
                let n = unat (bytes_xferd r);
                    d = (if max_xferd d < bytes_xferd r then d\<lparr>max_xferd := bytes_xferd r\<rparr> else d);
                    d = d\<lparr>uci_bufs := map_option (\<lambda>b. b(k := (b k)\<lparr>ub_bytes := bs, ub_len := n\<rparr>)) (uci_bufs d)\<rparr>
                in if copies d
                   then Option.bind (post_page os d (prev_trb d k) c) (\<lambda>(ret, c).
                     let d = (if copy_ok \<and> ref_count d \<noteq> 1 then d\<lparr>uci_pending := uci_pending d @ [Copy (take n bs)]\<rparr> else d)
                     in Some (uci_see Wake_dl d, c))
                   else Some (uci_see Wake_dl (d\<lparr>uci_pending := uci_pending d @ [Slot k]\<rparr>), c))"

section \<open>Reading\<close>

definition item_bytes :: "uci_dev \<Rightarrow> uci_item \<Rightarrow> u8 list" where
  "item_bytes d it = (case it of Copy bs \<Rightarrow> bs | Slot k \<Rightarrow> take (ub_len (buf_at d k)) (ub_bytes (buf_at d k)))"

definition item_len :: "uci_dev \<Rightarrow> uci_item \<Rightarrow> nat" where
  "item_len d it = (case it of Copy bs \<Rightarrow> length bs | Slot k \<Rightarrow> ub_len (buf_at d k))"

text \<open>When a buffer has been read to its end, the page before it goes to the device again.\<close>

definition finish_item ::
  "mhi_os \<Rightarrow> uci_item \<Rightarrow> uci_dev \<Rightarrow> mhi_controller \<Rightarrow> (unit res \<times> uci_dev \<times> mhi_controller) option" where
  "finish_item os it d c =
     (let d = d\<lparr>cur_buf := None\<rparr>
      in if \<not> uci_enabled d then Some (Inl ERESTARTSYS, d, c)
         else case it of
             Copy bs \<Rightarrow> Some (Inr (), d, c)
           | Slot k \<Rightarrow> map_option (\<lambda>(ret, c). (ret, touch_bufs d, c)) (post_page os d (prev_trb d k) c))"

text \<open>
  \<open>wait\<close> is what happens while the reader waits: whether a signal ends the wait, and the state
  then. \<open>left\<close> is the number of bytes user space memory did not take. A wait that ends with
  nothing to read and no reason to stop goes on forever: \<open>None\<close>.
\<close>

definition read_item ::
  "mhi_os \<Rightarrow> nat \<Rightarrow> nat \<Rightarrow> uci_dev \<Rightarrow> mhi_controller \<Rightarrow> (uci_ret \<times> u8 list \<times> uci_dev \<times> mhi_controller) option" where
  "read_item os left cnt d c =
     (case (case cur_buf d of
              Some it \<Rightarrow> Some (it, d)
            | None \<Rightarrow> (case uci_pending d of
                 [] \<Rightarrow> None
               | it # its \<Rightarrow> Some (it, d\<lparr>uci_pending := its, cur_buf := Some it, rx_size := item_len d it\<rparr>))) of
        None \<Rightarrow> Some (Error EIO, [], d, c)
      | Some (it, d) \<Rightarrow>
          let d = (case it of Slot k \<Rightarrow> touch_bufs d | Copy bs \<Rightarrow> d); to_copy = min cnt (rx_size d);
              bs = take to_copy (drop (item_len d it - rx_size d) (item_bytes d it))
          in if left \<noteq> 0 then Some (Bytes left, take (to_copy - left) bs, d, c)
             else
               let d = d\<lparr>rx_size := rx_size d - to_copy\<rparr>
               in if rx_size d \<noteq> 0 then Some (Bytes to_copy, bs, d, c)
                  else map_option (\<lambda>(ret, d, c). (case ret of Inl e \<Rightarrow> Error e | Inr _ \<Rightarrow> Bytes to_copy, bs, d, c))
                         (finish_item os it d c))"

definition mhi_uci_read ::
  "mhi_os \<Rightarrow> (uci_dev \<Rightarrow> mhi_controller \<Rightarrow> bool \<times> uci_dev \<times> mhi_controller) \<Rightarrow> bool \<Rightarrow> nat \<Rightarrow> nat \<Rightarrow> uci_dev \<Rightarrow>
   mhi_controller \<Rightarrow> (uci_ret \<times> u8 list \<times> uci_dev \<times> mhi_controller) option" where
  "mhi_uci_read os wait nonblock left cnt d c =
     (if rx_error d \<noteq> 0 then Some (Error EINVAL, [], d, c)
      else if \<not> uci_enabled d then Some (Error ERESTARTSYS, [], d, c)
      else if cur_buf d = None \<and> uci_pending d = [] then
        if nonblock then Some (Error EAGAIN, [], d, c)
        else case wait d c of (sig, d, c) \<Rightarrow>
               if sig \<or> \<not> uci_enabled d then Some (Error ERESTARTSYS, [], d, c)
               else if uci_pending d = [] then None
               else read_item os left cnt d c
      else read_item os left cnt d c)"

section \<open>Writing\<close>

text \<open>
  One piece of a write: the memory for it, the copy, and the flag, which chains the pieces of a
  write as long as the ring has room for another one.
\<close>

definition piece_flag :: "int \<Rightarrow> bool \<Rightarrow> MHI_FLAGS" where
  "piece_flag nr_avail again = (if 1 < nr_avail \<and> again then MHI_CHAIN else MHI_EOT)"

definition write_piece ::
  "mhi_os \<Rightarrow> nat \<Rightarrow> int \<Rightarrow> u8 list \<Rightarrow> u8 list \<Rightarrow> uci_dev \<Rightarrow> mhi_controller \<Rightarrow>
   (uci_ret option \<times> uci_dev \<times> mhi_controller) option" where
  "write_piece os left nr_avail bs rest d c =
     (case call_kmalloc os (of_nat (length bs)) c of
        (None, c) \<Rightarrow> Some (Some (Error ENOMEM), d, c)
      | (Some kbuf, c) \<Rightarrow>
          if left \<noteq> 0 then Some (Some (Bytes left), d, emit (Kfree kbuf) c)
          else
            let d = uci_see (Fill kbuf bs) d
            in if \<not> uci_enabled d then Some (Some (Error ERESTARTSYS), d, emit (Kfree kbuf) c)
               else Option.bind (mhi_queue_transfer os (uci_mhi d) DMA_TO_DEVICE kbuf kbuf (of_nat (length bs))
                      (mhi_flags_val (piece_flag nr_avail (rest \<noteq> []))) c)
                    (\<lambda>(ret, c). case ret of
                       Inl e \<Rightarrow> Some (Some (Error e), d, emit (Kfree kbuf) c)
                     | Inr _ \<Rightarrow> Some (None, d, c)))"

text \<open>
  The loop over the pieces; \<open>waits\<close> and \<open>lefts\<close> say for each round what happens in the wait and
  how much of the copy fails. With an \<open>mtu\<close> of zero it never ends.
\<close>

partial_function (option) write_loop ::
  "mhi_os \<Rightarrow> (nat \<Rightarrow> uci_dev \<Rightarrow> mhi_controller \<Rightarrow> bool \<times> uci_dev \<times> mhi_controller) \<Rightarrow> (nat \<Rightarrow> nat) \<Rightarrow> bool \<Rightarrow> nat \<Rightarrow>
   nat \<Rightarrow> u8 list \<Rightarrow> uci_dev \<Rightarrow> mhi_controller \<Rightarrow> (uci_ret \<times> uci_dev \<times> mhi_controller) option" where
  "write_loop os waits lefts nonblock k done bs d c =
     (if bs = [] then Some (Bytes done, d, c)
      else Option.bind (mhi_get_no_free_descriptors (uci_mhi d) DMA_TO_DEVICE c) (\<lambda>nr_avail.
        if nr_avail = 0 \<and> nonblock then Some (Error EAGAIN, d, c)
        else case waits k d c of (sig, d, c) \<Rightarrow>
          if sig \<or> \<not> uci_enabled d then Some (Error ERESTARTSYS, d, c)
          else Option.bind (mhi_get_no_free_descriptors (uci_mhi d) DMA_TO_DEVICE c) (\<lambda>nr_avail.
            if nr_avail \<le> 0 then None
            else
              let n = unat (uci_mtu d); piece = take n bs; rest = drop n bs
              in Option.bind (write_piece os (lefts k) nr_avail piece rest d c) (\<lambda>r.
                 case r of (stop, d, c) \<Rightarrow>
                   (case stop of
                      Some ret \<Rightarrow> Some (ret, d, c)
                    | None \<Rightarrow> write_loop os waits lefts nonblock (Suc k) (done + length piece) rest d c)))))"

definition mhi_uci_write ::
  "mhi_os \<Rightarrow> (nat \<Rightarrow> uci_dev \<Rightarrow> mhi_controller \<Rightarrow> bool \<times> uci_dev \<times> mhi_controller) \<Rightarrow> (nat \<Rightarrow> nat) \<Rightarrow> bool \<Rightarrow>
   u8 list \<Rightarrow> uci_dev \<Rightarrow> mhi_controller \<Rightarrow> (uci_ret \<times> uci_dev \<times> mhi_controller) option" where
  "mhi_uci_write os waits lefts nonblock bs d c =
     (if bs = [] \<or> rx_error d \<noteq> 0 then Some (Error EINVAL, d, c)
      else if \<not> uci_enabled d then Some (Error ERESTARTSYS, d, c)
      else write_loop os waits lefts nonblock 0 0 bs d c)"

section \<open>Opening, closing, polling\<close>

text \<open>Freeing the pages looks at every element of the array, written or not.\<close>

definition free_pages :: "uci_dev \<Rightarrow> uci_dev" where
  "free_pages d =
     (if uci_bufs d = None then d
      else uci_see Free_pages ((touch_bufs d)\<lparr>pages_freed := True, uci_ub := uci_ub d \<or> pages_freed d \<or> pages_init d < nr_trbs d\<rparr>))"

definition mhi_uci_open ::
  "mhi_os \<Rightarrow> (nat \<Rightarrow> mhi_controller \<Rightarrow> mhi_controller) \<Rightarrow> bool \<Rightarrow> (nat \<Rightarrow> u64 option) \<Rightarrow> uci_dev \<Rightarrow> mhi_controller \<Rightarrow>
   (unit res \<times> uci_dev \<times> mhi_controller) option" where
  "mhi_uci_open os envs array_ok pages d c =
     (if \<not> uci_enabled d then Some (Inl EIO, d, c)
      else
        let d = d\<lparr>ref_count := ref_count d + 1\<rparr>
        in if ref_count d \<noteq> 1 then Some (Inr (), d, c)
           else Option.bind (mhi_prepare_for_transfer os envs (uci_mhi d) c) (\<lambda>(ret, c).
             case ret of
               Inl e \<Rightarrow> Some (Inl e, d\<lparr>ref_count := ref_count d - 1\<rparr>, c)
             | Inr _ \<Rightarrow> Option.bind (mhi_queue_inbound os array_ok pages d c) (\<lambda>(ret, d, c).
                 case ret of
                   Inr _ \<Rightarrow> Some (Inr (), d\<lparr>ref_count := ref_count d + 1\<rparr>, c)
                 | Inl e \<Rightarrow> map_option (\<lambda>c. (Inl e, free_pages d, c))
                     (mhi_unprepare_from_transfer os (\<lambda>k. envs (k + 3)) (uci_mhi d) c))))"

text \<open>The last user of a removed device frees it, and its minor number.\<close>

definition mhi_uci_release ::
  "mhi_os \<Rightarrow> (nat \<Rightarrow> mhi_controller \<Rightarrow> mhi_controller) \<Rightarrow> uci_dev \<Rightarrow> nat list \<Rightarrow> mhi_controller \<Rightarrow>
   (uci_dev \<times> nat list \<times> mhi_controller) option" where
  "mhi_uci_release os envs d used c =
     (let d = d\<lparr>ref_count := ref_count d - 1\<rparr>
      in if ref_count d \<noteq> 0 then Some (d, used, c)
         else map_option (\<lambda>c. let d = (free_pages d)\<lparr>cur_buf := None\<rparr>
                in if uci_enabled d then (d, used, c)
                   else (uci_see Free_dev d, filter (\<lambda>m. m \<noteq> uci_minor d) used, c))
              (if uci_enabled d then mhi_unprepare_from_transfer os envs (uci_mhi d) c else Some c))"

record poll_mask =
  pollin :: bool
  pollout :: bool
  pollerr :: bool
  pollhup :: bool

definition mhi_uci_poll :: "uci_dev \<Rightarrow> mhi_controller \<Rightarrow> poll_mask option" where
  "mhi_uci_poll d c =
     (let m = \<lparr>pollin = uci_enabled d \<and> (uci_pending d \<noteq> [] \<or> cur_buf d \<noteq> None), pollout = False,
               pollerr = \<not> uci_enabled d, pollhup = False\<rparr>
      in if ul_chan (uci_mhi d) = None then Some m
         else if uci_enabled d
           then map_option (\<lambda>free. m\<lparr>pollout := 0 < free, pollerr := rx_error d \<noteq> 0\<rparr>)
                  (mhi_get_no_free_descriptors (uci_mhi d) DMA_TO_DEVICE c)
         else Some (m\<lparr>pollhup := True\<rparr>))"

section \<open>Probing and removing\<close>

text \<open>Minor numbers are the bits of a map of 64.\<close>

definition MAX_UCI_DEVICES :: nat where "MAX_UCI_DEVICES = 64"

definition find_minor :: "nat list \<Rightarrow> nat option" where
  "find_minor used = List.find (\<lambda>m. m \<notin> set used) [0..<MAX_UCI_DEVICES]"

text \<open>
  \<open>dev_ok\<close> is the allocation, \<open>driver_data\<close> the largest transfer of the protocol and \<open>std\<close> the
  standard terminal settings of the kernel.
\<close>

definition mhi_uci_probe ::
  "bool \<Rightarrow> u64 \<Rightarrow> u8 list \<Rightarrow> mhi_device \<Rightarrow> nat list \<Rightarrow> uci_dev res \<times> nat list" where
  "mhi_uci_probe dev_ok driver_data std dv used =
     (if \<not> dev_ok then (Inl ENOMEM, used)
      else case find_minor used of
          None \<Rightarrow> (Inl ENOSPC, used)
        | Some m \<Rightarrow>
            (Inr \<lparr>uci_mhi = dv, uci_pending = [], cur_buf = None, rx_size = 0, uci_mtu = min driver_data (mtu dv),
                  ref_count = 0, uci_enabled = True, rx_error = 0, nr_trb = 0, nr_trbs = 0, uci_bufs = None,
                  pages_init = 0, pages_freed = False, max_xferd = 0, termios = std, uci_minor = m, uci_ub = False, uci_trace = []\<rparr>,
             m # used))"

text \<open>
  A device without a reader is freed, its minor number with it; its pages are not.
\<close>

definition mhi_uci_remove :: "uci_dev \<Rightarrow> nat list \<Rightarrow> uci_dev \<times> nat list" where
  "mhi_uci_remove d used =
     (let d = uci_see Wake_ul (uci_see Wake_dl (d\<lparr>uci_enabled := False\<rparr>));
          d = (if 0 < ref_count d then d\<lparr>ref_count := ref_count d - 1\<rparr> else d)
      in if ref_count d = 0 then (uci_see Free_dev d, filter (\<lambda>m. m \<noteq> uci_minor d) used) else (d, used))"

section \<open>The pages stay in order\<close>

text \<open>\<open>m\<close> places of a ring of \<open>n\<close>, from place \<open>a\<close> on.\<close>

definition places :: "nat \<Rightarrow> nat \<Rightarrow> nat \<Rightarrow> nat list" where
  "places n a m = map (\<lambda>j. (a + j) mod n) [0..<m]"

lemma length_places [simp]: "length (places n a m) = m"
  by (simp add: places_def)

lemma places_0 [simp]: "places n a 0 = []"
  by (simp add: places_def)

lemma places_Suc: "places n a (Suc m) = (a mod n) # places n (Suc a) m"
  by (simp add: places_def map_upt_Suc del: upt_Suc)

lemma places_snoc: "places n a (Suc m) = places n a m @ [(a + m) mod n]"
  by (simp add: places_def)

lemma places_append: "places n a (m + k) = places n a m @ places n (a + m) k"
  by (induction k) (simp_all add: places_snoc add.assoc)

text \<open>A page waiting to be read is a slot of the array.\<close>

definition slots_of :: "uci_item list \<Rightarrow> nat list" where
  "slots_of its = map (\<lambda>it. case it of Slot k \<Rightarrow> k | Copy bs \<Rightarrow> 0) its"

definition all_slots :: "uci_item list \<Rightarrow> bool" where
  "all_slots its \<longleftrightarrow> (\<forall>it \<in> set its. \<exists>k. it = Slot k)"

definition uci_items :: "uci_dev \<Rightarrow> uci_item list" where
  "uci_items d = (case cur_buf d of None \<Rightarrow> [] | Some it \<Rightarrow> [it]) @ uci_pending d"

definition page_addr :: "uci_dev \<Rightarrow> nat \<Rightarrow> u64" where
  "page_addr d k = ub_data (buf_at d k)"

text \<open>
  All pages but one are in a row around the array: those waiting to be read, oldest first, then
  those on their way back (\<open>fl\<close>) and with the device, starting with the one expected next.
\<close>

definition uci_inv :: "u64 list \<Rightarrow> nat \<Rightarrow> uci_dev \<Rightarrow> mhi_controller \<Rightarrow> bool" where
  "uci_inv fl i d c \<longleftrightarrow>
     dl_chan (uci_mhi d) = Some i \<and> client_chan i c \<and> queue_xfer (mhi_chan c i) = mhi_queue_buf_fn
     \<and> \<not> copies d \<and> uci_bufs d \<noteq> None \<and> \<not> pages_freed d \<and> all_slots (uci_items d)
     \<and> (case cur_buf d of None \<Rightarrow> True | Some it \<Rightarrow> rx_size d \<le> item_len d it)
     \<and> length (uci_items d) + length (fl @ posted_on i c) + 1 = nr_trbs d
     \<and> (\<exists>a. slots_of (uci_items d) = places (nr_trbs d) a (length (uci_items d))
          \<and> nr_trb d = (a + length (uci_items d)) mod nr_trbs d
          \<and> fl @ posted_on i c = map (page_addr d) (places (nr_trbs d) (a + length (uci_items d)) (length (fl @ posted_on i c))))"

text \<open>What has come from the device and has not been read.\<close>

definition unread :: "uci_dev \<Rightarrow> u8 list" where
  "unread d = (case cur_buf d of None \<Rightarrow> [] | Some it \<Rightarrow> drop (item_len d it - rx_size d) (item_bytes d it))
     @ concat (map (item_bytes d) (uci_pending d))"

lemma slots_of_simps [simp]:
  "slots_of [] = []" "slots_of (Slot k # its) = k # slots_of its" "slots_of (xs @ ys) = slots_of xs @ slots_of ys"
  "length (slots_of its) = length its"
  by (simp_all add: slots_of_def)

lemma all_slots_simps [simp]:
  "all_slots []" "all_slots (it # its) \<longleftrightarrow> (\<exists>k. it = Slot k) \<and> all_slots its"
  "all_slots (xs @ ys) \<longleftrightarrow> all_slots xs \<and> all_slots ys"
  by (auto simp: all_slots_def)

lemma mod_shift_inj:
  assumes "(a + i) mod n = (a + j) mod n" and "i < n" and "j < (n::nat)"
  shows "i = j"
  using assms
proof (induction i j rule: linorder_wlog)
  case (le i j)
  then have "n dvd (a + j) - (a + i)" using mod_eq_dvd_iff_nat [of "a + i" "a + j" n] by simp
  then have "n dvd j - i" by simp
  then show ?case using le by (auto dest: dvd_imp_le)
qed simp

lemma distinct_places: "m \<le> n \<Longrightarrow> distinct (places n a m)"
  by (auto simp: places_def distinct_map inj_on_def intro: mod_shift_inj)

text \<open>Writing a page that is not waiting to be read changes nothing of those that are.\<close>

lemma items_kept:
  assumes "all_slots its" and "k \<notin> set (slots_of its)" and "\<And>j. j \<noteq> k \<Longrightarrow> buf_at d' j = buf_at d j" and "x \<in> set its"
  shows "item_bytes d' x = item_bytes d x \<and> item_len d' x = item_len d x"
proof -
  obtain j where x: "x = Slot j" using assms(1,4) by (auto simp: all_slots_def)
  have "j \<in> set (slots_of its)" using assms(4) x by (force simp: slots_of_def)
  then have "buf_at d' j = buf_at d j" using assms(2) by (intro assms(3)) auto
  then show ?thesis using x by (simp add: item_bytes_def item_len_def)
qed

text \<open>
  One completion of the page expected next: it becomes the last to be read, with what the device
  wrote, and no page is taken for another.
\<close>

lemma dl_cb_inv:
  assumes "uci_inv (p # fl) i d c" and "buf_addr r = p" and "transaction_status r \<noteq> Some ENOTCONN"
    and "bytes_xferd r \<noteq> 0" and "bytes_xferd r \<le> uci_mtu d"
  shows "\<exists>d'. mhi_dl_xfer_cb os ok bs r d c = Some (d', c) \<and> uci_inv fl i d' c
    \<and> unread d' = unread d @ take (unat (bytes_xferd r)) bs \<and> rx_error d' = rx_error d \<and> uci_mtu d' = uci_mtu d"
proof -
  let ?N = "nr_trbs d" and ?s = "length (uci_items d)" and ?k = "nr_trb d" and ?n = "unat (bytes_xferd r)"
  obtain a where sl: "slots_of (uci_items d) = places ?N a ?s" and k: "?k = (a + ?s) mod ?N"
    and dv: "(p # fl) @ posted_on i c = map (page_addr d) (places ?N (a + ?s) (Suc (length (fl @ posted_on i c))))"
    using assms(1) by (auto simp: uci_inv_def)
  obtain b where b: "uci_bufs d = Some b" using assms(1) by (auto simp: uci_inv_def)
  have N: "?s + length (fl @ posted_on i c) + 2 = ?N" and fr: "\<not> pages_freed d" and cp: "\<not> copies d"
    and al: "all_slots (uci_items d)" using assms(1) by (simp_all add: uci_inv_def)
  have p: "p = page_addr d ?k" and dv': "fl @ posted_on i c = map (page_addr d) (places ?N (a + Suc ?s) (length (fl @ posted_on i c)))"
    using dv k by (simp_all add: places_Suc)
  define d' where "d' = uci_see Wake_dl (d\<lparr>nr_trb := next_trb d, max_xferd := (if max_xferd d < bytes_xferd r then bytes_xferd r else max_xferd d),
    uci_bufs := Some (b(?k := (b ?k)\<lparr>ub_bytes := bs, ub_len := ?n\<rparr>)), uci_pending := uci_pending d @ [Slot ?k]\<rparr>)"
  have run: "mhi_dl_xfer_cb os ok bs r d c = Some (d', c)"
    using assms(2-5) p fr b cp
    by (simp add: mhi_dl_xfer_cb_def Let_def touch_bufs_def page_addr_def d'_def copies_def buf_at_def)
  have it: "uci_items d' = uci_items d @ [Slot ?k]" by (simp add: uci_items_def d'_def uci_see_def)
  have "distinct (places ?N a (Suc ?s))" using N by (intro distinct_places) simp
  then have new: "?k \<notin> set (slots_of (uci_items d))" using sl k by (simp add: places_snoc)
  have same: "buf_at d' j = buf_at d j" if "j \<noteq> ?k" for j using that b by (simp add: d'_def buf_at_def uci_see_def)
  have at: "buf_at d' ?k = (b ?k)\<lparr>ub_bytes := bs, ub_len := ?n\<rparr>" by (simp add: d'_def buf_at_def uci_see_def)
  have ad: "page_addr d' = page_addr d" using same at b by (auto simp: page_addr_def fun_eq_iff buf_at_def d'_def uci_see_def)
  have kept: "item_bytes d' x = item_bytes d x \<and> item_len d' x = item_len d x" if "x \<in> set (uci_items d)" for x
    by (rule items_kept [OF al new same that])
  have pd: "uci_pending d' = uci_pending d @ [Slot ?k]" "cur_buf d' = cur_buf d" "rx_size d' = rx_size d"
    by (simp_all add: d'_def uci_see_def)
  have old: "map (item_bytes d') (uci_pending d) = map (item_bytes d) (uci_pending d)" using kept by (simp add: uci_items_def)
  have last: "item_bytes d' (Slot ?k) = take ?n bs" using at by (simp add: item_bytes_def)
  have un: "unread d' = unread d @ take ?n bs"
    using kept by (auto simp: unread_def uci_items_def pd old last split: option.split)
  have nx: "next_trb d = (a + Suc ?s) mod ?N" using k N by (simp add: next_trb_def mod_Suc)
  have f: "uci_mhi d' = uci_mhi d" "nr_trbs d' = ?N" "copies d' = copies d" "pages_freed d' = pages_freed d" "cur_buf d' = cur_buf d"
    "rx_size d' = rx_size d" "uci_bufs d' \<noteq> None" "nr_trb d' = next_trb d" "rx_error d' = rx_error d" "uci_mtu d' = uci_mtu d"
    by (simp_all add: d'_def uci_see_def copies_def)
  have inv: "uci_inv fl i d' c"
    unfolding uci_inv_def f it
    using assms(1) N al sl k nx dv' ad kept
    by (auto simp: uci_inv_def f places_snoc uci_items_def split: option.split intro!: exI [of _ a])
  show ?thesis using run inv un f by blast
qed

text \<open>The callbacks of a device, run for what the controller hands back.\<close>

fun uci_callbacks ::
  "mhi_os \<Rightarrow> bool \<Rightarrow> (u64 \<Rightarrow> u8 list) \<Rightarrow> obs list \<Rightarrow> uci_dev \<Rightarrow> mhi_controller \<Rightarrow> (uci_dev \<times> mhi_controller) option" where
  "uci_callbacks os ok mem [] d c = Some (d, c)"
| "uci_callbacks os ok mem (e # es) d c =
     Option.bind
       (case e of Xfer_cb j r \<Rightarrow>
            (if dl_chan (uci_mhi d) = Some j then mhi_dl_xfer_cb os ok (mem (buf_addr r)) r d c
             else if ul_chan (uci_mhi d) = Some j then Some (mhi_ul_xfer_cb r d c)
             else Some (d, c))
        | _ \<Rightarrow> Some (d, c))
       (\<lambda>(d, c). uci_callbacks os ok mem es d c)"

definition received :: "(u64 \<Rightarrow> u8 list) \<Rightarrow> mhi_tre \<Rightarrow> u64 list \<Rightarrow> u8 list" where
  "received mem ev ps = concat (map (\<lambda>p. take (unat (ucast (MHI_TRE_GET_EV_LEN ev) :: u16)) (mem p)) ps)"

text \<open>An event that says how much of a page has been written, and not more than the page.\<close>

definition fits :: "mhi_tre \<Rightarrow> uci_dev \<Rightarrow> bool" where
  "fits ev d \<longleftrightarrow> (ucast (MHI_TRE_GET_EV_LEN ev) :: u16) \<noteq> 0 \<and> ucast (ucast (MHI_TRE_GET_EV_LEN ev) :: u16) \<le> uci_mtu d"

lemma ucast_u16_u64: "unat (ucast (x :: u16) :: u64) = unat x" "(ucast (x :: u16) :: u64) = 0 \<longleftrightarrow> x = 0"
proof -
  have "unat x < 2 ^ 16" using unsigned_less [of x] by simp
  then have "unat x < 2 ^ 64" by simp
  then show u: "unat (ucast x :: u64) = unat x" by (simp add: unsigned_ucast_eq take_bit_nat_eq_self)
  show "(ucast x :: u64) = 0 \<longleftrightarrow> x = 0" using u by (metis unsigned_0 unsigned_eq_0_iff)
qed

lemma callbacks_inv:
  assumes "uci_inv ps i d c" and "fits ev d"
  shows "\<exists>d'. uci_callbacks os ok mem (map (\<lambda>p. Xfer_cb i (result_of ch ev p)) ps) d c = Some (d', c) \<and> uci_inv [] i d' c
    \<and> unread d' = unread d @ received mem ev ps \<and> rx_error d' = rx_error d"
  using assms
proof (induction ps arbitrary: d)
  case Nil
  then show ?case by (simp add: received_def)
next
  case (Cons p ps)
  let ?r = "result_of ch ev p"
  have "transaction_status ?r \<noteq> Some ENOTCONN" "bytes_xferd ?r \<noteq> 0" "bytes_xferd ?r \<le> uci_mtu d" "buf_addr ?r = p"
    using Cons.prems(2) by (simp_all add: result_of_def fits_def ucast_u16_u64 event_status_def)
  then obtain d1 where d1: "mhi_dl_xfer_cb os ok (mem p) ?r d c = Some (d1, c)" "uci_inv ps i d1 c"
    "unread d1 = unread d @ take (unat (bytes_xferd ?r)) (mem p)" "rx_error d1 = rx_error d" "uci_mtu d1 = uci_mtu d"
    using dl_cb_inv [OF Cons.prems(1), of ?r os ok "mem p"] by auto
  have "fits ev d1" using Cons.prems(2) d1(5) by (simp add: fits_def)
  then obtain d' where d': "uci_callbacks os ok mem (map (\<lambda>p. Xfer_cb i (result_of ch ev p)) ps) d1 c = Some (d', c)"
    "uci_inv [] i d' c" "unread d' = unread d1 @ received mem ev ps" "rx_error d' = rx_error d1"
    using Cons.IH [OF d1(2)] by auto
  have "dl_chan (uci_mhi d) = Some i" using Cons.prems(1) by (simp add: uci_inv_def)
  then show ?case using d1 d' by (simp add: received_def result_of_def ucast_u16_u64)
qed

text \<open>An event hands pages to the reader, in order, with what the device has written.\<close>

lemma event_inv:
  assumes "uci_inv [] i d c" and "fits ev d" and "\<not> pre_alloc (mhi_chan c i)"
    and "ch_state (mhi_chan c i) = MHI_CH_STATE_ENABLED" and "transfer_code ev" and "names_queued (tre_ring (mhi_chan c i)) ev k"
  shows "\<exists>c' d'. parse_xfer_event os ev i c = Some c'
    \<and> uci_callbacks os ok mem (drop (length (callbacks c)) (callbacks c')) d c' = Some (d', c') \<and> uci_inv [] i d' c'
    \<and> unread d' = unread d @ received mem ev (take (Suc k) (posted_on i c)) \<and> rx_error d' = rx_error d"
proof -
  have cl: "client_chan i c" using assms(1) by (simp add: uci_inv_def)
  obtain c' where c': "parse_xfer_event os ev i c = Some c'" "client_chan i c'"
    "posted_on i c' = drop (Suc k) (posted_on i c)" "queue_xfer (mhi_chan c' i) = queue_xfer (mhi_chan c i)"
    "drop (length (callbacks c)) (callbacks c') = map (\<lambda>p. Xfer_cb i (result_of (mhi_chan c i) ev p)) (take (Suc k) (posted_on i c))"
    using completed_posted [OF cl assms(3-6), of os] by blast
  have "uci_inv (take (Suc k) (posted_on i c)) i d c'"
    using assms(1) c' unfolding uci_inv_def by (simp only: c'(3) append_take_drop_id append_Nil simp_thms)
  then show ?thesis using callbacks_inv [OF _ assms(2)] c' by fastforce
qed

lemma post_page_inv:
  assumes "dl_chan (uci_mhi d) = Some i" and "client_chan i c" and "queue_xfer (mhi_chan c i) = mhi_queue_buf_fn"
    and "post_page os d k c = Some (Inr u, c')"
  shows "client_chan i c' \<and> queue_xfer (mhi_chan c' i) = mhi_queue_buf_fn \<and> posted_on i c' = posted_on i c @ [page_addr d k]"
proof -
  have q: "mhi_queue_buf os i (page_addr d k) (uci_mtu d) (mhi_flags_val MHI_EOT) c = (Inr u, c')"
    using assms by (simp add: post_page_def mhi_queue_transfer_def dev_channel_def call_queue_xfer_def page_addr_def)
  show ?thesis using buf_client.post_ok [OF assms(2) q] assms(3) by (auto simp: same_client_def dest: chan_rest_fields)
qed

text \<open>Taking the first buffer that waits as the one to read.\<close>

definition pick :: "uci_dev \<Rightarrow> uci_dev" where
  "pick d = (case (cur_buf d, uci_pending d) of
     (None, it # its) \<Rightarrow> d\<lparr>uci_pending := its, cur_buf := Some it, rx_size := item_len d it\<rparr> | _ \<Rightarrow> d)"

lemma item_cong [simp]:
  "item_bytes (d\<lparr>uci_pending := its\<rparr>) = item_bytes d" "item_len (d\<lparr>uci_pending := its\<rparr>) = item_len d"
  "page_addr (d\<lparr>uci_pending := its\<rparr>) = page_addr d"
  "item_bytes (d\<lparr>rx_size := n\<rparr>) = item_bytes d" "item_len (d\<lparr>rx_size := n\<rparr>) = item_len d"
  "page_addr (d\<lparr>rx_size := n\<rparr>) = page_addr d"
  "item_bytes (d\<lparr>cur_buf := x\<rparr>) = item_bytes d" "item_len (d\<lparr>cur_buf := x\<rparr>) = item_len d"
  "page_addr (d\<lparr>cur_buf := x\<rparr>) = page_addr d"
  by (auto simp: fun_eq_iff item_bytes_def item_len_def page_addr_def buf_at_def split: uci_item.split)

lemma pick_same:
  "uci_items (pick d) = uci_items d" "page_addr (pick d) = page_addr d" "nr_trbs (pick d) = nr_trbs d" "nr_trb (pick d) = nr_trb d"
  "uci_mhi (pick d) = uci_mhi d" "copies (pick d) = copies d" "uci_bufs (pick d) = uci_bufs d" "pages_freed (pick d) = pages_freed d"
  by (auto simp: pick_def uci_items_def copies_def split: option.splits list.splits)

lemma pick_inv:
  assumes "uci_inv fl i d c"
  shows "uci_inv fl i (pick d) c"
proof -
  have "case cur_buf (pick d) of None \<Rightarrow> True | Some it \<Rightarrow> rx_size (pick d) \<le> item_len (pick d) it"
    using assms by (auto simp: pick_def uci_inv_def split: option.splits list.splits)
  then show ?thesis using assms by (simp add: uci_inv_def pick_same)
qed

lemma pick_unread: "unread (pick d) = unread d"
  by (auto simp: pick_def unread_def split: option.splits list.splits)

lemma pick_fields [simp]: "rx_error (pick d) = rx_error d" "uci_enabled (pick d) = uci_enabled d"
  by (auto simp: pick_def split: option.splits list.splits)

lemma read_item_pick: "read_item os left cnt d c = read_item os left cnt (pick d) c" if "cur_buf d \<noteq> None \<or> uci_pending d \<noteq> []"
  using that by (auto simp: pick_def read_item_def split: option.split list.split)

lemma place_before:
  fixes n :: nat
  assumes "0 < n"
  shows "(a + (n - 1)) mod n = (if a mod n = 0 then n - 1 else a mod n - 1)"
proof -
  have m: "(a + (n - 1)) mod n = (a mod n + (n - 1)) mod n" by (simp add: mod_add_left_eq)
  show ?thesis
  proof (cases "a mod n")
    case 0
    then show ?thesis using assms m by simp
  next
    case (Suc r)
    then have "r < n" using assms by (metis Suc_lessD mod_less_divisor)
    moreover have "a mod n + (n - 1) = r + n" using assms Suc by simp
    ultimately show ?thesis using m Suc by simp
  qed
qed

text \<open>The buffer read to its end: the page before it goes to the device, and the row moves on.\<close>

lemma finish_inv:
  assumes "uci_inv [] i d c" and "cur_buf d = Some it" and "finish_item os it (d\<lparr>rx_size := 0\<rparr>) c = Some (Inr u, d', c')"
  shows "uci_inv [] i d' c' \<and> unread d' = concat (map (item_bytes d) (uci_pending d)) \<and> rx_error d' = rx_error d"
proof -
  let ?N = "nr_trbs d" and ?s = "length (uci_pending d)" and ?p = "length (posted_on i c)"
  obtain k where it: "it = Slot k" using assms(1,2) by (auto simp: uci_inv_def uci_items_def)
  obtain a where a: "k # slots_of (uci_pending d) = places ?N a (Suc ?s)" "nr_trb d = (a + Suc ?s) mod ?N"
    "posted_on i c = map (page_addr d) (places ?N (a + Suc ?s) ?p)"
    using assms(1,2) it by (auto simp: uci_inv_def uci_items_def)
  have N: "Suc ?s + ?p + 1 = ?N" using assms(1,2) by (simp add: uci_inv_def uci_items_def)
  let ?d = "d\<lparr>rx_size := 0, cur_buf := None\<rparr>"
  have k: "k = a mod ?N" and sl: "slots_of (uci_pending d) = places ?N (Suc a) ?s" using a(1) by (simp_all add: places_Suc)
  have "a + Suc ?s + ?p = a + (?N - 1)" using N by simp
  then have pv: "prev_trb d k = (a + Suc ?s + ?p) mod ?N" using place_before [of ?N a] N k by (simp only: prev_trb_def)
  have en: "uci_enabled d" and post: "post_page os ?d (prev_trb ?d k) c = Some (Inr u, c')" and d': "d' = ?d"
    using assms(1,3) it by (auto simp: finish_item_def Let_def touch_bufs_def uci_inv_def split: if_splits)
  have pp: "prev_trb ?d k = prev_trb d k" by (simp add: prev_trb_def)
  have q: "client_chan i c' \<and> queue_xfer (mhi_chan c' i) = mhi_queue_buf_fn \<and> posted_on i c' = posted_on i c @ [page_addr d (prev_trb d k)]"
    using post_page_inv [OF _ _ _ post, of i] assms(1) by (simp add: uci_inv_def pp)
  have row: "posted_on i c' = map (page_addr d) (places ?N (Suc a + ?s) (Suc ?p))"
    using q a(3) pv by (simp add: places_snoc)
  have "uci_inv [] i d' c'"
    using assms(1,2) q N sl a(2) row it unfolding d' uci_inv_def
    by (auto simp: uci_items_def copies_def intro!: exI [of _ "Suc a"])
  then show ?thesis by (simp add: d' unread_def)
qed

lemma ret_bytes [simp]: "(case r of Inl e \<Rightarrow> Error e | Inr u \<Rightarrow> Bytes m) = Bytes n \<longleftrightarrow> r = Inr () \<and> m = n"
  by (cases r) auto

lemma read_item_inv:
  assumes "uci_inv [] i d c" and "cur_buf d = Some it" and "read_item os 0 cnt d c = Some (Bytes n, bs, d', c')"
  shows "uci_inv [] i d' c' \<and> unread d = bs @ unread d' \<and> rx_error d' = rx_error d"
proof -
  let ?m = "min cnt (rx_size d)" and ?off = "item_len d it - rx_size d" and ?rest = "concat (map (item_bytes d) (uci_pending d))"
  obtain k where it: "it = Slot k" using assms(1,2) by (auto simp: uci_inv_def uci_items_def)
  have t: "touch_bufs d = d" using assms(1) by (simp add: touch_bufs_def uci_inv_def)
  have sz: "rx_size d \<le> item_len d it" using assms(1,2) by (simp add: uci_inv_def)
  have len: "length (item_bytes d it) \<le> item_len d it" by (simp add: it item_bytes_def item_len_def)
  let ?d = "d\<lparr>rx_size := rx_size d - ?m\<rparr>"
  have bs: "bs = take ?m (drop ?off (item_bytes d it))"
    and r: "if rx_size d - ?m \<noteq> 0 then d' = ?d \<and> c' = c else \<exists>u. finish_item os it ?d c = Some (Inr u, d', c')"
    using assms(2,3) it t by (auto simp: read_item_def Let_def split: if_splits)
  have un: "unread d = bs @ drop (?off + ?m) (item_bytes d it) @ ?rest"
    using assms(2) by (simp add: unread_def bs add.commute flip: drop_drop)
  show ?thesis
  proof (cases "rx_size d - ?m = 0")
    case False
    then have d': "d' = ?d" and c': "c' = c" using r by auto
    have "item_len d it - (rx_size d - ?m) = ?off + ?m" using sz by simp
    then have "unread d' = drop (?off + ?m) (item_bytes d it) @ ?rest" using assms(2) by (simp add: d' unread_def)
    moreover have "uci_inv [] i d' c'"
      using assms(1,2) sz unfolding d' c' uci_inv_def by (simp add: uci_items_def copies_def)
    ultimately show ?thesis using un d' by simp
  next
    case True
    then obtain u where f: "finish_item os it (d\<lparr>rx_size := 0\<rparr>) c = Some (Inr u, d', c')" using r by auto
    have "?off + ?m = item_len d it" using True sz by simp
    then have "drop (?off + ?m) (item_bytes d it) = []" using len by simp
    then show ?thesis using finish_inv [OF assms(1,2) f] un by simp
  qed
qed

lemma uci_read_inv:
  assumes "uci_inv [] i d c" and "cur_buf d \<noteq> None \<or> uci_pending d \<noteq> []"
    and "mhi_uci_read os wait nonblock 0 cnt d c = Some (Bytes n, bs, d', c')"
  shows "uci_inv [] i d' c' \<and> unread d = bs @ unread d' \<and> rx_error d' = rx_error d"
proof -
  have "read_item os 0 cnt (pick d) c = Some (Bytes n, bs, d', c')"
    using assms(2,3) read_item_pick [OF assms(2)] by (auto simp: mhi_uci_read_def split: if_splits)
  moreover obtain it where "cur_buf (pick d) = Some it"
    using assms(2) by (cases "cur_buf d"; cases "uci_pending d") (auto simp: pick_def)
  ultimately show ?thesis using read_item_inv [of i "pick d" c it] pick_inv [OF assms(1)] by (simp add: pick_unread)
qed

section \<open>What the reader sees\<close>

text \<open>
  A run of the receive side: the events of the channel, each followed by the callbacks of the
  device, and reads that succeed, in any order. \<open>ins\<close> is what the device has written to the
  pages of the events, \<open>outs\<close> what the reads have returned. A read that waits is one that
  starts later.
\<close>

inductive uci_run ::
  "mhi_os \<Rightarrow> nat \<Rightarrow> u8 list \<Rightarrow> u8 list \<Rightarrow> uci_dev \<times> mhi_controller \<Rightarrow> uci_dev \<times> mhi_controller \<Rightarrow> bool"
  for os :: mhi_os and i :: nat where
  run_none: "uci_run os i [] [] s s"
| run_event: "\<lbrakk>uci_run os i ins outs s (d, c); fits ev d; \<not> pre_alloc (mhi_chan c i);
     ch_state (mhi_chan c i) = MHI_CH_STATE_ENABLED; transfer_code ev; names_queued (tre_ring (mhi_chan c i)) ev k;
     parse_xfer_event os ev i c = Some c1;
     uci_callbacks os ok mem (drop (length (callbacks c)) (callbacks c1)) d c1 = Some (d2, c2)\<rbrakk>
   \<Longrightarrow> uci_run os i (ins @ received mem ev (take (Suc k) (posted_on i c))) outs s (d2, c2)"
| run_read: "\<lbrakk>uci_run os i ins outs s (d, c); cur_buf d \<noteq> None \<or> uci_pending d \<noteq> [];
     mhi_uci_read os wait nonblock 0 cnt d c = Some (Bytes n, bs, d1, c1)\<rbrakk>
   \<Longrightarrow> uci_run os i ins (outs @ bs) s (d1, c1)"

lemma uci_run_stream:
  assumes "uci_run os i ins outs s t" and "uci_inv [] i (fst s) (snd s)"
  shows "uci_inv [] i (fst t) (snd t) \<and> unread (fst s) @ ins = outs @ unread (fst t) \<and> rx_error (fst t) = rx_error (fst s)"
  using assms
proof (induction rule: uci_run.induct)
  case (run_none s)
  then show ?case by simp
next
  case (run_event ins outs s d c ev k c1 ok mem d2 c2)
  then have inv: "uci_inv [] i d c" and st: "unread (fst s) @ ins = outs @ unread d" "rx_error d = rx_error (fst s)" by simp_all
  have "uci_inv [] i d2 c2 \<and> unread d2 = unread d @ received mem ev (take (Suc k) (posted_on i c)) \<and> rx_error d2 = rx_error d"
    using event_inv [OF inv run_event(2-6), of os ok mem] run_event(7,8) by auto
  then show ?case using st by (metis append.assoc fst_conv snd_conv)
next
  case (run_read ins outs s d c wait nonblock cnt n bs d1 c1)
  then have inv: "uci_inv [] i d c" and st: "unread (fst s) @ ins = outs @ unread d" "rx_error d = rx_error (fst s)" by simp_all
  show ?case using uci_read_inv [OF inv run_read(2,3)] st by simp
qed


text \<open>Three pages, two of them with the device; an event for the first and two bytes read.\<close>

definition uci_controller :: mhi_controller where
  "uci_controller = busy_controller\<lparr>mhi_chan := (\<lambda>_. busy_chan\<lparr>queue_xfer := mhi_queue_buf_fn, dir := DMA_FROM_DEVICE,
     buf_ring := (buf_ring busy_chan)\<lparr>slots := (\<lambda>a. zero_buf_info\<lparr>cb_buf := 0x4000 + a\<rparr>)\<rparr>\<rparr>)\<rparr>"

definition uci_demo :: uci_dev where
  "uci_demo = \<lparr>uci_mhi = zero_device\<lparr>ul_chan := Some 1, dl_chan := Some 0\<rparr>, uci_pending = [], cur_buf = None, rx_size = 0,
     uci_mtu = 0x1000, ref_count = 2, uci_enabled = True, rx_error = 0, nr_trb = 0, nr_trbs = 3,
     uci_bufs = Some (\<lambda>k. \<lparr>ub_data = 0x6000 + 0x40 * of_nat k, ub_bytes = [], ub_len = 0\<rparr>), pages_init = 3, pages_freed = False,
     max_xferd = 0, termios = [], uci_minor = 0, uci_ub = False, uci_trace = []\<rparr>"

lemma uci_demo_lockstep: "lockstep (mhi_chan uci_controller 0)"
  using busy_lockstep by (simp add: lockstep_def uci_controller_def busy_controller_def)

lemma uci_demo_posted: "posted_on 0 uci_controller = [0x6000, 0x6040]"
  by (simp add: posted_on_def ring_content_def ring_count_def slot_idx_def slot_addr_def uci_controller_def busy_defs upt_rec)

lemma uci_demo_inv: "uci_inv [] 0 uci_demo uci_controller"
  using uci_demo_lockstep uci_demo_posted
  by (auto simp: uci_inv_def client_chan_def uci_controller_def busy_defs uci_items_def places_def upt_rec uci_demo_def
    copies_def zero_device_def page_addr_def buf_at_def MHI_CLIENT_DUN_IN_def MHI_CLIENT_QMI_IN_def MHI_CLIENT_MBIM_IN_def
    intro!: exI [of _ "0::nat"])

lemma uci_demo_event:
  "fits (eot_event 0x9000) uci_demo" "\<not> pre_alloc (mhi_chan uci_controller 0)"
  "ch_state (mhi_chan uci_controller 0) = MHI_CH_STATE_ENABLED" "names_queued (tre_ring (mhi_chan uci_controller 0)) (eot_event 0x9000) 0"
  by (simp_all add: uci_controller_def busy_defs fits_def eot_event_def event_status_def MHI_TRE_GET_EV_LEN_def MHI_TRE_GET_EV_CODE_def
    uci_demo_def names_queued_def ring_count_def slot_idx_def MHI_TRE_GET_EV_PTR_def sizeof_mhi_tre_def slot_addr_def mhi_to_physical_def)

definition uci_demo_read :: uci_dev where
  "uci_demo_read = uci_demo\<lparr>nr_trb := 1, max_xferd := 0x5DC, uci_pending := [Slot 0], uci_trace := [Wake_dl],
     uci_bufs := map_option (\<lambda>b. b(0 := (b 0)\<lparr>ub_bytes := [1, 2, 3, 4], ub_len := 0x5DC\<rparr>)) (uci_bufs uci_demo)\<rparr>"

lemma uci_demo_callback:
  "mhi_dl_xfer_cb os ok [1, 2, 3, 4] (result_of ch (eot_event 0x9000) 0x6000) uci_demo c = Some (uci_demo_read, c)"
  by (simp add: mhi_dl_xfer_cb_def result_of_def event_status_def eot_event_def MHI_TRE_GET_EV_LEN_def MHI_TRE_GET_EV_CODE_def
    uci_demo_def uci_demo_read_def touch_bufs_def buf_at_def next_trb_def copies_def zero_device_def uci_see_def
    MHI_CLIENT_DUN_IN_def MHI_CLIENT_QMI_IN_def MHI_CLIENT_MBIM_IN_def)


end
