(* ===== verification/Mhi_Dtr.thy ===== *)
theory Mhi_Dtr
  imports Mhi_Uci
begin

text \<open>
  The modem control lines, \<open>core/mhi_dtr.c\<close>, and the \<open>ioctl\<close> of the character devices that
  leads to them. The host's lines go to the modem as messages on the control channel; the
  modem's lines come back as messages that name the channel they are for. What a message in
  memory says is an argument of the callback.
\<close>

section \<open>Messages and lines\<close>

record dtr_ctrl_msg =
  preamble :: u32
  msg_id :: u32
  dest_id :: u32
  msg_size :: u32
  msg :: u32

definition sizeof_dtr_msg :: u64 where "sizeof_dtr_msg = 20"

definition CTRL_MAGIC :: u32 where "CTRL_MAGIC = 0x4C525443"
definition CTRL_MSG_DTR :: u32 where "CTRL_MSG_DTR = 1"
definition CTRL_MSG_RTS :: u32 where "CTRL_MSG_RTS = 2"
definition CTRL_MSG_DCD :: u32 where "CTRL_MSG_DCD = 1"
definition CTRL_MSG_DSR :: u32 where "CTRL_MSG_DSR = 2"
definition CTRL_MSG_RI :: u32 where "CTRL_MSG_RI = 8"
definition CTRL_HOST_STATE :: u32 where "CTRL_HOST_STATE = 0x10"

definition CTRL_GET_CHID :: "dtr_ctrl_msg \<Rightarrow> nat" where
  "CTRL_GET_CHID m = unat (dest_id m AND 0xFF)"

text \<open>The bits of a terminal's lines, as \<open>termios.h\<close> of the kernel has them.\<close>

definition TIOCM_DTR :: u32 where "TIOCM_DTR = 0x002"
definition TIOCM_RTS :: u32 where "TIOCM_RTS = 0x004"
definition TIOCM_CD :: u32 where "TIOCM_CD = 0x040"
definition TIOCM_RI :: u32 where "TIOCM_RI = 0x080"
definition TIOCM_DSR :: u32 where "TIOCM_DSR = 0x100"

definition host_lines :: u32 where "host_lines = TIOCM_DTR OR TIOCM_RTS"
definition modem_lines :: u32 where "modem_lines = TIOCM_CD OR TIOCM_DSR OR TIOCM_RI"

text \<open>
  The device of the control channel, its \<open>mtu\<close> as the probe function has cut it down, and the
  lines of every device on the bus, by its number. \<open>dtr_sent\<close> are the messages written, with
  the memory they are in.
\<close>

record dtr_state =
  dtr_dev :: "mhi_device option"
  tiocm :: "nat \<Rightarrow> u32"
  dtr_sent :: "(u64 \<times> dtr_ctrl_msg) list"

definition bit_if :: "bool \<Rightarrow> u32 \<Rightarrow> u32" where
  "bit_if b v = (if b then v else 0)"

section \<open>The host's lines\<close>

definition host_msg :: "mhi_device \<Rightarrow> u32 \<Rightarrow> dtr_ctrl_msg" where
  "host_msg dv t =
     \<lparr>preamble = CTRL_MAGIC, msg_id = CTRL_HOST_STATE, dest_id = word_of_int (ul_chan_id dv), msg_size = 4,
      msg = bit_if (t AND TIOCM_DTR \<noteq> 0) CTRL_MSG_DTR OR bit_if (t AND TIOCM_RTS \<noteq> 0) CTRL_MSG_RTS\<rparr>"

definition wait_callback ::
  "(dtr_state \<Rightarrow> mhi_controller \<Rightarrow> dtr_state \<times> mhi_controller) \<Rightarrow> nat \<Rightarrow> dtr_state \<Rightarrow> mhi_controller \<Rightarrow>
   dtr_state \<times> mhi_controller" where
  "wait_callback env i s c = (if 0 < ch_completion (mhi_chan c i) then (s, c) else env s c)"

definition line_sent ::
  "(dtr_state \<Rightarrow> mhi_controller \<Rightarrow> dtr_state \<times> mhi_controller) \<Rightarrow> nat \<Rightarrow> u64 \<Rightarrow> nat \<Rightarrow> u32 \<Rightarrow> dtr_state \<Rightarrow>
   mhi_controller \<Rightarrow> unit res \<times> dtr_state \<times> mhi_controller" where
  "line_sent env i p k t s c =
     (case wait_callback env i s c of
        (s, c) \<Rightarrow>
          let done = 0 < ch_completion (mhi_chan c i);
              c = emit (Kfree p) (upd_chan i (\<lambda>ch. ch\<lparr>ch_completion := consume_one (ch_completion ch)\<rparr>) c)
          in if \<not> done then (Inl EIO, s, c)
             else (Inr (), s\<lparr>tiocm := (tiocm s)(k := (tiocm s k AND NOT host_lines) OR t)\<rparr>, c))"

text \<open>
  \<open>k\<close> is the number of the device \<open>dv\<close>; \<open>env\<close> is what happens while the callback of the message
  is waited for. The message is freed in every case, also when the wait has timed out.
\<close>

definition mhi_dtr_tiocmset ::
  "mhi_os \<Rightarrow> (dtr_state \<Rightarrow> mhi_controller \<Rightarrow> dtr_state \<times> mhi_controller) \<Rightarrow> nat \<Rightarrow> mhi_device \<Rightarrow> u32 \<Rightarrow> dtr_state \<Rightarrow>
   mhi_controller \<Rightarrow> (unit res \<times> dtr_state \<times> mhi_controller) option" where
  "mhi_dtr_tiocmset os env k dv t s c =
     Option.bind (dtr_dev s) (\<lambda>dtr. Option.bind (ul_chan dtr) (\<lambda>i.
       let t = t AND host_lines
       in if tiocm s k AND NOT modem_lines = t then Some (Inr (), s, c)
          else case call_kmalloc os sizeof_dtr_msg c of
              (None, c) \<Rightarrow> Some (Inl ENOMEM, s, c)
            | (Some p, c) \<Rightarrow>
                let s = s\<lparr>dtr_sent := dtr_sent s @ [(p, host_msg dv t)]\<rparr>;
                    c = reinit_completion i c
                in Option.bind (mhi_queue_transfer os dtr DMA_TO_DEVICE p p sizeof_dtr_msg (mhi_flags_val MHI_EOT) c)
                     (\<lambda>(ret, c). case ret of
                        Inl e \<Rightarrow> Some (Inl e, s, emit (Kfree p) c)
                      | Inr _ \<Rightarrow>
                          Some (line_sent env i p k t s c))))"

text \<open>The requests, with what user space memory gives: a failed copy from it is \<open>None\<close>.\<close>

datatype line_cmd = TIOCMGET | TIOCMSET "u32 option" | Tcgets | Tcsets "u8 list option" | Tcflsh | Other_request

datatype line_ret = Lines u32 | Done | Failed errno | Not_copied

definition mhi_ioctl ::
  "mhi_os \<Rightarrow> (dtr_state \<Rightarrow> mhi_controller \<Rightarrow> dtr_state \<times> mhi_controller) \<Rightarrow> nat \<Rightarrow> mhi_device \<Rightarrow> line_cmd \<Rightarrow> dtr_state \<Rightarrow>
   mhi_controller \<Rightarrow> (line_ret \<times> dtr_state \<times> mhi_controller) option" where
  "mhi_ioctl os env k dv cmd s c =
     (if dtr_dev s = None then Some (Failed EIO, s, c)
      else case cmd of
          TIOCMGET \<Rightarrow> Some (Lines (tiocm s k), s, c)
        | TIOCMSET None \<Rightarrow> Some (Failed EFAULT, s, c)
        | TIOCMSET (Some t) \<Rightarrow>
            map_option (\<lambda>(ret, s, c). (case ret of Inl e \<Rightarrow> Failed e | Inr _ \<Rightarrow> Done, s, c)) (mhi_dtr_tiocmset os env k dv t s c)
        | _ \<Rightarrow> Some (Failed EINVAL, s, c))"

text \<open>
  The terminal settings of a character device are kept for user space and mean nothing;
  \<open>copied\<close> says whether user space memory takes them.
\<close>

definition mhi_uci_ioctl ::
  "mhi_os \<Rightarrow> (dtr_state \<Rightarrow> mhi_controller \<Rightarrow> dtr_state \<times> mhi_controller) \<Rightarrow> nat \<Rightarrow> bool \<Rightarrow> line_cmd \<Rightarrow> uci_dev \<Rightarrow> dtr_state \<Rightarrow>
   mhi_controller \<Rightarrow> (line_ret \<times> uci_dev \<times> dtr_state \<times> mhi_controller) option" where
  "mhi_uci_ioctl os env k copied cmd d s c =
     (if \<not> uci_enabled d then Some (Failed ERESTARTSYS, d, s, c)
      else map_option (\<lambda>(ret, s, c).
             case cmd of
               Tcgets \<Rightarrow> (if copied then Done else Not_copied, d, s, c)
             | Tcsets None \<Rightarrow> (Not_copied, d, s, c)
             | Tcsets (Some t) \<Rightarrow> (Done, d\<lparr>termios := t\<rparr>, s, c)
             | Tcflsh \<Rightarrow> (Done, d, s, c)
             | _ \<Rightarrow> (ret, d, s, c))
           (mhi_ioctl os env k (uci_mhi d) cmd s c))"

section \<open>The modem's lines\<close>

fun dtr_post :: "mhi_os \<Rightarrow> mhi_device \<Rightarrow> nat \<Rightarrow> unit res \<Rightarrow> mhi_controller \<Rightarrow> (unit res \<times> mhi_controller) option" where
  "dtr_post os dtr 0 ret c = Some (ret, c)"
| "dtr_post os dtr (Suc n) ret c =
     (case call_kmalloc os (mtu dtr) c of
        (None, c) \<Rightarrow> Some (Inl ENOMEM, c)
      | (Some p, c) \<Rightarrow>
          Option.bind (mhi_queue_transfer os dtr DMA_FROM_DEVICE p p (mtu dtr) (mhi_flags_val MHI_EOT) c)
            (\<lambda>(ret, c). case ret of Inl e \<Rightarrow> Some (Inl e, emit (Kfree p) c) | Inr _ \<Rightarrow> dtr_post os dtr n ret c))"

definition mhi_dtr_queue_inbound :: "mhi_os \<Rightarrow> dtr_state \<Rightarrow> mhi_controller \<Rightarrow> (unit res \<times> mhi_controller) option" where
  "mhi_dtr_queue_inbound os s c =
     Option.bind (dtr_dev s) (\<lambda>dtr.
       Option.bind (mhi_get_no_free_descriptors dtr DMA_FROM_DEVICE c) (\<lambda>free. dtr_post os dtr (nat free) (Inl EIO) c))"

definition modem_bits :: "u32 \<Rightarrow> u32" where
  "modem_bits m = bit_if (m AND CTRL_MSG_DCD \<noteq> 0) TIOCM_CD OR bit_if (m AND CTRL_MSG_DSR \<noteq> 0) TIOCM_DSR
     OR bit_if (m AND CTRL_MSG_RI \<noteq> 0) TIOCM_RI"

text \<open>The device a message is for, if there is one.\<close>

definition msg_device :: "dtr_ctrl_msg \<Rightarrow> mhi_controller \<Rightarrow> nat option" where
  "msg_device m c = (if max_chan c \<le> CTRL_GET_CHID m then None else ch_mhi_dev (mhi_chan c (CTRL_GET_CHID m)))"

definition mhi_dtr_dl_xfer_cb ::
  "mhi_os \<Rightarrow> dtr_ctrl_msg \<Rightarrow> mhi_result \<Rightarrow> dtr_state \<Rightarrow> mhi_controller \<Rightarrow> (dtr_state \<times> mhi_controller) option" where
  "mhi_dtr_dl_xfer_cb os m r s c =
     (if transaction_status r = Some ENOTCONN then Some (s, emit (Kfree (buf_addr r)) c)
      else if bytes_xferd r \<noteq> sizeof_dtr_msg then Some (s, c)
      else
        let s = (case msg_device m c of
                   None \<Rightarrow> s
                 | Some k \<Rightarrow> s\<lparr>tiocm := (tiocm s)(k := (tiocm s k AND NOT modem_lines) OR modem_bits (msg m))\<rparr>)
        in Option.bind (dtr_dev s) (\<lambda>dtr.
             map_option (\<lambda>(ret, c). (s, c))
               (mhi_queue_transfer os dtr DMA_FROM_DEVICE (buf_addr r) (buf_addr r) (mtu dtr) (mhi_flags_val MHI_EOT) c)))"

definition mhi_dtr_ul_xfer_cb :: "mhi_result \<Rightarrow> dtr_state \<Rightarrow> mhi_controller \<Rightarrow> mhi_controller option" where
  "mhi_dtr_ul_xfer_cb r s c =
     Option.bind (dtr_dev s) (\<lambda>dtr. Option.bind (ul_chan dtr) (\<lambda>i.
       Some (if transaction_status r = None
             then upd_chan i (\<lambda>ch. ch\<lparr>ch_completion := complete_one (ch_completion ch)\<rparr>) c else c)))"

section \<open>Probing and removing\<close>

definition mhi_dtr_remove :: "dtr_state \<Rightarrow> dtr_state" where
  "mhi_dtr_remove s = s\<lparr>dtr_dev := None\<rparr>"

text \<open>A probe function that fails after the channels have been started leaves the device named.\<close>

definition mhi_dtr_probe ::
  "mhi_os \<Rightarrow> (nat \<Rightarrow> mhi_controller \<Rightarrow> mhi_controller) \<Rightarrow> mhi_device \<Rightarrow> dtr_state \<Rightarrow> mhi_controller \<Rightarrow>
   (unit res \<times> dtr_state \<times> mhi_controller) option" where
  "mhi_dtr_probe os envs dv s c =
     (let dv = dv\<lparr>mtu := min sizeof_dtr_msg (mtu dv)\<rparr>
      in Option.bind (mhi_prepare_for_transfer os envs dv c) (\<lambda>(ret, c).
           case ret of
             Inl e \<Rightarrow> Some (Inl e, s, c)
           | Inr _ \<Rightarrow>
               let s = s\<lparr>dtr_dev := Some dv\<rparr>
               in map_option (\<lambda>(ret, c). (ret, s, c)) (mhi_dtr_queue_inbound os s c)))"

section \<open>Facts\<close>

lemma not_Inl_unit: "(\<forall>e. r \<noteq> Inl e) \<longleftrightarrow> r = Inr ()" for r :: "unit res"
  by (cases r) auto

lemma lines_apart: "host_lines AND modem_lines = 0" "host_lines AND NOT modem_lines = host_lines"
  by (simp_all add: host_lines_def modem_lines_def TIOCM_DTR_def TIOCM_RTS_def TIOCM_CD_def TIOCM_DSR_def TIOCM_RI_def)

lemma lines_set:
  fixes x t h :: u32
  shows "((x AND NOT h) OR (t AND h)) AND h = t AND h"
  by (rule bit_eqI) (auto simp: bit_simps)

lemma lines_kept:
  fixes x t h m :: u32
  assumes "m AND h = 0"
  shows "((x AND NOT h) OR (t AND h)) AND m = x AND m"
  using assms by (auto simp: bit_eq_iff bit_simps)

lemma modem_bits_lines: "modem_bits m AND modem_lines = modem_bits m" "modem_bits m AND host_lines = 0"
  by (simp_all add: modem_bits_def bit_if_def host_lines_def modem_lines_def TIOCM_DTR_def TIOCM_RTS_def TIOCM_CD_def
    TIOCM_DSR_def TIOCM_RI_def)

text \<open>
  When setting the host's lines succeeds they are as asked, and a message from the modem sets
  the modem's lines and leaves the host's alone.
\<close>

lemma line_sent_sets:
  assumes "line_sent env i p k (t AND host_lines) s c = (Inr u, s', c')"
  shows "tiocm s' k AND host_lines = t AND host_lines"
  using assms by (auto simp: line_sent_def Let_def lines_set split: prod.splits if_splits)

lemma tiocmset_sets:
  assumes "mhi_dtr_tiocmset os env k dv t s c = Some (Inr u, s', c')"
  shows "tiocm s' k AND host_lines = t AND host_lines"
proof -
  have same: "tiocm s k AND host_lines = t AND host_lines" if "tiocm s k AND NOT modem_lines = t AND host_lines"
  proof -
    have "tiocm s k AND host_lines = (tiocm s k AND NOT modem_lines) AND host_lines"
      using lines_apart(2) by (metis and.assoc and.commute)
    then show ?thesis using that by (simp add: and.assoc)
  qed
  show ?thesis using assms same
    by (auto dest: line_sent_sets simp: not_Inl_unit mhi_dtr_tiocmset_def Let_def Option.bind_eq_Some_conv split: if_splits prod.splits option.splits sum.splits)
qed

lemma dl_cb_lines:
  assumes "mhi_dtr_dl_xfer_cb os m r s c = Some (s', c')"
  shows "tiocm s' k AND host_lines = tiocm s k AND host_lines
    \<and> (transaction_status r \<noteq> Some ENOTCONN \<and> bytes_xferd r = sizeof_dtr_msg \<and> msg_device m c = Some k \<longrightarrow>
         tiocm s' k AND modem_lines = modem_bits (msg m))"
proof -
  have h: "(x AND NOT modem_lines OR modem_bits y) AND host_lines = x AND host_lines" for x y
    using lines_kept [of host_lines modem_lines x "modem_bits y", OF lines_apart(1)] by (simp add: modem_bits_lines)
  have m: "(x AND NOT modem_lines OR modem_bits y) AND modem_lines = modem_bits y" for x y
    using lines_set [of x modem_lines "modem_bits y"] by (simp add: modem_bits_lines)
  show ?thesis using assms
    by (auto simp: mhi_dtr_dl_xfer_cb_def Let_def Option.bind_eq_Some_conv h m split: if_splits option.splits)
qed

text \<open>Filling the control channel keeps to the contract of the queue.\<close>

lemma dtr_post_fills:
  assumes "dtr_post os dtr n ret c = Some (r, c')" and "client_chan i c" and "dl_chan dtr = Some i"
    and "queue_xfer (mhi_chan c i) = mhi_queue_buf_fn"
  shows "\<exists>qs. posted_on i c' = posted_on i c @ qs \<and> room_on i c' + length qs = room_on i c \<and> length qs \<le> n
    \<and> (is_ok r \<longleftrightarrow> length qs = n \<and> (0 < n \<or> is_ok ret)) \<and> client_chan i c'"
  using assms
proof (induction n arbitrary: ret c)
  case 0
  then show ?case by (intro exI [of _ "[]"]) simp
next
  case (Suc n)
  obtain p c1 where a: "call_kmalloc os (mtu dtr) c = (p, c1)" by (cases "call_kmalloc os (mtu dtr) c")
  have c1: "mhi_chan c1 = mhi_chan c" using a by (auto simp: call_kmalloc_def)
  then have cl: "client_chan i c1" "posted_on i c1 = posted_on i c" "room_on i c1 = room_on i c"
    using Suc.prems(2) by (simp_all add: client_chan_def posted_on_def room_on_def)
  show ?case
  proof (cases p)
    case None
    then show ?thesis using Suc.prems(1) a cl by (intro exI [of _ "[]"]) auto
  next
    case (Some q)
    obtain ret2 c2 where q: "mhi_queue_buf os i q (mtu dtr) (mhi_flags_val MHI_EOT) c1 = (ret2, c2)" by fastforce
    have t: "mhi_queue_transfer os dtr DMA_FROM_DEVICE q q (mtu dtr) (mhi_flags_val MHI_EOT) c1 = Some (ret2, c2)"
      using q Suc.prems(3,4) c1 by (simp add: mhi_queue_transfer_def dev_channel_def call_queue_xfer_def)
    show ?thesis
    proof (cases ret2)
      case (Inl e)
      have "client_chan i c2 \<and> posted_on i c2 = posted_on i c1 \<and> room_on i c2 = room_on i c1"
        using buf_client.post_err [OF cl(1) q [unfolded Inl]] by simp
      then show ?thesis using Suc.prems(1) a Some t Inl cl
        by (intro exI [of _ "[]"]) (auto simp: client_chan_def posted_on_def room_on_def)
    next
      case (Inr u)
      note ok = buf_client.post_ok [OF cl(1) q [unfolded Inr]]
      have x: "queue_xfer (mhi_chan c2 i) = mhi_queue_buf_fn"
        using ok Suc.prems(4) c1 by (auto simp: same_client_def dest: chan_rest_fields)
      have run: "dtr_post os dtr n ret2 c2 = Some (r, c')" using Suc.prems(1) a Some t Inr by simp
      obtain qs where "posted_on i c' = posted_on i c2 @ qs" "room_on i c' + length qs = room_on i c2" "length qs \<le> n"
        "is_ok r \<longleftrightarrow> length qs = n" "client_chan i c'"
        using Suc.IH [OF run _ Suc.prems(3) x] ok Inr by auto
      then show ?thesis using ok cl by (intro exI [of _ "q # qs"]) auto
    qed
  qed
qed

end
