(* ===== verification/Mhi_Bus.thy ===== *)
theory Mhi_Bus
  imports Mhi_Qti Mhi_Dtr
begin

text \<open>
  The module as a whole: loading and unloading it (\<open>mhi_init\<close> and \<open>mhi_exit\<close> with the parts
  of the drivers they call), which driver takes which device (\<open>mhi_match\<close> with the tables of
  the three drivers), the lookup of a controller by its place on the PCI bus, and the character
  device of the controllers. What the kernel answers to a registration is an argument.
\<close>

section \<open>What is registered with the kernel\<close>

datatype registration =
    Debugfs_dir string | Bus_type string | Bus_driver string | Chrdev nat string | Device_class string
  | Pci_driver string

text \<open>
  The number and the class of a family of character devices, in a global of the driver: zero
  and no class before the first registration.
\<close>

record chr_drv =
  major :: nat
  dev_class :: "string option"

text \<open>
  \<open>live\<close> is what is registered, newest last; \<open>strays\<close> is what was unregistered although it was
  not registered, which the kernel answers with a warning or ignores.
\<close>

record mhi_module =
  live :: "registration list"
  strays :: "registration list"
  uci_drv :: chr_drv
  cntrl_drv :: chr_drv

definition unloaded :: mhi_module where
  "unloaded = \<lparr>live = [], strays = [], uci_drv = \<lparr>major = 0, dev_class = None\<rparr>,
     cntrl_drv = \<lparr>major = 0, dev_class = None\<rparr>\<rparr>"

text \<open>The answers of the kernel to the registrations, by name.\<close>

record mod_os =
  bus_ret :: "errno option"
  driver_ret :: "string \<Rightarrow> errno option"
  chrdev_ret :: "string \<Rightarrow> errno + nat"
  class_ret :: "string \<Rightarrow> bool"
  pci_driver_ret :: "errno option"

definition register :: "registration \<Rightarrow> mhi_module \<Rightarrow> mhi_module" where
  "register r m = m\<lparr>live := live m @ [r]\<rparr>"

definition unregister :: "registration \<Rightarrow> mhi_module \<Rightarrow> mhi_module" where
  "unregister r m =
     (if r \<in> set (live m) then m\<lparr>live := remove1 r (live m)\<rparr> else m\<lparr>strays := strays m @ [r]\<rparr>)"

text \<open>The kernel finds a character device by its number alone; destroying no class does nothing.\<close>

fun has_major :: "nat \<Rightarrow> registration \<Rightarrow> bool" where
  "has_major n (Chrdev k s) \<longleftrightarrow> k = n"
| "has_major n _ \<longleftrightarrow> False"

definition unregister_chrdev :: "nat \<Rightarrow> string \<Rightarrow> mhi_module \<Rightarrow> mhi_module" where
  "unregister_chrdev n s m =
     (case find (has_major n) (live m) of
        None \<Rightarrow> m\<lparr>strays := strays m @ [Chrdev n s]\<rparr>
      | Some r \<Rightarrow> m\<lparr>live := remove1 r (live m)\<rparr>)"

definition class_destroy :: "string option \<Rightarrow> mhi_module \<Rightarrow> mhi_module" where
  "class_destroy s m = (case s of None \<Rightarrow> m | Some s \<Rightarrow> unregister (Device_class s) m)"

section \<open>The drivers on the bus\<close>

record mhi_device_id =
  id_chan :: string
  driver_data :: u64

definition no_id :: mhi_device_id where "no_id = \<lparr>id_chan = [], driver_data = 0\<rparr>"

text \<open>A driver with its table and the callbacks it has; what they do is with the driver's own theory.\<close>

record bus_driver =
  drv_name :: string
  id_table :: "mhi_device_id list"
  has_probe :: bool
  has_remove :: bool
  client :: mhi_driver

type_synonym client_probe = "mhi_controller \<Rightarrow> unit res \<times> mhi_controller"
type_synonym client_remove = "mhi_controller \<Rightarrow> mhi_controller"

definition DIAG_MAX_PCIE_PKT_SZ :: u64 where "DIAG_MAX_PCIE_PKT_SZ = 8192"

definition mhi_uci_match_table :: "mhi_device_id list" where
  "mhi_uci_match_table =
     [\<lparr>id_chan = ''LOOPBACK'', driver_data = 0x1000\<rparr>,
      \<lparr>id_chan = ''SAHARA'', driver_data = 0x4000\<rparr>,
      \<lparr>id_chan = ''EDL'', driver_data = 0x4000\<rparr>,
      \<lparr>id_chan = ''DIAG'', driver_data = DIAG_MAX_PCIE_PKT_SZ\<rparr>,
      \<lparr>id_chan = ''MBIM'', driver_data = 0x1000\<rparr>,
      \<lparr>id_chan = ''QMI0'', driver_data = 0x1000\<rparr>,
      \<lparr>id_chan = ''QMI1'', driver_data = 0x1000\<rparr>,
      \<lparr>id_chan = ''DUN'', driver_data = 0x1000\<rparr>, no_id]"

definition mhi_dtr_table :: "mhi_device_id list" where
  "mhi_dtr_table = [\<lparr>id_chan = ''IP_CTRL'', driver_data = sizeof_dtr_msg\<rparr>, no_id]"

definition mhi_netdev_match_table :: "mhi_device_id list" where
  "mhi_netdev_match_table =
     [\<lparr>id_chan = ''IP_HW0'', driver_data = 0\<rparr>, \<lparr>id_chan = ''IP_SW0'', driver_data = 0\<rparr>, no_id]"

definition mhi_uci_driver :: "client_probe \<Rightarrow> client_remove \<Rightarrow> bus_driver" where
  "mhi_uci_driver p r =
     \<lparr>drv_name = ''mhi_uci_q'', id_table = mhi_uci_match_table, has_probe = True, has_remove = True,
      client = \<lparr>has_status_cb = False, has_ul_xfer_cb = True, has_dl_xfer_cb = True, drv_probe = p, drv_remove = r\<rparr>\<rparr>"

definition mhi_dtr_driver :: "client_probe \<Rightarrow> client_remove \<Rightarrow> bus_driver" where
  "mhi_dtr_driver p r =
     \<lparr>drv_name = ''MHI_DTR'', id_table = mhi_dtr_table, has_probe = True, has_remove = True,
      client = \<lparr>has_status_cb = False, has_ul_xfer_cb = True, has_dl_xfer_cb = True, drv_probe = p, drv_remove = r\<rparr>\<rparr>"

definition mhi_netdev_driver :: "client_probe \<Rightarrow> client_remove \<Rightarrow> bus_driver" where
  "mhi_netdev_driver p r =
     \<lparr>drv_name = ''mhi_netdev'', id_table = mhi_netdev_match_table, has_probe = True, has_remove = True,
      client = \<lparr>has_status_cb = True, has_ul_xfer_cb = True, has_dl_xfer_cb = True, drv_probe = p, drv_remove = r\<rparr>\<rparr>"

text \<open>The row of the table that names the device; the table ends at the first empty name.\<close>

definition mhi_match :: "bus_driver \<Rightarrow> mhi_device \<Rightarrow> mhi_device_id option" where
  "mhi_match drv d =
     (if dev_type d = MHI_CONTROLLER_TYPE then None
      else find (\<lambda>i. dev_chan_name d = id_chan i) (takeWhile (\<lambda>i. id_chan i \<noteq> []) (id_table drv)))"

definition mhi_driver_register :: "mod_os \<Rightarrow> bus_driver \<Rightarrow> mhi_module \<Rightarrow> unit res \<times> mhi_module" where
  "mhi_driver_register mo drv m =
     (if \<not> has_probe drv \<or> \<not> has_remove drv then (Inl EINVAL, m)
      else case driver_ret mo (drv_name drv) of
             Some e \<Rightarrow> (Inl e, m)
           | None \<Rightarrow> (Inr (), register (Bus_driver (drv_name drv)) m))"

definition mhi_driver_unregister :: "bus_driver \<Rightarrow> mhi_module \<Rightarrow> mhi_module" where
  "mhi_driver_unregister drv = unregister (Bus_driver (drv_name drv))"

section \<open>Loading and unloading the module\<close>

text \<open>The names the parts register under.\<close>

definition bus_name :: string where "bus_name = ''mhi_q''"
definition MHI_CNTRL_DRIVER_NAME :: string where "MHI_CNTRL_DRIVER_NAME = ''mhi_cntrl_q''"
definition MHI_UCI_DRIVER_NAME :: string where "MHI_UCI_DRIVER_NAME = ''mhi_uci_q''"
definition MHI_NETDEV_DRIVER_NAME :: string where "MHI_NETDEV_DRIVER_NAME = ''mhi_netdev''"

text \<open>The drivers as they are registered: their table and callbacks matter, not what these do.\<close>

record module_drivers =
  uci_driver :: bus_driver
  dtr_driver :: bus_driver
  netdev_driver :: bus_driver

definition mhi_dtr_init :: "mod_os \<Rightarrow> module_drivers \<Rightarrow> mhi_module \<Rightarrow> unit res \<times> mhi_module" where
  "mhi_dtr_init mo D = mhi_driver_register mo (dtr_driver D)"

definition mhi_dtr_exit :: "module_drivers \<Rightarrow> mhi_module \<Rightarrow> mhi_module" where
  "mhi_dtr_exit D = mhi_driver_unregister (dtr_driver D)"

definition mhi_netdev_create_debugfs_dir :: "mhi_module \<Rightarrow> mhi_module" where
  "mhi_netdev_create_debugfs_dir = register (Debugfs_dir MHI_NETDEV_DRIVER_NAME)"

definition mhi_device_netdev_init :: "mod_os \<Rightarrow> module_drivers \<Rightarrow> mhi_module \<Rightarrow> unit res \<times> mhi_module" where
  "mhi_device_netdev_init mo D m = mhi_driver_register mo (netdev_driver D) (mhi_netdev_create_debugfs_dir m)"

definition mhi_device_netdev_exit :: "module_drivers \<Rightarrow> mhi_module \<Rightarrow> mhi_module" where
  "mhi_device_netdev_exit D m =
     mhi_driver_unregister (netdev_driver D) (unregister (Debugfs_dir MHI_NETDEV_DRIVER_NAME) m)"

definition mhi_device_uci_init :: "mod_os \<Rightarrow> module_drivers \<Rightarrow> mhi_module \<Rightarrow> unit res \<times> mhi_module" where
  "mhi_device_uci_init mo D m =
     (case chrdev_ret mo MHI_UCI_DRIVER_NAME of
        Inl e \<Rightarrow> (Inl e, m)
      | Inr n \<Rightarrow>
          let m = register (Chrdev n MHI_UCI_DRIVER_NAME) (m\<lparr>uci_drv := (uci_drv m)\<lparr>major := n\<rparr>\<rparr>)
          in if \<not> class_ret mo MHI_UCI_DRIVER_NAME
             then (Inl ENODEV, unregister_chrdev n MHI_UCI_DRIVER_NAME (m\<lparr>uci_drv := (uci_drv m)\<lparr>dev_class := None\<rparr>\<rparr>))
             else
               let m = register (Device_class MHI_UCI_DRIVER_NAME)
                         (m\<lparr>uci_drv := (uci_drv m)\<lparr>dev_class := Some MHI_UCI_DRIVER_NAME\<rparr>\<rparr>)
               in case mhi_driver_register mo (uci_driver D) m of
                    (Inl e, m) \<Rightarrow>
                      (Inl e, unregister_chrdev (major (uci_drv m)) MHI_UCI_DRIVER_NAME
                                (class_destroy (dev_class (uci_drv m)) m))
                  | (Inr _, m) \<Rightarrow> (Inr (), m))"

definition mhi_device_uci_exit :: "module_drivers \<Rightarrow> mhi_module \<Rightarrow> mhi_module" where
  "mhi_device_uci_exit D m =
     (let m = class_destroy (dev_class (uci_drv m)) (mhi_driver_unregister (uci_driver D) m)
      in unregister_chrdev (major (uci_drv m)) MHI_UCI_DRIVER_NAME m)"

definition mhi_cntrl_init :: "mod_os \<Rightarrow> mhi_module \<Rightarrow> unit res \<times> mhi_module" where
  "mhi_cntrl_init mo m =
     (case chrdev_ret mo MHI_CNTRL_DRIVER_NAME of
        Inl e \<Rightarrow> (Inl e, m)
      | Inr n \<Rightarrow>
          let m = register (Chrdev n MHI_CNTRL_DRIVER_NAME) (m\<lparr>cntrl_drv := (cntrl_drv m)\<lparr>major := n\<rparr>\<rparr>)
          in if \<not> class_ret mo MHI_CNTRL_DRIVER_NAME
             then (Inl ENODEV, unregister_chrdev n MHI_CNTRL_DRIVER_NAME (m\<lparr>cntrl_drv := (cntrl_drv m)\<lparr>dev_class := None\<rparr>\<rparr>))
             else (Inr (), register (Device_class MHI_CNTRL_DRIVER_NAME)
                             (m\<lparr>cntrl_drv := (cntrl_drv m)\<lparr>dev_class := Some MHI_CNTRL_DRIVER_NAME\<rparr>\<rparr>)))"

definition mhi_cntrl_exit :: "mhi_module \<Rightarrow> mhi_module" where
  "mhi_cntrl_exit m =
     (let m = class_destroy (dev_class (cntrl_drv m)) m
      in unregister_chrdev (major (cntrl_drv m)) MHI_CNTRL_DRIVER_NAME m)"

definition mhi_controller_qcom_init :: "mod_os \<Rightarrow> mhi_module \<Rightarrow> unit res \<times> mhi_module" where
  "mhi_controller_qcom_init mo m =
     (case pci_driver_ret mo of
        Some e \<Rightarrow> (Inl e, m)
      | None \<Rightarrow> (Inr (), register (Pci_driver bus_name) m))"

definition mhi_controller_qcom_exit :: "mhi_module \<Rightarrow> mhi_module" where
  "mhi_controller_qcom_exit = unregister (Pci_driver bus_name)"

text \<open>
  Only the results of the first two parts are looked at; those of the next three are logged
  and then overwritten by the one of the PCI driver.
\<close>

definition mhi_init :: "mod_os \<Rightarrow> module_drivers \<Rightarrow> mhi_module \<Rightarrow> unit res \<times> mhi_module" where
  "mhi_init mo D m =
     (let m = register (Debugfs_dir bus_name) m
      in case bus_ret mo of
           Some e \<Rightarrow> (Inl e, m)
         | None \<Rightarrow>
             case mhi_dtr_init mo D (register (Bus_type bus_name) m) of
               (Inl e, m) \<Rightarrow> (Inl e, unregister (Bus_type bus_name) m)
             | (Inr _, m) \<Rightarrow>
                 let m = snd (mhi_device_netdev_init mo D m);
                     m = snd (mhi_device_uci_init mo D m);
                     m = snd (mhi_cntrl_init mo m)
                 in mhi_controller_qcom_init mo m)"

definition mhi_exit :: "module_drivers \<Rightarrow> mhi_module \<Rightarrow> mhi_module" where
  "mhi_exit D m =
     (let m = mhi_cntrl_exit (mhi_controller_qcom_exit m);
          m = mhi_dtr_exit D (mhi_device_netdev_exit D (mhi_device_uci_exit D m))
      in unregister (Debugfs_dir bus_name) (unregister (Bus_type bus_name) m))"

section \<open>What loading leaves, and what unloading takes away\<close>

text \<open>The drivers of the module, whatever their callbacks do.\<close>

definition our_drivers :: "module_drivers \<Rightarrow> bool" where
  "our_drivers D \<longleftrightarrow>
     (\<exists>p r. uci_driver D = mhi_uci_driver p r) \<and> (\<exists>p r. dtr_driver D = mhi_dtr_driver p r)
     \<and> (\<exists>p r. netdev_driver D = mhi_netdev_driver p r)"

definition uci_loads :: "mod_os \<Rightarrow> bool" where
  "uci_loads mo \<longleftrightarrow> (case chrdev_ret mo MHI_UCI_DRIVER_NAME of Inl e \<Rightarrow> False | Inr n \<Rightarrow> True)
     \<and> class_ret mo MHI_UCI_DRIVER_NAME \<and> driver_ret mo MHI_UCI_DRIVER_NAME = None"

definition cntrl_loads :: "mod_os \<Rightarrow> bool" where
  "cntrl_loads mo \<longleftrightarrow> (case chrdev_ret mo MHI_CNTRL_DRIVER_NAME of Inl e \<Rightarrow> False | Inr n \<Rightarrow> True)
     \<and> class_ret mo MHI_CNTRL_DRIVER_NAME"

definition netdev_loads :: "mod_os \<Rightarrow> bool" where
  "netdev_loads mo \<longleftrightarrow> driver_ret mo MHI_NETDEV_DRIVER_NAME = None"

definition number :: "errno + nat \<Rightarrow> nat" where
  "number r = (case r of Inl e \<Rightarrow> 0 | Inr n \<Rightarrow> n)"

text \<open>The registrations of the parts: all of a part's or none.\<close>

definition netdev_part :: "mod_os \<Rightarrow> registration list" where
  "netdev_part mo = Debugfs_dir MHI_NETDEV_DRIVER_NAME #
     (if netdev_loads mo then [Bus_driver MHI_NETDEV_DRIVER_NAME] else [])"

definition uci_part :: "mod_os \<Rightarrow> registration list" where
  "uci_part mo = (if uci_loads mo then [Chrdev (number (chrdev_ret mo MHI_UCI_DRIVER_NAME)) MHI_UCI_DRIVER_NAME,
     Device_class MHI_UCI_DRIVER_NAME, Bus_driver MHI_UCI_DRIVER_NAME] else [])"

definition cntrl_part :: "mod_os \<Rightarrow> registration list" where
  "cntrl_part mo = (if cntrl_loads mo then [Chrdev (number (chrdev_ret mo MHI_CNTRL_DRIVER_NAME)) MHI_CNTRL_DRIVER_NAME,
     Device_class MHI_CNTRL_DRIVER_NAME] else [])"

definition pci_part :: "mod_os \<Rightarrow> registration list" where
  "pci_part mo = (if pci_driver_ret mo = None then [Pci_driver bus_name] else [])"

definition majors_ok :: "mod_os \<Rightarrow> bool" where
  "majors_ok mo \<longleftrightarrow>
     (uci_loads mo \<longrightarrow> number (chrdev_ret mo MHI_CNTRL_DRIVER_NAME) \<noteq> number (chrdev_ret mo MHI_UCI_DRIVER_NAME))"

lemmas module_names = bus_name_def MHI_CNTRL_DRIVER_NAME_def MHI_UCI_DRIVER_NAME_def MHI_NETDEV_DRIVER_NAME_def

lemma register_drivers [simp]:
  "our_drivers D \<Longrightarrow> mhi_driver_register mo (uci_driver D) m =
     (case driver_ret mo MHI_UCI_DRIVER_NAME of Some e \<Rightarrow> (Inl e, m) | None \<Rightarrow> (Inr (), register (Bus_driver MHI_UCI_DRIVER_NAME) m))"
  "our_drivers D \<Longrightarrow> mhi_driver_register mo (dtr_driver D) m =
     (case driver_ret mo ''MHI_DTR'' of Some e \<Rightarrow> (Inl e, m) | None \<Rightarrow> (Inr (), register (Bus_driver ''MHI_DTR'') m))"
  "our_drivers D \<Longrightarrow> mhi_driver_register mo (netdev_driver D) m =
     (case driver_ret mo MHI_NETDEV_DRIVER_NAME of Some e \<Rightarrow> (Inl e, m) | None \<Rightarrow> (Inr (), register (Bus_driver MHI_NETDEV_DRIVER_NAME) m))"
  by (auto simp: our_drivers_def mhi_driver_register_def mhi_uci_driver_def mhi_dtr_driver_def mhi_netdev_driver_def module_names split: option.splits)

lemma unregister_drivers [simp]:
  "our_drivers D \<Longrightarrow> mhi_driver_unregister (uci_driver D) = unregister (Bus_driver MHI_UCI_DRIVER_NAME)"
  "our_drivers D \<Longrightarrow> mhi_driver_unregister (dtr_driver D) = unregister (Bus_driver ''MHI_DTR'')"
  "our_drivers D \<Longrightarrow> mhi_driver_unregister (netdev_driver D) = unregister (Bus_driver MHI_NETDEV_DRIVER_NAME)"
  by (auto simp: our_drivers_def mhi_driver_unregister_def mhi_uci_driver_def mhi_dtr_driver_def mhi_netdev_driver_def module_names)


text \<open>The state once the module is loaded as far as it goes.\<close>

definition core_part :: "registration list" where
  "core_part = [Debugfs_dir bus_name, Bus_type bus_name, Bus_driver ''MHI_DTR'']"

lemma load_netdev:
  "our_drivers D \<Longrightarrow> snd (mhi_device_netdev_init mo D m) = m\<lparr>live := live m @ netdev_part mo\<rparr>"
  by (auto simp: mhi_device_netdev_init_def mhi_netdev_create_debugfs_dir_def register_def netdev_part_def netdev_loads_def
      split: option.splits)

lemma find_fresh: "\<forall>r \<in> set xs. \<not> P r \<Longrightarrow> find P (xs @ ys) = find P ys"
  by (induction xs) auto

lemma remove1_fresh: "x \<notin> set xs \<Longrightarrow> remove1 x (xs @ ys) = xs @ remove1 x ys"
  by (induction xs) auto

definition uci_after :: "mod_os \<Rightarrow> chr_drv \<Rightarrow> chr_drv" where
  "uci_after mo d =
     (case chrdev_ret mo MHI_UCI_DRIVER_NAME of
        Inl e \<Rightarrow> d
      | Inr n \<Rightarrow> \<lparr>major = n, dev_class = (if class_ret mo MHI_UCI_DRIVER_NAME then Some MHI_UCI_DRIVER_NAME else None)\<rparr>)"

lemma load_uci:
  assumes "our_drivers D" and "live m = core_part @ netdev_part mo"
  shows "snd (mhi_device_uci_init mo D m) = m\<lparr>live := live m @ uci_part mo, uci_drv := uci_after mo (uci_drv m)\<rparr>"
proof (cases "chrdev_ret mo MHI_UCI_DRIVER_NAME")
  case (Inl e)
  then show ?thesis by (simp add: mhi_device_uci_init_def uci_part_def uci_loads_def uci_after_def)
next
  case (Inr n)
  have f: "\<forall>r \<in> set (live m). \<not> has_major k r" "Chrdev k s \<notin> set (live m)" 
     "Device_class s \<notin> set (live m)" for k s
    using assms(2) by (auto simp: core_part_def netdev_part_def)
  show ?thesis
    using assms(1) Inr
    by (simp add: mhi_device_uci_init_def register_def unregister_def unregister_chrdev_def class_destroy_def Let_def
        find_fresh [OF f(1)] f(2,3) remove1_fresh uci_part_def uci_loads_def uci_after_def number_def split: option.splits)
qed

definition cntrl_after :: "mod_os \<Rightarrow> chr_drv \<Rightarrow> chr_drv" where
  "cntrl_after mo d =
     (case chrdev_ret mo MHI_CNTRL_DRIVER_NAME of
        Inl e \<Rightarrow> d
      | Inr n \<Rightarrow> \<lparr>major = n, dev_class = (if class_ret mo MHI_CNTRL_DRIVER_NAME then Some MHI_CNTRL_DRIVER_NAME else None)\<rparr>)"

lemma load_cntrl:
  assumes "majors_ok mo" and "live m = core_part @ netdev_part mo @ uci_part mo"
  shows "snd (mhi_cntrl_init mo m) = m\<lparr>live := live m @ cntrl_part mo, cntrl_drv := cntrl_after mo (cntrl_drv m)\<rparr>"
proof (cases "chrdev_ret mo MHI_CNTRL_DRIVER_NAME")
  case (Inl e)
  then show ?thesis by (simp add: mhi_cntrl_init_def cntrl_part_def cntrl_loads_def cntrl_after_def)
next
  case (Inr n)
  have f: "\<forall>r \<in> set (live m). \<not> has_major n r" "Chrdev n MHI_CNTRL_DRIVER_NAME \<notin> set (live m)"
    using assms Inr by (auto simp: core_part_def netdev_part_def uci_part_def majors_ok_def number_def split: if_splits)
  show ?thesis
    using Inr
    by (simp add: mhi_cntrl_init_def register_def unregister_chrdev_def class_destroy_def Let_def
        find_fresh [OF f(1)] f(2) remove1_fresh cntrl_part_def cntrl_loads_def cntrl_after_def number_def)
qed

definition loaded :: "mod_os \<Rightarrow> mhi_module" where
  "loaded mo = \<lparr>live = core_part @ netdev_part mo @ uci_part mo @ cntrl_part mo @ pci_part mo, strays = [],
     uci_drv = uci_after mo (uci_drv unloaded), cntrl_drv = cntrl_after mo (cntrl_drv unloaded)\<rparr>"

lemma load_all:
  assumes "our_drivers D" and "majors_ok mo" and "bus_ret mo = None" and "driver_ret mo ''MHI_DTR'' = None"
  shows "mhi_init mo D unloaded = (case pci_driver_ret mo of None \<Rightarrow> Inr () | Some e \<Rightarrow> Inl e, loaded mo)"
proof -
  let ?m1 = "unloaded\<lparr>live := core_part @ netdev_part mo\<rparr>"
  let ?m2 = "?m1\<lparr>live := live ?m1 @ uci_part mo, uci_drv := uci_after mo (uci_drv ?m1)\<rparr>"
  have 1: "mhi_dtr_init mo D (register (Bus_type bus_name) (register (Debugfs_dir bus_name) unloaded))
       = (Inr (), unloaded\<lparr>live := core_part\<rparr>)"
    using assms(1,4) by (simp add: mhi_dtr_init_def register_def unloaded_def core_part_def)
  have 2: "snd (mhi_device_netdev_init mo D (unloaded\<lparr>live := core_part\<rparr>)) = ?m1"
    using load_netdev [OF assms(1)] by simp
  have 3: "snd (mhi_device_uci_init mo D ?m1) = ?m2" using load_uci [OF assms(1), of ?m1 mo] by simp
  have 4: "snd (mhi_cntrl_init mo ?m2) = ?m2\<lparr>live := live ?m2 @ cntrl_part mo, cntrl_drv := cntrl_after mo (cntrl_drv ?m2)\<rparr>"
    using load_cntrl [OF assms(2), of ?m2] by simp
  have "mhi_init mo D unloaded = mhi_controller_qcom_init mo (snd (mhi_cntrl_init mo ?m2))"
    using assms(3) 1 2 3 by (simp add: mhi_init_def Let_def)
  also have "\<dots> = (case pci_driver_ret mo of None \<Rightarrow> Inr () | Some e \<Rightarrow> Inl e, loaded mo)"
    unfolding 4 by (simp add: mhi_controller_qcom_init_def register_def loaded_def unloaded_def pci_part_def split: option.splits)
  finally show ?thesis .
qed

lemma load_early:
  assumes "our_drivers D" and "bus_ret mo \<noteq> None \<or> driver_ret mo ''MHI_DTR'' \<noteq> None"
  shows "\<exists>e. mhi_init mo D unloaded = (Inl e, unloaded\<lparr>live := [Debugfs_dir bus_name]\<rparr>)"
  using assms
  by (cases "bus_ret mo"; cases "driver_ret mo ''MHI_DTR''")
     (auto simp: mhi_init_def mhi_dtr_init_def register_def unregister_def unloaded_def Let_def)

text \<open>What unloading unregisters in vain, in the order it does.\<close>

definition uci_strays :: "mod_os \<Rightarrow> registration list" where
  "uci_strays mo =
     (if uci_loads mo then []
      else Bus_driver MHI_UCI_DRIVER_NAME #
           (case dev_class (uci_after mo (uci_drv unloaded)) of None \<Rightarrow> [] | Some s \<Rightarrow> [Device_class s])
           @ [Chrdev (major (uci_after mo (uci_drv unloaded))) MHI_UCI_DRIVER_NAME])"

definition all_strays :: "mod_os \<Rightarrow> registration list" where
  "all_strays mo =
     (if pci_driver_ret mo = None then [] else [Pci_driver bus_name])
     @ (if cntrl_loads mo then [] else [Chrdev (major (cntrl_after mo (cntrl_drv unloaded))) MHI_CNTRL_DRIVER_NAME])
     @ uci_strays mo
     @ (if netdev_loads mo then [] else [Bus_driver MHI_NETDEV_DRIVER_NAME])"

lemma unload_cntrl:
  assumes "majors_ok mo" and "live m = core_part @ netdev_part mo @ uci_part mo @ cntrl_part mo"
    and "cntrl_drv m = cntrl_after mo (cntrl_drv unloaded)"
  shows "mhi_cntrl_exit m = m\<lparr>live := core_part @ netdev_part mo @ uci_part mo,
     strays := strays m @ (if cntrl_loads mo then [] else [Chrdev (major (cntrl_drv m)) MHI_CNTRL_DRIVER_NAME])\<rparr>"
proof (cases "cntrl_loads mo")
  case True
  have f: "\<forall>r \<in> set (core_part @ netdev_part mo @ uci_part mo). \<not> has_major (number (chrdev_ret mo MHI_CNTRL_DRIVER_NAME)) r"
    "Device_class MHI_CNTRL_DRIVER_NAME \<notin> set (core_part @ netdev_part mo @ uci_part mo)"
    "Chrdev n MHI_CNTRL_DRIVER_NAME \<notin> set (core_part @ netdev_part mo @ uci_part mo)" for n
    using assms(1) by (auto simp: core_part_def netdev_part_def uci_part_def majors_ok_def module_names split: if_splits)
  define xs where "xs = core_part @ netdev_part mo @ uci_part mo"
  have l: "live m = xs @ cntrl_part mo" using assms(2) by (simp add: xs_def)
  show ?thesis
    using True assms(3) f unfolding mhi_cntrl_exit_def Let_def class_destroy_def unregister_def unregister_chrdev_def
    by (simp add: l xs_def [symmetric] cntrl_part_def cntrl_loads_def cntrl_after_def find_fresh remove1_fresh number_def
        split: sum.splits)
next
  case False
  have f: "find (has_major (major (cntrl_drv m))) (live m) = None"
    using assms False by (auto simp: find_None_iff cntrl_after_def unloaded_def core_part_def netdev_part_def uci_part_def
      cntrl_part_def cntrl_loads_def majors_ok_def number_def split: sum.splits if_splits)
  have c: "dev_class (cntrl_drv m) = None"
    using assms(3) False by (auto simp: cntrl_after_def cntrl_loads_def unloaded_def split: sum.splits)
  show ?thesis using False f c assms(2) by (simp add: mhi_cntrl_exit_def class_destroy_def unregister_chrdev_def cntrl_part_def)
qed

lemma unload_uci:
  assumes "our_drivers D" and "live m = core_part @ netdev_part mo @ uci_part mo"
    and "uci_drv m = uci_after mo (uci_drv unloaded)"
  shows "mhi_device_uci_exit D m = m\<lparr>live := core_part @ netdev_part mo, strays := strays m @ uci_strays mo\<rparr>"
proof -
  define xs where "xs = core_part @ netdev_part mo"
  have f: "\<forall>r \<in> set xs. \<not> has_major n r" "Device_class MHI_UCI_DRIVER_NAME \<notin> set xs" "Chrdev n MHI_UCI_DRIVER_NAME \<notin> set xs"
     "Bus_driver MHI_UCI_DRIVER_NAME \<notin> set xs" "find (has_major n) xs = None" for n
    by (auto simp: xs_def core_part_def netdev_part_def module_names find_None_iff)
  have l: "live m = xs @ uci_part mo" using assms(2) by (simp add: xs_def)
  have e: "mhi_device_uci_exit D m = unregister_chrdev (major (uci_drv m)) MHI_UCI_DRIVER_NAME
      (class_destroy (dev_class (uci_drv m)) (unregister (Bus_driver MHI_UCI_DRIVER_NAME) m))"
    using assms(1) by (auto simp: mhi_device_uci_exit_def Let_def class_destroy_def unregister_def split: option.splits)
  show ?thesis
  proof (cases "uci_loads mo")
    case True
    then obtain n where n: "chrdev_ret mo MHI_UCI_DRIVER_NAME = Inr n" "class_ret mo MHI_UCI_DRIVER_NAME"
      by (auto simp: uci_loads_def split: sum.splits)
    then show ?thesis using True assms(3) f(1-4)
      by (simp add: e l xs_def [symmetric] uci_part_def uci_after_def uci_strays_def number_def class_destroy_def
          find_fresh remove1_fresh unregister_def unregister_chrdev_def)
  next
    case False
    then have l: "live m = xs" using l by (simp add: uci_part_def)
    define d where "d = uci_after mo (uci_drv unloaded)"
    have d: "uci_drv m = d" "dev_class d = None \<or> dev_class d = Some MHI_UCI_DRIVER_NAME"
      using assms(3) by (auto simp: d_def uci_after_def unloaded_def split: sum.splits)
    have self: "m\<lparr>live := xs, strays := s\<rparr> = m\<lparr>strays := s\<rparr>" for s
      using l by simp
    have u: "unregister (Bus_driver MHI_UCI_DRIVER_NAME) m = m\<lparr>strays := strays m @ [Bus_driver MHI_UCI_DRIVER_NAME]\<rparr>"
      using l f(4) by (simp add: unregister_def)
    have c: "class_destroy (dev_class d) (m\<lparr>strays := s\<rparr>) = m\<lparr>strays := s @
        (case dev_class d of None \<Rightarrow> [] | Some s \<Rightarrow> [Device_class s])\<rparr>" for s
      using l f(2) d(2) by (elim disjE) (simp_all add: class_destroy_def unregister_def)
    have h: "unregister_chrdev n s' (m\<lparr>strays := s\<rparr>) = m\<lparr>strays := s @ [Chrdev n s']\<rparr>" for n s s'
      using l f(5) [of n] by (simp add: unregister_chrdev_def)
    show ?thesis
      unfolding e d(1) u c h xs_def [symmetric] self uci_strays_def d_def [symmetric] using False by simp
  qed
qed

lemma unload_all:
  assumes "our_drivers D" and "majors_ok mo"
  shows "live (mhi_exit D (loaded mo)) = [] \<and> strays (mhi_exit D (loaded mo)) = all_strays mo"
proof -
  let ?xs = "core_part @ netdev_part mo @ uci_part mo @ cntrl_part mo"
  let ?m1 = "(loaded mo)\<lparr>live := ?xs, strays := (if pci_driver_ret mo = None then [] else [Pci_driver bus_name])\<rparr>"
  have n: "Pci_driver bus_name \<notin> set ?xs" by (auto simp: core_part_def netdev_part_def uci_part_def cntrl_part_def)
  have 1: "mhi_controller_qcom_exit (loaded mo) = ?m1"
    using n by (auto simp: mhi_controller_qcom_exit_def unregister_def loaded_def pci_part_def remove1_fresh [OF n, simplified])
  have 2: "mhi_cntrl_exit ?m1 = ?m1\<lparr>live := core_part @ netdev_part mo @ uci_part mo, strays := strays ?m1
      @ (if cntrl_loads mo then [] else [Chrdev (major (cntrl_drv ?m1)) MHI_CNTRL_DRIVER_NAME])\<rparr>"
    by (rule unload_cntrl [OF assms(2)]) (simp_all add: loaded_def)
  let ?m2 = "?m1\<lparr>live := core_part @ netdev_part mo @ uci_part mo, strays := strays ?m1
      @ (if cntrl_loads mo then [] else [Chrdev (major (cntrl_drv ?m1)) MHI_CNTRL_DRIVER_NAME])\<rparr>"
  have 3: "mhi_device_uci_exit D ?m2 = ?m2\<lparr>live := core_part @ netdev_part mo, strays := strays ?m2 @ uci_strays mo\<rparr>"
    by (rule unload_uci [OF assms(1)]) (simp_all add: loaded_def)
  have 4: "let m' = unregister (Debugfs_dir bus_name) (unregister (Bus_type bus_name) (mhi_dtr_exit D (mhi_device_netdev_exit D m)))
      in live m' = [] \<and> strays m' = strays m @ (if netdev_loads mo then [] else [Bus_driver MHI_NETDEV_DRIVER_NAME])"
    if "live m = core_part @ netdev_part mo" for m
    using that assms(1) by (simp add: mhi_device_netdev_exit_def mhi_dtr_exit_def unregister_def core_part_def netdev_part_def
        module_names)
  show ?thesis
    unfolding mhi_exit_def Let_def 1 2 3
    using 4 [of "?m2\<lparr>live := core_part @ netdev_part mo, strays := strays ?m2 @ uci_strays mo\<rparr>"]
    by (simp add: Let_def all_strays_def loaded_def)
qed


text \<open>
  C32: Loading and unloading the module. Loading fails early, leaving its directory behind, if the
  bus or the driver of the control lines cannot be registered. Otherwise the result is that of
  the PCI driver, whatever became of the other parts, each of which is registered completely or
  not at all: when the PCI driver is refused, loading fails with everything else still
  registered. Unloading takes everything away; it unregisters something in vain exactly if some
  part had failed, and destroys the class of the character devices a second time if their driver
  had been refused.
\<close>

theorem module_lifecycle:
  assumes "our_drivers D" and "majors_ok mo"
  shows "case mhi_init mo D unloaded of (ret, m) \<Rightarrow>
    if bus_ret mo \<noteq> None \<or> driver_ret mo ''MHI_DTR'' \<noteq> None
    then ret \<noteq> Inr () \<and> live m = [Debugfs_dir bus_name] \<and> strays m = []
    else (ret = Inr () \<longleftrightarrow> pci_driver_ret mo = None)
      \<and> live m = core_part @ netdev_part mo @ uci_part mo @ cntrl_part mo @ pci_part mo \<and> strays m = []
      \<and> live (mhi_exit D m) = []
      \<and> (strays (mhi_exit D m) = [] \<longleftrightarrow> netdev_loads mo \<and> uci_loads mo \<and> cntrl_loads mo \<and> pci_driver_ret mo = None)
      \<and> (is_ok (chrdev_ret mo MHI_UCI_DRIVER_NAME) \<and> class_ret mo MHI_UCI_DRIVER_NAME \<and> driver_ret mo MHI_UCI_DRIVER_NAME \<noteq> None
          \<longrightarrow> Device_class MHI_UCI_DRIVER_NAME \<in> set (strays (mhi_exit D m)))"
proof (cases "bus_ret mo \<noteq> None \<or> driver_ret mo ''MHI_DTR'' \<noteq> None")
  case True
  then obtain e where "mhi_init mo D unloaded = (Inl e, unloaded\<lparr>live := [Debugfs_dir bus_name]\<rparr>)"
    using load_early [OF assms(1) True] by blast
  then show ?thesis using True by (simp add: unloaded_def)
next
  case False
  have l: "mhi_init mo D unloaded = (case pci_driver_ret mo of None \<Rightarrow> Inr () | Some e \<Rightarrow> Inl e, loaded mo)"
    using load_all [OF assms] False by simp
  have x: "live (mhi_exit D (loaded mo)) = []" "strays (mhi_exit D (loaded mo)) = all_strays mo"
    using unload_all [OF assms] by simp_all
  have s: "all_strays mo = [] \<longleftrightarrow> netdev_loads mo \<and> uci_loads mo \<and> cntrl_loads mo \<and> pci_driver_ret mo = None"
    by (auto simp: all_strays_def uci_strays_def)
  have c: "Device_class MHI_UCI_DRIVER_NAME \<in> set (all_strays mo)"
    if "is_ok (chrdev_ret mo MHI_UCI_DRIVER_NAME)" "class_ret mo MHI_UCI_DRIVER_NAME" "driver_ret mo MHI_UCI_DRIVER_NAME \<noteq> None"
    using that by (cases "chrdev_ret mo MHI_UCI_DRIVER_NAME") (auto simp: all_strays_def uci_strays_def uci_loads_def uci_after_def)
  show ?thesis using False s c unfolding l prod.case x by (auto simp: loaded_def split: option.split)
qed

theorem module_lifecycle_witness:
  "let D = \<lparr>uci_driver = mhi_uci_driver (\<lambda>c. (Inr (), c)) id, dtr_driver = mhi_dtr_driver (\<lambda>c. (Inr (), c)) id,
        netdev_driver = mhi_netdev_driver (\<lambda>c. (Inr (), c)) id\<rparr>;
      mo = \<lparr>bus_ret = None, driver_ret = (\<lambda>n. if n = MHI_UCI_DRIVER_NAME then Some ENOMEM else None),
        chrdev_ret = (\<lambda>n. Inr (if n = MHI_UCI_DRIVER_NAME then 240 else 241)), class_ret = (\<lambda>_. True), pci_driver_ret = None\<rparr>;
      r = mhi_init mo D unloaded
   in fst r = Inr () \<and> Device_class MHI_UCI_DRIVER_NAME \<in> set (strays (mhi_exit D (snd r))) \<and> live (mhi_exit D (snd r)) = []"
proof -
  let ?D = "\<lparr>uci_driver = mhi_uci_driver (\<lambda>c. (Inr (), c)) id, dtr_driver = mhi_dtr_driver (\<lambda>c. (Inr (), c)) id,
        netdev_driver = mhi_netdev_driver (\<lambda>c. (Inr (), c)) id\<rparr>"
  let ?mo = "\<lparr>bus_ret = None, driver_ret = (\<lambda>n. if n = MHI_UCI_DRIVER_NAME then Some ENOMEM else None),
        chrdev_ret = (\<lambda>n. Inr (if n = MHI_UCI_DRIVER_NAME then 240 else 241)), class_ret = (\<lambda>_. True), pci_driver_ret = None\<rparr>"
  have "our_drivers ?D" "majors_ok ?mo" by (auto simp: our_drivers_def majors_ok_def number_def module_names)
  from module_lifecycle [OF this] show ?thesis
    unfolding Let_def by (cases "mhi_init ?mo ?D unloaded") (simp add: module_names)
qed

section \<open>Which driver takes which device\<close>

text \<open>A channel as the table makes it: what the bus asks before it lets a driver bind.\<close>

definition tabled :: "mhi_chan \<Rightarrow> bool" where
  "tabled ch \<longleftrightarrow> (configured ch \<longrightarrow>
     (\<exists>e \<in> set chan_cfg. ch_name ch = chan_name e \<and> chan ch = of_nat (chan_id e)
        \<and> ch_er_index ch = (if chan_id e = MHI_CLIENT_IP_HW_0_OUT then IPA_OUT_EVENT_RING
                            else if chan_id e = MHI_CLIENT_IP_HW_0_IN then IPA_IN_EVENT_RING
                            else PRIMARY_EVENT_RING)
        \<and> \<not> lpm_notify ch \<and> \<not> auto_start ch))"

lemma configure_chan_tabled:
  assumes "configure_chan rmnet e ring ch = Some ch'" and "e \<in> set chan_cfg"
  shows "tabled ch'"
proof -
  have "let ch' = the (configure_chan rmnet e ring ch) in ch_name ch' = chan_name e \<and> chan ch' = of_nat (chan_id e)
      \<and> ch_er_index ch' = (if chan_id e = MHI_CLIENT_IP_HW_0_OUT then IPA_OUT_EVENT_RING
                            else if chan_id e = MHI_CLIENT_IP_HW_0_IN then IPA_IN_EVENT_RING
                            else PRIMARY_EVENT_RING)
      \<and> \<not> lpm_notify ch' \<and> \<not> auto_start ch'"
    by (simp add: configure_chan_def Let_def MHI_INVALID_BRSTMODE_def MHI_BRSTMODE_ENABLE_def MHI_BRSTMODE_DISABLE_def)
  then have "ch_name ch' = chan_name e \<and> chan ch' = of_nat (chan_id e)
      \<and> ch_er_index ch' = (if chan_id e = MHI_CLIENT_IP_HW_0_OUT then IPA_OUT_EVENT_RING
                            else if chan_id e = MHI_CLIENT_IP_HW_0_IN then IPA_IN_EVENT_RING
                            else PRIMARY_EVENT_RING)
      \<and> \<not> lpm_notify ch' \<and> \<not> auto_start ch'"
    unfolding assms(1) Let_def option.sel .
  then show ?thesis using assms(2) unfolding tabled_def by blast
qed

lemma parse_chans_tabled:
  assumes "parse_chans mbim rmnet es ring c = Some c'" and "set es \<subseteq> set chan_cfg"
    and "\<forall>i. tabled (mhi_chan c i)"
  shows "\<forall>i. tabled (mhi_chan c' i)"
  using assms
proof (induction es arbitrary: ring c)
  case (Cons e es)
  show ?case
  proof (cases "cfg_skipped mbim e")
    case False
    then obtain ch where ch: "configure_chan rmnet e ring (mhi_chan (touch_chan (chan_id e) c) (chan_id e)) = Some ch"
      using Cons.prems(1) by (auto simp: Let_def split: option.splits)
    obtain r d where d: "parse_chans mbim rmnet es r d = Some c'" "mhi_chan d = (mhi_chan c)(chan_id e := ch)"
      using Cons.prems(1) False ch by (cases "lpm_notify ch") (auto simp: Let_def upd_chan_def touch_chan_def)
    have "\<forall>i. tabled (mhi_chan d i)"
      using Cons.prems(2,3) configure_chan_tabled [OF ch] d(2) by simp
    then show ?thesis using Cons.IH [OF d(1)] Cons.prems(2) by simp
  qed (use Cons in auto)
qed simp

lemma parse_events_frame [simp]: "mhi_chan (fold parse_event xs c) = mhi_chan c"
  by (induction xs arbitrary: c) (simp_all add: parse_event_def upd_event_def Let_def)

lemma parse_events_pm [simp]: "pm_state (fold parse_event xs c) = pm_state c"
  by (induction xs arbitrary: c) (simp_all add: parse_event_def upd_event_def Let_def)

lemma parse_chans_pm: "parse_chans mbim rmnet es ring c = Some c' \<Longrightarrow> pm_state c' = pm_state c"
proof (induction es arbitrary: ring c)
  case (Cons e es)
  show ?case
  proof (cases "cfg_skipped mbim e")
    case False
    then obtain r d where "parse_chans mbim rmnet es r d = Some c'" "pm_state d = pm_state c"
      using Cons.prems by (auto simp: Let_def upd_chan_def touch_chan_def split: option.splits if_splits)
    then show ?thesis using Cons.IH by metis
  qed (use Cons in auto)
qed simp

lemma parse_events_managed:
  "cl_manage (mhi_event (fold parse_event xs c) j) \<longleftrightarrow>
     (if j \<in> set xs then j = IPA_IN_EVENT_RING else cl_manage (mhi_event c j))"
proof (induction xs arbitrary: c)
  case (Cons i xs)
  have "cl_manage (mhi_event (parse_event i c) j) \<longleftrightarrow> (if j = i then i = IPA_IN_EVENT_RING else cl_manage (mhi_event c j))"
    by (auto simp: parse_event_def upd_event_def configure_event_def Let_def client_defs size_defs)
  then show ?case using Cons by auto
qed simp

lemma parsed_controller:
  assumes "of_parse_dt os mbim rmnet c = (Inr (), c')"
  shows "tabled (mhi_chan c' i)" and "cl_manage (mhi_event c' j) \<longleftrightarrow> j = IPA_IN_EVENT_RING"
proof -
  obtain c1 c2 where c1: "of_parse_ch_cfg os mbim rmnet c = (Inr (), c1)" "of_parse_ev_cfg os c1 = (Inr (), c2)"
      "mhi_chan c' = mhi_chan c2" "mhi_event c' = mhi_event c2"
    using assms by (auto simp: of_parse_dt_def split: prod.splits sum.splits)
  obtain d where d: "parse_chans mbim rmnet chan_cfg 0 d = Some c1" "mhi_chan d = (\<lambda>_. zero_chan)"
    using c1(1) by (auto simp: of_parse_ch_cfg_def call_kmalloc_def Let_def split: option.splits)
  obtain b where b: "mhi_chan c2 = mhi_chan b" "mhi_event c2 = mhi_event (fold parse_event [0..<NUM_MHI_EVT_RINGS] b)"
      "mhi_chan b = mhi_chan c1" "mhi_event b = (\<lambda>_. zero_event)"
    using c1(2) by (force simp: of_parse_ev_cfg_def call_kmalloc_def Let_def split: option.splits)
  have "tabled zero_chan" by (simp add: tabled_def zero_chan_def)
  then show "tabled (mhi_chan c' i)" using parse_chans_tabled [OF d(1)] d(2) c1(3) b by simp
  show "cl_manage (mhi_event c' j) \<longleftrightarrow> j = IPA_IN_EVENT_RING"
    using c1(4) b by (simp add: parse_events_managed NUM_MHI_EVT_RINGS_def size_defs zero_event_def)
qed

text \<open>The three drivers of the module, which of them match a name, and whether they may bind.\<close>

definition bus_drivers :: "module_drivers \<Rightarrow> bus_driver list" where
  "bus_drivers D = [dtr_driver D, netdev_driver D, uci_driver D]"

definition takers :: "module_drivers \<Rightarrow> mhi_device \<Rightarrow> bus_driver list" where
  "takers D d = filter (\<lambda>drv. mhi_match drv d \<noteq> None) (bus_drivers D)"

definition names :: "bus_driver \<Rightarrow> string set" where
  "names drv = id_chan ` set (takeWhile (\<lambda>i. id_chan i \<noteq> []) (id_table drv))"

lemma matches_iff:
  "mhi_match drv d \<noteq> None \<longleftrightarrow> dev_type d \<noteq> MHI_CONTROLLER_TYPE \<and> dev_chan_name d \<in> names drv"
  by (auto simp: mhi_match_def names_def find_None_iff simp del: not_None_eq)

lemma our_callbacks:
  assumes "our_drivers D"
  shows "drv \<in> set (bus_drivers D) \<Longrightarrow> has_ul_xfer_cb (client drv) \<and> has_dl_xfer_cb (client drv)"
    and "has_status_cb (client (netdev_driver D))"
  using assms by (auto simp: bus_drivers_def our_drivers_def mhi_uci_driver_def mhi_dtr_driver_def mhi_netdev_driver_def)

lemma names_drivers:
  assumes "our_drivers D"
  shows "names (dtr_driver D) = {''IP_CTRL''}" "names (netdev_driver D) = {''IP_HW0'', ''IP_SW0''}"
    "names (uci_driver D) = {''LOOPBACK'', ''SAHARA'', ''EDL'', ''DIAG'', ''MBIM'', ''QMI0'', ''QMI1'', ''DUN''}"
  using assms unfolding our_drivers_def
  by (auto simp: names_def mhi_uci_driver_def mhi_dtr_driver_def mhi_netdev_driver_def
      mhi_uci_match_table_def mhi_dtr_table_def mhi_netdev_match_table_def no_id_def)

lemma takers_by_name:
  assumes "our_drivers D" and "dev_type d \<noteq> MHI_CONTROLLER_TYPE"
  shows "takers D d = filter (\<lambda>drv. dev_chan_name d \<in> names drv) (bus_drivers D)"
  using assms by (simp only: takers_def matches_iff) simp

text \<open>The names of the channel table, with the driver that takes each.\<close>

definition channel_names :: "string list" where
  "channel_names = [''LOOPBACK'', ''SAHARA'', ''DIAG'', ''EFS'', ''MBIM'', ''QMI0'', ''IP_CTRL'', ''DUN'', ''EDL'', ''IP_HW0'']"

lemma table_names: "chan_name ` set chan_cfg = set channel_names"
  by (auto simp: chan_cfg_def cfg_def channel_names_def)

lemma table_event_ring:
  "e \<in> set chan_cfg \<Longrightarrow> chan_id e = MHI_CLIENT_IP_HW_0_IN \<Longrightarrow> chan_name e = ''IP_HW0''"
  by (auto simp: chan_cfg_def cfg_def client_defs)

lemma takers_of_channel:
  assumes "our_drivers D" and "dev_type d \<noteq> MHI_CONTROLLER_TYPE" and "dev_chan_name d \<in> set channel_names"
  shows "takers D d = (if dev_chan_name d = ''EFS'' then []
     else if dev_chan_name d = ''IP_CTRL'' then [dtr_driver D]
     else if dev_chan_name d = ''IP_HW0'' then [netdev_driver D] else [uci_driver D])"
  using assms(3) unfolding takers_by_name [OF assms(1,2)] channel_names_def set_simps
  by (elim insertE emptyE) (simp_all add: bus_drivers_def names_drivers [OF assms(1)])

lemma tabled_acceptable:
  assumes "our_drivers D" and "tabled ch" and "configured ch" and "ch_name ch = dev_chan_name d"
    and "dev_type d \<noteq> MHI_CONTROLLER_TYPE" and "drv \<in> set (takers D d)"
    and "cl_manage ev \<longleftrightarrow> ch_er_index ch = IPA_IN_EVENT_RING"
  shows "ul_acceptable (client drv) ch" and "dl_acceptable (client drv) ch ev"
proof -
  obtain e where e: "e \<in> set chan_cfg" "chan_name e = dev_chan_name d" "\<not> lpm_notify ch"
    "ch_er_index ch = IPA_IN_EVENT_RING \<Longrightarrow> chan_name e = ''IP_HW0''"
    using assms(2-4) table_event_ring by (auto simp: tabled_def size_defs split: if_splits)
  have n: "dev_chan_name d \<in> set channel_names" using e(1,2) table_names by force
  have cb: "has_ul_xfer_cb (client drv)" "has_dl_xfer_cb (client drv)"
    using our_callbacks(1) [OF assms(1)] assms(6) by (simp_all add: takers_def)
  have st: "has_status_cb (client drv)" if "cl_manage ev"
  proof -
    have "dev_chan_name d = ''IP_HW0''" using e(2,4) assms(7) that by simp
    then show ?thesis using takers_of_channel [OF assms(1,5) n] assms(6) our_callbacks(2) [OF assms(1)] by simp
  qed
  show "ul_acceptable (client drv) ch" "dl_acceptable (client drv) ch ev"
    using cb st e(3) by (auto simp: ul_acceptable_def dl_acceptable_def)
qed

lemma get_sync_keeps_tables:
  assumes "mhi_device_get_sync env d c = (r, d', c')" and "\<And>x. mhi_chan (env x) = mhi_chan x \<and> mhi_event (env x) = mhi_event x"
  shows "mhi_chan c' = mhi_chan c" "mhi_event c' = mhi_event c" "ul_chan d' = ul_chan d" "dl_chan d' = dl_chan d"
    "dev_type d' = dev_type d" "dev_chan_name d' = dev_chan_name d"
  using assms(1)
  by (auto simp: mhi_device_get_sync_def device_get_sync_def wait_event_timeout_def mhi_assert_dev_wake_def
      mhi_write_db_def mhi_write_reg_def emit_def Let_def assms(2) split: if_splits prod.splits sum.splits)

lemma parse_dt_succeeds:
  assumes "\<And>k n. kmalloc os k n \<noteq> None"
  shows "\<exists>c'. of_parse_dt os mbim rmnet c = (Inr (), c') \<and> pm_state c' = pm_state c
    \<and> (\<forall>i nr. map_of (plan mbim chan_cfg 0) i = Some nr \<longrightarrow> planned (mhi_chan c' i) i nr)"
proof -
  obtain m where m: "kmalloc os (n_alloc c) (128 * sizeof_mhi_chan os) = Some m" using assms by blast
  let ?c0 = "c\<lparr>max_chan := 128, n_alloc := Suc (n_alloc c), chan_mem := m, mhi_chan := (\<lambda>_. zero_chan), lpm_chans := []\<rparr>"
  have 1: "\<forall>e \<in> set chan_cfg. chan_id e < max_chan ?c0 \<and> cfg_elements e < 2 ^ 32"
    by (simp add: chan_cfg_def cfg_def size_defs)
  have 2: "distinct (map fst (plan mbim chan_cfg 0))" unfolding plan_chan_cfg by (cases mbim) simp_all
  from parse_chans_plan [OF 1 2, where rmnet = rmnet] obtain c1 where r: "parse_chans mbim rmnet chan_cfg 0 ?c0 = Some c1"
    and p: "\<And>i. case map_of (plan mbim chan_cfg 0) i of
         None \<Rightarrow> mhi_chan c1 i = mhi_chan ?c0 i | Some nr \<Rightarrow> planned (mhi_chan c1 i) i nr" by blast
  have ch: "of_parse_ch_cfg os mbim rmnet c = (Inr (), c1)" "pm_state c1 = pm_state c"
    using r parse_chans_pm [OF r] by (simp_all add: of_parse_ch_cfg_def call_kmalloc_def m size_defs Let_def)
  obtain e where "kmalloc os (n_alloc c1) (of_nat NUM_MHI_EVT_RINGS * sizeof_mhi_event os) = Some e" using assms by blast
  then have "\<exists>c2. of_parse_ev_cfg os c1 = (Inr (), c2) \<and> mhi_chan c2 = mhi_chan c1 \<and> pm_state c2 = pm_state c1"
    by (simp add: of_parse_ev_cfg_def call_kmalloc_def Let_def)
  moreover have "planned (mhi_chan c1 i) i nr" if "map_of (plan mbim chan_cfg 0) i = Some nr" for i nr
    using p [of i] that by simp
  ultimately show ?thesis using ch by (auto simp: of_parse_dt_def)
qed

text \<open>
  C31: Every device that is made of the channels of the table is taken by exactly one of the three
  drivers of the module, except \<open>EFS\<close>, which none takes; and the bus never refuses the driver
  that takes it for a callback it lacks, although the receive ring of the network is managed by
  its client, for which a driver must have a status callback. Binding fails only when the link
  does not come up or the driver's own probe function fails, and no channel is started by the
  bus. The rest of the system must leave the tables alone while the bus waits for the link.
\<close>

theorem driver_binding:
  assumes "our_drivers D" and "of_parse_dt os mbim rmnet c0 = (Inr (), c)"
    and "dev_type d = MHI_XFER_TYPE" and "ul_chan d = Some u" and "dl_chan d = Some w"
    and "configured (mhi_chan c u)" and "configured (mhi_chan c w)"
    and "ch_name (mhi_chan c u) = dev_chan_name d" and "ch_name (mhi_chan c w) = dev_chan_name d"
    and "\<And>x. mhi_chan (envs 3 x) = mhi_chan x \<and> mhi_event (envs 3 x) = mhi_event x"
  shows "if dev_chan_name d = ''EFS'' then takers D d = []
    else \<exists>drv. takers D d = [drv]
      \<and> mhi_driver_probe os envs (client drv) d c =
          (case mhi_device_get_sync (envs 3) d c of
             (Inl e, d', c') \<Rightarrow> Some (Inl e, d', c')
           | (Inr _, d', c') \<Rightarrow> (case drv_probe (client drv) c' of (ret, c') \<Rightarrow> Some (ret, mhi_device_put d' c')))"
proof -
  have x: "dev_type d \<noteq> MHI_CONTROLLER_TYPE" using assms(3) by simp
  have t: "tabled (mhi_chan c u)" "tabled (mhi_chan c w)"
    "cl_manage (mhi_event c (ch_er_index (mhi_chan c w))) \<longleftrightarrow> ch_er_index (mhi_chan c w) = IPA_IN_EVENT_RING"
    using parsed_controller [OF assms(2)] by simp_all
  have n: "dev_chan_name d \<in> set channel_names" using t(1) assms(6,8) table_names by (force simp: tabled_def)
  have auto: "\<not> auto_start (mhi_chan c u)" "\<not> auto_start (mhi_chan c w)" using t assms(6,7) by (auto simp: tabled_def)
  show ?thesis
  proof (cases "dev_chan_name d = ''EFS''")
    case False
    then obtain drv where drv: "takers D d = [drv]" using takers_of_channel [OF assms(1) x n] by (auto split: if_splits)
    have a: "ul_acceptable (client drv) (mhi_chan c u)"
      "dl_acceptable (client drv) (mhi_chan c w) (mhi_event c (ch_er_index (mhi_chan c w)))"
      using tabled_acceptable(1) [OF assms(1) t(1) assms(6,8) x _ parsed_controller(2) [OF assms(2)]]
        tabled_acceptable(2) [OF assms(1) t(2) assms(7,9) x _ t(3)] drv by simp_all
    obtain r d' c' where g: "mhi_device_get_sync (envs 3) d c = (r, d', c')" by (cases "mhi_device_get_sync (envs 3) d c") auto
    show ?thesis
      using drv a auto g get_sync_keeps_tables [OF g assms(10)] assms(4,5) False
      by (cases r) (auto simp: mhi_driver_probe_def Let_def split: prod.splits)
  qed (use takers_of_channel [OF assms(1) x n] in simp)
qed


theorem driver_binding_witness:
  "let D = \<lparr>uci_driver = mhi_uci_driver (\<lambda>c. (Inr (), c)) id, dtr_driver = mhi_dtr_driver (\<lambda>c. (Inr (), c)) id,
        netdev_driver = mhi_netdev_driver (\<lambda>c. (Inr (), c)) id\<rparr>;
      c = snd (of_parse_dt link_up False False zero_controller);
      d = zero_device\<lparr>dev_type := MHI_XFER_TYPE, ul_chan := Some 100, dl_chan := Some 101, dev_chan_name := ''IP_HW0''\<rparr>
   in takers D d = [netdev_driver D]
      \<and> (case mhi_driver_probe link_up (\<lambda>_ x. x\<lparr>pm_state := MHI_PM_M0\<rparr>) (client (netdev_driver D)) d c of
           Some (ret, d', c') \<Rightarrow> ret = Inr () \<and> device_wake d' = 0 | None \<Rightarrow> False)"
proof -
  let ?D = "\<lparr>uci_driver = mhi_uci_driver (\<lambda>c. (Inr (), c)) id, dtr_driver = mhi_dtr_driver (\<lambda>c. (Inr (), c)) id,
        netdev_driver = mhi_netdev_driver (\<lambda>c. (Inr (), c)) id\<rparr>"
  let ?d = "zero_device\<lparr>dev_type := MHI_XFER_TYPE, ul_chan := Some 100, dl_chan := Some 101, dev_chan_name := ''IP_HW0''\<rparr>"
  let ?env = "\<lambda>(_::nat) x. x\<lparr>pm_state := MHI_PM_M0\<rparr>"
  have km: "kmalloc link_up k n \<noteq> None" for k n by (simp add: link_up_def)
  obtain c where c: "of_parse_dt link_up False False zero_controller = (Inr (), c)" "pm_state c = pm_state zero_controller"
    and pl: "\<And>i nr. map_of (plan False chan_cfg 0) i = Some nr \<Longrightarrow> planned (mhi_chan c i) i nr"
    using parse_dt_succeeds [OF km] by blast
  have c0: "pm_state c = 0" using c(2) by (simp add: zero_controller_def)
  have hw: "configured (mhi_chan c i) \<and> ch_name (mhi_chan c i) = ''IP_HW0''" if i: "i = 100 \<or> i = 101" for i
  proof -
    obtain nr where "map_of (plan False chan_cfg 0) i = Some nr" using i by (elim disjE) (simp_all add: plan_chan_cfg)
    from pl [OF this] have p: "configured (mhi_chan c i)" "chan (mhi_chan c i) = of_nat i" by (simp_all add: planned_def)
    obtain e where "e \<in> set chan_cfg" "ch_name (mhi_chan c i) = chan_name e" "(of_nat (chan_id e) :: u32) = of_nat i"
      using parsed_controller(1) [OF c(1), of i] p by (auto simp: tabled_def)
    then show ?thesis using p(1) i by (auto simp: chan_cfg_def cfg_def)
  qed
  have D: "our_drivers ?D" by (auto simp: our_drivers_def)
  have t: "takers ?D ?d = [netdev_driver ?D]"
    using takers_of_channel [OF D, of ?d] by (simp add: channel_names_def)
  have "\<exists>drv. takers ?D ?d = [drv] \<and> mhi_driver_probe link_up ?env (client drv) ?d c =
          (case mhi_device_get_sync (?env 3) ?d c of
             (Inl e, d', c') \<Rightarrow> Some (Inl e, d', c')
           | (Inr _, d', c') \<Rightarrow> (case drv_probe (client drv) c' of (ret, c') \<Rightarrow> Some (ret, mhi_device_put d' c')))"
    using driver_binding [OF D c(1), where d = ?d and u = 100 and w = 101 and envs = ?env] hw by simp
  then have "mhi_driver_probe link_up ?env (client (netdev_driver ?D)) ?d c =
          (case mhi_device_get_sync (?env 3) ?d c of
             (Inl e, d', c') \<Rightarrow> Some (Inl e, d', c')
           | (Inr _, d', c') \<Rightarrow> Some (Inr (), mhi_device_put d' c'))"
    unfolding t by (auto simp: mhi_netdev_driver_def split: prod.splits sum.splits)
  moreover have "\<exists>c'. mhi_device_get_sync (?env 3) ?d c = (Inr (), ?d\<lparr>device_wake := 1\<rparr>, c')"
    using c0 by (simp add: mhi_device_get_sync_def device_get_sync_def wait_event_timeout_def mhi_assert_dev_wake_def
        mhi_write_db_def mhi_write_reg_def emit_def Let_def MHI_PM_IN_SUSPEND_STATE_def MHI_PM_IN_ERROR_STATE_def pm_state_defs zero_device_def)
  ultimately show ?thesis
    unfolding Let_def t c(1) snd_conv by (auto simp: mhi_device_put_def)
qed

end
