(* ===== verification/Mhi_Cntrl.thy ===== *)
theory Mhi_Cntrl
  imports Mhi_Bus
begin

text \<open>
  The controllers on the bus: the lookup of a controller by its place on the PCI bus
  (\<open>mhi_bdf_to_controller\<close>), probing and removing devices with it, and the character device of
  the controllers. Both lookups are interpretations of one interface, and what they promise
  holds after every history of probing, removing and working.
\<close>

section \<open>The controllers on the bus\<close>

text \<open>
  \<open>mhi_bus\<close>: the list of the controllers, by address, with what is behind an address. A controller
  is found again by the device of its own that is on the bus; there is one for each, and the
  devices are in the order the controllers were registered in.
\<close>

record mhi_bus =
  controller_list :: "u64 list"
  cntrl :: "u64 \<Rightarrow> qti_dev \<times> mhi_controller"

definition bdf_match :: "pci_key \<Rightarrow> qti_dev \<Rightarrow> mhi_device \<Rightarrow> bool" where
  "bdf_match k q d \<longleftrightarrow> dev_type d = MHI_CONTROLLER_TYPE \<and> pci_key q = k"

definition mhi_bdf_to_controller :: "pci_key \<Rightarrow> mhi_bus \<Rightarrow> u64 option" where
  "mhi_bdf_to_controller k b =
     find (\<lambda>a. case cntrl b a of (q, c) \<Rightarrow> list_ex (\<lambda>d. bdf_match k q (devices c d)) (bus_devs c)) (controller_list b)"

text \<open>
  Probing and removing a device as \<open>controllers/mhi_qti.c\<close> does it: the controller is looked up,
  and a new one, at the address \<open>a\<close>, is on the list from its registration on.
\<close>

definition probe_on_bus ::
  "mhi_os \<Rightarrow> pci_os \<Rightarrow> (nat \<Rightarrow> mhi_controller \<Rightarrow> mhi_controller) \<Rightarrow> (nat \<Rightarrow> mhi_controller \<Rightarrow> mhi_controller) \<Rightarrow>
   (mhi_controller \<Rightarrow> mhi_controller) \<Rightarrow> bool \<Rightarrow> bool \<Rightarrow> bool \<Rightarrow> pci_key \<Rightarrow> u8 \<Rightarrow> u64 \<Rightarrow> pci_key list \<Rightarrow> mhi_bus \<Rightarrow>
   pci_ret \<times> pci_key list \<times> mhi_bus" where
  "probe_on_bus os po bind polls env debug mbim rmnet k l a minors b =
     (let known = mhi_bdf_to_controller k b
      in case mhi_pci_probe os po bind polls env debug mbim rmnet k l (map_option (cntrl b) known) minors of
           (ret, minors, None) \<Rightarrow> (ret, minors, b)
         | (ret, minors, Some x) \<Rightarrow>
             (ret, minors,
              case known of
                Some a \<Rightarrow> b\<lparr>cntrl := (cntrl b)(a := x)\<rparr>
              | None \<Rightarrow> b\<lparr>cntrl := (cntrl b)(a := x), controller_list := controller_list b @ [a]\<rparr>))"

definition remove_on_bus ::
  "mhi_os \<Rightarrow> pci_os \<Rightarrow> (mhi_controller \<Rightarrow> mhi_controller) list \<Rightarrow> (mhi_controller \<Rightarrow> mhi_controller) list \<Rightarrow>
   (nat \<Rightarrow> mhi_controller \<Rightarrow> mhi_controller option) \<Rightarrow> pci_key \<Rightarrow> mhi_bus \<Rightarrow> mhi_bus option" where
  "remove_on_bus os po es_reset es_ready unbind k b =
     (case mhi_bdf_to_controller k b of
        None \<Rightarrow> Some b
      | Some a \<Rightarrow>
          (case cntrl b a of
             (q, c) \<Rightarrow>
               map_option (\<lambda>x. b\<lparr>cntrl := (cntrl b)(a := x),
                    controller_list := (if powered_on q then remove1 a (controller_list b) else controller_list b)\<rparr>)
                 (mhi_pci_device_removed os po es_reset es_ready unbind q c)))"

section \<open>The character device of a controller\<close>

text \<open>An open file keeps the address of its controller, or nothing.\<close>

definition mhi_cntrl_open :: "nat \<Rightarrow> mhi_bus \<Rightarrow> unit res \<times> u64 option" where
  "mhi_cntrl_open minor b =
     (case find (\<lambda>a. minor = cntrl_idx (fst (cntrl b a))) (controller_list b) of
        None \<Rightarrow> (Inl ENODEV, None)
      | Some a \<Rightarrow> (Inr (), Some a))"

definition mhi_cntrl_release :: "u64 option \<Rightarrow> u64 option" where
  "mhi_cntrl_release f = None"

definition IOCTL_BHI_GETDEVINFO :: u32 where "IOCTL_BHI_GETDEVINFO = 0x8BE0 + 1"
definition IOCTL_BHI_WRITEIMAGE :: u32 where "IOCTL_BHI_WRITEIMAGE = 0x8BE0 + 2"

text \<open>What the calls of one request meet: the copies from and to user space, and the waits.\<close>

record cntrl_req =
  info_uncopied :: nat
  size_uncopied :: nat
  image_uncopied :: nat
  user_image :: "u8 list"
  waits_bhi :: "(mhi_controller \<Rightarrow> mhi_controller) list"
  waits_ready :: "(mhi_controller \<Rightarrow> mhi_controller) list"
  wait_fp :: "mhi_controller \<Rightarrow> mhi_controller"

definition mhi_cntrl_ioctl ::
  "mhi_os \<Rightarrow> cntrl_req \<Rightarrow> u64 option \<Rightarrow> u32 \<Rightarrow> mhi_bus \<Rightarrow> nat res \<times> bhi_info option \<times> mhi_bus" where
  "mhi_cntrl_ioctl os r f cmd b =
     (case find (\<lambda>a. f = Some a) (controller_list b) of
        None \<Rightarrow> (Inl ENODEV, None, b)
      | Some a \<Rightarrow>
          (case cntrl b a of
             (q, c) \<Rightarrow>
               if cmd = IOCTL_BHI_GETDEVINFO
               then (case bhi_get_dev_info (info_uncopied r) os c of (n, info) \<Rightarrow> (Inr n, Some info, b))
               else if cmd = IOCTL_BHI_WRITEIMAGE
               then (case bhi_write_image os (size_uncopied r) (image_uncopied r) (waits_bhi r) (waits_ready r) (wait_fp r)
                            (user_image r) c of
                       (ret, c) \<Rightarrow> (ret, None, b\<lparr>cntrl := (cntrl b)(a := (q, c))\<rparr>))
               else (Inl EINVAL, None, b)))"

section \<open>What bringing a controller up leaves alone\<close>

definition same_bus :: "mhi_controller \<Rightarrow> mhi_controller \<Rightarrow> bool" where
  "same_bus c c' \<longleftrightarrow> bus_devs c' = bus_devs c \<and> devices c' = devices c"

lemma same_bus_refl [simp]: "same_bus c c"
  by (simp add: same_bus_def)

lemma same_bus_trans: "same_bus a b \<Longrightarrow> same_bus b c \<Longrightarrow> same_bus a c"
  by (simp add: same_bus_def)

lemma mmio_only_bus: "mmio_only c c' \<Longrightarrow> same_bus c c'"
  unfolding mmio_only_def by (elim exE) (simp add: same_bus_def)

lemma irq_only_bus: "irq_only c c' \<Longrightarrow> same_bus c c'"
  unfolding irq_only_def by (elim exE) (simp add: same_bus_def)

lemma writes_bus: "same_bus c (mhi_write_reg b off v c)" "same_bus c (mhi_set_mhi_state os st c)"
  "same_bus c (set_event_ring_counts os c)" "same_bus c (emit e c)"
  using mmio_only_bus [OF mmio_only_writes(1)] mmio_only_bus [OF mmio_only_writes(2)]
  by (simp_all add: set_event_ring_counts_def Let_def) (simp add: same_bus_def emit_def)

lemma deinit_bus: "same_bus c (mhi_deinit_dev_ctxt c)" "same_bus c (mhi_deinit_free_irq c)" "same_bus c (free_irqs_and_ctxt c)"
proof -
  show d: "same_bus c (mhi_deinit_dev_ctxt c)" for c
    by (simp add: same_bus_def mhi_deinit_dev_ctxt_def Let_def emit_def mhi_free_coherent_def split: option.split)
  show i: "same_bus c (mhi_deinit_free_irq c)" for c by (rule irq_only_bus [OF irq_only_deinit])
  show "same_bus c (free_irqs_and_ctxt c)" using d i same_bus_trans by (simp add: free_irqs_and_ctxt_def) blast
qed

lemma init_dev_ctxt_bus: "same_bus c (snd (mhi_init_dev_ctxt os c))"
  by (simp add: same_bus_def mhi_init_dev_ctxt_def call_kmalloc_def mhi_alloc_coherent_def mhi_free_coherent_def emit_def Let_def
      init_cmd_ctxt_def init_event_ctxts_def init_chan_ctxts_def split: option.split)

lemma irq_setup_bus: "same_bus c (snd (mhi_init_irq_setup os c))"
proof (cases "msi_allocated c = 1")
  case True
  then show ?thesis using irq_only_bus [OF irq_only_step(3)] by (simp add: mhi_init_irq_setup_def same_bus_def)
next
  case False
  have l: "same_bus c (snd (request_irq os k c))" "same_bus c (snd (request_event_irqs os ks c))"
    "same_bus c (free_irq k (free_event_irqs js c))" for k ks js c
    using irq_only_bus irq_only_step irq_only_loops irq_only_trans by blast+
  obtain r c1 where 1: "request_irq os (unat (msi_irq_base c)) c = (r, c1)" by fastforce
  obtain x c2 where 2: "request_event_irqs os [0..<total_ev_rings c1] c1 = (x, c2)" by fastforce
  have k1: "same_bus c c1" using l(1) [of c "unat (msi_irq_base c)"] unfolding 1 snd_conv .
  have k2: "same_bus c c2"
    using same_bus_trans [OF k1 l(2) [of c1 "[0..<total_ev_rings c1]"]] unfolding 2 snd_conv .
  note k = k1 k2 same_bus_trans [OF k2 l(3)]
  have "mhi_init_irq_setup os c = (case r of Inl e \<Rightarrow> (Inl e, c1) | Inr _ \<Rightarrow> (case x of None \<Rightarrow> (Inr (), c2)
      | Some (e, i) \<Rightarrow> (Inl e, free_irq 0 (free_event_irqs (rev [0..<i]) c2))))"
    unfolding mhi_init_irq_setup_def if_not_P [OF False] 1 prod.case 2 by (cases x) simp_all
  then show ?thesis using k by (cases r; cases x) auto
qed

lemma set_up_bus: "same_bus c (snd (set_up_ctxt os c))" "same_bus c (snd (set_up_bhi os c))"
proof -
  show "same_bus c (snd (set_up_ctxt os c))"
    using init_dev_ctxt_bus [of c os] irq_setup_bus deinit_bus(1) same_bus_trans
    by (simp add: set_up_ctxt_def split: prod.split sum.split) (metis snd_conv)
  have "same_bus c c' \<Longrightarrow> same_bus c (free_irqs_and_ctxt c')" for c c' using deinit_bus(3) same_bus_trans by blast
  then show "same_bus c (snd (set_up_bhi os c))"
    by (simp add: set_up_bhi_def Let_def split: sum.split) (simp add: same_bus_def)
qed

text \<open>While a controller is brought up the rest of the system must leave its own device where it is.\<close>

definition own_ok :: "(mhi_controller \<Rightarrow> mhi_controller) \<Rightarrow> bool" where
  "own_ok env \<longleftrightarrow> (\<forall>c. own_devs (env c) = own_devs c)"

definition each_own :: "(nat \<Rightarrow> mhi_controller \<Rightarrow> mhi_controller) \<Rightarrow> bool" where
  "each_own bind \<longleftrightarrow> (\<forall>d. own_ok (bind d))"

lemma same_bus_own: "same_bus c c' \<Longrightarrow> own_devs c' = own_devs c"
  by (simp add: same_bus_def own_devs_def)

lemma async_power_up_own:
  assumes "own_ok env"
  shows "own_devs (snd (mhi_async_power_up os env c)) = own_devs c"
proof -
  define c1 where "c1 = (set_event_ring_counts os (if dev_state_val MHI_STATE_M0 \<le> dev_state_val (mhi_get_mhi_state os c)
      then env (mhi_set_mhi_state os MHI_STATE_RESET c) else c))\<lparr>pm_state := MHI_PM_DISABLE, dev_state := MHI_STATE_RESET\<rparr>"
  have "own_devs (x\<lparr>pm_state := p, dev_state := s\<rparr>) = own_devs x" for x p s by (simp add: own_devs_def)
  then have 1: "own_devs c1 = own_devs c"
    using assms same_bus_own [OF writes_bus(2)] same_bus_own [OF writes_bus(3)] by (simp add: c1_def own_ok_def)
  obtain r c2 where 2: "set_up_ctxt os c1 = (r, c2)" by fastforce
  obtain r' c3 where 3: "set_up_bhi os c2 = (r', c3)" by fastforce
  define c4 where "c4 = (mhi_write_reg (bhi c3) BHI_INTVEC (msi_irq_base c3) c3)\<lparr>pm_state := MHI_PM_POR, ee := MHI_EE_MAX\<rparr>"
  define c5 where "c5 = mhi_init_debugfs (if MHI_IN_PBL (mhi_get_exec_env os c4) then emit (Delayed_work Ready_worker) c4
      else snd (mhi_queue_state_transition os MHI_ST_TRANSITION_READY c4))"
  have 4: "same_bus c1 c2" "same_bus c2 c3" "same_bus c3 c4" "same_bus c4 c5"
    using set_up_bus(1) [of c1 os] set_up_bus(2) [of c2 os] writes_bus(1) [of c3 "bhi c3" BHI_INTVEC "msi_irq_base c3"]
    by (simp_all add: 2 3 c4_def c5_def same_bus_def mhi_init_debugfs_def mhi_queue_state_transition_def call_kmalloc_def emit_def split: option.split)
  have "mhi_async_power_up os env c = (case r of Inl e \<Rightarrow> (Inl e, c2) | Inr _ \<Rightarrow>
      (case r' of Inl e \<Rightarrow> (Inl e, c3) | Inr _ \<Rightarrow> (Inr (), c5)))"
    unfolding mhi_async_power_up_def Let_def c1_def [symmetric] 2 prod.case 3 c4_def [symmetric] c5_def [symmetric] ..
  moreover have "own_devs c2 = own_devs c" "own_devs c3 = own_devs c" "own_devs c5 = own_devs c"
    using 1 4 same_bus_own by metis+
  ultimately show ?thesis by (simp split: sum.split)
qed

lemma power_up_own:
  assumes "own_ok env" and "each_own polls"
  shows "own_devs (snd (mhi_power_up os polls env c)) = own_devs c"
proof -
  have l: "own_devs (snd (leave_sys_err os polls k n x)) = own_devs x" for k n x
    using assms(2) by (induction n arbitrary: k x) (simp_all add: each_own_def own_ok_def Let_def)
  have r: "own_devs (mhi_set_mhi_state os st x) = own_devs x" for st x by (rule same_bus_own [OF writes_bus(2)])
  obtain ok c1 where 1: "leave_sys_err os polls 0 (reset_polls c) (mhi_set_mhi_state os MHI_STATE_RESET c) = (ok, c1)" by fastforce
  have "own_devs c1 = own_devs c" using l [of 0 "reset_polls c" "mhi_set_mhi_state os MHI_STATE_RESET c"] r 1 by simp
  then show ?thesis using async_power_up_own [OF assms(1)] by (simp add: mhi_power_up_def 1)
qed


section \<open>Registration and probing\<close>

text \<open>A controller whose registration gets as far as the bus.\<close>

lemma add_own_device:
  assumes "mhi_alloc_device os c = (Some d, c1)" and "each_own bind"
  shows "own_devs (bind d (emit e ((upd_device d (\<lambda>dev. dev\<lparr>dev_type := MHI_CONTROLLER_TYPE\<rparr>) c1)
    \<lparr>bus_devs := ds @ [d]\<rparr>))) \<noteq> []"
proof -
  have "own_devs (bind d x) = own_devs x" for x using assms(2) by (simp add: each_own_def own_ok_def)
  then show ?thesis by (simp add: own_devs_def emit_def upd_device_def)
qed

lemma of_register_outcome:
  assumes "of_register_mhi_controller os po bind mbim rmnet minors q c = (r, minors', q', c')" and "each_own bind"
  shows "minors' = snd (claim_minor 0 (pci_key q) minors)"
    and "r = Inr () \<Longrightarrow> own_devs c' \<noteq> [] \<and> pci_key q' = pci_key q \<and> fst (claim_minor 0 (pci_key q) minors) = Some (cntrl_idx q')"
proof -
  obtain m t where cl: "claim_minor 0 (pci_key q) minors = (m, t)" by fastforce
  obtain r1 c1 where dt: "of_parse_dt os mbim rmnet c = (r1, c1)" by fastforce
  obtain k c2 where km: "call_kmalloc os (sizeof_mhi_cmd po) c1 = (k, c2)" by fastforce
  obtain d c3 where al: "mhi_alloc_device os (c2\<lparr>transition_list := []\<rparr>) = (d, c3)" by fastforce
  show "minors' = snd (claim_minor 0 (pci_key q) minors)"
    using assms(1) unfolding of_register_mhi_controller_def cl Let_def
    by (cases m; cases r1; cases k; cases d) (simp_all add: dt km al split: option.splits)
  show "own_devs c' \<noteq> [] \<and> pci_key q' = pci_key q \<and> fst (claim_minor 0 (pci_key q) minors) = Some (cntrl_idx q')"
    if "r = Inr ()"
    using assms(1) that add_own_device [OF _ assms(2)] al unfolding of_register_mhi_controller_def cl Let_def
    by (cases m; cases r1; cases k; cases d) (auto simp: dt km see_def split: option.splits)
qed

lemma register_outcome:
  assumes "mhi_register_controller os po bind mbim rmnet minors q = (r, minors', q', c')" and "each_own bind"
  shows "minors' = minors \<or> minors' = snd (claim_minor 0 (pci_key q) minors)"
    and "r = Inr () \<Longrightarrow> own_devs c' \<noteq> [] \<and> pci_key q' = pci_key q
      \<and> claim_minor 0 (pci_key q) minors = (Some (cntrl_idx q'), minors')"
proof -
  obtain r1 m1 q1 c1 where o1: "of_register_mhi_controller os po bind mbim rmnet minors q
      (zero_controller\<lparr>iova_start := 0, iova_stop := 0x2000000000\<rparr>) = (r1, m1, q1, c1)" by (metis prod_cases4)
  note out = of_register_outcome [OF o1 assms(2)]
  show "minors' = minors \<or> minors' = snd (claim_minor 0 (pci_key q) minors)"
    using assms(1) out(1) by (cases r1) (auto simp: mhi_register_controller_def Let_def o1 split: if_splits)
  show "own_devs c' \<noteq> [] \<and> pci_key q' = pci_key q \<and> claim_minor 0 (pci_key q) minors = (Some (cntrl_idx q'), minors')"
    if "r = Inr ()"
    using assms(1) out that by (cases r1) (auto simp: mhi_register_controller_def Let_def o1 prod_eq_iff split: if_splits)
qed

text \<open>The key, the number and the device of its own.\<close>

definition identity :: "qti_dev \<times> mhi_controller \<Rightarrow> pci_key \<times> nat \<times> nat list" where
  "identity x = (pci_key (fst x), cntrl_idx (fst x), own_devs (snd x))"

lemma see_identity [simp]: "identity (see es q, c) = identity (q, c)"
  by (simp add: identity_def see_def)

definition kept :: "qti_dev \<Rightarrow> qti_dev \<Rightarrow> bool" where
  "kept q q' \<longleftrightarrow> pci_key q' = pci_key q \<and> cntrl_idx q' = cntrl_idx q"

lemma kept_identity: "kept q q' \<Longrightarrow> same_bus c c' \<Longrightarrow> identity (q', c') = identity (q, c)"
  using same_bus_own by (simp add: identity_def kept_def)

lemma kept_see [simp]: "kept (see es q) q' = kept q q'" "kept (q\<lparr>resn := n\<rparr>) q' = kept q q'" "kept (q\<lparr>powered_on := p\<rparr>) q' = kept q q'"
    "kept q (q'\<lparr>irq_vec := v\<rparr>) = kept q q'" "kept q (see es q') = kept q q'" "kept q q" "kept q (q'\<lparr>resn := n\<rparr>) = kept q q'"
  by (simp_all add: kept_def see_def)

lemma kept_undone [simp]:
  "kept p (error_enable_device q) = kept p q" "kept p (error_request_region q) = kept p q" "kept p (error_ioremap q) = kept p q"
  "kept p (error_req_msi a q) = kept p q" "kept p (error_alloc_msi_vec a q) = kept p q" "kept p (error_get_irq_vec a q) = kept p q"
  by (simp_all add: kept_def see_def error_enable_device_def error_request_region_def error_ioremap_def
      error_req_msi_def error_alloc_msi_vec_def error_get_irq_vec_def)

lemma take_vectors_kept: "take_vectors po a q c = (r, q', c') \<Longrightarrow> kept q q' \<and> same_bus c c'"
  by (auto simp: take_vectors_def Let_def same_bus_def split: sum.splits if_splits)

lemma pci_dev_identity:
  "mhi_init_pci_dev po q c = (r, q', c') \<Longrightarrow> identity (q', c') = identity (q, c)"
  "mhi_deinit_pci_dev q c = (q', c') \<Longrightarrow> identity (q', c') = identity (q, c)"
proof -
  assume 1: "mhi_init_pci_dev po q c = (r, q', c')"
  have "kept q q' \<and> same_bus c c'"
  proof (cases "assign_ret po = None \<and> enable_ret po = None \<and> region_ret po = None \<and> ioremap_ret po \<noteq> None")
    case True
    then obtain a where "take_vectors po a (see [Ioremap a] (see [Request_region, Set_master] (see [Enable_device]
        (see [Assign_resource] (q\<lparr>resn := MHI_PCI_BAR_NUM\<rparr>))))) (c\<lparr>regs := a\<rparr>) = (r, q', c')"
      using 1 by (auto simp: mhi_init_pci_dev_def Let_def)
    from take_vectors_kept [OF this] show ?thesis by (simp add: same_bus_def)
  next
    case False
    then show ?thesis using 1 by (auto simp: mhi_init_pci_dev_def Let_def same_bus_def split: option.splits)
  qed
  then show "identity (q', c') = identity (q, c)" by (simp add: kept_identity)
next
  show "mhi_deinit_pci_dev q c = (q', c') \<Longrightarrow> identity (q', c') = identity (q, c)"
    by (auto simp: mhi_deinit_pci_dev_def same_bus_def intro!: kept_identity)
qed

lemma identity_powered [simp]: "identity (q\<lparr>powered_on := p\<rparr>, c) = identity (q, c)"
  by (simp add: identity_def)

text \<open>What happens to a controller that is there, known or new: all its identity is kept.\<close>

lemma power_on_identity:
  assumes "own_ok env" and "each_own polls"
  shows "case (case mhi_init_pci_dev po (q\<lparr>powered_on := True\<rparr>) c of
               (ret, q, c) \<Rightarrow>
                 if ret \<noteq> Ret_ok then (ret, minors, Some (q, c))
                 else case (if debug then (Inr (), c) else mhi_power_up os polls env c) of
                     (Inl e, c) \<Rightarrow> (Ret_err e, minors, Some (mhi_deinit_pci_dev q c))
                   | (Inr _, c) \<Rightarrow> (Ret_ok, minors, Some (see [Rpm_mark_busy] q, c))) of
    (ret, minors', res) \<Rightarrow> minors' = minors \<and> (\<exists>y. res = Some y \<and> identity y = identity (q, c))"
proof -
  obtain r q1 c1 where 1: "mhi_init_pci_dev po (q\<lparr>powered_on := True\<rparr>) c = (r, q1, c1)" by (metis prod_cases3)
  from pci_dev_identity(1) [OF this] have i1: "identity (q1, c1) = identity (q, c)" by simp
  obtain x c2 where 2: "(if debug then (Inr (), c1) else mhi_power_up os polls env c1) = (x, c2)" by fastforce
  have "own_devs c2 = own_devs c1" using power_up_own [OF assms, where os = os and c = c1] 2 by (auto split: if_splits)
  then have i2: "identity (q1, c2) = identity (q, c)" using i1 by (simp add: identity_def)
  obtain q3 c3 where 3: "mhi_deinit_pci_dev q1 c2 = (q3, c3)" by fastforce
  have i3: "identity (q3, c3) = identity (q, c)" using pci_dev_identity(2) [OF 3] i2 by simp
  show ?thesis unfolding 1 prod.case 2 3 using i1 i2 i3 by (cases x) auto
qed

lemma probe_outcome:
  assumes "mhi_pci_probe os po bind polls env debug mbim rmnet k l known minors = (ret, minors', res)"
    and "each_own bind" and "own_ok env" and "each_own polls"
  shows "case known of
      Some x \<Rightarrow> minors' = minors \<and> (\<exists>y. res = Some y \<and> identity y = identity x)
    | None \<Rightarrow> (case res of
          None \<Rightarrow> minors' = minors \<or> minors' = snd (claim_minor 0 k minors)
        | Some (q, c) \<Rightarrow> pci_key q = k \<and> own_devs c \<noteq> [] \<and> claim_minor 0 k minors = (Some (cntrl_idx q), minors'))"
proof (cases "mhi_pci_is_alive po")
  case False
  then show ?thesis using assms(1) by (auto simp: mhi_pci_probe_def split: option.split)
next
  case True
  show ?thesis
  proof (cases known)
    case (Some x)
    obtain q c where x: "x = (q, c)" by fastforce
    show ?thesis using assms(1) True power_on_identity [OF assms(3,4), where po = po and q = q and c = c and minors = minors and debug = debug and os = os]
      by (simp add: mhi_pci_probe_def Some x)
  next
    case None
    obtain r m1 q c where g: "mhi_register_controller os po bind mbim rmnet minors (new_qti_dev k l) = (r, m1, q, c)"
      by (metis prod_cases4)
    have k: "pci_key (new_qti_dev k l) = k" by (simp add: new_qti_dev_def)
    note out = register_outcome [OF g assms(2), unfolded k]
    show ?thesis
    proof (cases r)
      case (Inl e)
      then show ?thesis using assms(1) True out(1) by (auto simp: mhi_pci_probe_def None g)
    next
      case (Inr u)
      then have "minors' = m1 \<and> (\<exists>y. res = Some y \<and> identity y = identity (q, c))"
        using assms(1) True power_on_identity [OF assms(3,4), where po = po and q = q and c = c and minors = m1 and debug = debug and os = os] by (simp add: mhi_pci_probe_def None g)
      then show ?thesis using out(2) Inr None by (auto simp: identity_def)
    qed
  qed
qed

lemma removed_identity:
  "mhi_pci_device_removed os po es er unbind q c = Some y \<Longrightarrow> \<not> powered_on q \<Longrightarrow> identity y = identity (q, c)"
  by (auto simp: mhi_pci_device_removed_def Let_def see_def identity_def)

section \<open>Finding a controller\<close>

text \<open>
  What a lookup by a key promises: it finds members by their key, and no two members share one.
\<close>

locale registry =
  fixes key :: "'s \<Rightarrow> 'a \<Rightarrow> 'k" and members :: "'s \<Rightarrow> 'a list" and lookup :: "'k \<Rightarrow> 's \<Rightarrow> 'a option" and wf :: "'s \<Rightarrow> bool"
  assumes lookup_sound: "wf s \<Longrightarrow> lookup k s = Some a \<Longrightarrow> a \<in> set (members s) \<and> key s a = k"
    and lookup_total: "wf s \<Longrightarrow> a \<in> set (members s) \<Longrightarrow> lookup (key s a) s \<noteq> None"
    and keys_distinct: "wf s \<Longrightarrow> inj_on (key s) (set (members s))"
begin

lemma lookup_member: "wf s \<Longrightarrow> a \<in> set (members s) \<Longrightarrow> lookup (key s a) s = Some a"
  using lookup_sound lookup_total keys_distinct by (metis inj_onD not_None_eq)

lemma lookup_None: "wf s \<Longrightarrow> lookup k s = None \<longleftrightarrow> k \<notin> key s ` set (members s)"
  using lookup_sound lookup_total by (metis (no_types, lifting) image_iff not_None_eq)

lemma lookup_iff: "wf s \<Longrightarrow> lookup k s = Some a \<longleftrightarrow> a \<in> set (members s) \<and> key s a = k"
  using lookup_sound lookup_member by metis

end

definition key_at :: "mhi_bus \<Rightarrow> u64 \<Rightarrow> pci_key" where "key_at b a = pci_key (fst (cntrl b a))"
definition minor_at :: "mhi_bus \<Rightarrow> u64 \<Rightarrow> nat" where "minor_at b a = cntrl_idx (fst (cntrl b a))"

text \<open>The controllers on the list are different devices, each with a row of the table and its device on the bus.\<close>

definition bus_ok :: "pci_key list \<Rightarrow> mhi_bus \<Rightarrow> bool" where
  "bus_ok u b \<longleftrightarrow> rows_ok u \<and> distinct (controller_list b) \<and> inj_on (key_at b) (set (controller_list b))
     \<and> (\<forall>a \<in> set (controller_list b). own_devs (snd (cntrl b a)) \<noteq> [] \<and> minor_at b a < length u \<and> u ! minor_at b a = key_at b a)"

lemma bdf_sound_or_none:
  "mhi_bdf_to_controller k b = find (\<lambda>a. key_at b a = k \<and> own_devs (snd (cntrl b a)) \<noteq> []) (controller_list b)"
  unfolding mhi_bdf_to_controller_def
  by (rule arg_cong [where f = "\<lambda>P. find P _"])
     (auto simp: fun_eq_iff bdf_match_def key_at_def own_devs_def list_ex_iff filter_empty_conv split_beta)

lemma find_SomeD: "find P xs = Some a \<Longrightarrow> a \<in> set xs \<and> P a"
  by (induction xs) (auto split: if_splits)

interpretation by_bdf: registry key_at controller_list mhi_bdf_to_controller "\<lambda>b. \<exists>u. bus_ok u b"
proof unfold_locales
  fix s k a
  assume "\<exists>u. bus_ok u s"
  then show "mhi_bdf_to_controller k s = Some a \<Longrightarrow> a \<in> set (controller_list s) \<and> key_at s a = k"
    unfolding bdf_sound_or_none using find_SomeD by fast
  show "inj_on (key_at s) (set (controller_list s))" using \<open>\<exists>u. bus_ok u s\<close> by (auto simp: bus_ok_def)
  show "a \<in> set (controller_list s) \<Longrightarrow> mhi_bdf_to_controller (key_at s a) s \<noteq> None"
    using \<open>\<exists>u. bus_ok u s\<close> unfolding bdf_sound_or_none find_None_iff by (auto simp: bus_ok_def)
qed

interpretation by_minor: registry minor_at controller_list "\<lambda>n b. snd (mhi_cntrl_open n b)" "\<lambda>b. \<exists>u. bus_ok u b"
proof unfold_locales
  fix s k a
  assume w: "\<exists>u. bus_ok u s"
  have open_find: "snd (mhi_cntrl_open n s) = find (\<lambda>a. n = minor_at s a) (controller_list s)" for n
    by (simp add: mhi_cntrl_open_def minor_at_def split: option.split)
  show "snd (mhi_cntrl_open k s) = Some a \<Longrightarrow> a \<in> set (controller_list s) \<and> minor_at s a = k"
    unfolding open_find using find_SomeD by fast
  show "a \<in> set (controller_list s) \<Longrightarrow> snd (mhi_cntrl_open (minor_at s a) s) \<noteq> None"
    unfolding open_find find_None_iff by auto
  show "inj_on (minor_at s) (set (controller_list s))"
  proof (rule inj_onI)
    fix x y
    assume xy: "x \<in> set (controller_list s)" "y \<in> set (controller_list s)" "minor_at s x = minor_at s y"
    obtain u where u: "bus_ok u s" using w by blast
    then have "key_at s x = key_at s y" using xy unfolding bus_ok_def by metis
    then show "x = y" using u xy(1,2) unfolding bus_ok_def inj_on_def by blast
  qed
qed


section \<open>Every history of the bus\<close>

text \<open>
  What can happen: devices are probed and removed, and the drivers work with a registered
  controller in any way that leaves its identity alone. The memory of a new controller is not in
  use, and a device that is there has an identity of its own.
\<close>

inductive bus_step :: "pci_key list \<times> mhi_bus \<Rightarrow> pci_key list \<times> mhi_bus \<Rightarrow> bool" where
  probed: "probe_on_bus os po bind polls env debug mbim rmnet k l a t b = (ret, t', b') \<Longrightarrow>
     each_own bind \<Longrightarrow> each_own polls \<Longrightarrow> own_ok env \<Longrightarrow> k \<noteq> no_key \<Longrightarrow> a \<notin> set (controller_list b) \<Longrightarrow> bus_step (t, b) (t', b')"
| removed: "remove_on_bus os po es_reset es_ready unbind k b = Some b' \<Longrightarrow> bus_step (t, b) (t, b')"
| worked: "identity x = identity (cntrl b a) \<Longrightarrow> bus_step (t, b) (t, b\<lparr>cntrl := (cntrl b)(a := x)\<rparr>)"

inductive bus_run :: "pci_key list \<times> mhi_bus \<Rightarrow> bool" where
  booted: "controller_list b = [] \<Longrightarrow> bus_run (replicate MAX_MHI_CONTROLLER no_key, b)"
| stepped: "bus_run s \<Longrightarrow> bus_step s s' \<Longrightarrow> bus_run s'"

lemma bus_ok_same:
  assumes "bus_ok u b" and "identity x = identity (cntrl b a)"
  shows "bus_ok u (b\<lparr>cntrl := (cntrl b)(a := x)\<rparr>)"
proof -
  have "key_at (b\<lparr>cntrl := (cntrl b)(a := x)\<rparr>) = key_at b" "minor_at (b\<lparr>cntrl := (cntrl b)(a := x)\<rparr>) = minor_at b"
    "own_devs (snd (((cntrl b)(a := x)) i)) = own_devs (snd (cntrl b i))" for i
    using assms(2) by (auto simp: fun_eq_iff key_at_def minor_at_def identity_def)
  then show ?thesis using assms(1) by (simp add: bus_ok_def)
qed

lemma bus_ok_grow: "bus_ok u b \<Longrightarrow> rows_ok (u @ v) \<Longrightarrow> bus_ok (u @ v) b"
  by (simp add: bus_ok_def nth_append trans_less_add1)

lemma bus_ok_add:
  assumes "bus_ok u b" and "a \<notin> set (controller_list b)" and "pci_key q \<notin> key_at b ` set (controller_list b)"
    and "own_devs c \<noteq> []" and "cntrl_idx q < length u" and "u ! cntrl_idx q = pci_key q"
  shows "bus_ok u (b\<lparr>cntrl := (cntrl b)(a := (q, c)), controller_list := controller_list b @ [a]\<rparr>)"
proof -
  let ?b = "b\<lparr>cntrl := (cntrl b)(a := (q, c)), controller_list := controller_list b @ [a]\<rparr>"
  have at: "key_at ?b i = (if i = a then pci_key q else key_at b i)" "minor_at ?b i = (if i = a then cntrl_idx q else minor_at b i)" for i
    by (simp_all add: key_at_def minor_at_def)
  have "inj_on (key_at ?b) (set (controller_list ?b))"
    using assms(1-3) unfolding bus_ok_def inj_on_def at by (auto simp: image_iff)
  then show ?thesis using assms unfolding bus_ok_def at by auto
qed

lemma bus_ok_drop:
  assumes "bus_ok u b"
  shows "bus_ok u (b\<lparr>cntrl := (cntrl b)(a := x), controller_list := remove1 a (controller_list b)\<rparr>)"
proof -
  let ?b = "b\<lparr>cntrl := (cntrl b)(a := x), controller_list := remove1 a (controller_list b)\<rparr>"
  have "distinct (controller_list b)" using assms by (simp add: bus_ok_def)
  then have s: "set (controller_list ?b) = set (controller_list b) - {a}" by simp
  have "key_at ?b i = key_at b i" "minor_at ?b i = minor_at b i" if "i \<noteq> a" for i
    using that by (simp_all add: key_at_def minor_at_def)
  then show ?thesis using assms unfolding bus_ok_def s
    by (auto simp: distinct_remove1 inj_on_def)
qed

lemma probe_keeps_ok:
  assumes "probe_on_bus os po bind polls env debug mbim rmnet k l a (rows u) b = (ret, t', b')"
    and "each_own bind" and "each_own polls" and "own_ok env" and "k \<noteq> no_key" and "a \<notin> set (controller_list b)"
    and "bus_ok u b"
  shows "\<exists>v. t' = rows v \<and> bus_ok v b'"
proof -
  obtain m v where cl: "claim_minor 0 k (rows u) = (m, rows (u @ v))" "rows_ok (u @ v)" "served (u @ v) k m"
    using claim_row [of u k] assms(5,7) by (auto simp: bus_ok_def)
  have grown: "bus_ok (u @ v) b" by (rule bus_ok_grow [OF assms(7) cl(2)])
  obtain res where p: "mhi_pci_probe os po bind polls env debug mbim rmnet k l
      (map_option (cntrl b) (mhi_bdf_to_controller k b)) (rows u) = (ret, t', res)"
    using assms(1) by (auto simp: probe_on_bus_def Let_def split: prod.splits option.splits)
  note out = probe_outcome [OF p assms(2,4,3)]
  show ?thesis
  proof (cases "mhi_bdf_to_controller k b")
    case (Some a')
    then obtain y where y: "t' = rows u" "res = Some y" "identity y = identity (cntrl b a')" using out by auto
    have "b' = b\<lparr>cntrl := (cntrl b)(a' := y)\<rparr>" using assms(1) p Some y(2) by (simp add: probe_on_bus_def)
    then show ?thesis using y(1) bus_ok_same [OF assms(7) y(3)] by blast
  next
    case None
    then have new: "k \<notin> key_at b ` set (controller_list b)" using by_bdf.lookup_None assms(7) by blast
    show ?thesis
    proof (cases res)
      case None': None
      then have "b' = b" using assms(1) p None by (auto simp: probe_on_bus_def)
      then show ?thesis using out None None' grown assms(7) cl(1) by auto
    next
      case (Some y)
      obtain q c where y: "y = (q, c)" by fastforce
      have q: "pci_key q = k" "own_devs c \<noteq> []" "t' = rows (u @ v)" "m = Some (cntrl_idx q)"
        using out None Some cl(1) by (simp_all add: y)
      have b': "b' = b\<lparr>cntrl := (cntrl b)(a := (q, c)), controller_list := controller_list b @ [a]\<rparr>"
        using assms(1) p None Some by (simp add: probe_on_bus_def y)
      have "bus_ok (u @ v) b'" unfolding b'
        using bus_ok_add [OF grown assms(6), of q c] new q cl(3) by (simp add: served_def)
      then show ?thesis using q(3) by blast
    qed
  qed
qed

lemma remove_keeps_ok:
  assumes "remove_on_bus os po es_reset es_ready unbind k b = Some b'" and "bus_ok u b"
  shows "bus_ok u b'"
proof (cases "mhi_bdf_to_controller k b")
  case None
  then show ?thesis using assms by (simp add: remove_on_bus_def)
next
  case (Some a)
  obtain q c where c: "cntrl b a = (q, c)" by fastforce
  obtain y where y: "mhi_pci_device_removed os po es_reset es_ready unbind q c = Some y"
    "b' = b\<lparr>cntrl := (cntrl b)(a := y), controller_list := (if powered_on q then remove1 a (controller_list b) else controller_list b)\<rparr>"
    using assms(1) by (auto simp: remove_on_bus_def Some c)
  show ?thesis
  proof (cases "powered_on q")
    case True
    then show ?thesis using bus_ok_drop [OF assms(2), of a y] y(2) by simp
  next
    case False
    then show ?thesis using bus_ok_same [OF assms(2), of y a] removed_identity [OF y(1)] y(2) c by simp
  qed
qed

lemma bus_run_ok: "bus_run s \<Longrightarrow> \<exists>u. fst s = rows u \<and> bus_ok u (snd s)"
proof (induction rule: bus_run.induct)
  case (booted b)
  then show ?case by (intro exI [of _ "[]"]) (simp add: rows_def bus_ok_def rows_ok_def)
next
  case (stepped s s')
  then obtain u where u: "fst s = rows u" "bus_ok u (snd s)" by blast
  show ?case using stepped.hyps(2)
  proof (cases rule: bus_step.cases)
    case (probed os po bind polls env debug mbim rmnet k l a t b ret t' b')
    then show ?thesis using probe_keeps_ok [of os po bind polls env debug mbim rmnet k l a u b] u by auto
  next
    case (removed os po es_reset es_ready unbind k b b' t)
    then show ?thesis using remove_keeps_ok [OF removed(3)] u by auto
  next
    case (worked x b a t)
    then show ?thesis using bus_ok_same [OF _ worked(3)] u by auto
  qed
qed

text \<open>
  C33: Whatever devices are probed and removed, known or new, whether setting them up succeeds, and
  whatever the drivers do in between: the registered controllers are found by their place on the
  PCI bus and by the number of their character device, each by its own, nothing else is found,
  and the number is the row of the table that holds the place. The rest of the system must leave
  a controller's own device on the bus. A file that was opened on a controller which is gone is
  refused, and nothing is touched.
\<close>

theorem bus_lookup:
  assumes "bus_run (t, b)"
  shows "(mhi_bdf_to_controller k b = Some a \<longleftrightarrow> a \<in> set (controller_list b) \<and> key_at b a = k)
    \<and> (snd (mhi_cntrl_open n b) = Some a \<longleftrightarrow> a \<in> set (controller_list b) \<and> minor_at b a = n)
    \<and> (fst (mhi_cntrl_open n b) = Inr () \<longleftrightarrow> n \<in> minor_at b ` set (controller_list b))
    \<and> (a \<in> set (controller_list b) \<longrightarrow> minor_at b a < MAX_MHI_CONTROLLER \<and> t ! minor_at b a = key_at b a)
    \<and> (a \<notin> set (controller_list b) \<longrightarrow> mhi_cntrl_ioctl os r (Some a) cmd b = (Inl ENODEV, None, b))"
proof -
  obtain u where u: "t = rows u" "bus_ok u b" using bus_run_ok [OF assms] by auto
  then have w: "\<exists>u. bus_ok u b" by blast
  have "fst (mhi_cntrl_open n b) = Inr () \<longleftrightarrow> snd (mhi_cntrl_open n b) \<noteq> None"
    by (simp add: mhi_cntrl_open_def split: option.split)
  then have open_ok: "fst (mhi_cntrl_open n b) = Inr () \<longleftrightarrow> n \<in> minor_at b ` set (controller_list b)"
    using by_minor.lookup_None [OF w, of n] by simp
  have "minor_at b a < MAX_MHI_CONTROLLER \<and> t ! minor_at b a = key_at b a" if "a \<in> set (controller_list b)"
    using u that by (auto simp: bus_ok_def rows_ok_def rows_def nth_append)
  moreover have "mhi_cntrl_ioctl os r (Some a) cmd b = (Inl ENODEV, None, b)" if "a \<notin> set (controller_list b)"
  proof -
    have "find (\<lambda>x. Some a = Some x) (controller_list b) = None" using that by (auto simp: find_None_iff)
    then show ?thesis by (simp add: mhi_cntrl_ioctl_def)
  qed
  ultimately show ?thesis using by_bdf.lookup_iff [OF w] by_minor.lookup_iff [OF w] open_ok by blast
qed


definition empty_bus :: mhi_bus where
  "empty_bus = \<lparr>controller_list = [], cntrl = (\<lambda>_. (new_qti_dev no_key 0, zero_controller))\<rparr>"

theorem bus_lookup_witness:
  "case probe_on_bus link_up no_map_pci (\<lambda>d c. c) (\<lambda>n c. c) (\<lambda>c. c) True False False (0x306, 0, 1, 0) 2 0x1000
      (replicate MAX_MHI_CONTROLLER no_key) empty_bus of
    (ret, t, b) \<Rightarrow> ret = Ret_ok \<and> mhi_bdf_to_controller (0x306, 0, 1, 0) b = Some 0x1000 \<and> snd (mhi_cntrl_open 0 b) = Some 0x1000"
proof -
  let ?t = "replicate MAX_MHI_CONTROLLER no_key" and ?k = "(0x306, 0, 1, 0) :: pci_key"
  obtain ret t b where p: "probe_on_bus link_up no_map_pci (\<lambda>d c. c) (\<lambda>n c. c) (\<lambda>c. c) True False False ?k 2 0x1000 ?t empty_bus
      = (ret, t, b)" by (metis prod_cases3)
  have run: "bus_run (t, b)"
  proof (rule stepped [OF booted probed [OF p]])
    show "each_own (\<lambda>d c. c)" "each_own (\<lambda>n c. c)" "own_ok (\<lambda>c. c)" by (simp_all add: each_own_def own_ok_def)
  qed (simp_all add: empty_bus_def no_key_def)
  have "ret = Ret_ok \<and> controller_list b = [0x1000] \<and> key_at b 0x1000 = ?k \<and> minor_at b 0x1000 = 0"
  proof -
    have km: "kmalloc link_up k n = Some (0x10000 * of_nat (Suc k))" for k n by (simp add: link_up_def)
    obtain c1 where dt: "of_parse_dt link_up False False (zero_controller\<lparr>iova_start := 0, iova_stop := 0x2000000000\<rparr>) = (Inr (), c1)"
      using parse_dt_succeeds [of link_up] km by blast
    have cl: "claim_minor 0 ?k ?t = (Some 0, ?k # replicate 15 no_key)"
      by (simp add: MAX_MHI_CONTROLLER_def no_key_def numeral_eq_Suc)
    have dev: "device_add_ret link_up d = None" for d by (simp add: link_up_def)
    obtain q c2 where reg: "mhi_register_controller link_up no_map_pci (\<lambda>d c. c) False False ?t (new_qti_dev ?k 2)
        = (Inr (), ?k # replicate 15 no_key, q, c2)" and q: "pci_key q = ?k" "cntrl_idx q = 0"
      using cl by (simp add: mhi_register_controller_def of_register_mhi_controller_def new_qti_dev_def no_map_pci_def dt
          call_kmalloc_def km mhi_alloc_device_def dev Let_def see_def)
    have alive: "mhi_pci_is_alive no_map_pci" by (simp add: mhi_pci_is_alive_def no_map_pci_def)
    obtain q3 c3 where ini: "mhi_init_pci_dev no_map_pci (q\<lparr>powered_on := True\<rparr>) c2 = (Ret_ok, q3, c3)"
      by (simp add: mhi_init_pci_dev_def Let_def no_map_pci_def dma_ret_def ret_of_def)
    have "identity (q3, c3) = identity (q, c2)" using pci_dev_identity(1) [OF ini] by simp
    then have q3: "pci_key q3 = ?k" "cntrl_idx q3 = 0" using q by (simp_all add: identity_def)
    have "mhi_bdf_to_controller ?k empty_bus = None" by (simp add: mhi_bdf_to_controller_def empty_bus_def)
    then show ?thesis using p q3
      by (simp add: probe_on_bus_def mhi_pci_probe_def alive reg ini) (auto simp: empty_bus_def key_at_def minor_at_def see_def)
  qed
  then show ?thesis unfolding p prod.case using bus_lookup [OF run, of ?k "0x1000" 0] by simp
qed

end
