(* ===== verification/Mhi_Qmap.thy ===== *)
theory Mhi_Qmap
  imports Mhi_Prelude
begin

text \<open>
  The framing of the network device, \<open>devices/mhi_netdev_quectel.c\<close>: QMAP headers of both
  versions and MBIM blocks put in front of packets on their way to the modem, and the handlers
  that take aggregated frames from the modem apart and hand the packets to the virtual devices.
  A socket buffer is its bytes with the room before and behind them, whose old contents a push
  or a put uncovers. The configuration is the one of the Makefile: one virtual device per
  multiplexer id, bridge mode compiled in, the NSS packet filter not. All numbers are little
  endian on the host, and bit fields start at the least significant bit.
\<close>

section \<open>Bytes\<close>

definition be16 :: "u8 \<Rightarrow> u8 \<Rightarrow> u16" where
  "be16 hi lo = push_bit 8 (ucast hi) OR ucast lo"

definition le16 :: "u8 \<Rightarrow> u8 \<Rightarrow> u16" where
  "le16 lo hi = be16 hi lo"

definition be16_bytes :: "u16 \<Rightarrow> u8 list" where
  "be16_bytes w = [ucast (drop_bit 8 w), ucast w]"

definition le16_bytes :: "u16 \<Rightarrow> u8 list" where
  "le16_bytes w = [ucast w, ucast (drop_bit 8 w)]"

section \<open>Socket buffers\<close>

record skb =
  skb_head :: "u8 list"
  skb_data :: "u8 list"
  skb_tail :: "u8 list"
  skb_protocol :: u16

abbreviation skb_len :: "skb \<Rightarrow> nat" where
  "skb_len s \<equiv> length (skb_data s)"

text \<open>\<open>skb_push\<close> panics when there is no room; \<open>skb_pull\<close> of too much does nothing.\<close>

definition skb_push :: "nat \<Rightarrow> skb \<Rightarrow> skb option" where
  "skb_push n s =
     (let h = skb_head s; k = length h - n
      in if length h < n then None
         else Some (s\<lparr>skb_head := take k h, skb_data := drop k h @ skb_data s\<rparr>))"

definition skb_put :: "nat \<Rightarrow> skb \<Rightarrow> skb" where
  "skb_put n s = s\<lparr>skb_data := skb_data s @ take n (skb_tail s), skb_tail := drop n (skb_tail s)\<rparr>"

definition skb_pull :: "nat \<Rightarrow> skb \<Rightarrow> skb" where
  "skb_pull n s =
     (if skb_len s < n then s
      else s\<lparr>skb_head := skb_head s @ take n (skb_data s), skb_data := drop n (skb_data s)\<rparr>)"

definition put_bytes :: "nat \<Rightarrow> u8 list \<Rightarrow> skb \<Rightarrow> skb" where
  "put_bytes i bs s = s\<lparr>skb_data := take i (skb_data s) @ bs @ drop (i + length bs) (skb_data s)\<rparr>"

text \<open>The byte at a position, which behind the data is what the buffer holds there.\<close>

definition skb_at :: "skb \<Rightarrow> nat \<Rightarrow> u8" where
  "skb_at s i = (let bs = skb_data s @ skb_tail s in if i < length bs then bs ! i else 0)"

definition skb_be16 :: "skb \<Rightarrow> nat \<Rightarrow> u16" where
  "skb_be16 s i = be16 (skb_at s i) (skb_at s (Suc i))"

definition skb_le16 :: "skb \<Rightarrow> nat \<Rightarrow> u16" where
  "skb_le16 s i = le16 (skb_at s i) (skb_at s (Suc i))"

definition skb_bytes :: "nat \<Rightarrow> nat \<Rightarrow> skb \<Rightarrow> u8 list" where
  "skb_bytes i n s = map (skb_at s) [i..<i + n]"

section \<open>Devices\<close>

definition QUECTEL_QMAP_MUX_ID :: u8 where "QUECTEL_QMAP_MUX_ID = 0x81"
definition ETH_HLEN :: nat where "ETH_HLEN = 14"
definition ETH_P_IP :: u16 where "ETH_P_IP = 0x0800"
definition ETH_P_ARP :: u16 where "ETH_P_ARP = 0x0806"
definition ETH_P_IPV6 :: u16 where "ETH_P_IPV6 = 0x86DD"
definition ETH_P_MAP :: u16 where "ETH_P_MAP = 0xDA1A"

definition default_modem_addr :: "u8 list" where
  "default_modem_addr = [0x02, 0x50, 0xF3, 0, 0, 0]"

datatype mhi_net_type = MHI_NET_UNKNOW | MHI_NET_RMNET | MHI_NET_MBIM | MHI_NET_ETHER

text \<open>A virtual device with its private data; \<open>qn_ether\<close> is the type \<open>ARPHRD_ETHER\<close>.\<close>

record qmap_net =
  qn_mtu :: u32
  qn_ether :: bool
  qn_addr :: "u8 list"
  qn_stopped :: bool
  qn_carrier :: bool
  qn_mux_id :: u8
  qn_qmap_version :: u8
  qn_bridge_mode :: u32
  qn_bridge_ipv4 :: u32
  qn_bridge_mac :: "u8 list"
  qn_rx_packets :: u64
  qn_rx_bytes :: u64
  qn_tx_packets :: u64
  qn_tx_bytes :: u64
  qn_tx_errors :: u64

text \<open>
  A packet on its way to the network stack: the slot of its device, its protocol, and for a
  device of type ethernet the destination and source address of the header in front of it.
\<close>

record rx_packet =
  rxp_dev :: nat
  rxp_protocol :: u16
  rxp_data :: "u8 list"
  rxp_mac :: "(u8 list \<times> u8 list) option"

datatype net_obs =
    Receive rx_packet
  | Map_xmit "u8 list"
  | Arp_reply "u8 list" "u8 list" "u8 list"

text \<open>
  The device behind them. \<open>par_qmap_mode\<close> is the module parameter, \<open>skb_allocs\<close> counts the
  buffers asked for, \<open>nd_over\<close> records that a receive handler read behind the data of a buffer and \<open>nd_ub\<close> an access
  outside an array or through a null pointer.
\<close>

record mhi_netdev =
  net_type :: mhi_net_type
  par_qmap_mode :: u32
  qmap_mode :: u32
  qmap_version :: u32
  dl_minimum_padding :: u32
  flow_control :: u32
  mpQmapNetDev :: "nat \<Rightarrow> qmap_net option"
  map_command_stats :: "nat \<Rightarrow> u32"
  alloc_failed :: u32
  mbim_mux_id :: u32
  mbim_tx_seq :: u16
  mbim_rx_seq :: u16
  mbim_rx_max :: u32
  nd_bridge_mode :: u32
  nd_bridge_mac :: "u8 list"
  skb_allocs :: nat
  nd_trace :: "net_obs list"
  nd_over :: bool
  nd_ub :: bool

definition net_emit :: "net_obs \<Rightarrow> mhi_netdev \<Rightarrow> mhi_netdev" where
  "net_emit e d = d\<lparr>nd_trace := nd_trace d @ [e]\<rparr>"

definition upd_net :: "nat \<Rightarrow> (qmap_net \<Rightarrow> qmap_net) \<Rightarrow> mhi_netdev \<Rightarrow> mhi_netdev" where
  "upd_net k f d = d\<lparr>mpQmapNetDev := (mpQmapNetDev d)(k := map_option f (mpQmapNetDev d k))\<rparr>"

text \<open>The slots are an array of eight.\<close>

definition net_slot :: "nat \<Rightarrow> mhi_netdev \<Rightarrow> qmap_net option \<times> mhi_netdev" where
  "net_slot k d = (if k < 8 then (mpQmapNetDev d k, d) else (None, d\<lparr>nd_ub := True\<rparr>))"

text \<open>An allocation; \<open>alloc\<close> says which ones succeed.\<close>

definition alloc_skb :: "(nat \<Rightarrow> bool) \<Rightarrow> mhi_netdev \<Rightarrow> bool \<times> mhi_netdev" where
  "alloc_skb alloc d = (alloc (skb_allocs d), d\<lparr>skb_allocs := Suc (skb_allocs d)\<rparr>)"

definition rmnet_vnd_upate_rx_stats :: "nat \<Rightarrow> nat \<Rightarrow> nat \<Rightarrow> mhi_netdev \<Rightarrow> mhi_netdev" where
  "rmnet_vnd_upate_rx_stats k packets bytes =
     upd_net k (\<lambda>n. n\<lparr>qn_rx_packets := qn_rx_packets n + of_nat packets, qn_rx_bytes := qn_rx_bytes n + of_nat bytes\<rparr>)"

definition rmnet_vnd_upate_tx_stats :: "nat \<Rightarrow> nat \<Rightarrow> nat \<Rightarrow> mhi_netdev \<Rightarrow> mhi_netdev" where
  "rmnet_vnd_upate_tx_stats k packets bytes =
     upd_net k (\<lambda>n. n\<lparr>qn_tx_packets := qn_tx_packets n + of_nat packets, qn_tx_bytes := qn_tx_bytes n + of_nat bytes\<rparr>)"

section \<open>Headers on the way to the modem\<close>

definition sizeof_mbim_hdr :: nat where "sizeof_mbim_hdr = 28"

text \<open>The padding that fits, which is none when the one wanted does not.\<close>

definition padding_of :: "skb \<Rightarrow> nat" where
  "padding_of s =
     (let pad = (if skb_len s mod 4 = 0 then 0 else 4 - skb_len s mod 4)
      in if length (skb_tail s) < pad then 0 else pad)"

definition add_qhdr :: "skb \<Rightarrow> u8 \<Rightarrow> skb option" where
  "add_qhdr s mux_id =
     (let pad = padding_of s; s = skb_put pad s
      in map_option (\<lambda>s. put_bytes 0 ([of_nat pad, mux_id] @ be16_bytes (of_nat (skb_len s - 4))) s) (skb_push 4 s))"

definition add_qhdr_v5 :: "skb \<Rightarrow> u8 \<Rightarrow> skb option" where
  "add_qhdr_v5 s mux_id =
     (let map_datalen = skb_len s; padding = padding_of s; s = skb_put padding s
      in map_option (put_bytes 0 ([of_nat padding OR push_bit 6 1, mux_id]
             @ be16_bytes (of_nat (map_datalen + padding)) @ [push_bit 1 2, 0, 0, 0])) (skb_push 8 s))"

text \<open>
  The MBIM block of one packet: \<open>nth16\<close>, one \<open>ndp16\<close> with its session, and two pointers of
  which the second is zero. The sequence number is left for the transmit function to fill in.
\<close>

definition add_mbim_hdr :: "u32 \<Rightarrow> skb \<Rightarrow> u8 \<Rightarrow> skb option" where
  "add_mbim_hdr mode s mux_id =
     (let tci = (ucast mux_id :: u16) + (if 1 < mode then 1 else 0); n = skb_len s
      in if length (skb_head s) < sizeof_mbim_hdr then None
         else map_option (\<lambda>s.
           put_bytes 8 (le16_bytes (of_nat (skb_len s)) @ le16_bytes 12
               @ [0x49, 0x50, 0x53, ucast tci] @ le16_bytes 16 @ le16_bytes 0
               @ le16_bytes (of_nat sizeof_mbim_hdr) @ le16_bytes (of_nat n) @ [0, 0, 0, 0])
             (put_bytes 0 ([0x4E, 0x43, 0x4D, 0x48] @ le16_bytes 12) s)) (skb_push sizeof_mbim_hdr s))"

text \<open>The sequence number, when the frame leaves.\<close>

definition set_mbim_seq :: "u16 \<Rightarrow> skb \<Rightarrow> skb" where
  "set_mbim_seq w = put_bytes 6 (le16_bytes w)"

section \<open>Bridge mode\<close>

text \<open>
  In bridge mode the host answers address requests for the network of the modem itself and
  lets only the frames of one computer pass, the one last seen asking for an address. A frame
  starts with the ethernet header, and the network header follows it.
\<close>

definition ipv4_bytes :: "u32 \<Rightarrow> u8 list" where
  "ipv4_bytes a = [ucast (drop_bit 24 a), ucast (drop_bit 16 a), ucast (drop_bit 8 a), ucast a]"

definition bridge_arp_reply :: "(nat \<Rightarrow> bool) \<Rightarrow> skb \<Rightarrow> u32 \<Rightarrow> mhi_netdev \<Rightarrow> bool \<times> mhi_netdev" where
  "bridge_arp_reply alloc s ipv4 d =
     (if skb_be16 s 14 = 1 \<and> skb_be16 s 16 = ETH_P_IP \<and> skb_be16 s 20 = 1 \<and> skb_at s 18 = 6 \<and> skb_at s 19 = 4
      then
        let sha = skb_bytes 22 6 s; sip = skb_bytes 28 4 s; tip = skb_bytes 38 4 s; ip = ipv4_bytes ipv4
        in if tip ! 0 = ip ! 0 \<and> tip ! 1 = ip ! 1 \<and> tip ! 2 AND 0xFC = ip ! 2 AND 0xFC \<and> tip ! 3 \<noteq> ip ! 3
           then let (ok, d) = alloc_skb alloc d
                in (True, if ok then net_emit (Arp_reply sip tip sha) d else d)
           else (True, d)
      else (False, d))"

definition bridge_mode_tx_fixup ::
  "(nat \<Rightarrow> bool) \<Rightarrow> nat \<Rightarrow> skb \<Rightarrow> mhi_netdev \<Rightarrow> bool \<times> mhi_netdev" where
  "bridge_mode_tx_fixup alloc k s d =
     (case mpQmapNetDev d k of
        None \<Rightarrow> (False, d\<lparr>nd_ub := True\<rparr>)
      | Some n \<Rightarrow>
          let h_proto = skb_be16 s 12; h_source = skb_bytes 6 6 s
          in if h_proto = ETH_P_ARP
             then (False, if qn_bridge_ipv4 n \<noteq> 0 then snd (bridge_arp_reply alloc s (qn_bridge_ipv4 n) d) else d)
             else
               let learn = h_proto = ETH_P_IP \<and> skb_at s 23 = 17
                     \<and> skb_bytes 26 4 s = [0, 0, 0, 0] \<and> skb_bytes 30 4 s = [0xFF, 0xFF, 0xFF, 0xFF];
                   mac = (if learn then h_source else qn_bridge_mac n)
               in (h_source = mac, upd_net k (\<lambda>n. n\<lparr>qn_bridge_mac := mac\<rparr>) d))"

definition bridge_mode_rx_fixup :: "mhi_netdev \<Rightarrow> qmap_net \<Rightarrow> u8 list \<Rightarrow> u8 list" where
  "bridge_mode_rx_fixup d n h_dest =
     (let (mode, mac) = (if 0 < qmap_mode d then (qn_bridge_mode n, qn_bridge_mac n)
                         else (nd_bridge_mode d, nd_bridge_mac d))
      in if mode \<noteq> 0 then mac else h_dest)"

section \<open>Sending\<close>

datatype netdev_tx = NETDEV_TX_OK | NETDEV_TX_BUSY | NET_XMIT_DROP | Panic

text \<open>
  \<open>stopped\<close> is the state of the queue of the device behind, \<open>accepts\<close> whether its queue takes
  the frame. \<open>Panic\<close> is what a push without room ends in.
\<close>

definition rmnet_vnd_tx_agg :: "bool \<Rightarrow> skb \<Rightarrow> mhi_netdev \<Rightarrow> bool \<times> mhi_netdev" where
  "rmnet_vnd_tx_agg accepts s d = (accepts, net_emit (Map_xmit (skb_data s)) d)"

definition add_hdr :: "qmap_net \<Rightarrow> mhi_netdev \<Rightarrow> skb \<Rightarrow> (skb option) option" where
  "add_hdr n d s =
     (if net_type d = MHI_NET_MBIM then Some (add_mbim_hdr (par_qmap_mode d) s (qn_mux_id n))
      else if qn_qmap_version n = 5 then map_option Some (add_qhdr s (qn_mux_id n))
      else if qn_qmap_version n = 9 then map_option Some (add_qhdr_v5 s (qn_mux_id n))
      else Some None)"

definition rmnet_vnd_start_xmit ::
  "(nat \<Rightarrow> bool) \<Rightarrow> bool \<Rightarrow> bool \<Rightarrow> nat \<Rightarrow> skb \<Rightarrow> mhi_netdev \<Rightarrow> netdev_tx \<times> mhi_netdev" where
  "rmnet_vnd_start_xmit alloc stopped accepts k s d =
     (case mpQmapNetDev d k of
        None \<Rightarrow> (Panic, d\<lparr>nd_ub := True\<rparr>)
      | Some n \<Rightarrow>
          if stopped then (NETDEV_TX_BUSY, upd_net k (\<lambda>n. n\<lparr>qn_stopped := True\<rparr>) d)
          else
            let (pass, d) = (if qn_ether n \<and> qn_bridge_mode n \<noteq> 0 then bridge_mode_tx_fixup alloc k s d else (True, d))
            in if \<not> pass then (NETDEV_TX_OK, d)
               else if qn_ether n \<and> skb_len s < ETH_HLEN then (NETDEV_TX_OK, d)
               else
                 let len = skb_len s; s = (if qn_ether n then skb_pull ETH_HLEN s else s)
                 in case add_hdr n d s of
                      None \<Rightarrow> (Panic, d)
                    | Some None \<Rightarrow> (NETDEV_TX_OK, d)
                    | Some (Some s) \<Rightarrow>
                        let (ok, d) = rmnet_vnd_tx_agg accepts s d
                        in if ok then (NETDEV_TX_OK, rmnet_vnd_upate_tx_stats k 1 len d)
                           else (NET_XMIT_DROP, upd_net k (\<lambda>n. n\<lparr>qn_tx_errors := qn_tx_errors n + 1\<rparr>) d))"

definition rmnet_vnd_change_mtu :: "u32 \<Rightarrow> int \<Rightarrow> nat \<Rightarrow> mhi_netdev \<Rightarrow> bool \<times> mhi_netdev" where
  "rmnet_vnd_change_mtu max_mtu new_mtu k d =
     (if new_mtu < 0 \<or> max_mtu < of_int new_mtu then (False, d)
      else (True, upd_net k (\<lambda>n. n\<lparr>qn_mtu := of_int new_mtu\<rparr>) d))"

section \<open>Commands of the modem\<close>

definition RMNET_MAP_COMMAND_FLOW_DISABLE :: u8 where "RMNET_MAP_COMMAND_FLOW_DISABLE = 1"
definition RMNET_MAP_COMMAND_FLOW_ENABLE :: u8 where "RMNET_MAP_COMMAND_FLOW_ENABLE = 2"
definition RMNET_MAP_COMMAND_UNKNOWN :: nat where "RMNET_MAP_COMMAND_UNKNOWN = 9"
definition RMNET_MAP_COMMAND_ENUM_LENGTH :: nat where "RMNET_MAP_COMMAND_ENUM_LENGTH = 10"
definition RMNET_MAP_COMMAND_ACK :: u8 where "RMNET_MAP_COMMAND_ACK = 1"
definition RMNET_MAP_COMMAND_UNSUPPORTED :: u8 where "RMNET_MAP_COMMAND_UNSUPPORTED = 2"

definition sizeof_map_command :: nat where "sizeof_map_command = 20"

text \<open>The header and the command go back as they came, but for the type; no length is checked.\<close>

definition rmnet_map_send_ack :: "(nat \<Rightarrow> bool) \<Rightarrow> u8 \<Rightarrow> skb \<Rightarrow> mhi_netdev \<Rightarrow> mhi_netdev" where
  "rmnet_map_send_ack alloc type s d =
     (let (ok, d) = alloc_skb alloc d
      in if \<not> ok then d
         else
           let bs = skb_bytes 0 sizeof_map_command s;
               d = (if skb_len s < sizeof_map_command then d\<lparr>nd_over := True\<rparr> else d)
           in net_emit (Map_xmit (bs[5 := (bs ! 5 AND 0xFC) OR (type AND 3)])) d)"

definition rmnet_map_do_flow_control :: "skb \<Rightarrow> bool \<Rightarrow> mhi_netdev \<Rightarrow> u8 \<times> mhi_netdev" where
  "rmnet_map_do_flow_control s enable d =
     (let mux_id = skb_at s 1 - QUECTEL_QMAP_MUX_ID
      in if qmap_mode d \<le> ucast mux_id then (RMNET_MAP_COMMAND_UNSUPPORTED, d)
         else case net_slot (unat mux_id) d of
             (None, d) \<Rightarrow> (RMNET_MAP_COMMAND_UNSUPPORTED, d)
           | (Some n, d) \<Rightarrow>
               let b = push_bit (unat mux_id) 1
               in (RMNET_MAP_COMMAND_ACK,
                   d\<lparr>flow_control := (if enable then flow_control d OR b else flow_control d AND NOT b)\<rparr>))"

definition count_command :: "nat \<Rightarrow> mhi_netdev \<Rightarrow> mhi_netdev" where
  "count_command k d = d\<lparr>map_command_stats := (map_command_stats d)(k := map_command_stats d k + 1)\<rparr>"

definition rmnet_data_map_command :: "(nat \<Rightarrow> bool) \<Rightarrow> skb \<Rightarrow> mhi_netdev \<Rightarrow> mhi_netdev" where
  "rmnet_data_map_command alloc s d =
     (let command_name = skb_at s 4;
          d = (if unat command_name < RMNET_MAP_COMMAND_ENUM_LENGTH then count_command (unat command_name) d else d);
          (rc, d) =
            (if command_name = RMNET_MAP_COMMAND_FLOW_ENABLE then rmnet_map_do_flow_control s True d
             else if command_name = RMNET_MAP_COMMAND_FLOW_DISABLE then rmnet_map_do_flow_control s False d
             else (RMNET_MAP_COMMAND_UNSUPPORTED, count_command RMNET_MAP_COMMAND_UNKNOWN d))
      in if rc = RMNET_MAP_COMMAND_ACK then rmnet_map_send_ack alloc rc s d else d)"

section \<open>Receiving\<close>

definition ip_protocol :: "u8 \<Rightarrow> u16 option" where
  "ip_protocol b =
     (if b AND 0xF0 = 0x40 then Some ETH_P_IP else if b AND 0xF0 = 0x60 then Some ETH_P_IPV6 else None)"

text \<open>The packet for a slot, with the header an ethernet device sees in front of it.\<close>

definition rx_packet_for :: "mhi_netdev \<Rightarrow> nat \<Rightarrow> qmap_net \<Rightarrow> u16 \<Rightarrow> u8 list \<Rightarrow> rx_packet" where
  "rx_packet_for d k n protocol bs =
     \<lparr>rxp_dev = k, rxp_protocol = protocol, rxp_data = bs,
      rxp_mac = (if qn_ether n then Some (bridge_mode_rx_fixup d n (qn_addr n), default_modem_addr) else None)\<rparr>"

text \<open>
  One round of \<open>rmnet_qmi_rx_handler\<close>: the packet found, and how far to go on, \<open>None\<close> being
  the end of the loop. Lengths are computed in 32 bits, and compared unsigned.
\<close>

definition qmi_one ::
  "(nat \<Rightarrow> bool) \<Rightarrow> skb \<Rightarrow> mhi_netdev \<Rightarrow> rx_packet option \<times> nat option \<times> mhi_netdev" where
  "qmi_one alloc s d =
     (let b0 = skb_at s 0;
          pkt_len = unat (skb_be16 s 2);
          hdr_size = (if b0 AND 0x40 \<noteq> 0 then 8 else 4);
          padding = (if qmap_version d = 9 then dl_minimum_padding d else 0);
          len = (of_nat pkt_len - ucast (b0 AND 0x3F) - padding :: u32);
          mux_id = (ucast (skb_at s 1) - ucast QUECTEL_QMAP_MUX_ID :: u32);
          next = Some (pkt_len + hdr_size)
      in if qmap_mode d \<le> mux_id then (None, None, d)
         else case net_slot (unat mux_id) d of
             (None, d) \<Rightarrow> (None, next, d)
           | (Some n, d) \<Rightarrow>
               if qn_mtu n < len then (None, None, d)
               else if skb_len s < pkt_len + hdr_size then (None, None, d)
               else if b0 AND 0x80 \<noteq> 0 then (None, next, rmnet_data_map_command alloc s d)
               else
                 let d = (if skb_len s \<le> hdr_size then d\<lparr>nd_over := True\<rparr> else d)
                 in case ip_protocol (skb_at s hdr_size) of
                      None \<Rightarrow> (None, None, d)
                    | Some protocol \<Rightarrow>
                        let (ok, d) = alloc_skb alloc d
                        in if \<not> ok then (None, None, d\<lparr>alloc_failed := alloc_failed d + 1\<rparr>)
                           else
                             let d = (if skb_len s < hdr_size + unat len then d\<lparr>nd_over := True\<rparr> else d);
                                 p = rx_packet_for d (unat mux_id) n protocol (skb_bytes hdr_size (unat len) s)
                             in (Some p, next, rmnet_vnd_upate_rx_stats (unat mux_id) 1 (unat len) d))"

partial_function (option) qmi_loop ::
  "(nat \<Rightarrow> bool) \<Rightarrow> skb \<Rightarrow> rx_packet list \<Rightarrow> mhi_netdev \<Rightarrow> (rx_packet list \<times> mhi_netdev) option" where
  "qmi_loop alloc s chain d =
     (if skb_len s \<le> 4 then Some (chain, d)
      else case qmi_one alloc s d of
          (p, None, d) \<Rightarrow> Some (chain, d)
        | (p, Some n, d) \<Rightarrow>
            qmi_loop alloc (skb_pull n s) (case p of None \<Rightarrow> chain | Some p \<Rightarrow> chain @ [p]) d)"

definition rmnet_qmi_rx_handler :: "(nat \<Rightarrow> bool) \<Rightarrow> skb \<Rightarrow> mhi_netdev \<Rightarrow> mhi_netdev option" where
  "rmnet_qmi_rx_handler alloc s d =
     map_option (\<lambda>(chain, d). fold (\<lambda>p. net_emit (Receive p)) chain d) (qmi_loop alloc s [] d)"

text \<open>The datagrams of one \<open>ndp16\<close>, whose pointers start at \<open>at\<close>; \<open>True\<close> ends the block.\<close>

fun mbim_frames ::
  "(nat \<Rightarrow> bool) \<Rightarrow> skb \<Rightarrow> nat \<Rightarrow> nat \<Rightarrow> nat \<Rightarrow> rx_packet list \<Rightarrow> mhi_netdev \<Rightarrow>
   bool \<times> rx_packet list \<times> mhi_netdev" where
  "mbim_frames alloc s k at 0 chain d = (False, chain, d)"
| "mbim_frames alloc s k at (Suc x) chain d =
     (let offset = unat (skb_le16 s at); len = unat (skb_le16 s (at + 2));
          d = (if skb_len s < at + 4 then d\<lparr>nd_over := True\<rparr> else d)
      in if offset = 0 \<or> len = 0 then (False, chain, d)
         else if skb_len s < offset + len \<or> unat (mbim_rx_max d) < len then (True, chain, d)
         else
           let (ok, d) = alloc_skb alloc d
           in if \<not> ok then (True, chain, d\<lparr>alloc_failed := alloc_failed d + 1\<rparr>)
              else case ip_protocol (skb_at s offset) of
                  None \<Rightarrow> (True, chain, d)
                | Some protocol \<Rightarrow>
                    (case fst (net_slot k d) of
                       None \<Rightarrow> (True, chain, d\<lparr>nd_ub := True\<rparr>)
                     | Some n \<Rightarrow>
                         mbim_frames alloc s k (at + 4) x
                           (chain @ [rx_packet_for d k n protocol (skb_bytes offset len s)])
                           (rmnet_vnd_upate_rx_stats k 1 len d)))"

text \<open>The session of an \<open>ndp16\<close> at \<open>at\<close>.\<close>

definition ndp_session :: "skb \<Rightarrow> nat \<Rightarrow> u16 option" where
  "ndp_session s at =
     (if skb_bytes at 3 s = [0x49, 0x50, 0x53] then Some (ucast (skb_at s (at + 3)))
      else if skb_bytes at 3 s = [0x44, 0x53, 0x53] then Some (ucast (skb_at s (at + 3)) + 256)
      else None)"

text \<open>
  The slot a session is for: with one device, slot 0; with several, the number of the session
  above the first one, less one, in 32 bits. Session \<open>mbim_mux_id\<close> itself is not refused.
\<close>

definition session_slot :: "u16 \<Rightarrow> mhi_netdev \<Rightarrow> nat option" where
  "session_slot tci d =
     (if (par_qmap_mode d = 1 \<and> ucast tci \<noteq> mbim_mux_id d)
         \<or> (1 < par_qmap_mode d \<and> par_qmap_mode d < ucast tci - mbim_mux_id d) then None
      else Some (if par_qmap_mode d = 1 then 0 else unat (ucast tci - 1 - mbim_mux_id d)))"

definition mbim_ndp ::
  "(nat \<Rightarrow> bool) \<Rightarrow> skb \<Rightarrow> nat \<Rightarrow> rx_packet list \<Rightarrow> mhi_netdev \<Rightarrow> bool \<times> rx_packet list \<times> mhi_netdev" where
  "mbim_ndp alloc s at chain d =
     (let wLength = unat (skb_le16 s (at + 4)); nframes = (wLength - 8) div 4
      in if skb_len s < at + 8 \<or> wLength < 16 \<or> skb_len s < 8 + nframes * 4 then (True, chain, d)
         else case ndp_session s at of
             None \<Rightarrow> (True, chain, d)
           | Some tci \<Rightarrow>
               (case session_slot tci d of
                  None \<Rightarrow> (True, chain, d)
                | Some k \<Rightarrow> mbim_frames alloc s k (at + 8) nframes chain (snd (net_slot k d))))"

partial_function (option) mbim_loop ::
  "(nat \<Rightarrow> bool) \<Rightarrow> skb \<Rightarrow> nat \<Rightarrow> rx_packet list \<Rightarrow> mhi_netdev \<Rightarrow> (rx_packet list \<times> mhi_netdev) option" where
  "mbim_loop alloc s at chain d =
     (if at = 0 then Some (chain, d)
      else case mbim_ndp alloc s at chain d of
          (stop, chain, d) \<Rightarrow>
            if stop then Some (chain, d) else mbim_loop alloc s (unat (skb_le16 s (at + 6))) chain d)"

definition rmnet_mbim_rx_handler :: "(nat \<Rightarrow> bool) \<Rightarrow> skb \<Rightarrow> mhi_netdev \<Rightarrow> mhi_netdev option" where
  "rmnet_mbim_rx_handler alloc s d =
     (if skb_len s < 20 \<or> skb_bytes 0 4 s \<noteq> [0x4E, 0x43, 0x4D, 0x48] \<or> unat (mbim_rx_max d) < unat (skb_le16 s 8)
      then Some d
      else map_option (\<lambda>(chain, d). fold (\<lambda>p. net_emit (Receive p)) chain d)
             (mbim_loop alloc s (unat (skb_le16 s 10)) [] (d\<lparr>mbim_rx_seq := skb_le16 s 6 + 1\<rparr>)))"

section \<open>Header formats\<close>

lemma be16_bytes_be16: "be16 (ucast (drop_bit 8 w)) (ucast w) = w" for w :: u16
  by (rule bit_word_eqI) (auto simp: be16_def bit_simps)

lemma le16_bytes_le16: "le16 (ucast w) (ucast (drop_bit 8 w)) = w" for w :: u16
  by (simp add: le16_def be16_bytes_be16)

lemma skb_at_data: "i < skb_len s \<Longrightarrow> skb_at s i = skb_data s ! i"
  by (simp add: skb_at_def nth_append Let_def)

lemma skb_bytes_data: "i + n \<le> skb_len s \<Longrightarrow> skb_bytes i n s = take n (drop i (skb_data s))"
  by (rule nth_equalityI) (auto simp: skb_bytes_def skb_at_data)

text \<open>What the headers of both versions have in common.\<close>

definition qmap_header :: "u8 list \<Rightarrow> u8 \<Rightarrow> nat \<Rightarrow> nat \<Rightarrow> bool" where
  "qmap_header hdr mux_id n pad \<longleftrightarrow>
     length hdr = (if hdr ! 0 AND 0x40 \<noteq> 0 then 8 else 4) \<and> hdr ! 0 AND 0x80 = 0 \<and> hdr ! 0 AND 0x3F = of_nat pad
     \<and> hdr ! 1 = mux_id \<and> be16 (hdr ! 2) (hdr ! 3) = of_nat (n + pad) \<and> pad < 4"

text \<open>A header format: what it makes of a buffer is a header, the packet and the padding.\<close>

locale qmap_format =
  fixes add :: "skb \<Rightarrow> u8 \<Rightarrow> skb option"
  assumes add_frame: "8 \<le> length (skb_head s) \<Longrightarrow>
    \<exists>s' hdr pad. add s mux_id = Some s' \<and> skb_data s' = hdr @ skb_data s @ pad
      \<and> qmap_header hdr mux_id (skb_len s) (length pad)"

lemma padding_less: "padding_of s < 4"
  by (simp add: padding_of_def Let_def)

lemma padding_room: "padding_of s \<le> length (skb_tail s)"
  by (simp add: padding_of_def Let_def)

lemma small_cases: "p < (4 :: nat) \<Longrightarrow> p = 0 \<or> p = 1 \<or> p = 2 \<or> p = 3" by auto

lemma push_header:
  assumes "length hdr \<le> length (skb_head s)"
  shows "\<exists>s' pad. map_option (put_bytes 0 hdr) (skb_push (length hdr) (skb_put (padding_of s) s)) = Some s'
    \<and> skb_data s' = hdr @ skb_data s @ pad \<and> length pad = padding_of s"
  using assms padding_room [of s] by (simp add: skb_put_def skb_push_def put_bytes_def Let_def)

lemma framedI:
  assumes "fr = map_option (put_bytes 0 hdr) (skb_push (length hdr) (skb_put (padding_of s) s))"
    and h: "qmap_header hdr mux_id (skb_len s) (padding_of s)" and "8 \<le> length (skb_head s)"
  shows "\<exists>s' hdr pad. fr = Some s' \<and> skb_data s' = hdr @ skb_data s @ pad
      \<and> qmap_header hdr mux_id (skb_len s) (length pad)"
proof -
  have "length hdr \<le> length (skb_head s)" using h assms(3) by (simp add: qmap_header_def split: if_splits)
  from push_header [OF this] obtain s' pad where "fr = Some s'" "skb_data s' = hdr @ skb_data s @ pad"
    "length pad = padding_of s" unfolding assms(1) by blast
  then show ?thesis using h by metis
qed

interpretation qmap_v1: qmap_format add_qhdr
proof (unfold_locales, goal_cases)
  case (1 s mux_id)
  let ?hdr = "[of_nat (padding_of s), mux_id] @ be16_bytes (of_nat (skb_len s + padding_of s))"
  have "add_qhdr s mux_id = map_option (put_bytes 0 ?hdr) (skb_push (length ?hdr) (skb_put (padding_of s) s))"
    using padding_room [of s] by (simp add: add_qhdr_def Let_def skb_push_def be16_bytes_def skb_put_def eval_nat_numeral)
  moreover have "qmap_header ?hdr mux_id (skb_len s) (padding_of s)"
    using small_cases [OF padding_less [of s]] by (auto simp: qmap_header_def be16_bytes_def be16_bytes_be16)
  ultimately show ?case using 1 by (rule framedI)
qed

interpretation qmap_v5: qmap_format add_qhdr_v5
proof (unfold_locales, goal_cases)
  case (1 s mux_id)
  let ?hdr = "[of_nat (padding_of s) OR push_bit 6 1, mux_id]
    @ be16_bytes (of_nat (skb_len s + padding_of s)) @ [push_bit 1 2, 0, 0, 0]"
  have "add_qhdr_v5 s mux_id = map_option (put_bytes 0 ?hdr) (skb_push (length ?hdr) (skb_put (padding_of s) s))"
    by (simp add: add_qhdr_v5_def Let_def be16_bytes_def eval_nat_numeral)
  moreover have "qmap_header ?hdr mux_id (skb_len s) (padding_of s)"
    using small_cases [OF padding_less [of s]] by (auto simp: qmap_header_def be16_bytes_def be16_bytes_be16)
  ultimately show ?case using 1 by (rule framedI)
qed

lemma eight_cases: "k < (8 :: nat) \<Longrightarrow> k = 0 \<or> k = 1 \<or> k = 2 \<or> k = 3 \<or> k = 4 \<or> k = 5 \<or> k = 6 \<or> k = 7"
  by auto

lemma mux_slot: "k < 8 \<Longrightarrow> (ucast (QUECTEL_QMAP_MUX_ID + of_nat k) - ucast QUECTEL_QMAP_MUX_ID :: u32) = of_nat k"
  by (drule eight_cases) (auto simp: QUECTEL_QMAP_MUX_ID_def)

lemma pad_ucast: "p < 4 \<Longrightarrow> (ucast (of_nat p :: u8) :: u32) = of_nat p"
  by (drule small_cases) auto

lemma rx_packet_cong:
  "rx_packet_for (d\<lparr>skb_allocs := a\<rparr>) = rx_packet_for d"
  by (simp add: fun_eq_iff rx_packet_for_def bridge_mode_rx_fixup_def)

text \<open>One round of the handler on one frame.\<close>

lemma qmi_one_frame:
  assumes s: "skb_data s = hdr @ bs @ pad @ rest"
    and h: "qmap_header hdr (QUECTEL_QMAP_MUX_ID + of_nat k) (length bs) (length pad)"
    and bs: "bs \<noteq> []" "length bs + 3 < 65536" "ip_protocol (hd bs) = Some proto"
    and k: "k < 8" "of_nat k < qmap_mode d" "mpQmapNetDev d k = Some n" "length bs \<le> unat (qn_mtu n)"
    and pad: "qmap_version d = 9 \<Longrightarrow> dl_minimum_padding d = 0" and ok: "alloc (skb_allocs d)"
  shows "qmi_one alloc s d = (Some (rx_packet_for d k n proto bs), Some (length hdr + length bs + length pad),
    rmnet_vnd_upate_rx_stats k 1 (length bs) (d\<lparr>skb_allocs := Suc (skb_allocs d)\<rparr>))"
proof -
  let ?L = "length hdr"
  have p: "length pad < 4" and L: "?L = (if hdr ! 0 AND 0x40 \<noteq> 0 then 8 else 4)" and b: "hdr ! 0 AND 0x80 = 0"
    "hdr ! 0 AND 0x3F = of_nat (length pad)" "hdr ! 1 = QUECTEL_QMAP_MUX_ID + of_nat k"
    "be16 (hdr ! 2) (hdr ! 3) = of_nat (length bs + length pad)"
    using h by (simp_all add: qmap_header_def)
  have L4: "4 \<le> ?L" using L by simp
  have len: "skb_len s = ?L + length bs + length pad + length rest" by (simp add: s)
  have at: "skb_at s i = hdr ! i" if "i < 4" for i
    using that L4 len by (subst skb_at_data) (simp_all add: s nth_append)
  have pl: "unat (of_nat (length bs + length pad) :: u16) = length bs + length pad"
    using bs(2) p by (intro unat_of_nat_less) simp
  have l32: "(of_nat (length bs + length pad) - ucast (hdr ! 0 AND 0x3F) - 0 :: u32) = of_nat (length bs)"
    by (simp add: b(2) pad_ucast [OF p])
  have ul: "unat (of_nat (length bs) :: u32) = length bs" using bs(2) by (intro unat_of_nat_less) simp
  have uk: "unat (of_nat k :: u32) = k" using k(1) by (intro unat_of_nat_less) simp
  have first: "skb_at s ?L = hd bs" using bs(1) len by (subst skb_at_data) (simp_all add: s nth_append hd_conv_nth)
  have body: "skb_bytes ?L (length bs) s = bs" using len by (subst skb_bytes_data) (simp_all add: s)
  have mtu: "\<not> qn_mtu n < of_nat (length bs)" using k(4) ul by (simp add: word_less_nat_alt)
  have z: "(if qmap_version d = 9 then dl_minimum_padding d else 0) = 0" using pad by simp
  have hs: "(if hdr ! 0 AND 0x40 \<noteq> 0 then 8 else 4) = ?L" using L by simp
  have nb: "0 < length bs" using bs(1) by simp
  have be: "skb_be16 s 2 = of_nat (length bs + length pad)"
    using b(4) at [of 2] at [of 3] by (simp add: skb_be16_def eval_nat_numeral)
  have a: "skb_at s 0 = hdr ! 0" "skb_at s 1 = QUECTEL_QMAP_MUX_ID + of_nat k" using at b(3) by simp_all
  have slot: "net_slot k d = (Some n, d)" using k(1,3) by (simp add: net_slot_def)
  have lens: "\<not> skb_len s < length bs + length pad + ?L" "\<not> skb_len s \<le> ?L" "\<not> skb_len s < ?L + length bs"
    using len nb by simp_all
  have mm: "\<not> qmap_mode d \<le> of_nat k" using k(2) by simp
  have al: "alloc_skb alloc d = (True, d\<lparr>skb_allocs := Suc (skb_allocs d)\<rparr>)" using ok by (simp add: alloc_skb_def)
  show ?thesis
    unfolding qmi_one_def Let_def a z hs be pl l32 mux_slot [OF k(1)] uk slot b(1) option.case prod.case
    by (simp add: first bs(3) al mm mtu lens ul body rx_packet_cong)
qed

text \<open>What receiving a packet leaves as it was: all but the counters.\<close>

definition slot_view :: "mhi_netdev \<Rightarrow> nat \<Rightarrow> qmap_net option" where
  "slot_view d k = map_option (\<lambda>n. n\<lparr>qn_rx_packets := 0, qn_rx_bytes := 0\<rparr>) (mpQmapNetDev d k)"

definition rx_same :: "mhi_netdev \<Rightarrow> mhi_netdev \<Rightarrow> bool" where
  "rx_same d d' \<longleftrightarrow> slot_view d' = slot_view d \<and> qmap_mode d' = qmap_mode d \<and> qmap_version d' = qmap_version d
     \<and> dl_minimum_padding d' = dl_minimum_padding d \<and> nd_bridge_mode d' = nd_bridge_mode d
     \<and> nd_bridge_mac d' = nd_bridge_mac d \<and> nd_trace d' = nd_trace d \<and> nd_over d' = nd_over d \<and> nd_ub d' = nd_ub d
     \<and> par_qmap_mode d' = par_qmap_mode d \<and> mbim_mux_id d' = mbim_mux_id d \<and> mbim_rx_max d' = mbim_rx_max d"

lemma rx_same_refl [simp]: "rx_same d d"
  by (simp add: rx_same_def)

lemma rx_same_trans: "rx_same a b \<Longrightarrow> rx_same b c \<Longrightarrow> rx_same a c"
  by (simp add: rx_same_def)

lemma rx_same_stats: "rx_same d (rmnet_vnd_upate_rx_stats k m b (d\<lparr>skb_allocs := a\<rparr>))"
  by (auto simp: rx_same_def slot_view_def fun_eq_iff rmnet_vnd_upate_rx_stats_def upd_net_def option.map_comp comp_def)

lemma rx_same_slot:
  assumes "rx_same d d'" and "mpQmapNetDev d k = Some n"
  shows "\<exists>n'. mpQmapNetDev d' k = Some n' \<and> qn_mtu n' = qn_mtu n \<and> rx_packet_for d' k n' = rx_packet_for d k n"
proof -
  have "slot_view d' k = slot_view d k" using assms(1) by (simp add: rx_same_def)
  then obtain n' where n': "mpQmapNetDev d' k = Some n'"
    "n'\<lparr>qn_rx_packets := 0, qn_rx_bytes := 0\<rparr> = n\<lparr>qn_rx_packets := 0, qn_rx_bytes := 0\<rparr>"
    using assms(2) by (auto simp: slot_view_def)
  have f: "qn_mtu n' = qn_mtu n" "qn_ether n' = qn_ether n" "qn_addr n' = qn_addr n"
    "qn_bridge_mode n' = qn_bridge_mode n" "qn_bridge_mac n' = qn_bridge_mac n"
    using arg_cong [OF n'(2), of qn_mtu] arg_cong [OF n'(2), of qn_ether] arg_cong [OF n'(2), of qn_addr]
      arg_cong [OF n'(2), of qn_bridge_mode] arg_cong [OF n'(2), of qn_bridge_mac] by simp_all
  have "rx_packet_for d' k n' = rx_packet_for d k n"
    using assms(1) f by (simp add: fun_eq_iff rx_packet_for_def bridge_mode_rx_fixup_def rx_same_def)
  then show ?thesis using n'(1) f(1) by blast
qed

text \<open>
  A packet that may be sent over a slot, and the packet the stack then gets from it. The room
  in front is what an ethernet header leaves, and a length must fit the header with its padding.
\<close>

definition sendable :: "mhi_netdev \<Rightarrow> nat \<times> skb \<Rightarrow> bool" where
  "sendable d p \<longleftrightarrow> (case p of (k, s) \<Rightarrow>
     k < 8 \<and> of_nat k < qmap_mode d \<and> 8 \<le> length (skb_head s) \<and> skb_data s \<noteq> []
     \<and> ip_protocol (hd (skb_data s)) \<noteq> None \<and> skb_len s + 3 < 65536
     \<and> (case mpQmapNetDev d k of None \<Rightarrow> False | Some n \<Rightarrow> skb_len s \<le> unat (qn_mtu n)))"

definition packet_of :: "mhi_netdev \<Rightarrow> nat \<times> skb \<Rightarrow> rx_packet" where
  "packet_of d p = (case p of (k, s) \<Rightarrow>
     rx_packet_for d k (the (mpQmapNetDev d k)) (the (ip_protocol (hd (skb_data s)))) (skb_data s))"

lemma rx_same_sendable:
  assumes "rx_same d d'" and "sendable d p"
  shows "sendable d' p" and "packet_of d' p = packet_of d p"
proof -
  obtain k s where p: "p = (k, s)" by (cases p)
  obtain n where n: "mpQmapNetDev d k = Some n" using assms(2) by (auto simp: sendable_def p split: option.splits)
  obtain n' where n': "mpQmapNetDev d' k = Some n'" "qn_mtu n' = qn_mtu n" "rx_packet_for d' k n' = rx_packet_for d k n"
    using rx_same_slot [OF assms(1) n] by blast
  show "sendable d' p" using assms n n' by (simp add: sendable_def p rx_same_def)
  show "packet_of d' p = packet_of d p" using n n' by (simp add: packet_of_def p)
qed

context qmap_format
begin

text \<open>The bytes on the wire for a packet of a slot.\<close>

lemma loop_frames:
  assumes "\<forall>p \<in> set ps. sendable d p" and "qmap_version d = 9 \<longrightarrow> dl_minimum_padding d = 0" and "\<forall>a. alloc a"
    and "skb_data r = concat (map (\<lambda>(k, s). skb_data (the (add s (QUECTEL_QMAP_MUX_ID + of_nat k)))) ps)"
  shows "\<exists>d'. qmi_loop alloc r chain d = Some (chain @ map (packet_of d) ps, d') \<and> rx_same d d'"
  using assms(1,2,4)
proof (induction ps arbitrary: r chain d)
  case Nil
  then show ?case by (subst qmi_loop.simps) simp
next
  case (Cons p ps)
  obtain k s where p: "p = (k, s)" by (cases p)
  have sd: "sendable d (k, s)" using Cons.prems(1) p by simp
  then obtain n where n: "mpQmapNetDev d k = Some n" "skb_len s \<le> unat (qn_mtu n)"
    by (auto simp: sendable_def split: option.splits)
  obtain proto where pr: "ip_protocol (hd (skb_data s)) = Some proto" using sd by (auto simp: sendable_def)
  have sk: "8 \<le> length (skb_head s)" "skb_data s \<noteq> []" "skb_len s + 3 < 65536" "k < 8" "of_nat k < qmap_mode d"
    using sd by (simp_all add: sendable_def)
  obtain s' hdr pad where fr: "add s (QUECTEL_QMAP_MUX_ID + of_nat k) = Some s'"
    "skb_data s' = hdr @ skb_data s @ pad" "qmap_header hdr (QUECTEL_QMAP_MUX_ID + of_nat k) (skb_len s) (length pad)"
    using add_frame [OF sk(1)] by blast
  let ?rest = "concat (map (\<lambda>(k, s). skb_data (the (add s (QUECTEL_QMAP_MUX_ID + of_nat k)))) ps)"
  have r: "skb_data r = hdr @ skb_data s @ pad @ ?rest" using Cons.prems(3) p fr by simp
  let ?m = "length hdr + skb_len s + length pad"
  let ?d = "rmnet_vnd_upate_rx_stats k 1 (skb_len s) (d\<lparr>skb_allocs := Suc (skb_allocs d)\<rparr>)"
  let ?p = "rx_packet_for d k n proto (skb_data s)"
  have one: "qmi_one alloc r d = (Some ?p, Some ?m, ?d)"
    using qmi_one_frame [OF r fr(3) sk(2,3) pr sk(4,5) n] Cons.prems(2) assms(3) by simp
  have same: "rx_same d ?d" by (rule rx_same_stats)
  have hdr: "4 \<le> length hdr" using fr(3) by (simp add: qmap_header_def)
  have "0 < skb_len s" using sk(2) by simp
  then have long: "\<not> skb_len r \<le> 4" using hdr by (simp add: r del: length_greater_0_conv)
  have rest: "skb_data (skb_pull ?m r) = ?rest" by (simp add: skb_pull_def r)
  have sds: "\<forall>q \<in> set ps. sendable d q" using Cons.prems(1) by simp
  obtain d' where d': "qmi_loop alloc (skb_pull ?m r) (chain @ [?p]) ?d
      = Some ((chain @ [?p]) @ map (packet_of ?d) ps, d')" "rx_same ?d d'"
    using Cons.IH [of ?d "skb_pull ?m r" "chain @ [?p]"] sds same rx_same_sendable(1) Cons.prems(2) rest
    by (auto simp: rx_same_def)
  have pk: "packet_of d (k, s) = ?p" using n(1) pr by (simp add: packet_of_def)
  have "map (packet_of ?d) ps = map (packet_of d) ps" using sds rx_same_sendable(2) [OF same] by simp
  then have "qmi_loop alloc r chain d = Some (chain @ map (packet_of d) (p # ps), d')"
    using d'(1) long one pk by (subst qmi_loop.simps) (simp add: p)
  then show ?case using rx_same_trans [OF same d'(2)] by blast
qed

end

lemma fold_receive:
  "nd_trace (fold (\<lambda>p. net_emit (Receive p)) ps d) = nd_trace d @ map Receive ps"
  "nd_over (fold (\<lambda>p. net_emit (Receive p)) ps d) = nd_over d"
  "nd_ub (fold (\<lambda>p. net_emit (Receive p)) ps d) = nd_ub d"
  by (induction ps arbitrary: d) (simp_all add: net_emit_def)

text \<open>
  C7: Aggregation is transparent: when packets of the slots, with the header either version of
  the protocol puts in front of them and the padding behind them, arrive in one buffer, the
  handler hands exactly these packets to the stack, in their order, each to the device of its
  slot, with its protocol and, for an ethernet device, the addresses of its header. Nothing
  behind the buffer is read. The lengths are those a header can carry; packets of odd length
  and buffers without room for padding are included.
\<close>

theorem qmap_roundtrip:
  assumes "add = add_qhdr \<or> add = add_qhdr_v5" and "\<forall>p \<in> set ps. sendable d p"
    and "qmap_version d = 9 \<longrightarrow> dl_minimum_padding d = 0" and "\<forall>a. alloc a"
    and "skb_data r = concat (map (\<lambda>(k, s). skb_data (the (add s (QUECTEL_QMAP_MUX_ID + of_nat k)))) ps)"
  shows "\<exists>d'. rmnet_qmi_rx_handler alloc r d = Some d' \<and> nd_trace d' = nd_trace d @ map (\<lambda>p. Receive (packet_of d p)) ps
    \<and> nd_over d' = nd_over d \<and> nd_ub d' = nd_ub d"
proof -
  obtain d' where d': "qmi_loop alloc r [] d = Some ([] @ map (packet_of d) ps, d')" "rx_same d d'"
    using assms(1) qmap_v1.loop_frames [OF assms(2-4)] qmap_v5.loop_frames [OF assms(2-4)] assms(5) by metis
  show ?thesis
    using d' by (intro exI [of _ "fold (\<lambda>p. net_emit (Receive p)) (map (packet_of d) ps) d'"])
      (simp add: rmnet_qmi_rx_handler_def fold_receive rx_same_def comp_def)
qed

text \<open>A virtual device and a parent to start from.\<close>

definition zero_net :: qmap_net where
  "zero_net = \<lparr>qn_mtu = 1500, qn_ether = True, qn_addr = [2, 0, 0, 0, 0, 1], qn_stopped = False, qn_carrier = True,
     qn_mux_id = 0x81, qn_qmap_version = 5, qn_bridge_mode = 0, qn_bridge_ipv4 = 0,
     qn_bridge_mac = [0, 0, 0, 0, 0, 0], qn_rx_packets = 0, qn_rx_bytes = 0, qn_tx_packets = 0, qn_tx_bytes = 0,
     qn_tx_errors = 0\<rparr>"

definition zero_netdev :: mhi_netdev where
  "zero_netdev = \<lparr>net_type = MHI_NET_RMNET, par_qmap_mode = 2, qmap_mode = 2, qmap_version = 5, dl_minimum_padding = 0,
     flow_control = 0, mpQmapNetDev = (\<lambda>k. if k < 2 then Some zero_net else None), map_command_stats = (\<lambda>_. 0),
     alloc_failed = 0, mbim_mux_id = 0, mbim_tx_seq = 0, mbim_rx_seq = 0, mbim_rx_max = 32768, nd_bridge_mode = 0,
     nd_bridge_mac = [0, 0, 0, 0, 0, 0], skb_allocs = 0, nd_trace = [], nd_over = False, nd_ub = False\<rparr>"

definition demo_skb :: "u8 list \<Rightarrow> skb" where
  "demo_skb bs = \<lparr>skb_head = replicate 32 0, skb_data = bs, skb_tail = replicate 16 0, skb_protocol = ETH_P_IP\<rparr>"

theorem qmap_roundtrip_witness:
  "\<exists>r d'. skb_data r = [3, 0x82, 0, 8, 0x45, 1, 2, 3, 4, 0, 0, 0, 0, 0x81, 0, 4, 0x60, 7, 8, 9]
    \<and> rmnet_qmi_rx_handler (\<lambda>_. True) r zero_netdev = Some d'
    \<and> map (\<lambda>e. case e of Receive p \<Rightarrow> (rxp_dev p, rxp_data p) | _ \<Rightarrow> (9, [])) (nd_trace d')
      = [(1, [0x45, 1, 2, 3, 4]), (0, [0x60, 7, 8, 9])]"
proof -
  let ?ps = "[(1, demo_skb [0x45, 1, 2, 3, 4]), (0, demo_skb [0x60, 7, 8, 9])]"
  let ?r = "demo_skb [3, 0x82, 0, 8, 0x45, 1, 2, 3, 4, 0, 0, 0, 0, 0x81, 0, 4, 0x60, 7, 8, 9]"
  have s: "\<forall>p \<in> set ?ps. sendable zero_netdev p"
    by (simp add: sendable_def zero_netdev_def zero_net_def demo_skb_def ip_protocol_def)
  have w: "skb_data ?r = concat (map (\<lambda>(k, s). skb_data (the (add_qhdr s (QUECTEL_QMAP_MUX_ID + of_nat k)))) ?ps)"
    by code_simp
  have v: "qmap_version zero_netdev = 9 \<longrightarrow> dl_minimum_padding zero_netdev = 0" by (simp add: zero_netdev_def)
  obtain d' where d': "rmnet_qmi_rx_handler (\<lambda>_. True) ?r zero_netdev = Some d'"
    "nd_trace d' = nd_trace zero_netdev @ map (\<lambda>p. Receive (packet_of zero_netdev p)) ?ps"
    using qmap_roundtrip [OF disjI1 [OF refl] s v, of "\<lambda>_. True" ?r] w by auto
  have "skb_data ?r = [3, 0x82, 0, 8, 0x45, 1, 2, 3, 4, 0, 0, 0, 0, 0x81, 0, 4, 0x60, 7, 8, 9]"
    by (simp add: demo_skb_def)
  then show ?thesis using d'
    by (intro exI [of _ ?r] exI [of _ d'])
      (simp add: zero_netdev_def packet_of_def rx_packet_for_def demo_skb_def)
qed

section \<open>When the receive loop ends\<close>

definition slots_present :: "mhi_netdev \<Rightarrow> bool" where
  "slots_present d \<longleftrightarrow> (\<forall>k < unat (qmap_mode d). k < 8 \<and> mpQmapNetDev d k \<noteq> None)"

text \<open>A frame that claims more bytes than there are, for a slot whose device is gone.\<close>

definition stuck_frame :: "skb \<Rightarrow> mhi_netdev \<Rightarrow> bool" where
  "stuck_frame s d \<longleftrightarrow> 4 < skb_len s
     \<and> (ucast (skb_at s 1) - ucast QUECTEL_QMAP_MUX_ID :: u32) < qmap_mode d
     \<and> unat (ucast (skb_at s 1) - ucast QUECTEL_QMAP_MUX_ID :: u32) < 8
     \<and> mpQmapNetDev d (unat (ucast (skb_at s 1) - ucast QUECTEL_QMAP_MUX_ID :: u32)) = None
     \<and> skb_len s < unat (skb_be16 s 2) + 4"

lemma slots_present_cong:
  assumes "slots_present d" and "qmap_mode d' = qmap_mode d"
    and "\<And>k. mpQmapNetDev d k \<noteq> None \<Longrightarrow> mpQmapNetDev d' k \<noteq> None"
  shows "slots_present d'"
  using assms by (simp add: slots_present_def)

lemma map_command_slots:
  "mpQmapNetDev (rmnet_data_map_command alloc s d) = mpQmapNetDev d" "qmap_mode (rmnet_data_map_command alloc s d) = qmap_mode d"
  by (auto simp: rmnet_data_map_command_def Let_def count_command_def rmnet_map_do_flow_control_def net_slot_def
      rmnet_map_send_ack_def alloc_skb_def net_emit_def split: option.split)

lemma qmi_one_progress:
  assumes "slots_present d" and "qmi_one alloc s d = (p, Some m, d')"
  shows "4 \<le> m \<and> m \<le> skb_len s \<and> slots_present d'"
proof -
  let ?k = "ucast (skb_at s 1) - ucast QUECTEL_QMAP_MUX_ID :: u32"
  have mode: "\<not> qmap_mode d \<le> ?k" using assms(2) by (auto simp: qmi_one_def Let_def)
  then have "unat ?k < unat (qmap_mode d)" by (simp add: word_le_nat_alt)
  then obtain n where n: "net_slot (unat ?k) d = (Some n, d)" "mpQmapNetDev d (unat ?k) = Some n"
    using assms(1) by (auto simp: slots_present_def net_slot_def)
  note run = assms(2) [unfolded qmi_one_def Let_def n(1), simplified mode if_False option.case prod.case]
  have "slots_present d'" using run
    by (auto simp: alloc_skb_def map_command_slots rmnet_vnd_upate_rx_stats_def upd_net_def split: if_splits option.splits
        intro!: slots_present_cong [OF assms(1)])
  then show ?thesis using run by (auto simp: alloc_skb_def split: if_splits option.splits)
qed

lemma qmi_loop_total: "slots_present d \<Longrightarrow> \<exists>y. qmi_loop alloc s chain d = Some y"
proof (induction "skb_len s" arbitrary: s chain d rule: less_induct)
  case less
  show ?case
  proof (cases "skb_len s \<le> 4")
    case True
    then show ?thesis by (subst qmi_loop.simps) simp
  next
    case False
    obtain p m d' where one: "qmi_one alloc s d = (p, m, d')" by (metis prod_cases3)
    show ?thesis
    proof (cases m)
      case None
      then show ?thesis using False one by (subst qmi_loop.simps) simp
    next
      case (Some n)
      have "4 \<le> n \<and> n \<le> skb_len s \<and> slots_present d'" using qmi_one_progress [OF less.prems] one Some by blast
      then have "\<exists>y. qmi_loop alloc (skb_pull n s) (case p of None \<Rightarrow> chain | Some p \<Rightarrow> chain @ [p]) d' = Some y"
        using False by (intro less.hyps) (auto simp: skb_pull_def)
      then show ?thesis using False one Some by (subst qmi_loop.simps) simp
    qed
  qed
qed

lemma qmi_one_stuck:
  assumes "stuck_frame s d"
  shows "\<exists>n. qmi_one alloc s d = (None, Some n, d) \<and> skb_len s < n"
proof -
  note f = assms [unfolded stuck_frame_def]
  have "net_slot (unat (ucast (skb_at s 1) - ucast QUECTEL_QMAP_MUX_ID :: u32)) d = (None, d)"
    using f by (simp add: net_slot_def)
  then show ?thesis using f by (auto simp: qmi_one_def Let_def not_le)
qed

lemma qmi_loop_stuck:
  assumes "qmi_loop alloc s chain d = Some y"
  shows "\<not> stuck_frame s d"
proof (rule qmi_loop.raw_induct [OF _ assms])
  fix ql :: "(nat \<Rightarrow> bool) \<Rightarrow> skb \<Rightarrow> rx_packet list \<Rightarrow> mhi_netdev \<Rightarrow> (rx_packet list \<times> mhi_netdev) option"
  fix alloc s chain d y
  assume IH: "\<And>alloc s chain d y. ql alloc s chain d = Some y \<Longrightarrow> \<not> stuck_frame s d"
    and eq: "(if skb_len s \<le> 4 then Some (chain, d)
      else case qmi_one alloc s d of
          (p, None, d) \<Rightarrow> Some (chain, d)
        | (p, Some n, d) \<Rightarrow> ql alloc (skb_pull n s) (case p of None \<Rightarrow> chain | Some p \<Rightarrow> chain @ [p]) d) = Some y"
  show "\<not> stuck_frame s d"
  proof
    assume st: "stuck_frame s d"
    then obtain n where n: "qmi_one alloc s d = (None, Some n, d)" "skb_len s < n" using qmi_one_stuck by blast
    have "ql alloc s chain d = Some y" using eq n st by (simp add: skb_pull_def stuck_frame_def)
    then show False using IH st by blast
  qed
qed



section \<open>MBIM blocks\<close>

text \<open>The bytes in front of a packet, sequence number included.\<close>

definition mbim_block :: "u16 \<Rightarrow> u8 \<Rightarrow> nat \<Rightarrow> u8 list" where
  "mbim_block w tci n =
     [0x4E, 0x43, 0x4D, 0x48, 12, 0] @ le16_bytes w @ le16_bytes (of_nat (sizeof_mbim_hdr + n)) @
     [12, 0, 0x49, 0x50, 0x53, tci, 16, 0, 0, 0, 28, 0] @ le16_bytes (of_nat n) @ [0, 0, 0, 0]"

lemma ucast_tci: "(ucast ((ucast m :: u16) + 1) :: u8) = m + 1" "(ucast (ucast m :: u16) :: u8) = m" for m :: u8
  by (transfer, simp add: take_bit_eq_mod, metis mod_add_left_eq) (transfer, simp add: min_def)

lemma add_mbim_block:
  assumes "sizeof_mbim_hdr \<le> length (skb_head s)"
  shows "\<exists>s'. add_mbim_hdr mode s m = Some s' \<and>
    (\<forall>w. skb_data (set_mbim_seq w s') = mbim_block w (m + (if 1 < mode then 1 else 0)) (skb_len s) @ skb_data s)"
proof -
  let ?h = "drop (length (skb_head s) - 28) (skb_head s)"
  have "length ?h = 28" using assms by (simp add: sizeof_mbim_hdr_def)
  then obtain bs where bs: "?h = bs" "length bs = 28" by blast
  have "(ucast ((ucast m :: u16) + (if 1 < mode then 1 else 0)) :: u8) = m + (if 1 < mode then 1 else 0)"
    by (simp add: ucast_tci)
  then show ?thesis using assms bs
    by (auto simp: add_mbim_hdr_def Let_def skb_push_def sizeof_mbim_hdr_def mbim_block_def set_mbim_seq_def
        put_bytes_def le16_bytes_def not_less)
qed


text \<open>What the receive handler reads in it.\<close>

lemma mbim_block_at:
  assumes "skb_data r = mbim_block w tci n @ rest"
  shows "skb_bytes 0 4 r = [0x4E, 0x43, 0x4D, 0x48]" "skb_bytes 12 3 r = [0x49, 0x50, 0x53]" "skb_at r 15 = tci"
    "skb_le16 r 6 = w" "skb_le16 r 8 = of_nat (sizeof_mbim_hdr + n)" "skb_le16 r 10 = 12" "skb_le16 r 16 = 16"
    "skb_le16 r 18 = 0" "skb_le16 r 20 = 28" "skb_le16 r 22 = of_nat n" "skb_le16 r 24 = 0" "skb_le16 r 26 = 0"
    "skb_len r = 28 + length rest"
proof -
  have at: "skb_at r i = mbim_block w tci n ! i" if "i < 28" for i
  proof -
    have "length (mbim_block w tci n) = 28" by (simp add: mbim_block_def le16_bytes_def)
    then show ?thesis using that assms by (simp add: skb_at_data nth_append)
  qed
  note d = skb_bytes_def skb_le16_def at mbim_block_def le16_bytes_def upt_rec
  show "skb_bytes 0 4 r = [0x4E, 0x43, 0x4D, 0x48]" by (simp add: d)
  show "skb_bytes 12 3 r = [0x49, 0x50, 0x53]" by (simp add: d)
  show "skb_at r 15 = tci" by (simp add: d)
  show "skb_le16 r 6 = w" by (simp add: d le16_bytes_le16)
  show "skb_le16 r 8 = of_nat (sizeof_mbim_hdr + n)" by (simp add: d le16_bytes_le16)
  show "skb_le16 r 10 = 12" by (simp add: d le16_def be16_def)
  show "skb_le16 r 16 = 16" by (simp add: d le16_def be16_def)
  show "skb_le16 r 18 = 0" by (simp add: d le16_def be16_def)
  show "skb_le16 r 20 = 28" by (simp add: d le16_def be16_def)
  show "skb_le16 r 22 = of_nat n" by (simp add: d le16_bytes_le16)
  show "skb_le16 r 24 = 0" by (simp add: d le16_def be16_def)
  show "skb_le16 r 26 = 0" by (simp add: d le16_def be16_def)
  show "skb_len r = 28 + length rest" by (simp add: assms d)
qed

lemma mbim_frames_one:
  assumes r: "skb_data r = mbim_block w tci (length bs) @ bs @ rest"
    and bs: "bs \<noteq> []" "length bs + 28 < 65536" "ip_protocol (hd bs) = Some proto"
    and k: "k < 8" "mpQmapNetDev d k = Some n" and mx: "length bs \<le> unat (mbim_rx_max d)" and ok: "alloc (skb_allocs d)"
  shows "mbim_frames alloc r k 20 2 chain d = (False, chain @ [rx_packet_for d k n proto bs],
    rmnet_vnd_upate_rx_stats k 1 (length bs) (d\<lparr>skb_allocs := Suc (skb_allocs d)\<rparr>))"
proof -
  note m = mbim_block_at [OF r]
  have len: "skb_len r = 28 + length bs + length rest" using m(13) by simp
  have ul: "unat (of_nat (length bs) :: u16) = length bs" using bs(2) by (intro unat_of_nat_less) simp
  have nb: "0 < length bs" using bs(1) by simp
  have first: "skb_at r 28 = hd bs"
    using nb len by (subst skb_at_data) (simp_all add: r mbim_block_def le16_bytes_def nth_append hd_conv_nth)
  have body: "skb_bytes 28 (length bs) r = bs"
    using len by (subst skb_bytes_data) (simp_all add: r mbim_block_def le16_bytes_def)
  have al: "alloc_skb alloc d = (True, d\<lparr>skb_allocs := Suc (skb_allocs d)\<rparr>)" using ok by (simp add: alloc_skb_def)
  have "mbim_frames alloc r k 20 (Suc (Suc 0)) chain d = (False, chain @ [rx_packet_for d k n proto bs],
    rmnet_vnd_upate_rx_stats k 1 (length bs) (d\<lparr>skb_allocs := Suc (skb_allocs d)\<rparr>))"
    using m nb k mx len ul
    by (simp add: Let_def al first bs(3) body net_slot_def rx_packet_cong)
  then show ?thesis by (simp add: numeral_2_eq_2)
qed

lemma ucast_small: "x < 256 \<Longrightarrow> (ucast (of_nat x :: u8) :: 'a :: len word) = of_nat x"
  by (simp add: unsigned_of_nat take_bit_nat_eq_self)

lemma ucast_small_down: "(ucast (of_nat x :: u32) :: u8) = of_nat x"
  by (transfer, simp add: take_bit_of_nat)

lemma ucast_small16: "x < 256 \<Longrightarrow> (ucast (of_nat x :: u16) :: u32) = of_nat x"
  by (simp add: unsigned_of_nat take_bit_nat_eq_self)

lemma session_slot_mux:
  assumes mode: "of_nat k < par_qmap_mode d" "k < 8" and small: "unat (mbim_mux_id d) + k + 1 < 256"
    and m: "(m :: u8) = ucast (mbim_mux_id d) + of_nat k"
  shows "session_slot (ucast (m + (if 1 < par_qmap_mode d then 1 else 0))) d = Some k"
proof -
  define j where "j = unat (mbim_mux_id d)"
  have j: "mbim_mux_id d = of_nat j" "j + k + 1 < 256" using small by (simp_all add: j_def)
  have m: "m = of_nat (j + k)" by (simp add: m j(1) ucast_small_down)
  show ?thesis
  proof (cases "1 < par_qmap_mode d")
    case True
    have "m + 1 = of_nat (j + k + 1)" by (simp add: m)
    then have t: "(ucast (m + 1) :: u16) = of_nat (j + k + 1)" using ucast_small [of "j + k + 1"] j(2) by metis
    have u: "(ucast (ucast (m + 1) :: u16) :: u32) = of_nat j + of_nat k + 1"
      using ucast_small16 [of "j + k + 1"] j(2) unfolding t by simp
    have "unat (of_nat k :: u32) = k" using mode(2) by (intro unat_of_nat_less) simp
    moreover have "\<not> par_qmap_mode d < of_nat k + 1" using mode(1) by (metis inc_le not_less)
    moreover have "par_qmap_mode d \<noteq> 1" using True by auto
    ultimately show ?thesis using True by (simp add: session_slot_def u j(1))
  next
    case False
    have uk: "unat (of_nat k :: u32) = k" using mode(2) by (intro unat_of_nat_less) simp
    have "unat (par_qmap_mode d) \<le> 1" using False by (simp add: word_less_nat_alt not_less)
    moreover have "k < unat (par_qmap_mode d)" using mode(1) uk by (simp add: word_less_nat_alt)
    ultimately have k0: "k = 0" and "unat (par_qmap_mode d) = 1" by simp_all
    then have one: "par_qmap_mode d = 1" by (metis unat_1 word_unat_eq_iff)
    have t: "(ucast m :: u16) = of_nat j" using ucast_small [of j] j(2) k0 by (simp add: m)
    have "(ucast (ucast m :: u16) :: u32) = of_nat j" using ucast_small16 [of j] j(2) unfolding t by simp
    then show ?thesis using one k0 by (simp add: session_slot_def j(1))
  qed
qed

lemma session_slot_seq: "session_slot t (d\<lparr>mbim_rx_seq := w\<rparr>) = session_slot t d"
  by (simp add: session_slot_def)

text \<open>
  C11: Packets survive the MBIM framing: for every number of virtual devices, a packet that is
  given the header of one of them, and any sequence number, is received as exactly one packet,
  for the device it came from, whatever follows it in the buffer. The session in the header is
  counted from one when there are several devices and from zero for a single one, and the
  receiver undoes both. The sequence number it expects next is the following one.
\<close>

theorem mbim_roundtrip:
  assumes "of_nat k < par_qmap_mode d" and "k < 8" and "mpQmapNetDev d k = Some n"
    and "unat (mbim_mux_id d) + k + 1 < 256" and "sizeof_mbim_hdr \<le> length (skb_head s)"
    and "skb_data s \<noteq> []" and "ip_protocol (hd (skb_data s)) = Some proto" and "skb_len s + sizeof_mbim_hdr < 65536"
    and "skb_len s + sizeof_mbim_hdr \<le> unat (mbim_rx_max d)" and "alloc (skb_allocs d)"
    and "add_mbim_hdr (par_qmap_mode d) s (ucast (mbim_mux_id d) + of_nat k) = Some s'"
    and "skb_data r = skb_data (set_mbim_seq w s') @ rest"
  shows "\<exists>d'. rmnet_mbim_rx_handler alloc r d = Some d' \<and> mbim_rx_seq d' = w + 1
    \<and> nd_trace d' = nd_trace d @ [Receive (rx_packet_for d k n proto (skb_data s))]
    \<and> nd_over d' = nd_over d \<and> nd_ub d' = nd_ub d"
proof -
  let ?m = "ucast (mbim_mux_id d) + of_nat k :: u8"
  let ?tci = "?m + (if 1 < par_qmap_mode d then 1 else 0)"
  have r: "skb_data r = mbim_block w ?tci (skb_len s) @ skb_data s @ rest"
    using add_mbim_block [OF assms(5), of "par_qmap_mode d" ?m] assms(11,12) by simp
  note m = mbim_block_at [OF r]
  let ?d = "d\<lparr>mbim_rx_seq := w + 1\<rparr>"
  let ?e = "rmnet_vnd_upate_rx_stats k 1 (skb_len s) (?d\<lparr>skb_allocs := Suc (skb_allocs ?d)\<rparr>)"
  have slot: "session_slot (ucast ?tci) ?d = Some k"
    unfolding session_slot_seq by (rule session_slot_mux [OF assms(1,2,4) refl])
  have pk: "rx_packet_for ?d k n proto (skb_data s) = rx_packet_for d k n proto (skb_data s)"
    by (simp add: rx_packet_for_def bridge_mode_rx_fixup_def)
  have fr: "mbim_frames alloc r k 20 2 [] ?d = (False, [rx_packet_for d k n proto (skb_data s)], ?e)"
    using mbim_frames_one [OF r assms(6) _ assms(7,2), of ?d n alloc "[]"] assms(3,8,9,10) pk
    by (simp add: sizeof_mbim_hdr_def)
  have ns: "net_slot k ?d = (Some n, ?d)" using assms(2,3) by (simp add: net_slot_def)
  have ndp: "mbim_ndp alloc r 12 [] ?d = (False, [rx_packet_for d k n proto (skb_data s)], ?e)"
    using m fr slot ns by (simp add: mbim_ndp_def ndp_session_def Let_def)
  have loop: "mbim_loop alloc r 12 [] ?d = Some ([rx_packet_for d k n proto (skb_data s)], ?e)"
    using ndp m(8) by (subst mbim_loop.simps) (simp, subst mbim_loop.simps, simp)
  have ul: "unat (of_nat (sizeof_mbim_hdr + skb_len s) :: u16) = sizeof_mbim_hdr + skb_len s"
    using assms(8) by (intro unat_of_nat_less) simp
  have run: "rmnet_mbim_rx_handler alloc r d
      = Some (fold (\<lambda>p. net_emit (Receive p)) [rx_packet_for d k n proto (skb_data s)] ?e)"
    unfolding rmnet_mbim_rx_handler_def m(1,4,5,6,13) ul using assms(9) loop by (simp add: sizeof_mbim_hdr_def)
  show ?thesis
    unfolding run by (intro exI conjI, rule refl)
      (simp_all add: net_emit_def rmnet_vnd_upate_rx_stats_def upd_net_def)
qed

definition mbim_netdev :: mhi_netdev where
  "mbim_netdev = zero_netdev\<lparr>net_type := MHI_NET_MBIM, mbim_mux_id := 112\<rparr>"

theorem mbim_roundtrip_witness:
  "\<exists>s' r d'. add_mbim_hdr 2 (demo_skb [0x45, 1, 2]) 113 = Some s' \<and> skb_data r = skb_data (set_mbim_seq 7 s') @ [0xFF]
    \<and> rmnet_mbim_rx_handler (\<lambda>_. True) r mbim_netdev = Some d' \<and> mbim_rx_seq d' = 8
    \<and> map (\<lambda>e. case e of Receive p \<Rightarrow> (rxp_dev p, rxp_data p) | _ \<Rightarrow> (9, [])) (nd_trace d') = [(1, [0x45, 1, 2])]"
proof -
  let ?s = "demo_skb [0x45, 1, 2]"
  obtain s' where s': "add_mbim_hdr 2 ?s 113 = Some s'" by (simp add: add_mbim_hdr_def skb_push_def Let_def demo_skb_def sizeof_mbim_hdr_def)
  let ?r = "demo_skb (skb_data (set_mbim_seq 7 s') @ [0xFF])"
  have r: "skb_data ?r = skb_data (set_mbim_seq 7 s') @ [0xFF]" by (simp add: demo_skb_def)
  note f = mbim_netdev_def zero_netdev_def zero_net_def demo_skb_def sizeof_mbim_hdr_def ip_protocol_def
  obtain d' where d': "rmnet_mbim_rx_handler (\<lambda>_. True) ?r mbim_netdev = Some d' \<and> mbim_rx_seq d' = 7 + 1
    \<and> nd_trace d' = nd_trace mbim_netdev @ [Receive (rx_packet_for mbim_netdev 1 zero_net ETH_P_IP (skb_data ?s))]
    \<and> nd_over d' = nd_over mbim_netdev \<and> nd_ub d' = nd_ub mbim_netdev"
    using mbim_roundtrip [where k = 1 and n = zero_net and d = mbim_netdev and s = ?s and proto = ETH_P_IP
        and alloc = "\<lambda>_. True" and s' = s' and r = ?r and w = 7 and rest = "[0xFF]"] s' r
    by (auto simp: f)
  show ?thesis
    by (intro exI [of _ s'] exI [of _ ?r] exI [of _ d']) (use s' r d' in \<open>simp add: rx_packet_for_def mbim_netdev_def zero_netdev_def demo_skb_def\<close>)
qed

section \<open>The chain of blocks\<close>

text \<open>The offsets the blocks of a buffer name one after the other, and when they only grow.\<close>

inductive on_chain :: "skb \<Rightarrow> nat \<Rightarrow> bool" for s where
  first: "on_chain s (unat (skb_le16 s 10))"
| later: "on_chain s at \<Longrightarrow> at \<noteq> 0 \<Longrightarrow> on_chain s (unat (skb_le16 s (at + 6)))"

definition mbim_increasing :: "skb \<Rightarrow> bool" where
  "mbim_increasing s \<longleftrightarrow> (\<forall>at. on_chain s at \<longrightarrow> at \<noteq> 0 \<longrightarrow> at < skb_len s \<longrightarrow>
     skb_le16 s (at + 6) = 0 \<or> at < unat (skb_le16 s (at + 6)))"

text \<open>A block whose first \<open>ndp16\<close>, without a datagram, names itself as the next one.\<close>

definition self_ndp :: "skb \<Rightarrow> nat \<Rightarrow> mhi_netdev \<Rightarrow> bool" where
  "self_ndp s at d \<longleftrightarrow> at \<noteq> 0 \<and> unat (skb_le16 s (at + 6)) = at \<and> at + 12 \<le> skb_len s
     \<and> 16 \<le> unat (skb_le16 s (at + 4)) \<and> 8 + (unat (skb_le16 s (at + 4)) - 8) div 4 * 4 \<le> skb_len s
     \<and> skb_le16 s (at + 8) = 0
     \<and> (case ndp_session s at of None \<Rightarrow> False
        | Some tci \<Rightarrow> (case session_slot tci d of None \<Rightarrow> False | Some k \<Rightarrow> k < 8))"

definition self_block :: "skb \<Rightarrow> mhi_netdev \<Rightarrow> bool" where
  "self_block s d \<longleftrightarrow> 20 \<le> skb_len s \<and> skb_bytes 0 4 s = [0x4E, 0x43, 0x4D, 0x48]
     \<and> unat (skb_le16 s 8) \<le> unat (mbim_rx_max d) \<and> self_ndp s (unat (skb_le16 s 10)) d"

lemma mbim_ndp_short: "skb_len s < at + 8 \<Longrightarrow> mbim_ndp alloc s at chain d = (True, chain, d)"
  by (simp add: mbim_ndp_def Let_def)

lemma mbim_loop_total: "mbim_increasing s \<Longrightarrow> on_chain s at \<Longrightarrow> \<exists>y. mbim_loop alloc s at chain d = Some y"
proof (induction "skb_len s - at" arbitrary: at chain d rule: less_induct)
  case less
  obtain stop chain' d' where one: "mbim_ndp alloc s at chain d = (stop, chain', d')" by (metis prod_cases3)
  show ?case
  proof (cases "at = 0 \<or> stop")
    case True
    then show ?thesis using one by (subst mbim_loop.simps) auto
  next
    case False
    then have at: "at + 8 \<le> skb_len s" using mbim_ndp_short [of s at alloc chain d] one by (auto simp: not_less [symmetric])
    have "\<exists>y. mbim_loop alloc s (unat (skb_le16 s (at + 6))) chain' d' = Some y"
    proof (cases "skb_le16 s (at + 6) = 0")
      case True
      then show ?thesis by (subst mbim_loop.simps) simp
    next
      case nz: False
      have "at < skb_len s" using at by simp
      then have "at < unat (skb_le16 s (at + 6))" using less.prems nz False unfolding mbim_increasing_def by blast
      then show ?thesis using at less.prems False by (intro less.hyps on_chain.later) auto
    qed
    then show ?thesis using False one by (subst mbim_loop.simps) simp
  qed
qed

lemma self_ndp_round:
  assumes "self_ndp s at d"
  shows "mbim_ndp alloc s at chain d = (False, chain, d)"
proof -
  note f = assms [unfolded self_ndp_def]
  obtain tci k where k: "ndp_session s at = Some tci" "session_slot tci d = Some k" "k < 8"
    using f by (auto split: option.splits)
  let ?n = "(unat (skb_le16 s (at + 4)) - 8) div 4"
  have "4 \<le> unat (skb_le16 s (at + 4)) - 8" using f by linarith
  then have "0 < ?n" by (simp add: div_greater_zero_iff)
  then obtain x where x: "?n = Suc x" using gr0_implies_Suc by blast
  have "mbim_frames alloc s k (at + 8) ?n chain d = (False, chain, d)"
    unfolding x using f by (simp add: Let_def)
  then show ?thesis using f k by (simp add: mbim_ndp_def Let_def net_slot_def)
qed

lemma mbim_loop_self:
  assumes "mbim_loop alloc s at chain d = Some y"
  shows "\<not> self_ndp s at d"
proof (rule mbim_loop.raw_induct [OF _ assms])
  fix ml :: "(nat \<Rightarrow> bool) \<Rightarrow> skb \<Rightarrow> nat \<Rightarrow> rx_packet list \<Rightarrow> mhi_netdev \<Rightarrow> (rx_packet list \<times> mhi_netdev) option"
  fix alloc s at chain d y
  assume IH: "\<And>alloc s at chain d y. ml alloc s at chain d = Some y \<Longrightarrow> \<not> self_ndp s at d"
    and eq: "(if at = 0 then Some (chain, d)
      else case mbim_ndp alloc s at chain d of
          (stop, chain, d) \<Rightarrow>
            if stop then Some (chain, d) else ml alloc s (unat (skb_le16 s (at + 6))) chain d) = Some y"
  show "\<not> self_ndp s at d"
  proof
    assume st: "self_ndp s at d"
    have "ml alloc s at chain d = Some y" using eq self_ndp_round [OF st] st by (simp add: self_ndp_def)
    then show False using IH st by blast
  qed
qed

text \<open>
  C13: The modem decides whether the MBIM receive handler returns. It does whenever the blocks of a
  buffer are chained forward; but nothing checks that, and a block that is accepted and names
  itself as the next one keeps the handler going round forever.
\<close>

theorem mbim_chain:
  "(mbim_increasing s \<longrightarrow> (\<exists>d'. rmnet_mbim_rx_handler alloc s d = Some d'))
   \<and> (self_block s d \<longrightarrow> rmnet_mbim_rx_handler alloc s d = None)"
proof -
  have "rmnet_mbim_rx_handler alloc s d = None" if "self_block s d"
  proof -
    let ?d = "d\<lparr>mbim_rx_seq := skb_le16 s 6 + 1\<rparr>"
    have "self_ndp s (unat (skb_le16 s 10)) ?d"
      using that by (auto simp: self_block_def self_ndp_def session_slot_seq split: option.splits)
    then have "mbim_loop alloc s (unat (skb_le16 s 10)) [] ?d = None"
      using mbim_loop_self by (cases "mbim_loop alloc s (unat (skb_le16 s 10)) [] ?d") blast+
    then show ?thesis using that by (simp add: rmnet_mbim_rx_handler_def self_block_def)
  qed
  then show ?thesis
    using mbim_loop_total [of s] on_chain.first by (auto simp: rmnet_mbim_rx_handler_def)
qed

theorem mbim_chain_witness:
  "\<exists>bs. length bs = 24
    \<and> rmnet_mbim_rx_handler (\<lambda>_. True) (demo_skb bs) (mbim_netdev\<lparr>par_qmap_mode := 1\<rparr>) = None
    \<and> rmnet_mbim_rx_handler (\<lambda>_. True) (demo_skb (bs[18 := 0])) (mbim_netdev\<lparr>par_qmap_mode := 1\<rparr>) \<noteq> None"
proof -
  let ?bs = "[0x4E, 0x43, 0x4D, 0x48, 12, 0, 0, 0, 24, 0, 12, 0, 0x49, 0x50, 0x53, 112, 16, 0, 12, 0, 0, 0, 0, 0] :: u8 list"
  note f = demo_skb_def skb_bytes_def upt_rec skb_le16_def skb_at_def le16_def be16_def ndp_session_def session_slot_def
    mbim_netdev_def zero_netdev_def
  have a: "self_block (demo_skb ?bs) (mbim_netdev\<lparr>par_qmap_mode := 1\<rparr>)"
    by (simp add: self_block_def self_ndp_def f)
  have "at = 12 \<or> at = 0" if "on_chain (demo_skb (?bs[18 := 0])) at" for at
    using that by induction (auto simp: f)
  moreover have "skb_le16 (demo_skb (?bs[18 := 0])) (12 + 6) = 0" by (simp add: f)
  ultimately have b: "mbim_increasing (demo_skb (?bs[18 := 0]))"
    unfolding mbim_increasing_def by blast
  show ?thesis
    using a b mbim_chain [of "demo_skb ?bs" "\<lambda>_. True" "mbim_netdev\<lparr>par_qmap_mode := 1\<rparr>"]
      mbim_chain [of "demo_skb (?bs[18 := 0])" "\<lambda>_. True" "mbim_netdev\<lparr>par_qmap_mode := 1\<rparr>"]
    by (intro exI [of _ ?bs]) simp
qed

end
