(* ===== verification/Mhi_Netdev.thy ===== *)
theory Mhi_Netdev
  imports Mhi_Client Mhi_Qmap
begin

text \<open>
  The network device itself, \<open>devices/mhi_netdev_quectel.c\<close>: the client of the two channels of
  \<open>IP_HW0\<close> or \<open>IP_SW0\<close>. It keeps the receive ring filled with socket buffers, collects the
  frames that arrive and hands them to the framing of \<open>Mhi_Qmap\<close>, sends the frames of the virtual
  devices, stops and wakes the queues, and builds all of this when a modem appears. Its
  operations work on its own state and on the controller. Buffers are addresses; what they hold
  is in \<open>nd_skbs\<close>, which has no entry for a buffer that has been freed.
\<close>

section \<open>State\<close>

text \<open>
  A buffer: its bytes, the address of its data, and the note in \<open>cb\<close> that it is bound to the
  device. \<open>net_priv\<close> is a network interface as the stack sees it.
\<close>

record net_buf =
  nb_skb :: skb
  nb_addr :: u64
  nb_bound :: bool
  nb_length :: u32

record net_if =
  if_mtu :: u32
  if_max_mtu :: u32
  if_stopped :: bool
  if_carrier :: bool
  if_rx_handler :: bool
  if_rx_packets :: u64
  if_rx_bytes :: u64
  if_tx_packets :: u64
  if_tx_bytes :: u64
  if_tx_errors :: u64

datatype netdev_obs =
    Free_skb u64
  | To_stack u64 u16
  | Schedule_alloc_work
  | Napi_complete
  | Register_netdev | Unregister_netdev
  | Register_vnd nat | Unregister_vnd nat

record net_dev =
  nd_frame :: mhi_netdev
  nd_mhi :: mhi_device
  nd_enabled :: bool
  nd_mru :: u32
  nd_max_mtu :: u32
  nd_if :: "net_if option"
  nd_skbs :: "u64 \<Rightarrow> net_buf option"
  rx_allocated :: "u64 list"
  qmap_chain :: "u64 list"
  skbs_asked :: nat
  alloc_pending :: bool
  napi_enabled :: bool
  napi_scheduled :: bool
  stats_rx_int :: u32
  stats_rx_allocated :: u32
  link_state :: u32
  qmap_size :: u32
  use_rmnet_usb :: bool
  info_mux_id :: "nat \<Rightarrow> u8"
  freed_vnds :: "nat list"
  nd_obs :: "netdev_obs list"
  nd_panic :: bool

text \<open>
  What the kernel answers: \<open>os_skb\<close> the buffers it gives, by the number asked for before and
  the size, \<open>os_cloned\<close> which buffers something else holds on to, \<open>os_alloc\<close> the allocations of the
  framing.
\<close>

record net_os =
  os_skb :: "nat \<Rightarrow> u32 \<Rightarrow> (u64 \<times> net_buf) option"
  os_cloned :: "u64 \<Rightarrow> bool"
  os_alloc :: "nat \<Rightarrow> bool"

definition net_see :: "netdev_obs \<Rightarrow> net_dev \<Rightarrow> net_dev" where
  "net_see e n = n\<lparr>nd_obs := nd_obs n @ [e]\<rparr>"

definition upd_skb :: "u64 \<Rightarrow> (net_buf \<Rightarrow> net_buf) \<Rightarrow> net_dev \<Rightarrow> net_dev" where
  "upd_skb p f n = n\<lparr>nd_skbs := (nd_skbs n)(p := map_option f (nd_skbs n p))\<rparr>"

definition free_skb :: "u64 \<Rightarrow> net_dev \<Rightarrow> net_dev" where
  "free_skb p n = net_see (Free_skb p) (n\<lparr>nd_skbs := (nd_skbs n)(p := None)\<rparr>)"

definition upd_if :: "(net_if \<Rightarrow> net_if) \<Rightarrow> net_dev \<Rightarrow> net_dev" where
  "upd_if f n = n\<lparr>nd_if := map_option f (nd_if n)\<rparr>"

definition upd_frame :: "(mhi_netdev \<Rightarrow> mhi_netdev) \<Rightarrow> net_dev \<Rightarrow> net_dev" where
  "upd_frame f n = n\<lparr>nd_frame := f (nd_frame n)\<rparr>"

definition mhi_netdev_upate_rx_stats :: "nat \<Rightarrow> nat \<Rightarrow> net_dev \<Rightarrow> net_dev" where
  "mhi_netdev_upate_rx_stats packets bytes =
     upd_if (\<lambda>i. i\<lparr>if_rx_packets := if_rx_packets i + of_nat packets, if_rx_bytes := if_rx_bytes i + of_nat bytes\<rparr>)"

definition mhi_netdev_upate_tx_stats :: "nat \<Rightarrow> nat \<Rightarrow> net_dev \<Rightarrow> net_dev" where
  "mhi_netdev_upate_tx_stats packets bytes =
     upd_if (\<lambda>i. i\<lparr>if_tx_packets := if_tx_packets i + of_nat packets, if_tx_bytes := if_tx_bytes i + of_nat bytes\<rparr>)"

section \<open>Filling the receive ring\<close>

text \<open>A buffer from the pool, or a new one.\<close>

definition take_skb :: "net_os \<Rightarrow> net_dev \<Rightarrow> u64 option \<times> net_dev" where
  "take_skb no n =
     (case rx_allocated n of
        p # ps \<Rightarrow> (Some p, n\<lparr>rx_allocated := ps\<rparr>)
      | [] \<Rightarrow>
          let r = os_skb no (skbs_asked n) (nd_mru n); n = n\<lparr>skbs_asked := Suc (skbs_asked n)\<rparr>
          in case r of
               None \<Rightarrow> (None, n)
             | Some (p, b) \<Rightarrow>
                 (Some p, n\<lparr>nd_skbs := (nd_skbs n)(p \<mapsto> b), stats_rx_allocated := stats_rx_allocated n + 1\<rparr>))"

definition skb_addr :: "net_dev \<Rightarrow> u64 \<Rightarrow> u64" where
  "skb_addr n p = (case nd_skbs n p of None \<Rightarrow> 0 | Some b \<Rightarrow> nb_addr b)"

fun rx_fill ::
  "mhi_os \<Rightarrow> net_os \<Rightarrow> nat \<Rightarrow> net_dev \<Rightarrow> mhi_controller \<Rightarrow> (unit res \<times> net_dev \<times> mhi_controller) option" where
  "rx_fill os no 0 n c = Some (Inr (), n, c)"
| "rx_fill os no (Suc k) n c =
     (case take_skb no n of
        (None, n) \<Rightarrow> Some (Inl ENOMEM, n, c)
      | (Some p, n) \<Rightarrow>
          if \<not> nd_enabled n then Some (Inl EIO, free_skb p n, c)
          else
            let n = upd_skb p (\<lambda>b. b\<lparr>nb_bound := True\<rparr>) n
            in Option.bind (mhi_queue_transfer os (nd_mhi n) DMA_FROM_DEVICE p (skb_addr n p) (ucast (nd_mru n))
                 (mhi_flags_val MHI_EOT) c)
               (\<lambda>(ret, c). case ret of
                  Inl e \<Rightarrow> Some (Inl EIO, free_skb p n, c)
                | Inr _ \<Rightarrow> rx_fill os no k n c))"

text \<open>\<open>None\<close> is the access through the missing downlink channel.\<close>

definition mhi_netdev_alloc_skb ::
  "mhi_os \<Rightarrow> net_os \<Rightarrow> net_dev \<Rightarrow> mhi_controller \<Rightarrow> (unit res \<times> net_dev \<times> mhi_controller) option" where
  "mhi_netdev_alloc_skb os no n c =
     Option.bind (mhi_get_no_free_descriptors (nd_mhi n) DMA_FROM_DEVICE c)
       (\<lambda>no_tre. rx_fill os no (nat no_tre) n c)"

text \<open>The worker runs itself again later when memory is short; its own retries are never reached.\<close>

definition schedule_alloc_work :: "net_dev \<Rightarrow> net_dev" where
  "schedule_alloc_work n = net_see Schedule_alloc_work (n\<lparr>alloc_pending := True\<rparr>)"

definition mhi_netdev_alloc_work ::
  "mhi_os \<Rightarrow> net_os \<Rightarrow> net_dev \<Rightarrow> mhi_controller \<Rightarrow> (net_dev \<times> mhi_controller) option" where
  "mhi_netdev_alloc_work os no n c =
     Option.bind (mhi_netdev_alloc_skb os no (n\<lparr>alloc_pending := False\<rparr>) c)
       (\<lambda>(ret, n, c). Some (if ret = Inl ENOMEM then schedule_alloc_work n else n, c))"

definition mhi_netdev_dealloc :: "net_dev \<Rightarrow> net_dev" where
  "mhi_netdev_dealloc n = fold free_skb (rx_allocated n) (n\<lparr>rx_allocated := []\<rparr>)"

section \<open>Receiving\<close>

text \<open>
  The completion of a receive buffer into which the device has written \<open>bs\<close>. The number of
  bytes is the device's; \<open>skb_put\<close> panics when the buffer is shorter.
\<close>

definition dma_written :: "u8 list \<Rightarrow> skb \<Rightarrow> skb" where
  "dma_written bs s = s\<lparr>skb_tail := take (length (skb_tail s)) bs @ drop (length bs) (skb_tail s)\<rparr>"

definition mhi_netdev_xfer_dl_cb :: "u8 list \<Rightarrow> mhi_result \<Rightarrow> net_dev \<Rightarrow> net_dev" where
  "mhi_netdev_xfer_dl_cb bs r n =
     (let p = buf_addr r
      in case nd_skbs n p of
           None \<Rightarrow> upd_frame (\<lambda>d. d\<lparr>nd_ub := True\<rparr>) n
         | Some b \<Rightarrow>
             if \<not> nb_bound b then n
             else if transaction_status r \<noteq> None then free_skb p n
             else
               let m = unat (bytes_xferd r); s = dma_written bs (nb_skb b)
               in if length (skb_tail s) < m then n\<lparr>nd_panic := True\<rparr>
                  else (upd_skb p (\<lambda>b. b\<lparr>nb_skb := skb_put m s, nb_bound := False\<rparr>) n)
                         \<lparr>qmap_chain := qmap_chain n @ [p]\<rparr>)"

definition mhi_netdev_ip_type_trans :: "u8 \<Rightarrow> u16" where
  "mhi_netdev_ip_type_trans b =
     (if b AND 0xF0 = 0x40 then ETH_P_IP else if b AND 0xF0 = 0x60 then ETH_P_IPV6 else ETH_P_MAP)"

text \<open>
  The receive handler takes the frame apart and keeps the buffer for the next transfer, with all
  its room behind the head again, unless something else holds on to it or the pool is full.
  What the framing pulled off the front is in the room as well.
\<close>

definition skb_reset :: "skb \<Rightarrow> skb" where
  "skb_reset s = s\<lparr>skb_head := [], skb_data := [], skb_tail := skb_head s @ skb_data s @ skb_tail s\<rparr>"

definition recycle_skb :: "net_os \<Rightarrow> u64 \<Rightarrow> net_dev \<Rightarrow> net_dev" where
  "recycle_skb no p n =
     (if \<not> os_cloned no p \<and> length (rx_allocated n) < 128
      then (upd_skb p (\<lambda>b. b\<lparr>nb_skb := skb_reset (nb_skb b)\<rparr>) n)\<lparr>rx_allocated := rx_allocated n @ [p]\<rparr>
      else free_skb p n)"

text \<open>\<open>True\<close> is \<open>RX_HANDLER_CONSUMED\<close>; a frame of another protocol passes.\<close>

definition rmnet_rx_handler :: "net_os \<Rightarrow> u64 \<Rightarrow> net_dev \<Rightarrow> (bool \<times> net_dev) option" where
  "rmnet_rx_handler no p n =
     (case nd_skbs n p of
        None \<Rightarrow> Some (True, n)
      | Some b \<Rightarrow>
          let s = nb_skb b
          in if skb_protocol s \<noteq> ETH_P_MAP then Some (False, n)
             else Option.bind
               (if net_type (nd_frame n) = MHI_NET_MBIM then rmnet_mbim_rx_handler (os_alloc no) s (nd_frame n)
                else rmnet_qmi_rx_handler (os_alloc no) s (nd_frame n))
               (\<lambda>d. Some (True, recycle_skb no p (n\<lparr>nd_frame := d\<rparr>))))"

definition has_rx_handler :: "net_dev \<Rightarrow> bool" where
  "has_rx_handler n \<longleftrightarrow> (case nd_if n of None \<Rightarrow> False | Some i \<Rightarrow> if_rx_handler i)"

text \<open>The stack gives a frame to the handler of the interface, if there is one.\<close>

definition netif_receive_skb :: "net_os \<Rightarrow> u64 \<Rightarrow> u16 \<Rightarrow> net_dev \<Rightarrow> net_dev option" where
  "netif_receive_skb no p protocol n =
     (let n = upd_skb p (\<lambda>b. b\<lparr>nb_skb := (nb_skb b)\<lparr>skb_protocol := protocol\<rparr>\<rparr>) n;
          keep = (\<lambda>n. n\<lparr>nd_skbs := (nd_skbs n)(p := None)\<rparr>)
      in if has_rx_handler n
         then Option.bind (rmnet_rx_handler no p n)
                (\<lambda>(consumed, n). Some (if consumed then n else net_see (To_stack p protocol) (keep n)))
         else Some (net_see (To_stack p protocol) (keep n)))"

definition receive_one :: "net_os \<Rightarrow> u64 \<Rightarrow> net_dev \<Rightarrow> net_dev option" where
  "receive_one no p n =
     (case nd_skbs n p of
        None \<Rightarrow> Some (upd_frame (\<lambda>d. d\<lparr>nd_ub := True\<rparr>) n)
      | Some b \<Rightarrow>
          netif_receive_skb no p
            (if net_type (nd_frame n) = MHI_NET_ETHER then mhi_netdev_ip_type_trans (skb_at (nb_skb b) 0) else ETH_P_MAP)
            (mhi_netdev_upate_rx_stats 1 (skb_len (nb_skb b)) n))"

fun receive_each :: "net_os \<Rightarrow> u64 list \<Rightarrow> net_dev \<Rightarrow> net_dev option" where
  "receive_each no [] n = Some n"
| "receive_each no (p # ps) n =
     Option.bind (receive_one no p (n\<lparr>qmap_chain := ps\<rparr>)) (receive_each no ps)"

definition drain_chain :: "net_os \<Rightarrow> net_dev \<Rightarrow> net_dev option" where
  "drain_chain no n =
     (if net_type (nd_frame n) = MHI_NET_UNKNOW then Some n else receive_each no (qmap_chain n) n)"

text \<open>
  The callbacks a poll makes: those of the downlink channel, whose event ring is polled. \<open>mem\<close>
  is what the device has written to a buffer.
\<close>

fun dl_callback :: "(u64 \<Rightarrow> u8 list) \<Rightarrow> obs \<Rightarrow> net_dev \<Rightarrow> net_dev" where
  "dl_callback mem (Xfer_cb i r) n =
     (if dl_chan (nd_mhi n) = Some i then mhi_netdev_xfer_dl_cb (mem (buf_addr r)) r n else n)"
| "dl_callback mem _ n = n"

definition napi_complete :: "net_dev \<Rightarrow> net_dev" where
  "napi_complete n = net_see Napi_complete (n\<lparr>napi_scheduled := False\<rparr>)"

definition refill :: "mhi_os \<Rightarrow> net_os \<Rightarrow> net_dev \<Rightarrow> mhi_controller \<Rightarrow> (net_dev \<times> mhi_controller) option" where
  "refill os no n c =
     (if alloc_pending n then Some (n, c)
      else Option.bind (mhi_netdev_alloc_skb os no n c)
        (\<lambda>(ret, n, c). Some (if ret = Inl ENOMEM
           then schedule_alloc_work (upd_frame (\<lambda>d. d\<lparr>alloc_failed := alloc_failed d + 1\<rparr>) n) else n, c)))"

definition mhi_netdev_poll ::
  "mhi_os \<Rightarrow> net_os \<Rightarrow> (u64 \<Rightarrow> u8 list) \<Rightarrow> u32 \<Rightarrow> net_dev \<Rightarrow> mhi_controller \<Rightarrow>
   (nat \<times> net_dev \<times> mhi_controller) option" where
  "mhi_netdev_poll os no mem budget n c =
     Option.bind (mhi_poll os (nd_mhi n) budget c)
       (\<lambda>(ret, c'). let n = fold (dl_callback mem) (drop (length (trace c)) (trace c')) n
          in case ret of
               Inl e \<Rightarrow> Some (0, napi_complete n, c')
             | Inr rx_work \<Rightarrow>
                 Option.bind (drain_chain no n) (\<lambda>n.
                 Option.bind (refill os no n c') (\<lambda>(n, c').
                   Some (rx_work, if rx_work < unat budget then napi_complete n else n, c'))))"

definition mhi_netdev_status_cb :: "MHI_CB \<Rightarrow> net_dev \<Rightarrow> net_dev" where
  "mhi_netdev_status_cb cb n =
     (if cb \<noteq> MHI_CB_PENDING_DATA then n
      else if napi_enabled n \<and> \<not> napi_scheduled n
        then n\<lparr>napi_scheduled := True, stats_rx_int := stats_rx_int n + 1\<rparr>
      else n)"

section \<open>Sending\<close>

definition each_vnd :: "(nat \<Rightarrow> qmap_net \<Rightarrow> mhi_netdev \<Rightarrow> mhi_netdev) \<Rightarrow> mhi_netdev \<Rightarrow> mhi_netdev" where
  "each_vnd f d =
     fold (\<lambda>k d. case net_slot k d of (None, d) \<Rightarrow> d | (Some q, d) \<Rightarrow> f k q d) [0..<unat (qmap_mode d)] d"

definition stop_queues :: "net_dev \<Rightarrow> net_dev" where
  "stop_queues n =
     upd_if (\<lambda>i. i\<lparr>if_stopped := True\<rparr>)
       (upd_frame (each_vnd (\<lambda>k q. upd_net k (\<lambda>q. q\<lparr>qn_stopped := True\<rparr>))) n)"

definition wake_queues :: "net_dev \<Rightarrow> net_dev" where
  "wake_queues n =
     upd_frame (each_vnd (\<lambda>k q d. if qn_stopped q then upd_net k (\<lambda>q. q\<lparr>qn_stopped := False\<rparr>) d else d))
       (upd_if (\<lambda>i. i\<lparr>if_stopped := False\<rparr>) n)"

definition stamp_mbim :: "u64 \<Rightarrow> net_dev \<Rightarrow> net_dev" where
  "stamp_mbim p n =
     (if net_type (nd_frame n) = MHI_NET_MBIM
      then upd_frame (\<lambda>d. d\<lparr>mbim_tx_seq := mbim_tx_seq d + 1\<rparr>)
             (upd_skb p (\<lambda>b. b\<lparr>nb_skb := set_mbim_seq (mbim_tx_seq (nd_frame n)) (nb_skb b)\<rparr>) n)
      else n)"

definition mhi_netdev_xmit ::
  "mhi_os \<Rightarrow> u64 \<Rightarrow> net_dev \<Rightarrow> mhi_controller \<Rightarrow> (net_dev \<times> mhi_controller) option" where
  "mhi_netdev_xmit os p n c =
     (case nd_skbs n p of
        None \<Rightarrow> None
      | Some b \<Rightarrow>
          let ln = skb_len (nb_skb b);
              n = upd_skb p (\<lambda>b. b\<lparr>nb_bound := True, nb_length := of_nat ln\<rparr>) n
          in if net_type (nd_frame n) \<in> {MHI_NET_RMNET, MHI_NET_MBIM} \<and> skb_protocol (nb_skb b) \<noteq> ETH_P_MAP
             then Some (free_skb p n, c)
             else
               let n = stamp_mbim p n
               in Option.bind (mhi_get_no_free_descriptors (nd_mhi n) DMA_TO_DEVICE c) (\<lambda>free.
                  let n = (if free < 16 then stop_queues n else n)
                  in Option.bind (mhi_queue_transfer os (nd_mhi n) DMA_TO_DEVICE p (skb_addr n p) (of_nat ln)
                       (mhi_flags_val MHI_EOT) c)
                     (\<lambda>(res, c). case res of
                        Inr _ \<Rightarrow> Some (n, c)
                      | Inl e \<Rightarrow> Some (upd_if (\<lambda>i. i\<lparr>if_tx_errors := if_tx_errors i + 1\<rparr>) (free_skb p n), c))))"

definition queue_stopped :: "net_dev \<Rightarrow> bool" where
  "queue_stopped n \<longleftrightarrow> (case nd_if n of None \<Rightarrow> False | Some i \<Rightarrow> if_stopped i)"

definition mhi_netdev_xfer_ul_cb :: "mhi_result \<Rightarrow> net_dev \<Rightarrow> mhi_controller \<Rightarrow> net_dev option" where
  "mhi_netdev_xfer_ul_cb r n c =
     (let p = buf_addr r
      in case nd_skbs n p of
           None \<Rightarrow> Some (upd_frame (\<lambda>d. d\<lparr>nd_ub := True\<rparr>) n)
         | Some b \<Rightarrow>
             if \<not> nb_bound b then Some n
             else if transaction_status r \<noteq> None then Some (free_skb p n)
             else
               let n = mhi_netdev_upate_tx_stats 1 (unat (nb_length b)) n
               in Option.bind (if queue_stopped n \<and> nd_enabled n
                     then map_option (\<lambda>free. if 32 < free then wake_queues n else n)
                            (mhi_get_no_free_descriptors (nd_mhi n) DMA_TO_DEVICE c)
                     else Some n)
                  (\<lambda>n. Some (free_skb p n)))"

definition mhi_netdev_open :: "net_dev \<Rightarrow> net_dev" where
  "mhi_netdev_open n = upd_if (\<lambda>i. i\<lparr>if_stopped := ul_chan (nd_mhi n) = None\<rparr>) n"

definition mhi_netdev_change_mtu :: "int \<Rightarrow> net_dev \<Rightarrow> unit res \<times> net_dev" where
  "mhi_netdev_change_mtu new_mtu n =
     (if new_mtu < 0 \<or> mtu (nd_mhi n) < of_int new_mtu then (Inl EINVAL, n)
      else (Inr (), upd_if (\<lambda>i. i\<lparr>if_mtu := of_int new_mtu\<rparr>) n))"

text \<open>The virtual devices: opening one needs the device behind it to be up.\<close>

definition rmnet_vnd_open :: "bool \<Rightarrow> nat \<Rightarrow> net_dev \<Rightarrow> unit res \<times> net_dev" where
  "rmnet_vnd_open real_up k n =
     (if \<not> real_up then (Inl ENETDOWN, n)
      else (Inr (), case nd_if n of
              None \<Rightarrow> n
            | Some i \<Rightarrow> if if_carrier i then upd_frame (upd_net k (\<lambda>q. q\<lparr>qn_carrier := True\<rparr>)) n else n))"

definition rmnet_vnd_stop :: "nat \<Rightarrow> net_dev \<Rightarrow> net_dev" where
  "rmnet_vnd_stop k = upd_frame (upd_net k (\<lambda>q. q\<lparr>qn_carrier := False\<rparr>))"

section \<open>Settings\<close>

text \<open>
  The link state user space writes: the number of a virtual device to switch it on, with
  \<open>0x80\<close> added to switch it off; with a single device, anything but zero is on.
\<close>

definition set_vnd_carrier :: "nat \<Rightarrow> bool \<Rightarrow> net_dev \<Rightarrow> net_dev" where
  "set_vnd_carrier k on = upd_frame (\<lambda>d. case net_slot k d of
     (None, d) \<Rightarrow> d | (Some q, d) \<Rightarrow> upd_net k (\<lambda>q. q\<lparr>qn_carrier := on\<rparr>) d)"

definition link_state_store :: "u32 \<Rightarrow> net_dev \<Rightarrow> net_dev" where
  "link_state_store v n =
     (let mode = qmap_mode (nd_frame n); old = link_state n;
          offset_id = (if 1 < mode then (v AND 0xF) - 1 else 0);
          new = (if 1 < mode
                 then if 0 < v \<and> v \<le> mode then old OR push_bit (unat offset_id) 1
                      else if 0x80 < v \<and> v \<le> 0x80 + mode then old AND NOT (push_bit (unat offset_id) 1)
                      else old
                 else if v \<noteq> 0 then 1 else 0);
          n = n\<lparr>link_state := new\<rparr>
      in if old = new then n
         else set_vnd_carrier (unat offset_id) (new AND push_bit (unat offset_id) 1 \<noteq> 0)
                (upd_if (\<lambda>i. i\<lparr>if_carrier := new \<noteq> 0\<rparr>) n))"

text \<open>\<open>sz\<close> is the size the caller put into the settings; the padding is taken as it is.\<close>

definition sizeof_QMAP_SETTING :: u32 where "sizeof_QMAP_SETTING = 32"

definition qmap_setting_store :: "u32 \<Rightarrow> u32 \<Rightarrow> net_dev \<Rightarrow> unit res \<times> net_dev" where
  "qmap_setting_store sz padding n =
     (if sz \<noteq> sizeof_QMAP_SETTING then (Inl EOPNOTSUPP, n)
      else (Inr (), upd_frame (\<lambda>d. d\<lparr>dl_minimum_padding := padding\<rparr>) n))"

text \<open>
  The calls user space makes; \<open>copied\<close> says whether its memory could be read or written. What
  \<open>copy_from_user\<close> returns then is the number of bytes left, no error code: \<open>Bytes_left\<close>.
\<close>

datatype ioctl_arg = Link_state u32 | Qmap_settings u32 u32 | Rmnet_info | Other_cmd

datatype ioctl_ret = Ioctl_ok | Ioctl_error errno | Bytes_left

definition qmap_ndo_do_ioctl :: "bool \<Rightarrow> ioctl_arg \<Rightarrow> net_dev \<Rightarrow> ioctl_ret \<times> net_dev" where
  "qmap_ndo_do_ioctl copied a n =
     (case a of
        Link_state v \<Rightarrow> if copied then (Ioctl_ok, link_state_store v n) else (Bytes_left, n)
      | Qmap_settings sz padding \<Rightarrow>
          if copied then (case qmap_setting_store sz padding n of
             (Inl e, n) \<Rightarrow> (Ioctl_error e, n) | (Inr _, n) \<Rightarrow> (Ioctl_ok, n))
          else (Bytes_left, n)
      | Rmnet_info \<Rightarrow>
          (if \<not> use_rmnet_usb n then Ioctl_error EOPNOTSUPP else if copied then Ioctl_ok else Bytes_left, n)
      | Other_cmd \<Rightarrow> (Ioctl_error EOPNOTSUPP, n))"

text \<open>
  Bridge settings of a virtual device or, with \<open>None\<close>, of the device itself, which is no ethernet
  device and never looks at its bridge address.
\<close>

definition bridge_ipv4_store :: "u32 \<Rightarrow> nat option \<Rightarrow> mhi_netdev \<Rightarrow> mhi_netdev" where
  "bridge_ipv4_store v k d =
     (case k of None \<Rightarrow> d | Some k \<Rightarrow> upd_net k (\<lambda>q. q\<lparr>qn_bridge_ipv4 := v\<rparr>) d)"

definition bridge_mode_store :: "u32 \<Rightarrow> nat option \<Rightarrow> mhi_netdev \<Rightarrow> mhi_netdev" where
  "bridge_mode_store v k d =
     (case k of
        None \<Rightarrow> d
      | Some k \<Rightarrow> upd_net k (\<lambda>q. if qn_ether q then q\<lparr>qn_bridge_mode := v\<rparr> else q) d)"

section \<open>Building and removing\<close>

text \<open>
  What the kernel answers while the devices are built: allocations of interfaces and their
  registrations, the virtual ones by their number.
\<close>

record build_os =
  devm_ok :: bool
  stats_ok :: bool
  netdev_alloc_ok :: bool
  netdev_register :: "errno option"
  vnd_alloc_ok :: "nat \<Rightarrow> bool"
  vnd_register :: "nat \<Rightarrow> errno option"

text \<open>An interface as \<open>mhi_netdev_setup\<close> leaves it: no ethernet header, no carrier.\<close>

definition new_if :: net_if where
  "new_if = \<lparr>if_mtu = 1500, if_max_mtu = 1500, if_stopped = False, if_carrier = True, if_rx_handler = False,
     if_rx_packets = 0, if_rx_bytes = 0, if_tx_packets = 0, if_tx_bytes = 0, if_tx_errors = 0\<rparr>"

definition node_id :: "u8 list" where "node_id = [0x02, 0x50, 0xF4, 0, 0, 0]"

text \<open>
  A virtual device takes the address of the interface with its own number in the last byte.
  When it cannot be registered it is freed, and the freed pointer is returned all the same.
\<close>

definition new_vnd :: "nat \<Rightarrow> u8 \<Rightarrow> mhi_netdev \<Rightarrow> qmap_net" where
  "new_vnd offset_id mux_id d =
     \<lparr>qn_mtu = 1500, qn_ether = True, qn_addr = node_id[5 := of_nat offset_id + 1], qn_stopped = False,
      qn_carrier = False, qn_mux_id = mux_id, qn_qmap_version = ucast (qmap_version d),
      qn_bridge_mode = (if nd_bridge_mode d AND push_bit offset_id 1 \<noteq> 0 then 1 else 0), qn_bridge_ipv4 = 0,
      qn_bridge_mac = replicate 6 0, qn_rx_packets = 0, qn_rx_bytes = 0, qn_tx_packets = 0, qn_tx_bytes = 0,
      qn_tx_errors = 0\<rparr>"

definition rmnet_vnd_register_device ::
  "build_os \<Rightarrow> nat \<Rightarrow> u8 \<Rightarrow> net_dev \<Rightarrow> qmap_net option \<times> net_dev" where
  "rmnet_vnd_register_device bo offset_id mux_id n =
     (if \<not> vnd_alloc_ok bo offset_id then (None, n)
      else
        let q = new_vnd offset_id mux_id (nd_frame n)
        in case vnd_register bo offset_id of
             None \<Rightarrow> (Some q, net_see (Register_vnd offset_id) n)
           | Some e \<Rightarrow> (Some q, n\<lparr>freed_vnds := freed_vnds n @ [offset_id]\<rparr>))"

definition rmnet_vnd_unregister_device :: "nat \<Rightarrow> net_dev \<Rightarrow> net_dev" where
  "rmnet_vnd_unregister_device k n =
     (if k \<in> set (freed_vnds n) then upd_frame (\<lambda>d. d\<lparr>nd_ub := True\<rparr>) n else net_see (Unregister_vnd k) n)"

definition store_vnd :: "nat \<Rightarrow> qmap_net option \<Rightarrow> mhi_netdev \<Rightarrow> mhi_netdev" where
  "store_vnd k q d =
     (if k < 8 then d\<lparr>mpQmapNetDev := (mpQmapNetDev d)(k := q)\<rparr> else d\<lparr>nd_ub := True\<rparr>)"

text \<open>
  One virtual device of the probe function; the array of devices has eight entries. The
  software channels have no virtual device; their slot 0 is the interface itself, kept as
  \<open>nd_if\<close> alone.
\<close>

definition vnd_mux_id :: "bool \<Rightarrow> nat \<Rightarrow> mhi_netdev \<Rightarrow> u8" where
  "vnd_mux_id mbim k d = (if mbim then ucast (mbim_mux_id d) + of_nat k else QUECTEL_QMAP_MUX_ID + of_nat k)"

definition probe_vnd :: "build_os \<Rightarrow> bool \<Rightarrow> nat \<Rightarrow> net_dev \<Rightarrow> net_dev" where
  "probe_vnd bo mbim k n =
     (let mux_id = vnd_mux_id mbim k (nd_frame n);
          (q, n) = rmnet_vnd_register_device bo k mux_id n;
          n = upd_frame (store_vnd k q) n
      in if q = None then n else n\<lparr>info_mux_id := (info_mux_id n)(k := mux_id)\<rparr>)"

text \<open>
  Bringing the interface up: start the channels, create the interface the first time, fill the
  receive ring and let it be polled. A receive ring that cannot be filled is filled later.
\<close>

definition mhi_netdev_enable_iface ::
  "mhi_os \<Rightarrow> (nat \<Rightarrow> mhi_controller \<Rightarrow> mhi_controller) \<Rightarrow> net_os \<Rightarrow> build_os \<Rightarrow> u32 \<Rightarrow> net_dev \<Rightarrow> mhi_controller \<Rightarrow>
   (unit res \<times> net_dev \<times> mhi_controller) option" where
  "mhi_netdev_enable_iface os envs no bo par_bridge_mode n c =
     Option.bind (mhi_prepare_for_transfer os envs (nd_mhi n) c)
       (\<lambda>(ret, c). case ret of
          Inl e \<Rightarrow> Some (Inl e, n, c)
        | Inr _ \<Rightarrow>
            let first = nd_if n = None;
                failed = (\<lambda>e n c. map_option (\<lambda>c. (Inl e, n, c)) (mhi_unprepare_from_transfer os (\<lambda>k. envs (k + 3)) (nd_mhi n) c))
            in if first \<and> \<not> netdev_alloc_ok bo then failed ENOMEM n c
               else
                 let n = (if \<not> first then n
                          else if net_type (nd_frame n) = MHI_NET_ETHER
                            then n\<lparr>nd_if := Some (new_if\<lparr>if_mtu := nd_mru n, if_max_mtu := nd_max_mtu n\<rparr>)\<rparr>
                          else upd_frame (\<lambda>d. d\<lparr>nd_bridge_mode := par_bridge_mode\<rparr>)
                                 (n\<lparr>nd_if := Some (new_if\<lparr>if_max_mtu := nd_max_mtu n\<rparr>)\<rparr>))
                 in case (if first then netdev_register bo else None) of
                      Some e \<Rightarrow> failed e (n\<lparr>nd_if := None\<rparr>) c
                    | None \<Rightarrow>
                        let n = (if first then net_see Register_netdev (upd_if (\<lambda>i. i\<lparr>if_carrier := False\<rparr>) n) else n)
                        in Option.bind (mhi_netdev_alloc_skb os no (n\<lparr>nd_enabled := True\<rparr>) c)
                             (\<lambda>(ret, n, c).
                               let n = (if is_ok ret then n else schedule_alloc_work n)
                               in Some (Inr (), n\<lparr>napi_enabled := True\<rparr>, c)))"

text \<open>The kind of device and its sizes, by the name of its channels and the kind of modem.\<close>

definition MBIM_MUX_ID_SDX7X :: u32 where "MBIM_MUX_ID_SDX7X = 112"
definition QCUSB_MRECEIVE_MAX_BUFFER_SIZE :: u32 where "QCUSB_MRECEIVE_MAX_BUFFER_SIZE = 0x8000"

definition probe_type :: "bool \<Rightarrow> string \<Rightarrow> mhi_net_type option" where
  "probe_type mbim name =
     (if name = ''IP_HW0'' then Some (if mbim then MHI_NET_MBIM else MHI_NET_RMNET)
      else if name = ''IP_SW0'' then Some MHI_NET_ETHER
      else None)"

definition probe_mru :: "mhi_net_type \<Rightarrow> u32 \<times> u32" where
  "probe_mru t =
     (case t of
        MHI_NET_MBIM \<Rightarrow> (QCUSB_MRECEIVE_MAX_BUFFER_SIZE, QCUSB_MRECEIVE_MAX_BUFFER_SIZE - of_nat sizeof_mbim_hdr)
      | MHI_NET_ETHER \<Rightarrow> (8 * 1024, 8 * 1024)
      | _ \<Rightarrow> (15 * 1024, 15 * 1024 - 8))"

definition qmap_v5_modem :: "u32 \<Rightarrow> u32 \<Rightarrow> bool" where
  "qmap_v5_modem vendor dev_id \<longleftrightarrow>
     (vendor, dev_id) \<in> {(0x17CB, 0x0306), (0x17CB, 0x0308), (0x1EAC, 0x1004), (0x17CB, 0x011A), (0x1EAC, 0x100B),
                          (0x17CB, 0x0309)}"

definition sdx7x_modem :: "u32 \<Rightarrow> u32 \<Rightarrow> bool" where
  "sdx7x_modem vendor dev_id \<longleftrightarrow> (vendor, dev_id) \<in> {(0x17CB, 0x0309), (0x17CB, 0x011A), (0x1EAC, 0x100B)}"

definition new_frame :: "u32 \<Rightarrow> u32 \<Rightarrow> u32 \<Rightarrow> mhi_net_type \<Rightarrow> mhi_netdev" where
  "new_frame par_mode vendor dev_id t =
     \<lparr>net_type = t, par_qmap_mode = par_mode, qmap_mode = (if t = MHI_NET_ETHER then 1 else par_mode),
      qmap_version = (if t = MHI_NET_ETHER then 0 else if qmap_v5_modem vendor dev_id then 9 else 5),
      dl_minimum_padding = 0, flow_control = 0, mpQmapNetDev = (\<lambda>_. None), map_command_stats = (\<lambda>_. 0),
      alloc_failed = 0, mbim_mux_id = (if sdx7x_modem vendor dev_id then MBIM_MUX_ID_SDX7X else 0),
      mbim_tx_seq = 0, mbim_rx_seq = 0, mbim_rx_max = (if t = MHI_NET_MBIM then fst (probe_mru t) else 0),
      nd_bridge_mode = 0, nd_bridge_mac = replicate 6 0, skb_allocs = 0, nd_trace = [], nd_over = False, nd_ub = False\<rparr>"

definition new_net_dev :: "u32 \<Rightarrow> u32 \<Rightarrow> u32 \<Rightarrow> mhi_net_type \<Rightarrow> mhi_device \<Rightarrow> net_dev" where
  "new_net_dev par_mode vendor dev_id t d =
     \<lparr>nd_frame = new_frame par_mode vendor dev_id t, nd_mhi = d, nd_enabled = False, nd_mru = fst (probe_mru t),
      nd_max_mtu = snd (probe_mru t), nd_if = None, nd_skbs = (\<lambda>_. None), rx_allocated = [], qmap_chain = [],
      skbs_asked = 0, alloc_pending = False, napi_enabled = False, napi_scheduled = False, stats_rx_int = 0,
      stats_rx_allocated = 0, link_state = 0, qmap_size = fst (probe_mru t), use_rmnet_usb = (t \<noteq> MHI_NET_ETHER),
      info_mux_id = (\<lambda>_. 0), freed_vnds = [], nd_obs = [], nd_panic = False\<rparr>"

definition mhi_netdev_probe ::
  "mhi_os \<Rightarrow> (nat \<Rightarrow> mhi_controller \<Rightarrow> mhi_controller) \<Rightarrow> net_os \<Rightarrow> build_os \<Rightarrow> bool \<Rightarrow> u32 \<Rightarrow> u32 \<Rightarrow> u32 \<Rightarrow> u32 \<Rightarrow>
   string \<Rightarrow> mhi_device \<Rightarrow> mhi_controller \<Rightarrow> (net_dev res \<times> mhi_controller) option" where
  "mhi_netdev_probe os envs no bo mbim par_mode par_bridge vendor dev_id name d c =
     (if \<not> devm_ok bo then Some (Inl ENOMEM, c)
      else case probe_type mbim name of
        None \<Rightarrow> Some (Inl EINVAL, c)
      | Some t \<Rightarrow>
          if \<not> stats_ok bo then Some (Inl ENOMEM, c)
          else Option.bind (mhi_netdev_enable_iface os envs no bo par_bridge (new_net_dev par_mode vendor dev_id t d) c)
            (\<lambda>(ret, n, c). case ret of
               Inl e \<Rightarrow> Some (Inl e, c)
             | Inr _ \<Rightarrow>
                 if t = MHI_NET_ETHER then Some (Inr (upd_if (\<lambda>i. i\<lparr>if_carrier := True\<rparr>) n), c)
                 else Some (Inr (upd_if (\<lambda>i. i\<lparr>if_rx_handler := True\<rparr>)
                        (fold (probe_vnd bo mbim) [0..<unat (qmap_mode (nd_frame n))] n)), c)))"

text \<open>
  Removing: the virtual devices, the buffers kept, and the interface. A pending worker is run
  once more, on the device that is disabled by then.
\<close>

definition remove_vnd :: "nat \<Rightarrow> net_dev \<Rightarrow> net_dev" where
  "remove_vnd k n =
     (case net_slot k (nd_frame n) of
        (q, d) \<Rightarrow>
          let n = n\<lparr>nd_frame := d\<rparr>
          in upd_frame (store_vnd k None) (if q = None then n else rmnet_vnd_unregister_device k n))"

definition mhi_netdev_remove ::
  "mhi_os \<Rightarrow> net_os \<Rightarrow> net_dev \<Rightarrow> mhi_controller \<Rightarrow> (net_dev \<times> mhi_controller) option" where
  "mhi_netdev_remove os no n c =
     (let n = fold remove_vnd [0..<unat (qmap_mode (nd_frame n))] (n\<lparr>nd_enabled := False\<rparr>);
          n = upd_if (\<lambda>i. i\<lparr>if_rx_handler := False\<rparr>) n;
          n = fold free_skb (qmap_chain n) (n\<lparr>qmap_chain := []\<rparr>);
          n = fold free_skb (rx_allocated n) (n\<lparr>rx_allocated := []\<rparr>);
          n = mhi_netdev_dealloc (n\<lparr>napi_enabled := False\<rparr>);
          n = net_see Unregister_netdev (n\<lparr>nd_if := None\<rparr>)
      in if alloc_pending n then mhi_netdev_alloc_work os no n c else Some (n, c))"

text \<open>The reset user space can ask for: stop the channels, drop the pool, start again.\<close>

definition mhi_netdev_debugfs_trigger_reset ::
  "mhi_os \<Rightarrow> (nat \<Rightarrow> mhi_controller \<Rightarrow> mhi_controller) \<Rightarrow> net_os \<Rightarrow> build_os \<Rightarrow> u32 \<Rightarrow> net_dev \<Rightarrow> mhi_controller \<Rightarrow>
   (unit res \<times> net_dev \<times> mhi_controller) option" where
  "mhi_netdev_debugfs_trigger_reset os envs no bo par_bridge n c =
     (let n = n\<lparr>nd_enabled := False, napi_enabled := False\<rparr>
      in Option.bind (mhi_unprepare_from_transfer os (\<lambda>k. envs (k + 5)) (nd_mhi n) c)
           (mhi_netdev_enable_iface os envs no bo par_bridge (mhi_netdev_dealloc n)))"

section \<open>Whose a buffer is\<close>

text \<open>
  Every receive buffer is in one place: with the device (\<open>ps\<close>), in the pool or on the chain of
  frames to hand on; \<open>ts\<close> are the frames being sent. None of them has been freed, and those
  with the device are bound.
\<close>

definition live :: "net_dev \<Rightarrow> u64 \<Rightarrow> bool" where
  "live n p \<longleftrightarrow> nd_skbs n p \<noteq> None"

definition bound :: "net_dev \<Rightarrow> u64 \<Rightarrow> bool" where
  "bound n p \<longleftrightarrow> map_option nb_bound (nd_skbs n p) = Some True"

definition rx_owned :: "u64 list \<Rightarrow> u64 list \<Rightarrow> net_dev \<Rightarrow> bool" where
  "rx_owned ps ts n \<longleftrightarrow> distinct (ps @ ts @ rx_allocated n @ qmap_chain n)
     \<and> (\<forall>p \<in> set (rx_allocated n @ qmap_chain n). live n p) \<and> (\<forall>p \<in> set (ps @ ts). bound n p)"

text \<open>The kernel hands out buffers that nobody has, each once.\<close>

definition fresh_os :: "net_os \<Rightarrow> net_dev \<Rightarrow> bool" where
  "fresh_os no n \<longleftrightarrow>
     (\<forall>k z p b. skbs_asked n \<le> k \<longrightarrow> os_skb no k z = Some (p, b) \<longrightarrow> \<not> live n p)
     \<and> (\<forall>j k y z p b b'. skbs_asked n \<le> j \<longrightarrow> os_skb no j y = Some (p, b) \<longrightarrow> os_skb no k z = Some (p, b') \<longrightarrow> j = k)"

lemma bound_live: "bound n p \<Longrightarrow> live n p"
  by (auto simp: bound_def live_def split: option.splits)

lemma free_skb_fields [simp]:
  "rx_allocated (free_skb p n) = rx_allocated n" "qmap_chain (free_skb p n) = qmap_chain n"
  "nd_mhi (free_skb p n) = nd_mhi n" "nd_mru (free_skb p n) = nd_mru n" "skbs_asked (free_skb p n) = skbs_asked n"
  "nd_enabled (free_skb p n) = nd_enabled n" "nd_frame (free_skb p n) = nd_frame n"
  "live (free_skb p n) q \<longleftrightarrow> q \<noteq> p \<and> live n q" "bound (free_skb p n) q \<longleftrightarrow> q \<noteq> p \<and> bound n q"
  by (auto simp: free_skb_def net_see_def live_def bound_def)

lemma upd_skb_fields [simp]:
  "rx_allocated (upd_skb p f n) = rx_allocated n" "qmap_chain (upd_skb p f n) = qmap_chain n"
  "nd_mhi (upd_skb p f n) = nd_mhi n" "nd_mru (upd_skb p f n) = nd_mru n" "skbs_asked (upd_skb p f n) = skbs_asked n"
  "nd_enabled (upd_skb p f n) = nd_enabled n" "nd_frame (upd_skb p f n) = nd_frame n"
  "nd_panic (upd_skb p f n) = nd_panic n"
  "live (upd_skb p f n) q \<longleftrightarrow> live n q"
  by (auto simp: upd_skb_def live_def)

lemma bound_upd_skb:
  "bound (upd_skb p f n) q \<longleftrightarrow> (if q = p then map_option (\<lambda>b. nb_bound (f b)) (nd_skbs n p) = Some True else bound n q)"
  by (auto simp: bound_def upd_skb_def option.map_comp comp_def)

text \<open>A step that touches none of the buffers that are owned keeps them owned.\<close>

lemma rx_owned_frame:
  assumes "rx_owned ps ts n" and "rx_allocated n' = rx_allocated n" and "qmap_chain n' = qmap_chain n"
    and "\<And>q. q \<in> set (ps @ ts @ rx_allocated n @ qmap_chain n) \<Longrightarrow> nd_skbs n' q = nd_skbs n q"
  shows "rx_owned ps ts n'"
proof -
  have "live n' q = live n q" "bound n' q = bound n q" if "q \<in> set (ps @ ts @ rx_allocated n @ qmap_chain n)" for q
    using assms(4) [OF that] by (simp_all add: live_def bound_def)
  then show ?thesis using assms(1) unfolding rx_owned_def assms(2,3) by auto
qed

text \<open>Taking a buffer for the ring: it was in the pool, or it is new.\<close>

lemma fresh_os_later:
  assumes "fresh_os no n" and "skbs_asked n \<le> skbs_asked n'" and "\<And>p. live n' p \<Longrightarrow> live n p"
  shows "fresh_os no n'"
  using assms unfolding fresh_os_def by (meson le_trans)

lemma take_skb_pool:
  assumes "rx_owned ps ts n" and "rx_allocated n = p # qs"
  shows "take_skb no n = (Some p, n\<lparr>rx_allocated := qs\<rparr>)" and "rx_owned ps ts (n\<lparr>rx_allocated := qs\<rparr>)"
    and "live n p \<and> p \<notin> set (ps @ ts @ qs @ qmap_chain n)"
  using assms by (auto simp: take_skb_def rx_owned_def live_def bound_def)

lemma take_skb_new:
  assumes "rx_owned ps ts n" and "fresh_os no n" and "os_skb no (skbs_asked n) (nd_mru n) = Some (p, b)"
  defines "n' \<equiv> n\<lparr>skbs_asked := Suc (skbs_asked n), nd_skbs := (nd_skbs n)(p \<mapsto> b),
          stats_rx_allocated := stats_rx_allocated n + 1\<rparr>"
  shows "fresh_os no n'" and "rx_owned ps ts n'" and "live n' p \<and> p \<notin> set (ps @ ts @ rx_allocated n @ qmap_chain n)"
proof -
  have new: "\<not> live n p" using assms(2,3) unfolding fresh_os_def by blast
  have out: "p \<notin> set (ps @ ts @ rx_allocated n @ qmap_chain n)"
    using new assms(1) bound_live unfolding rx_owned_def by auto
  have l: "live n' q \<longleftrightarrow> q = p \<or> live n q" "q \<noteq> p \<Longrightarrow> bound n' q = bound n q" for q
    by (auto simp: n'_def live_def bound_def)
  have f: "skbs_asked n' = Suc (skbs_asked n)" by (simp add: n'_def)
  show "fresh_os no n'"
    unfolding fresh_os_def l f
  proof (intro conjI allI impI)
    fix k z q c
    assume k: "Suc (skbs_asked n) \<le> k" and q: "os_skb no k z = Some (q, c)"
    then have "\<not> live n q" using assms(2) unfolding fresh_os_def by (meson Suc_leD)
    moreover have "q \<noteq> p"
    proof
      assume "q = p"
      then have "skbs_asked n = k" using assms(2,3) q unfolding fresh_os_def by (meson order_refl)
      then show False using k by simp
    qed
    ultimately show "\<not> (q = p \<or> live n q)" by blast
  next
    fix j k y z q c c'
    assume "Suc (skbs_asked n) \<le> j" "os_skb no j y = Some (q, c)" "os_skb no k z = Some (q, c')"
    then show "j = k" using assms(2) unfolding fresh_os_def by (meson Suc_leD)
  qed
  show "rx_owned ps ts n'" using assms(1)
    by (rule rx_owned_frame) (use out in \<open>auto simp: n'_def\<close>)
  show "live n' p \<and> p \<notin> set (ps @ ts @ rx_allocated n @ qmap_chain n)" using out l by blast
qed

lemma take_skb_owned:
  assumes "rx_owned ps ts n" and "fresh_os no n" and "take_skb no n = (r, n')"
  shows "fresh_os no n' \<and> nd_mhi n' = nd_mhi n \<and> nd_enabled n' = nd_enabled n \<and> nd_mru n' = nd_mru n \<and> rx_owned ps ts n'
    \<and> skbs_asked n \<le> skbs_asked n' \<and> skbs_asked n' \<le> Suc (skbs_asked n)
    \<and> (case r of None \<Rightarrow> rx_allocated n = [] \<and> os_skb no (skbs_asked n) (nd_mru n) = None
       | Some p \<Rightarrow> live n' p \<and> p \<notin> set (ps @ ts @ rx_allocated n' @ qmap_chain n'))"
proof (cases "rx_allocated n")
  case (Cons p qs)
  note t = take_skb_pool [OF assms(1) Cons]
  have "fresh_os no (n\<lparr>rx_allocated := qs\<rparr>)" using assms(2) by (rule fresh_os_later) (simp_all add: live_def)
  then show ?thesis using t assms(3) by (auto simp: live_def)
next
  case Nil
  show ?thesis
  proof (cases "os_skb no (skbs_asked n) (nd_mru n)")
    case None
    have "fresh_os no (n\<lparr>skbs_asked := Suc (skbs_asked n)\<rparr>)" using assms(2) by (rule fresh_os_later) (simp_all add: live_def)
    moreover have "rx_owned ps ts (n\<lparr>skbs_asked := Suc (skbs_asked n)\<rparr>)"
      using assms(1) unfolding rx_owned_def live_def bound_def by simp
    ultimately show ?thesis using assms(3) Nil None by (auto simp: take_skb_def Let_def)
  next
    case (Some pb)
    obtain p b where pb: "pb = (p, b)" by (cases pb)
    show ?thesis
      using take_skb_new [OF assms(1,2) Some [unfolded pb]] assms(3) Nil Some pb by (auto simp: take_skb_def Let_def)
  qed
qed

section \<open>Filling the ring\<close>

text \<open>
  The device and its downlink channel: the channel is a client's, takes socket buffers, and what
  the rings hold are the device's own buffers.
\<close>

definition rx_ready :: "nat \<Rightarrow> u64 list \<Rightarrow> net_dev \<Rightarrow> mhi_controller \<Rightarrow> bool" where
  "rx_ready i ts n c \<longleftrightarrow> dl_chan (nd_mhi n) = Some i \<and> client_chan i c
     \<and> queue_xfer (mhi_chan c i) = mhi_queue_skb_fn \<and> \<not> offload_ch (mhi_chan c i)
     \<and> rx_owned (posted_on i c) ts n"

lemma bind_owned:
  assumes "rx_owned ps ts n" and "live n p" and "p \<notin> set (ps @ ts @ rx_allocated n @ qmap_chain n)"
  shows "rx_owned (ps @ [p]) ts (upd_skb p (\<lambda>b. b\<lparr>nb_bound := True\<rparr>) n)"
    and "rx_owned ps ts (upd_skb p (\<lambda>b. b\<lparr>nb_bound := True\<rparr>) n)"
proof -
  have b: "bound (upd_skb p (\<lambda>b. b\<lparr>nb_bound := True\<rparr>) n) q \<longleftrightarrow> q = p \<or> bound n q" for q
    using assms(2) by (auto simp: bound_upd_skb live_def)
  show "rx_owned (ps @ [p]) ts (upd_skb p (\<lambda>b. b\<lparr>nb_bound := True\<rparr>) n)"
    "rx_owned ps ts (upd_skb p (\<lambda>b. b\<lparr>nb_bound := True\<rparr>) n)"
    using assms(1,3) b unfolding rx_owned_def by auto
qed

lemma free_owned:
  assumes "rx_owned ps ts n" and "p \<notin> set (ps @ ts @ rx_allocated n @ qmap_chain n)"
  shows "rx_owned ps ts (free_skb p n)"
  using assms(1) by (rule rx_owned_frame) (use assms(2) in \<open>auto simp: free_skb_def net_see_def\<close>)

lemma free_fresh: "fresh_os no n \<Longrightarrow> fresh_os no (free_skb p n)"
  by (erule fresh_os_later) simp_all

lemma upd_fresh: "fresh_os no n \<Longrightarrow> fresh_os no (upd_skb p f n)"
  by (erule fresh_os_later) simp_all

text \<open>When nothing stands in the way of a buffer.\<close>

definition mappable :: "mhi_os \<Rightarrow> mhi_controller \<Rightarrow> bool" where
  "mappable os c \<longleftrightarrow> \<not> bounce_buf c \<and> \<not> MHI_PM_IN_ERROR_STATE (pm_state c) \<and> (\<forall>a l. dma_map os a l \<noteq> None)"

definition memory_left :: "net_os \<Rightarrow> net_dev \<Rightarrow> nat \<Rightarrow> bool" where
  "memory_left no n k \<longleftrightarrow> (\<forall>j z. j < k \<longrightarrow> os_skb no (skbs_asked n + j) z \<noteq> None)"

lemma memory_left_step:
  assumes "memory_left no n (Suc k)" and "skbs_asked n \<le> skbs_asked n'" and "skbs_asked n' \<le> Suc (skbs_asked n)"
  shows "memory_left no n' k"
  unfolding memory_left_def
proof (intro allI impI)
  fix j z
  assume j: "j < k"
  define l where "l = skbs_asked n' + j - skbs_asked n"
  have "l < Suc k" "skbs_asked n' + j = skbs_asked n + l" using j assms(2,3) by (simp_all add: l_def)
  then show "os_skb no (skbs_asked n' + j) z \<noteq> None" using assms(1) by (simp add: memory_left_def)
qed

lemma queue_skb_mappable:
  assumes "mappable os c" and "0 < room_on i c" and "client_chan i c"
  shows "\<exists>c'. mhi_queue_skb os i p dat ln c = (Inr (), c') \<and> mappable os c'"
proof -
  have w: "ring_wf (tre_ring (mhi_chan c i))" using assms(3) by (simp add: client_chan_def lockstep_def)
  have nf: "\<not> mhi_is_ring_full (tre_ring (mhi_chan c i))"
    using assms(2) ring_room_pos_iff [OF w] by (simp add: room_on_def)
  let ?d = "dir (mhi_chan c i)"
  let ?c0 = "wake_get_if (wants_wake ?d (pm_state c)) (kick_suspended c)"
  let ?b0 = "(slots (buf_ring (mhi_chan c i)) (wp (buf_ring (mhi_chan c i))))\<lparr>v_addr := dat,
     cb_buf := p, bi_wp := wp (tre_ring (mhi_chan c i)), bi_dir := ?d, bi_len := ln\<rparr>"
  obtain a where a: "dma_map os dat ln = Some a" using assms(1) by (auto simp: mappable_def)
  have m: "call_map_single os ?b0 ?c0 = (Inr (), ?b0\<lparr>p_addr := a\<rparr>, ?c0)"
    using assms(1) a by (simp add: call_map_single_def mhi_map_single_no_bb_def mappable_def)
  show ?thesis
    using assms(1) nf m by (simp add: mhi_queue_skb_def Let_def mappable_def)
qed

text \<open>What the loop leaves behind.\<close>

definition filled ::
  "mhi_os \<Rightarrow> net_os \<Rightarrow> nat \<Rightarrow> u64 list \<Rightarrow> nat \<Rightarrow> net_dev \<Rightarrow> mhi_controller \<Rightarrow> unit res \<times> net_dev \<times> mhi_controller \<Rightarrow> bool"
where
  "filled os no i ts k n c res \<longleftrightarrow> (case res of (r, n', c') \<Rightarrow>
     rx_ready i ts n' c' \<and> fresh_os no n' \<and> same_client i c c'
     \<and> (\<exists>qs. posted_on i c' = posted_on i c @ qs \<and> room_on i c' + length qs = room_on i c
          \<and> length qs \<le> k \<and> (is_ok r \<longleftrightarrow> length qs = k))
     \<and> (nd_enabled n \<and> mappable os c \<and> memory_left no n k \<longrightarrow> r = Inr ()))"

lemma queue_transfer_skb:
  assumes "rx_ready i ts n c"
  shows "mhi_queue_transfer os (nd_mhi n) DMA_FROM_DEVICE p a ln fl c = Some (mhi_queue_skb os i p a ln c)"
  using assms by (simp add: rx_ready_def mhi_queue_transfer_def dev_channel_def call_queue_xfer_def)

lemma rx_ready_post:
  assumes "rx_ready i ts n c" and "same_client i c c'" and "client_chan i c'" and "nd_mhi n' = nd_mhi n"
    and "rx_owned (posted_on i c') ts n'"
  shows "rx_ready i ts n' c'"
  using assms chan_rest_fields [of "mhi_chan c' i" "mhi_chan c i"] by (simp add: rx_ready_def same_client_def)

lemma filled_error:
  assumes "rx_ready i ts n' c'" and "fresh_os no n'" and "same_client i c c'"
    and "posted_on i c' = posted_on i c" and "room_on i c' = room_on i c" and "\<not> is_ok r" and "0 < k"
    and "\<not> (nd_enabled n \<and> mappable os c \<and> memory_left no n k)"
  shows "filled os no i ts k n c (r, n', c')"
  using assms by (auto simp: filled_def)

lemma rx_fill_result:
  assumes "rx_ready i ts n c" and "fresh_os no n" and "k \<le> room_on i c"
  shows "\<exists>res. rx_fill os no k n c = Some res \<and> filled os no i ts k n c res"
  using assms
proof (induction k arbitrary: n c)
  case 0
  then show ?case by (simp add: filled_def same_client_def)
next
  case (Suc k)
  note own = Suc.prems(1) [unfolded rx_ready_def, THEN conjunct2, THEN conjunct2, THEN conjunct2, THEN conjunct2]
  have cl: "client_chan i c" using Suc.prems(1) by (simp add: rx_ready_def)
  obtain r n1 where t: "take_skb no n = (r, n1)" by (cases "take_skb no n")
  note t1 = take_skb_owned [OF own Suc.prems(2) t]
  have rdy1: "rx_ready i ts n1 c" using rx_ready_post [OF Suc.prems(1) _ cl, of n1] t1 by (auto simp: same_client_def)
  show ?case
  proof (cases r)
    case None
    then have "os_skb no (skbs_asked n) (nd_mru n) = None" using t1 by simp
    then have "\<not> memory_left no n (Suc k)" unfolding memory_left_def by (metis add_0_right zero_less_Suc)
    then have "filled os no i ts (Suc k) n c (Inl ENOMEM, n1, c)"
      using t1 rdy1 by (intro filled_error) (auto simp: same_client_def)
    then show ?thesis using t None by simp
  next
    case (Some p)
    then have p: "live n1 p" "p \<notin> set (posted_on i c @ ts @ rx_allocated n1 @ qmap_chain n1)"
      and own1: "rx_owned (posted_on i c) ts n1" using t1 by auto
    show ?thesis
    proof (cases "nd_enabled n1")
      case False
      have "rx_ready i ts (free_skb p n1) c"
        using rx_ready_post [OF rdy1 _ cl, of "free_skb p n1"] free_owned [OF own1 p(2)] by (simp add: same_client_def)
      then have "filled os no i ts (Suc k) n c (Inl EIO, free_skb p n1, c)"
        using t1 False by (intro filled_error) (auto simp: same_client_def free_fresh)
      then show ?thesis using t Some False by simp
    next
      case True
      let ?n = "upd_skb p (\<lambda>b. b\<lparr>nb_bound := True\<rparr>) n1"
      note b = bind_owned [OF own1 p]
      obtain q c1 where q: "mhi_queue_skb os i p (skb_addr ?n p) (ucast (nd_mru ?n)) c = (q, c1)" by fastforce
      have step: "rx_fill os no (Suc k) n c = (case q of
          Inl e \<Rightarrow> Some (Inl EIO, free_skb p ?n, c1) | Inr _ \<Rightarrow> rx_fill os no k ?n c1)"
        using t Some True queue_transfer_skb [of i ts ?n c] rx_ready_post [OF rdy1 _ cl, of ?n] b(2) q
        by (simp add: same_client_def Let_def)
      show ?thesis
      proof (cases q)
        case (Inl e)
        have post: "client_chan i c1" "posted_on i c1 = posted_on i c" "room_on i c1 = room_on i c" "same_client i c c1"
          using skb_client.post_err [where dat = "\<lambda>_. skb_addr ?n p", OF cl, of os p "ucast (nd_mru ?n)" e c1] q Inl by auto
        have "rx_owned (posted_on i c1) ts (free_skb p ?n)"
          using free_owned [OF b(2), of p] p(2) post(2) by simp
        then have rdy: "rx_ready i ts (free_skb p ?n) c1" using rx_ready_post [OF rdy1 post(4,1)] by simp
        have "\<not> mappable os c"
          using queue_skb_mappable [OF _ _ cl, of os p "skb_addr ?n p" "ucast (nd_mru ?n)"] q Inl Suc.prems(3) by auto
        then have "filled os no i ts (Suc k) n c (Inl EIO, free_skb p ?n, c1)"
          using rdy t1 post by (intro filled_error) (auto simp: free_fresh upd_fresh)
        then show ?thesis using step Inl by simp
      next
        case (Inr u)
        have post: "client_chan i c1" "posted_on i c1 = posted_on i c @ [p]" "Suc (room_on i c1) = room_on i c"
          "same_client i c c1"
          using skb_client.post_ok [where dat = "\<lambda>_. skb_addr ?n p", OF cl, of os p "ucast (nd_mru ?n)" u c1] q Inr by auto
        have rdy: "rx_ready i ts ?n c1" using rx_ready_post [OF rdy1 post(4,1)] b(1) post(2) by simp
        obtain res where res: "rx_fill os no k ?n c1 = Some res" "filled os no i ts k ?n c1 res"
          using Suc.IH [OF rdy] t1 Suc.prems(3) post(3) by (auto simp: upd_fresh)
        obtain r' n' c' where r': "res = (r', n', c')" by (cases res)
        obtain qs where qs: "posted_on i c' = posted_on i c1 @ qs" "room_on i c' + length qs = room_on i c1"
          "length qs \<le> k" "is_ok r' \<longleftrightarrow> length qs = k"
          using res(2) r' by (auto simp: filled_def)
        have map: "mappable os c1" if "mappable os c"
          using queue_skb_mappable [OF that _ cl, of p "skb_addr ?n p" "ucast (nd_mru ?n)"] q Suc.prems(3) by auto
        have "filled os no i ts (Suc k) n c res"
          using res(2) r' qs post(2,3,4) t1 map memory_left_step [where no = no and n = n and n' = ?n and k = k] skb_client.same_trans [where a = c and b = c1 and c = c']
          unfolding filled_def r' prod.case
          by (intro conjI) (auto intro!: exI [of _ "p # qs"])
        then show ?thesis using step Inr res(1) by simp
      qed
    qed
  qed
qed

text \<open>
  C10: Filling the receive ring never loses, duplicates or frees a buffer the device may still
  write to: afterwards the ring holds the buffers it held before and new ones behind them, each
  bound to the device and in no other place, and nothing else of the channel has changed. The
  result is success exactly if the ring is full; and it is full whenever the device is enabled,
  the link is not in an error state, and memory and mappings are to be had.
\<close>

theorem netdev_refill:
  assumes "rx_ready i ts n c" and "fresh_os no n"
  shows "\<exists>r n' c' qs. mhi_netdev_alloc_skb os no n c = Some (r, n', c') \<and> rx_ready i ts n' c' \<and> fresh_os no n'
    \<and> same_client i c c' \<and> posted_on i c' = posted_on i c @ qs
    \<and> room_on i c' + length qs = room_on i c
    \<and> (is_ok r \<longleftrightarrow> room_on i c' = 0) \<and> (nd_enabled n \<and> mappable os c \<and> memory_left no n (room_on i c) \<longrightarrow> r = Inr ())"
proof -
  have "mhi_get_no_free_descriptors (nd_mhi n) DMA_FROM_DEVICE c = Some (int (room_on i c))"
    using assms(1) by (intro free_descriptors) (simp_all add: rx_ready_def dev_channel_def)
  then have run: "mhi_netdev_alloc_skb os no n c = rx_fill os no (room_on i c) n c"
    by (simp add: mhi_netdev_alloc_skb_def)
  obtain res where res: "rx_fill os no (room_on i c) n c = Some res" "filled os no i ts (room_on i c) n c res"
    using rx_fill_result [OF assms order_refl] by blast
  obtain r n' c' where r: "res = (r, n', c')" by (cases res)
  from res(2) obtain qs where qs: "posted_on i c' = posted_on i c @ qs" "room_on i c' + length qs = room_on i c"
    "is_ok r \<longleftrightarrow> length qs = room_on i c" unfolding r filled_def by blast
  have "is_ok r \<longleftrightarrow> room_on i c' = 0" using qs(2,3) by linarith
  then show ?thesis using res(1) qs(1,2) res(2) [unfolded r filled_def prod.case] unfolding run r by (intro exI conjI) blast+
qed

text \<open>A device on the demo channel, with one buffer in its pool and a kernel with more.\<close>

definition demo_buf :: "u64 \<Rightarrow> net_buf" where
  "demo_buf a = \<lparr>nb_skb = \<lparr>skb_head = [], skb_data = [], skb_tail = replicate 64 0, skb_protocol = ETH_P_MAP\<rparr>,
     nb_addr = a, nb_bound = False, nb_length = 0\<rparr>"

definition demo_os :: net_os where
  "demo_os = \<lparr>os_skb = (\<lambda>k z. if k < 4 then Some ([0x5000, 0x5010, 0x5020, 0x5030] ! k, demo_buf 0x9000) else None),
     os_cloned = (\<lambda>_. False), os_alloc = (\<lambda>_. True)\<rparr>"

definition demo_net :: net_dev where
  "demo_net = (new_net_dev 1 0x17CB 0x0306 MHI_NET_RMNET (zero_device\<lparr>ul_chan := Some 0, dl_chan := Some 1\<rparr>))
     \<lparr>nd_enabled := True, nd_if := Some new_if, nd_skbs := [0x4000 \<mapsto> demo_buf 0x8000], rx_allocated := [0x4000]\<rparr>"

definition net_controller :: mhi_controller where
  "net_controller = demo_controller\<lparr>mhi_chan := (\<lambda>_. demo_chan\<lparr>dir := DMA_FROM_DEVICE, queue_xfer := mhi_queue_skb_fn\<rparr>)\<rparr>"

lemma net_client: "client_chan 1 net_controller" "posted_on 1 net_controller = []" "room_on 1 net_controller = 3"
proof -
  have "lockstep (demo_chan\<lparr>dir := DMA_FROM_DEVICE, queue_xfer := mhi_queue_skb_fn\<rparr>)"
    using demo_lockstep by (simp add: lockstep_def demo_controller_def)
  then show "client_chan 1 net_controller"
    by (simp add: client_chan_def net_controller_def) (simp add: demo_chan_def zero_defs)
  show "posted_on 1 net_controller = []" "room_on 1 net_controller = 3"
    by (simp_all add: posted_on_def room_on_def ring_room_def ring_content_def ring_count_def slot_idx_def net_controller_def
        demo_chan_def zero_defs)
qed

lemma four_cases: "k < (4 :: nat) \<Longrightarrow> k = 0 \<or> k = 1 \<or> k = 2 \<or> k = 3" by auto

lemma demo_os_fresh: "fresh_os demo_os demo_net"
  unfolding fresh_os_def demo_os_def demo_net_def live_def
  by (auto simp: new_net_dev_def split: if_splits dest!: four_cases)

lemma demo_net_ready: "rx_ready 1 [] demo_net net_controller"
proof -
  have o: "rx_owned [] [] demo_net" by (simp add: rx_owned_def demo_net_def live_def new_net_dev_def)
  have d: "dl_chan (nd_mhi demo_net) = Some 1" by (simp add: demo_net_def new_net_dev_def)
  have q: "queue_xfer (mhi_chan net_controller 1) = mhi_queue_skb_fn" "\<not> offload_ch (mhi_chan net_controller 1)"
    by (simp_all add: net_controller_def demo_chan_def zero_defs)
  show ?thesis using o d q net_client by (simp add: rx_ready_def)
qed

theorem netdev_refill_witness:
  "\<exists>n' c'. mhi_netdev_alloc_skb link_up demo_os demo_net net_controller = Some (Inr (), n', c')
    \<and> length (posted_on 1 c') = 3 \<and> room_on 1 c' = 0 \<and> rx_owned (posted_on 1 c') [] n'"
proof -
  have "nd_enabled demo_net" "mappable link_up net_controller" "memory_left demo_os demo_net 3"
    by (auto simp: demo_net_def mappable_def net_controller_def demo_controller_def zero_controller_def link_up_def
        MHI_PM_IN_ERROR_STATE_def pm_state_defs memory_left_def demo_os_def new_net_dev_def)
  then obtain n' c' qs where r: "mhi_netdev_alloc_skb link_up demo_os demo_net net_controller = Some (Inr (), n', c')"
    "rx_ready 1 [] n' c'" "posted_on 1 c' = posted_on 1 net_controller @ qs" "room_on 1 c' = 0"
    "room_on 1 c' + length qs = 3"
    using netdev_refill [OF demo_net_ready demo_os_fresh, of link_up] net_client(3) by auto
  then show ?thesis using net_client(2) by (auto simp: rx_ready_def)
qed

section \<open>Buffers on their way\<close>

lemma rx_ownedI:
  assumes "distinct (ps @ ts @ rx_allocated n @ qmap_chain n)"
    and "\<And>q. q \<in> set (rx_allocated n @ qmap_chain n) \<Longrightarrow> live n q" and "\<And>q. q \<in> set (ps @ ts) \<Longrightarrow> bound n q"
  shows "rx_owned ps ts n"
  using assms unfolding rx_owned_def by blast

lemma rx_ownedD:
  assumes "rx_owned ps ts n"
  shows "distinct (ps @ ts @ rx_allocated n @ qmap_chain n)"
    and "q \<in> set (rx_allocated n @ qmap_chain n) \<Longrightarrow> live n q" and "q \<in> set (ps @ ts) \<Longrightarrow> bound n q"
  using assms unfolding rx_owned_def by blast+

text \<open>One buffer changes its place.\<close>

lemma rx_owned_step:
  assumes "rx_owned ps ts n" and "distinct (ps' @ ts @ rx_allocated n' @ qmap_chain n')"
    and "\<And>q. q \<noteq> p \<Longrightarrow> nd_skbs n' q = nd_skbs n q" and "p \<notin> set (ps' @ ts)"
    and "set ps' \<subseteq> set ps" and "set (rx_allocated n' @ qmap_chain n') \<subseteq> insert p (set (rx_allocated n @ qmap_chain n))"
    and "p \<in> set (rx_allocated n' @ qmap_chain n') \<Longrightarrow> live n' p"
  shows "rx_owned ps' ts n'"
proof (rule rx_ownedI [OF assms(2)])
  note o = rx_ownedD [OF assms(1)]
  have eq: "live n' q = live n q" "bound n' q = bound n q" if "q \<noteq> p" for q
    using assms(3) [OF that] by (simp_all add: live_def bound_def)
  show "live n' q" if "q \<in> set (rx_allocated n' @ qmap_chain n')" for q
    using that assms(6,7) o(2) eq(1) by (cases "q = p") blast+
  show "bound n' q" if "q \<in> set (ps' @ ts)" for q
  proof -
    have "q \<noteq> p" using that assms(4) by blast
    moreover have "q \<in> set (ps @ ts)" using that assms(5) by auto
    ultimately show ?thesis using o(3) eq(2) by blast
  qed
qed

lemma rx_owned_drop:
  assumes "rx_owned (p # ps) ts n"
  shows "rx_owned ps ts n" and "bound n p" and "p \<notin> set (ps @ ts @ rx_allocated n @ qmap_chain n)"
  using assms by (auto simp: rx_owned_def)

text \<open>A completed buffer leaves the ring for the chain, or is freed.\<close>

lemma dl_cb_owned:
  assumes "rx_owned (p # ps) ts n" and "buf_addr r = p"
  shows "rx_owned ps ts (mhi_netdev_xfer_dl_cb bs r n)"
    and "nd_panic (mhi_netdev_xfer_dl_cb bs r n) \<or> transaction_status r \<noteq> None
      \<or> qmap_chain (mhi_netdev_xfer_dl_cb bs r n) = qmap_chain n @ [p]"
proof -
  note d = rx_owned_drop [OF assms(1)]
  obtain b where b: "nd_skbs n p = Some b" "nb_bound b" using d(2) by (auto simp: bound_def)
  have fr: "rx_owned ps ts (free_skb p n)" using free_owned [OF d(1,3)] .
  let ?s = "dma_written bs (nb_skb b)"
  let ?n = "(upd_skb p (\<lambda>b. b\<lparr>nb_skb := skb_put (unat (bytes_xferd r)) ?s, nb_bound := False\<rparr>) n)
                         \<lparr>qmap_chain := qmap_chain n @ [p]\<rparr>"
  have mv: "rx_owned ps ts ?n"
    using rx_ownedD(1) [OF assms(1)]
    by (intro rx_owned_step [OF assms(1), where p = p]) (auto simp: live_def b upd_skb_def)
  have pn: "rx_owned ps ts (n\<lparr>nd_panic := True\<rparr>)" by (rule rx_owned_frame [OF d(1)]) simp_all
  show "rx_owned ps ts (mhi_netdev_xfer_dl_cb bs r n)"
    using b fr mv pn by (simp add: mhi_netdev_xfer_dl_cb_def assms(2) Let_def)
  show "nd_panic (mhi_netdev_xfer_dl_cb bs r n) \<or> transaction_status r \<noteq> None
      \<or> qmap_chain (mhi_netdev_xfer_dl_cb bs r n) = qmap_chain n @ [p]"
    using b by (simp add: mhi_netdev_xfer_dl_cb_def assms(2) Let_def)
qed

text \<open>A frame that is handed on leaves the chain for the pool, the stack or is freed.\<close>

lemma recycle_owned:
  assumes "rx_owned ps ts n" and "p \<notin> set (ps @ ts @ rx_allocated n @ qmap_chain n)" and "live n p"
  shows "rx_owned ps ts (recycle_skb no p n)"
proof -
  let ?n = "(upd_skb p (\<lambda>b. b\<lparr>nb_skb := skb_reset (nb_skb b)\<rparr>) n)\<lparr>rx_allocated := rx_allocated n @ [p]\<rparr>"
  have "rx_owned ps ts ?n"
    using rx_ownedD(1) [OF assms(1)] assms(2,3)
    by (intro rx_owned_step [OF assms(1), where p = p]) (auto simp: live_def upd_skb_def)
  then show ?thesis using free_owned [OF assms(1,2)] by (simp add: recycle_skb_def)
qed

lemma frame_owned: "rx_owned ps ts (n\<lparr>nd_frame := d\<rparr>) = rx_owned ps ts n"
  by (simp add: rx_owned_def live_def bound_def)

lemma upd_skb_owned:
  assumes "rx_owned ps ts n" and "p \<notin> set (ps @ ts @ rx_allocated n @ qmap_chain n)"
  shows "rx_owned ps ts (upd_skb p f n)"
  using assms(1) by (rule rx_owned_frame) (use assms(2) in \<open>auto simp: upd_skb_def\<close>)

lemma upd_if_fields [simp]:
  "rx_allocated (upd_if f n) = rx_allocated n" "qmap_chain (upd_if f n) = qmap_chain n" "nd_skbs (upd_if f n) = nd_skbs n"
  "live (upd_if f n) q = live n q" "rx_owned ps ts (upd_if f n) = rx_owned ps ts n" "nd_mhi (upd_if f n) = nd_mhi n"
  by (simp_all add: upd_if_def rx_owned_def live_def bound_def)

lemma recycle_fields [simp]:
  "qmap_chain (recycle_skb no p n) = qmap_chain n" "nd_mhi (recycle_skb no p n) = nd_mhi n"
  by (simp_all add: recycle_skb_def)

lemma to_stack_fields [simp]:
  "qmap_chain (net_see e (n\<lparr>nd_skbs := m\<rparr>)) = qmap_chain n" "nd_mhi (net_see e (n\<lparr>nd_skbs := m\<rparr>)) = nd_mhi n"
  by (simp_all add: net_see_def)

lemma to_stack_owned:
  assumes "rx_owned ps ts n" and "p \<notin> set (ps @ ts @ rx_allocated n @ qmap_chain n)"
  shows "rx_owned ps ts (net_see e (n\<lparr>nd_skbs := (nd_skbs n)(p := None)\<rparr>))"
  using assms(1) by (rule rx_owned_frame) (use assms(2) in \<open>auto simp: net_see_def\<close>)

lemma receive_one_owned:
  assumes "rx_owned ps ts n" and "p \<notin> set (ps @ ts @ rx_allocated n @ qmap_chain n)" and "live n p"
    and "receive_one no p n = Some n'"
  shows "rx_owned ps ts n' \<and> qmap_chain n' = qmap_chain n \<and> nd_mhi n' = nd_mhi n"
proof -
  obtain b where b: "nd_skbs n p = Some b" using assms(3) by (auto simp: live_def)
  define n0 where "n0 = mhi_netdev_upate_rx_stats 1 (skb_len (nb_skb b)) n"
  define pr where "pr = (if net_type (nd_frame n) = MHI_NET_ETHER then mhi_netdev_ip_type_trans (skb_at (nb_skb b) 0) else ETH_P_MAP)"
  define n1 where "n1 = upd_skb p (\<lambda>b. b\<lparr>nb_skb := (nb_skb b)\<lparr>skb_protocol := pr\<rparr>\<rparr>) n0"
  have n1: "rx_owned ps ts n1" "p \<notin> set (ps @ ts @ rx_allocated n1 @ qmap_chain n1)" "live n1 p"
    "qmap_chain n1 = qmap_chain n" "nd_mhi n1 = nd_mhi n"
    using assms(1-3) by (simp_all add: n1_def n0_def mhi_netdev_upate_rx_stats_def upd_skb_owned)
  have fin: "rx_owned ps ts (net_see (To_stack p pr) (n1\<lparr>nd_skbs := (nd_skbs n1)(p := None)\<rparr>))"
    by (rule to_stack_owned [OF n1(1,2)])
  have rec: "rx_owned ps ts (recycle_skb no p (n1\<lparr>nd_frame := d\<rparr>))" for d
    using recycle_owned [of ps ts "n1\<lparr>nd_frame := d\<rparr>" p no] n1 by (simp add: frame_owned live_def)
  have eq: "receive_one no p n = netif_receive_skb no p pr n0"
    using b by (simp add: receive_one_def pr_def n0_def)
  have run: "(if has_rx_handler n1
         then Option.bind (rmnet_rx_handler no p n1)
                (\<lambda>(consumed, n). Some (if consumed then n else net_see (To_stack p pr) (n\<lparr>nd_skbs := (nd_skbs n)(p := None)\<rparr>)))
         else Some (net_see (To_stack p pr) (n1\<lparr>nd_skbs := (nd_skbs n1)(p := None)\<rparr>))) = Some n'"
    using assms(4) unfolding eq netif_receive_skb_def Let_def n1_def .
  show ?thesis
  proof (cases "has_rx_handler n1")
    case False
    then show ?thesis using run fin n1 by auto
  next
    case True
    then obtain consumed m where h: "rmnet_rx_handler no p n1 = Some (consumed, m)"
      and n': "n' = (if consumed then m else net_see (To_stack p pr) (m\<lparr>nd_skbs := (nd_skbs m)(p := None)\<rparr>))"
      using run by (auto simp: bind_eq_Some_conv)
    from h n1(3) consider "consumed = False" "m = n1" | d where "consumed = True" "m = recycle_skb no p (n1\<lparr>nd_frame := d\<rparr>)"
      by (auto simp: rmnet_rx_handler_def live_def Let_def bind_eq_Some_conv split: option.splits if_splits)
    then show ?thesis using n' fin rec n1 by cases auto
  qed
qed

lemma receive_each_owned:
  "rx_owned ps ts n \<Longrightarrow> qmap_chain n = qs \<Longrightarrow> receive_each no qs n = Some n' \<Longrightarrow>
   rx_owned ps ts n' \<and> qmap_chain n' = [] \<and> nd_mhi n' = nd_mhi n"
proof (induction qs arbitrary: n)
  case Nil
  then show ?case by simp
next
  case (Cons p qs)
  let ?n = "n\<lparr>qmap_chain := qs\<rparr>"
  note o = rx_ownedD [OF Cons.prems(1)]
  have own: "rx_owned ps ts ?n"
    using o(1) Cons.prems(2) by (intro rx_owned_step [OF Cons.prems(1), where p = p]) auto
  have p: "p \<notin> set (ps @ ts @ rx_allocated ?n @ qmap_chain ?n)" "live ?n p"
    using o(1) o(2) [of p] Cons.prems(2) by (auto simp: live_def)
  obtain n1 where n1: "receive_one no p ?n = Some n1" "receive_each no qs n1 = Some n'"
    using Cons.prems(3) by (auto simp: bind_eq_Some_conv)
  have "rx_owned ps ts n1 \<and> qmap_chain n1 = qs \<and> nd_mhi n1 = nd_mhi n" using receive_one_owned [OF own p n1(1)] by simp
  then show ?case using Cons.IH [of n1] n1(2) by simp
qed

lemma dl_cb_mhi [simp]: "nd_mhi (mhi_netdev_xfer_dl_cb bs r n) = nd_mhi n"
  by (simp add: mhi_netdev_xfer_dl_cb_def Let_def upd_frame_def split: option.split)

lemma dl_cb_type [simp]: "net_type (nd_frame (mhi_netdev_xfer_dl_cb bs r n)) = net_type (nd_frame n)"
  by (simp add: mhi_netdev_xfer_dl_cb_def Let_def upd_frame_def split: option.split)

lemma dl_callbacks_type: "net_type (nd_frame (fold (dl_callback mem) es n)) = net_type (nd_frame n)"
proof (induction es arbitrary: n)
  case (Cons e es)
  then show ?case by (cases e) simp_all
qed simp

lemma dl_callbacks_owned:
  assumes "rx_owned (map cb_buf bs @ ps) ts n" and "dl_chan (nd_mhi n) = Some i"
  shows "rx_owned ps ts (fold (dl_callback mem) (map (completion_of i ch len st) bs) n)
    \<and> nd_mhi (fold (dl_callback mem) (map (completion_of i ch len st) bs) n) = nd_mhi n"
  using assms
proof (induction bs arbitrary: n)
  case Nil
  then show ?case by simp
next
  case (Cons b bs)
  let ?r = "\<lparr>buf_addr = cb_buf b, res_dir = dir ch, bytes_xferd = ucast len, transaction_status = st\<rparr>"
  have "dl_callback mem (completion_of i ch len st b) n = mhi_netdev_xfer_dl_cb (mem (cb_buf b)) ?r n"
    using Cons.prems(2) by (simp add: completion_of_def)
  moreover have "rx_owned (map cb_buf bs @ ps) ts (mhi_netdev_xfer_dl_cb (mem (cb_buf b)) ?r n)"
    using dl_cb_owned(1) [of "cb_buf b" "map cb_buf bs @ ps" ts n ?r] Cons.prems(1) by simp
  ultimately show ?case using Cons.IH Cons.prems(2) by simp
qed

text \<open>The completion of the oldest buffers of the receive ring, seen from both sides.\<close>

lemma completed_buffers:
  assumes "rx_ready i ts n c" and "\<not> pre_alloc (mhi_chan c i)" and "ch_state (mhi_chan c i) = MHI_CH_STATE_ENABLED"
    and "transfer_code ev" and "names_queued (tre_ring (mhi_chan c i)) ev k"
  shows "\<exists>c'. parse_xfer_event os ev i c = Some c'
    \<and> rx_ready i ts (fold (dl_callback mem) (drop (length (callbacks c)) (callbacks c')) n) c'
    \<and> posted_on i c' = drop (Suc k) (posted_on i c)"
proof -
  let ?ch = "mhi_chan c i"
  have l: "lockstep ?ch" and el: "unat (elements (tre_ring ?ch)) < 2 ^ 31" and own: "rx_owned (posted_on i c) ts n"
    and dl: "dl_chan (nd_mhi n) = Some i" and q: "queue_xfer ?ch = mhi_queue_skb_fn" "\<not> offload_ch ?ch"
    using assms(1) by (simp_all add: rx_ready_def client_chan_def)
  let ?len = "ucast (MHI_TRE_GET_EV_LEN ev) :: u16" and ?st = "event_status ev"
  let ?c0 = "count_used_event i (MHI_TRE_GET_EV_CODE ev) (touch_chan i c)"
  define c' where "c' = (xfer_one os i ?len ?st ^^ Suc k) ?c0"
  have run: "parse_xfer_event os ev i c = Some c'"
    unfolding c'_def by (rule completion_run(1) [OF l assms(3,4,5)])
  have c0: "lockstep (mhi_chan ?c0 i)" "\<not> pre_alloc (mhi_chan ?c0 i)" "Suc k \<le> ring_count (tre_ring (mhi_chan ?c0 i))"
    "callbacks ?c0 = callbacks c"
    using l assms(2) completion_run(2) [OF l assms(3,4,5)] by simp_all
  have o: "queue_xfer (mhi_chan ?c0 i) = queue_xfer ?ch" "offload_ch (mhi_chan ?c0 i) = offload_ch ?ch"
    by (simp_all add: count_used_event_def)
  note s = xfer_steps [OF c0(1-3), of os ?len ?st, folded c'_def, unfolded Let_def]
  note f = xfer_steps_kept [OF c0(2), where os = os and n = ?len and st = ?st and k = "Suc k", folded c'_def, unfolded Let_def]
  let ?bs = "ring_content (buf_ring ?ch)"
  have cb: "drop (length (callbacks c)) (callbacks c') = map (completion_of i (mhi_chan ?c0 i) ?len ?st) (take (Suc k) ?bs)"
    using s c0(4) by simp
  have ps: "posted_on i c' = map cb_buf (drop (Suc k) ?bs)" using s by (simp add: posted_on_def)
  have split: "posted_on i c = map cb_buf (take (Suc k) ?bs) @ posted_on i c'"
    unfolding ps map_append [symmetric] append_take_drop_id by (simp add: posted_on_def)
  let ?n = "fold (dl_callback mem) (drop (length (callbacks c)) (callbacks c')) n"
  have "rx_owned (posted_on i c') ts ?n \<and> nd_mhi ?n = nd_mhi n"
    unfolding cb by (rule dl_callbacks_owned) (use own split dl in simp_all)
  moreover have "client_chan i c'" using s f el by (simp add: client_chan_def)
  ultimately have "rx_ready i ts ?n c'" using f o q dl by (simp add: rx_ready_def)
  moreover have "posted_on i c' = drop (Suc k) (posted_on i c)" unfolding ps by (simp add: posted_on_def drop_map)
  ultimately show ?thesis using run by blast
qed


text \<open>Two buffers in the ring of the demo channel, and the event for the first.\<close>

definition rx_controller :: mhi_controller where
  "rx_controller = busy_controller\<lparr>mhi_chan := (\<lambda>_. busy_chan\<lparr>queue_xfer := mhi_queue_skb_fn, dir := DMA_FROM_DEVICE,
     buf_ring := (buf_ring busy_chan)\<lparr>slots := (\<lambda>a. zero_buf_info\<lparr>cb_buf := 0x4000 + a\<rparr>)\<rparr>\<rparr>)\<rparr>"

definition rx_net :: net_dev where
  "rx_net = demo_net\<lparr>nd_mhi := zero_device\<lparr>ul_chan := Some 1, dl_chan := Some 0\<rparr>, rx_allocated := [],
     nd_skbs := [0x6000 \<mapsto> (demo_buf 0x8000)\<lparr>nb_bound := True\<rparr>, 0x6040 \<mapsto> (demo_buf 0x8040)\<lparr>nb_bound := True\<rparr>]\<rparr>"

lemma rx_controller_lockstep: "lockstep (mhi_chan rx_controller 0)"
  using busy_lockstep by (simp add: lockstep_def rx_controller_def busy_controller_def)

lemma rx_posted: "posted_on 0 rx_controller = [0x6000, 0x6040]"
  by (simp add: posted_on_def ring_content_def ring_count_def slot_idx_def slot_addr_def rx_controller_def busy_defs upt_rec)


end
