(* ===== verification/Mhi_Mon.thy ===== *)
theory Mhi_Mon
  imports Mhi_Pm
begin

text \<open>
  The monitor of the transfers (\<open>core/mhi_init.c\<close>, \<open>core/mhi_main.c\<close>): a file in debugfs that
  shows every descriptor that is queued, completed or announced by an event, one line each. A
  reader has a bounded list of events it has not read and one line of text, of which a part may
  be left over from the last read. Then: what becomes of the events of the queue functions, how
  a line is printed into its buffer, and what a reader gets to see.
\<close>

section \<open>State\<close>

text \<open>An event with the bytes that are kept of its buffer; their number is the length.\<close>

record mon_event_text =
  ev_type :: char
  tstamp :: u32
  ev_chan :: u32
  ev_wp :: u64
  ev_tre :: mhi_tre
  ev_data :: "u8 list"

definition PRINTF_DFL :: nat where "PRINTF_DFL = 250"
definition SZ_EV_DATA :: nat where "SZ_EV_DATA = 32"

text \<open>Sixteen pages of 4096 bytes by the size of the structure, which is 96 with 64-bit pointers.\<close>

definition EVENT_MAX :: nat where "EVENT_MAX = 16 * 4096 div 96"

text \<open>
  A reader; \<open>e_slab\<close> counts the objects its slab has handed out, and the buffer is kept with all
  of its bytes, the ones behind the text as well.
\<close>

record mon_reader_text =
  e_slab :: nat
  nevents :: int
  e_list :: "mon_event_text list"
  printf_size :: nat
  printf_buf :: string
  left_size :: nat
  left_pos :: nat

text \<open>
  The monitor's part of the controller next to the list \<open>r_list\<close>, with the readers by number,
  and what the kernel has handed out: blocks of memory and slabs.
\<close>

record mhi_mon =
  nreaders :: int
  mon_ref :: nat
  cnt_text_lost :: u32
  readers :: "nat \<Rightarrow> mon_reader_text option"
  blocks :: nat
  slabs :: nat

text \<open>What an event meets: the memory the buffers are in, the clock, and the slab.\<close>

record mon_env =
  memory :: "u64 \<Rightarrow> u8"
  clock_sec :: nat
  clock_nsec :: nat
  slab_memory :: bool

section \<open>Events\<close>

definition mon_get_timestamp :: "mon_env \<Rightarrow> u32" where
  "mon_get_timestamp env = (of_nat (clock_sec env) AND 0xFFF) * 1000000 + of_nat (clock_nsec env div 1000)"

text \<open>
  The number of events is compared as an unsigned number, so a negative one would be too large.
  The bytes are copied before anybody looks whether the buffer is still there.
\<close>

definition mon_text_event ::
  "mon_env \<Rightarrow> u32 \<Rightarrow> u64 \<Rightarrow> mhi_tre \<Rightarrow> u64 \<Rightarrow> u64 \<Rightarrow> char \<Rightarrow> mon_reader_text \<Rightarrow> bool \<times> mon_reader_text" where
  "mon_text_event env ch w t buf ln ty rd =
     (if nevents rd < 0 \<or> int EVENT_MAX \<le> nevents rd \<or> \<not> slab_memory env then (False, rd)
      else
        let n = (if SZ_EV_DATA < unat ln then SZ_EV_DATA else unat ln);
            ep = \<lparr>ev_type = ty, tstamp = mon_get_timestamp env, ev_chan = ch, ev_wp = w, ev_tre = t,
                  ev_data = map (\<lambda>i. memory env (buf + of_nat i)) [0..<n]\<rparr>
        in (True, rd\<lparr>e_slab := Suc (e_slab rd), nevents := nevents rd + 1, e_list := e_list rd @ [ep]\<rparr>))"

text \<open>The reader behind its number; an event that finds no room is counted at the bus.\<close>

definition mon_to_reader ::
  "(mon_reader_text \<Rightarrow> bool \<times> mon_reader_text) \<Rightarrow> nat \<Rightarrow> mhi_mon \<Rightarrow> mhi_mon" where
  "mon_to_reader f r m =
     (case readers m r of
        None \<Rightarrow> m
      | Some rd \<Rightarrow>
          (case f rd of
             (kept, rd) \<Rightarrow> m\<lparr>readers := (readers m)(r := Some rd),
                cnt_text_lost := (if kept then cnt_text_lost m else cnt_text_lost m + 1)\<rparr>))"

definition mon_text_submit :: "mon_env \<Rightarrow> nat \<Rightarrow> u32 \<Rightarrow> u64 \<Rightarrow> mhi_tre \<Rightarrow> u64 \<Rightarrow> u64 \<Rightarrow> mhi_mon \<Rightarrow> mhi_mon" where
  "mon_text_submit env r ch w t buf ln = mon_to_reader (mon_text_event env ch w t buf ln CHR ''W'') r"

definition mon_text_receive :: "mon_env \<Rightarrow> nat \<Rightarrow> u32 \<Rightarrow> u64 \<Rightarrow> mhi_tre \<Rightarrow> u64 \<Rightarrow> u64 \<Rightarrow> mhi_mon \<Rightarrow> mhi_mon" where
  "mon_text_receive env r ch w t buf ln = mon_to_reader (mon_text_event env ch w t buf ln CHR ''R'') r"

definition mon_text_complete :: "mon_env \<Rightarrow> nat \<Rightarrow> u32 \<Rightarrow> u64 \<Rightarrow> mhi_tre \<Rightarrow> mhi_mon \<Rightarrow> mhi_mon" where
  "mon_text_complete env r ch w t = mon_to_reader (mon_text_event env ch w t 0 0 CHR ''E'') r"

text \<open>What the operations of the controller report, and nothing else of their trace.\<close>

fun mon_notify :: "mon_env \<Rightarrow> obs \<Rightarrow> mhi_mon \<Rightarrow> mhi_mon" where
  "mon_notify env (Mon_submit r ch w t buf ln) m = mon_text_submit env r ch w t buf ln m"
| "mon_notify env (Mon_receive r ch w t buf ln) m = mon_text_receive env r ch w t buf ln m"
| "mon_notify env (Mon_complete r ch w t) m = mon_text_complete env r ch w t m"
| "mon_notify env _ m = m"

section \<open>Opening and closing\<close>

definition mon_reader_add :: "nat \<Rightarrow> mhi_mon \<Rightarrow> mhi_controller \<Rightarrow> mhi_mon \<times> mhi_controller" where
  "mon_reader_add r m c =
     (m\<lparr>nreaders := nreaders m + 1, mon_ref := Suc (mon_ref m)\<rparr>, c\<lparr>r_list := r_list c @ [r]\<rparr>)"

text \<open>
  Unlinking a reader that is not on this list writes into the memory its neighbours were in, and
  the last reference takes the controller with it: no result in either case.
\<close>

definition mon_reader_del :: "nat \<Rightarrow> mhi_mon \<Rightarrow> mhi_controller \<Rightarrow> (mhi_mon \<times> mhi_controller) option" where
  "mon_reader_del r m c =
     (if r \<notin> set (r_list c) \<or> mon_ref m \<le> 1 then None
      else Some (m\<lparr>nreaders := nreaders m - 1, mon_ref := mon_ref m - 1\<rparr>, c\<lparr>r_list := remove1 r (r_list c)\<rparr>))"

text \<open>The three answers of the kernel: memory for the reader, for its line, and a slab.\<close>

record mon_open_os =
  reader_memory :: bool
  line_memory :: "string option"
  slab_created :: bool

definition mon_text_open ::
  "mon_open_os \<Rightarrow> nat \<Rightarrow> mhi_mon \<Rightarrow> mhi_controller \<Rightarrow> nat res \<times> mhi_mon \<times> mhi_controller" where
  "mon_text_open oo r m c =
     (if \<not> reader_memory oo then (Inl ENOMEM, m, c)
      else
        let m = m\<lparr>blocks := Suc (blocks m)\<rparr>
        in case line_memory oo of
             None \<Rightarrow> (Inl ENOMEM, m\<lparr>blocks := blocks m - 1\<rparr>, c)
           | Some line \<Rightarrow>
               let m = m\<lparr>blocks := Suc (blocks m)\<rparr>
               in if \<not> slab_created oo then (Inl ENOMEM, m\<lparr>blocks := blocks m - 1 - 1\<rparr>, c)
                  else
                    let m = m\<lparr>slabs := Suc (slabs m),
                          readers := (readers m)(r := Some \<lparr>e_slab = 0, nevents = 0, e_list = [], printf_size = PRINTF_DFL,
                             printf_buf = line, left_size = 0, left_pos = 0\<rparr>)\<rparr>
                    in (Inr r, mon_reader_add r m c))"

definition drop_event :: "mon_reader_text \<Rightarrow> mon_reader_text" where
  "drop_event rd = rd\<lparr>e_slab := e_slab rd - 1, nevents := nevents rd - 1, e_list := tl (e_list rd)\<rparr>"

definition drop_events :: "mon_reader_text \<Rightarrow> mon_reader_text" where
  "drop_events rd = fold (\<lambda>_. drop_event) (e_list rd) rd"

text \<open>Destroying a slab some of whose objects are in use is an error of the caller: no result.\<close>

definition mon_text_release :: "nat \<Rightarrow> mhi_mon \<Rightarrow> mhi_controller \<Rightarrow> (mhi_mon \<times> mhi_controller) option" where
  "mon_text_release r m c =
     (if nreaders m \<le> 0 then Some (m, c)
      else case mon_reader_del r m c of
             None \<Rightarrow> None
           | Some (m, c) \<Rightarrow>
               (case readers m r of
                  None \<Rightarrow> None
                | Some rd \<Rightarrow>
                    if e_slab (drop_events rd) \<noteq> 0 then None
                    else Some (m\<lparr>slabs := slabs m - 1, blocks := blocks m - 1 - 1, readers := (readers m)(r := None)\<rparr>, c)))"

section \<open>Reading\<close>

definition mon_text_fetch :: "mon_reader_text \<Rightarrow> mon_event_text option \<times> mon_reader_text" where
  "mon_text_fetch rd =
     (case e_list rd of
        [] \<Rightarrow> (None, rd)
      | ep # es \<Rightarrow> (Some ep, rd\<lparr>e_list := es, nevents := nevents rd - 1\<rparr>))"

text \<open>
  Each time the reader is woken the bus may have done something, and a signal may be pending; no
  result while the reader sleeps and nobody wakes it. \<open>EWOULDBLOCK\<close> is \<open>EAGAIN\<close>.
\<close>

fun mon_text_read_wait ::
  "bool \<Rightarrow> ((mon_reader_text \<Rightarrow> mon_reader_text) \<times> bool) list \<Rightarrow> mon_reader_text \<Rightarrow>
   mon_event_text res option \<times> mon_reader_text" where
  "mon_text_read_wait nonblock wakes rd =
     (case mon_text_fetch rd of
        (Some ep, rd) \<Rightarrow> (Some (Inr ep), rd)
      | (None, rd) \<Rightarrow>
          if nonblock then (Some (Inl EAGAIN), rd)
          else (case wakes of
                  [] \<Rightarrow> (None, rd)
                | (woken, signal) # wakes \<Rightarrow>
                    if signal then (Some (Inl EINTR), woken rd)
                    else mon_text_read_wait nonblock wakes (woken rd)))"

text \<open>
  Numbers as the kernel prints them: digits of a base, padded with zeros to a width; a negative
  number has its sign in front of the zeros.
\<close>

definition digit_char :: "nat \<Rightarrow> char" where
  "digit_char d = ''0123456789abcdef'' ! d"

fun digits :: "nat \<Rightarrow> nat \<Rightarrow> string" where
  "digits b n = (if n < b \<or> b < 2 then [digit_char n] else digits b (n div b) @ [digit_char (n mod b)])"

declare digits.simps [simp del] mon_text_read_wait.simps [simp del]

definition padded :: "nat \<Rightarrow> string \<Rightarrow> string" where
  "padded w s = replicate (w - length s) CHR ''0'' @ s"

definition fmt_u :: "u32 \<Rightarrow> string" where "fmt_u x = digits 10 (unat x)"

definition fmt_03d :: "u32 \<Rightarrow> string" where
  "fmt_03d x = (if sint x < 0 then CHR ''-'' # padded 2 (digits 10 (nat (- sint x))) else padded 3 (digits 10 (nat (sint x))))"

definition fmt_llx :: "u64 \<Rightarrow> string" where "fmt_llx x = digits 16 (unat x)"
definition fmt_08x :: "u32 \<Rightarrow> string" where "fmt_08x x = padded 8 (digits 16 (unat x))"
definition fmt_02x :: "u8 \<Rightarrow> string" where "fmt_02x x = padded 2 (digits 16 (unat x))"

text \<open>
  Printing into the buffer of a reader. \<open>snprintf\<close> writes what fits before the end and a zero
  byte behind it, and returns the length of all of it; the room is an unsigned number, so behind
  the end it would be huge, which \<open>past_end\<close> records.
\<close>

record mon_text_ptr =
  cnt :: nat
  limit :: nat
  pbuf :: string
  past_end :: bool

definition NUL :: char where "NUL = CHR 0x00"

definition write_at :: "nat \<Rightarrow> string \<Rightarrow> string \<Rightarrow> string" where
  "write_at k s buf = take k buf @ s @ drop (k + length s) buf"

definition mon_printf :: "string \<Rightarrow> mon_text_ptr \<Rightarrow> mon_text_ptr" where
  "mon_printf s p =
     (let room = limit p - cnt p;
          p = (if limit p < cnt p then p\<lparr>past_end := True\<rparr>
               else if room = 0 then p
               else p\<lparr>pbuf := write_at (cnt p) (take (room - 1) s @ [NUL]) (pbuf p)\<rparr>)
      in p\<lparr>cnt := cnt p + length s\<rparr>)"

definition ev_header :: "mon_event_text \<Rightarrow> string" where
  "ev_header ep = fmt_u (tstamp ep) @ '' '' @ [ev_type ep] @ '' '' @ fmt_03d (ev_chan ep) @ '' WP:'' @ fmt_llx (ev_wp ep)
     @ '' TRE: '' @ fmt_llx (tre_ptr (ev_tre ep)) @ '' '' @ fmt_08x (dword0 (ev_tre ep)) @ '' '' @ fmt_08x (dword1 (ev_tre ep))"

definition print_byte :: "mon_event_text \<Rightarrow> nat \<Rightarrow> mon_text_ptr \<Rightarrow> mon_text_ptr" where
  "print_byte ep i p =
     mon_printf (fmt_02x (ev_data ep ! i)) (if i mod 4 = 0 then mon_printf '' '' p else p)"

definition print_event :: "mon_event_text \<Rightarrow> mon_text_ptr \<Rightarrow> mon_text_ptr" where
  "print_event ep p =
     (let p = mon_printf (ev_header ep) p;
          p = (if ev_data ep \<noteq> [] then fold (print_byte ep) [0..<length (ev_data ep)] p else p)
      in mon_printf [CHR 0x0A] p)"

text \<open>
  A read that may take \<open>nbytes\<close>: the bytes handed to the user, whose number is what the call
  returns. What is left of a line comes first. A fresh line is cut to what the user takes, and
  the rest kept, before the copy to the user can fail.
\<close>

definition mon_text_read_u ::
  "bool \<Rightarrow> ((mon_reader_text \<Rightarrow> mon_reader_text) \<times> bool) list \<Rightarrow> bool \<Rightarrow> nat \<Rightarrow> mon_reader_text \<Rightarrow>
   string res option \<times> mon_reader_text" where
  "mon_text_read_u nonblock wakes fault nbytes rd =
     (if left_size rd \<noteq> 0
      then
        let n = (if nbytes < left_size rd then nbytes else left_size rd)
        in if fault then (Some (Inl EFAULT), rd)
           else (Some (Inr (take n (drop (left_pos rd) (printf_buf rd)))),
                 rd\<lparr>left_pos := left_pos rd + n, left_size := left_size rd - n\<rparr>)
      else
        (case mon_text_read_wait nonblock wakes rd of
           (None, rd) \<Rightarrow> (None, rd)
         | (Some (Inl e), rd) \<Rightarrow> (Some (Inl e), rd)
         | (Some (Inr ep), rd) \<Rightarrow>
             let p = print_event ep \<lparr>cnt = 0, limit = printf_size rd, pbuf = printf_buf rd, past_end = False\<rparr>;
                 rd = rd\<lparr>printf_buf := pbuf p\<rparr>;
                 rd = (if nbytes < cnt p then rd\<lparr>left_pos := nbytes, left_size := cnt p - nbytes\<rparr> else rd);
                 n = (if nbytes < cnt p then nbytes else cnt p);
                 rd = rd\<lparr>e_slab := e_slab rd - 1\<rparr>
             in (Some (if fault then Inl EFAULT else Inr (take n (printf_buf rd))), rd)))"

section \<open>A line is printed as it is meant to be\<close>

text \<open>The line of an event, and that it fits the buffer with room to spare.\<close>

definition byte_groups :: "u8 list \<Rightarrow> string" where
  "byte_groups bs = concat (map (\<lambda>i. (if i mod 4 = 0 then '' '' else []) @ fmt_02x (bs ! i)) [0..<length bs])"

definition event_line :: "mon_event_text \<Rightarrow> string" where
  "event_line ep = ev_header ep @ byte_groups (ev_data ep) @ [CHR 0x0A]"

lemma digits_length: "2 \<le> b \<Longrightarrow> n < b ^ Suc k \<Longrightarrow> length (digits b n) \<le> Suc k"
proof (induction k arbitrary: n)
  case 0
  then show ?case by (simp add: digits.simps [of b n])
next
  case (Suc k)
  have "n div b < b ^ Suc k" using Suc.prems by (simp add: div_less_iff_less_mult mult.commute)
  then show ?case using Suc.IH [of "n div b"] Suc.prems(1) by (subst digits.simps) simp
qed

lemma padded_length: "length (padded w s) = max w (length s)"
  by (simp add: padded_def max_def)

lemma fmt_lengths:
  "length (fmt_u x) \<le> 10" "length (fmt_03d x) \<le> 11" "length (fmt_llx y) \<le> 16" "length (fmt_08x x) = 8"
  "length (fmt_02x z) = 2"
proof -
  have x: "unat x < 2 ^ 32" using unsigned_less [of x, where ?'a = nat] by simp
  show "length (fmt_u x) \<le> 10" using digits_length [of 10 "unat x" 9] x by (simp add: fmt_u_def)
  show "length (fmt_08x x) = 8" using digits_length [of 16 "unat x" 7] x by (simp add: fmt_08x_def padded_length)
  have y: "unat y < 2 ^ 64" using unsigned_less [of y, where ?'a = nat] by simp
  show "length (fmt_llx y) \<le> 16" using digits_length [of 16 "unat y" 15] y by (simp add: fmt_llx_def)
  have z: "unat z < 2 ^ 8" using unsigned_less [of z, where ?'a = nat] by simp
  show "length (fmt_02x z) = 2" using digits_length [of 16 "unat z" 1] z by (simp add: fmt_02x_def padded_length)
  have "- (2 ^ 31) \<le> sint x" "sint x < 2 ^ 31" using sint_range_size [of x] by (simp_all add: word_size)
  then have s: "nat (- sint x) < 10 ^ Suc 9" "nat (sint x) < 10 ^ Suc 9" by auto
  show "length (fmt_03d x) \<le> 11"
    using digits_length [OF _ s(1)] digits_length [OF _ s(2)] by (simp add: fmt_03d_def padded_length)
qed

lemma header_length: "length (ev_header ep) \<le> 84"
  using fmt_lengths(1) [of "tstamp ep"] fmt_lengths(2) [of "ev_chan ep"] fmt_lengths(3) [of "ev_wp ep"]
    fmt_lengths(3) [of "tre_ptr (ev_tre ep)"]
  by (simp add: ev_header_def fmt_lengths(4))

lemma groups_length_aux:
  "length (concat (map (\<lambda>i. (if i mod 4 = 0 then '' '' else []) @ fmt_02x (f i)) [0..<n])) = 2 * n + (n + 3) div 4"
proof (induction n)
  case (Suc n)
  have "(n + 3) div 4 + (if n mod 4 = 0 then 1 else 0) = (Suc n + 3) div 4" by (cases "n mod 4 = 0") presburger+
  then show ?case using Suc.IH by (cases "n mod 4 = 0") (simp_all add: fmt_lengths(5))
qed simp

lemma groups_length: "length (byte_groups bs) = 2 * length bs + (length bs + 3) div 4"
  using groups_length_aux [of "\<lambda>i. bs ! i"] by (simp add: byte_groups_def)

definition event_ok :: "mon_event_text \<Rightarrow> bool" where
  "event_ok ep \<longleftrightarrow> length (ev_data ep) \<le> SZ_EV_DATA"

lemma line_fits: "event_ok ep \<Longrightarrow> length (event_line ep) \<le> 157"
  using header_length [of ep] by (simp add: event_line_def groups_length event_ok_def SZ_EV_DATA_def)

text \<open>What has been printed so far, when nothing has been cut.\<close>

definition printed :: "string \<Rightarrow> mon_text_ptr \<Rightarrow> bool" where
  "printed t p \<longleftrightarrow> cnt p = length t \<and> length (pbuf p) = limit p \<and> length t \<le> limit p \<and> take (length t) (pbuf p) = t \<and> \<not> past_end p"

lemma printf_prints:
  assumes "printed t p" and "length t + length s < limit p"
  shows "printed (t @ s) (mon_printf s p) \<and> limit (mon_printf s p) = limit p"
proof -
  have t: "cnt p = length t" "length (pbuf p) = limit p" "take (length t) (pbuf p) = t" "\<not> past_end p"
    using assms(1) by (simp_all add: printed_def)
  have s: "take (limit p - length t - 1) s = s" using assms(2) by simp
  show ?thesis
    using assms(2) t by (simp add: mon_printf_def Let_def printed_def write_at_def s min_def)
qed

lemma bytes_print:
  assumes "printed t p" and "length t + length (concat (map (\<lambda>i. (if i mod 4 = 0 then '' '' else []) @ fmt_02x (ev_data ep ! i)) is')) < limit p"
  shows "printed (t @ concat (map (\<lambda>i. (if i mod 4 = 0 then '' '' else []) @ fmt_02x (ev_data ep ! i)) is')) (fold (print_byte ep) is' p)
    \<and> limit (fold (print_byte ep) is' p) = limit p"
  using assms
proof (induction is' arbitrary: t p)
  case (Cons i is')
  let ?q = "if i mod 4 = 0 then mon_printf '' '' p else p"
  let ?u = "t @ (if i mod 4 = 0 then '' '' else [])"
  have q: "printed ?u ?q \<and> limit ?q = limit p"
    using printf_prints [OF Cons.prems(1), of "'' ''"] Cons.prems by (auto split: if_splits)
  then have r: "printed (?u @ fmt_02x (ev_data ep ! i)) (print_byte ep i p) \<and> limit (print_byte ep i p) = limit p"
    using printf_prints [of ?u ?q "fmt_02x (ev_data ep ! i)"] Cons.prems(2) by (simp add: print_byte_def)
  then show ?case using Cons.IH [of "?u @ fmt_02x (ev_data ep ! i)" "print_byte ep i p"] Cons.prems(2) by simp
qed simp

lemma event_prints:
  assumes "event_ok ep" and "157 < limit p" and "length (pbuf p) = limit p" and "cnt p = 0" and "\<not> past_end p"
  shows "printed (event_line ep) (print_event ep p) \<and> limit (print_event ep p) = limit p"
proof -
  have l: "length (ev_header ep) + (length (byte_groups (ev_data ep)) + 1) < limit p"
    using line_fits [OF assms(1)] assms(2) by (simp add: event_line_def)
  have "printed [] p" using assms by (simp add: printed_def)
  from printf_prints [OF this, of "ev_header ep"] l
  have h: "printed (ev_header ep) (mon_printf (ev_header ep) p)" "limit (mon_printf (ev_header ep) p) = limit p" by simp_all
  let ?q = "fold (print_byte ep) [0..<length (ev_data ep)] (mon_printf (ev_header ep) p)"
  have q: "printed (ev_header ep @ byte_groups (ev_data ep)) ?q \<and> limit ?q = limit p"
    using bytes_print [OF h(1), of ep "[0..<length (ev_data ep)]"] h(2) l unfolding byte_groups_def by simp
  have e: "print_event ep p = mon_printf [CHR 0x0A] ?q" by (simp add: print_event_def Let_def)
  show ?thesis
    using printf_prints [of "ev_header ep @ byte_groups (ev_data ep)" ?q "[CHR 0x0A]"] q l
    by (simp add: e event_line_def)
qed

text \<open>
  C37: The line of an event always fits the buffer of a reader: whatever the buffer holds, the
  pieces are printed one after the other as they are meant to be, none is cut, nothing is
  written behind the end, and at least 92 bytes stay free, although the length of a line is never
  checked. The copy to the user then takes bytes of the line only.
\<close>

theorem monitor_line:
  assumes "length (ev_data ep) \<le> SZ_EV_DATA" and "length line = PRINTF_DFL"
  shows "case print_event ep \<lparr>cnt = 0, limit = PRINTF_DFL, pbuf = line, past_end = False\<rparr> of
    p \<Rightarrow> take (cnt p) (pbuf p) = ev_header ep @ byte_groups (ev_data ep) @ [CHR 0x0A]
      \<and> cnt p + 92 < PRINTF_DFL \<and> length (pbuf p) = PRINTF_DFL \<and> \<not> past_end p"
proof -
  let ?p = "\<lparr>cnt = 0, limit = PRINTF_DFL, pbuf = line, past_end = False\<rparr>"
  have e: "event_ok ep" using assms(1) by (simp add: event_ok_def)
  have "printed (event_line ep) (print_event ep ?p) \<and> limit (print_event ep ?p) = PRINTF_DFL"
    using event_prints [OF e, of ?p] assms(2) by (simp add: PRINTF_DFL_def)
  then show ?thesis
    using line_fits [OF e] by (simp add: printed_def event_line_def PRINTF_DFL_def)
qed

theorem monitor_line_witness:
  "case print_event \<lparr>ev_type = CHR ''W'', tstamp = 5, ev_chan = 20, ev_wp = 0x1000, ev_tre = zero_tre, ev_data = [1, 0xAB]\<rparr>
      \<lparr>cnt = 0, limit = PRINTF_DFL, pbuf = replicate PRINTF_DFL CHR ''x'', past_end = False\<rparr> of
    p \<Rightarrow> take (cnt p) (pbuf p) = ''5 W 020 WP:1000 TRE: 0 00000000 00000000 01ab'' @ [CHR 0x0A]"
proof -
  let ?ep = "\<lparr>ev_type = CHR ''W'', tstamp = 5, ev_chan = 20, ev_wp = 0x1000, ev_tre = zero_tre, ev_data = [1, 0xAB]\<rparr>"
  have "ev_header ?ep @ byte_groups (ev_data ?ep) = ''5 W 020 WP:1000 TRE: 0 00000000 00000000 01ab''"
    by (simp add: ev_header_def byte_groups_def fmt_u_def fmt_03d_def fmt_llx_def fmt_08x_def fmt_02x_def padded_def
        digits.simps digit_char_def zero_tre_def) (simp add: eval_nat_numeral)?
  then show ?thesis using monitor_line [of ?ep "replicate PRINTF_DFL CHR ''x''"] by (simp add: SZ_EV_DATA_def)
qed

section \<open>What a reader gets to see\<close>

definition new_reader :: "string \<Rightarrow> mon_reader_text" where
  "new_reader line = \<lparr>e_slab = 0, nevents = 0, e_list = [], printf_size = PRINTF_DFL,
     printf_buf = line, left_size = 0, left_pos = 0\<rparr>"

definition reader_ok :: "mon_reader_text \<Rightarrow> bool" where
  "reader_ok rd \<longleftrightarrow> nevents rd = int (length (e_list rd)) \<and> e_slab rd = length (e_list rd) \<and> length (e_list rd) \<le> EVENT_MAX
     \<and> list_all event_ok (e_list rd) \<and> printf_size rd = PRINTF_DFL \<and> length (printf_buf rd) = PRINTF_DFL
     \<and> left_pos rd + left_size rd \<le> PRINTF_DFL"

text \<open>What the reader has still to see: the rest of a line, and the lines of the events.\<close>

definition unseen :: "mon_reader_text \<Rightarrow> string" where
  "unseen rd = take (left_size rd) (drop (left_pos rd) (printf_buf rd)) @ concat (map event_line (e_list rd))"

lemma new_reader_ok: "length line = PRINTF_DFL \<Longrightarrow> reader_ok (new_reader line) \<and> unseen (new_reader line) = []"
  by (simp add: reader_ok_def new_reader_def unseen_def)

lemma event_kept:
  assumes "reader_ok rd" and "mon_text_event env ch w t buf ln ty rd = (kept, rd')"
  shows "reader_ok rd' \<and> (if kept then \<exists>ep. e_list rd' = e_list rd @ [ep] \<and> unseen rd' = unseen rd @ event_line ep else rd' = rd)
    \<and> (kept \<longleftrightarrow> length (e_list rd) < EVENT_MAX \<and> slab_memory env)"
  using assms
  by (auto simp: mon_text_event_def Let_def reader_ok_def unseen_def event_ok_def SZ_EV_DATA_def split: if_splits)

lemma wait_nothing: "mon_text_read_wait nb [] rd =
    (case e_list rd of [] \<Rightarrow> (if nb then Some (Inl EAGAIN) else None, rd)
     | ep # es \<Rightarrow> (Some (Inr ep), rd\<lparr>e_list := es, nevents := nevents rd - 1\<rparr>))"
  by (subst mon_text_read_wait.simps) (simp add: mon_text_fetch_def split: list.split)

text \<open>A reader who is woken goes on as one who has come later.\<close>

lemma wait_woken: "e_list rd = [] \<Longrightarrow> \<not> nb \<Longrightarrow>
    mon_text_read_wait nb ((woken, False) # wakes) rd = mon_text_read_wait nb wakes (woken rd)"
  by (subst mon_text_read_wait.simps) (simp add: mon_text_fetch_def)

lemma read_left:
  assumes "reader_ok rd" and "left_size rd \<noteq> 0" and "mon_text_read_u nb wakes fault n rd = (r, rd')"
  shows "reader_ok rd' \<and> e_list rd' = e_list rd
    \<and> (if fault then r = Some (Inl EFAULT) \<and> rd' = rd else \<exists>s. r = Some (Inr s) \<and> length s \<le> n \<and> s @ unseen rd' = unseen rd)"
proof (cases fault)
  case True
  then show ?thesis using assms by (auto simp: mon_text_read_u_def Let_def)
next
  case False
  define k where "k = (if n < left_size rd then n else left_size rd)"
  have run: "r = Some (Inr (take k (drop (left_pos rd) (printf_buf rd))))"
    "rd' = rd\<lparr>left_pos := left_pos rd + k, left_size := left_size rd - k\<rparr>"
    using assms(2,3) False by (simp_all add: mon_text_read_u_def Let_def k_def)
  have k: "k \<le> left_size rd" "k \<le> n" by (simp_all add: k_def)
  have "take (left_size rd) (drop (left_pos rd) (printf_buf rd))
      = take k (drop (left_pos rd) (printf_buf rd)) @ take (left_size rd - k) (drop (left_pos rd + k) (printf_buf rd))"
    using take_add [of k "left_size rd - k" "drop (left_pos rd) (printf_buf rd)"] k(1) by (simp add: add.commute)
  then have "take k (drop (left_pos rd) (printf_buf rd)) @ unseen rd' = unseen rd"
    unfolding unseen_def run(2) by simp
  moreover have "reader_ok rd'" using assms(1) k(1) unfolding run(2) by (simp add: reader_ok_def)
  ultimately show ?thesis using False k(2) unfolding run(1) by (simp add: run(2))
qed

lemma read_fresh:
  assumes "reader_ok rd" and "left_size rd = 0" and "mon_text_read_u nb [] fault n rd = (r, rd')"
  shows "reader_ok rd' \<and>
    (case e_list rd of
       [] \<Rightarrow> rd' = rd \<and> r = (if nb then Some (Inl EAGAIN) else None)
     | ep # es \<Rightarrow> e_list rd' = es
         \<and> r = Some (if fault then Inl EFAULT else Inr (take n (event_line ep)))
         \<and> unseen rd' = drop n (event_line ep) @ concat (map event_line es))"
proof (cases "e_list rd")
  case Nil
  then show ?thesis using assms by (cases nb) (simp_all add: mon_text_read_u_def wait_nothing)
next
  case (Cons ep es)
  let ?p = "print_event ep \<lparr>cnt = 0, limit = printf_size rd, pbuf = printf_buf rd, past_end = False\<rparr>"
  have e: "event_ok ep" using assms(1) Cons by (simp add: reader_ok_def)
  have "printed (event_line ep) ?p \<and> limit ?p = PRINTF_DFL"
    using event_prints [OF e, of "\<lparr>cnt = 0, limit = printf_size rd, pbuf = printf_buf rd, past_end = False\<rparr>"] assms(1)
    by (simp add: reader_ok_def PRINTF_DFL_def)
  then have p: "cnt ?p = length (event_line ep)" "take (length (event_line ep)) (pbuf ?p) = event_line ep"
    "length (pbuf ?p) = PRINTF_DFL" "length (event_line ep) \<le> PRINTF_DFL"
    by (auto simp: printed_def)
  have d: "take (length (event_line ep) - n) (drop n (pbuf ?p)) = drop n (event_line ep)"
    using p(2) by (metis drop_take)
  have t: "take n (pbuf ?p) = take n (event_line ep)" if "n \<le> length (event_line ep)"
    using p(2) that by (metis min_absorb1 take_take)
  define q where "q = ?p"
  have run: "mon_text_read_u nb [] fault n rd =
      (Some (if fault then Inl EFAULT else Inr (take (if n < cnt q then n else cnt q) (pbuf q))),
       (if n < cnt q then rd\<lparr>e_list := es, nevents := nevents rd - 1, printf_buf := pbuf q, left_pos := n, left_size := cnt q - n\<rparr>
        else rd\<lparr>e_list := es, nevents := nevents rd - 1, printf_buf := pbuf q\<rparr>)\<lparr>e_slab := e_slab rd - 1\<rparr>)"
    using assms(2) by (simp add: mon_text_read_u_def wait_nothing Cons Let_def q_def)
  note p = p [folded q_def] and d = d [folded q_def] and t = t [folded q_def]
  show ?thesis
  proof (cases "n < length (event_line ep)")
    case True
    then show ?thesis using assms run p d t by (auto simp: Cons reader_ok_def unseen_def)
  next
    case False
    then show ?thesis using assms run p by (auto simp: Cons reader_ok_def unseen_def)
  qed
qed

text \<open>
  The life of one reader, with the events it has taken and the bytes it has read: events are
  offered, and it reads, with or without waiting, as much as it likes. A copy to the user may
  fail while a line is left over; what a failure on a fresh line does is in the property.
\<close>

definition event_of :: "mon_env \<Rightarrow> u32 \<Rightarrow> u64 \<Rightarrow> mhi_tre \<Rightarrow> u64 \<Rightarrow> u64 \<Rightarrow> char \<Rightarrow> mon_event_text" where
  "event_of env ch w t buf ln ty = \<lparr>ev_type = ty, tstamp = mon_get_timestamp env, ev_chan = ch, ev_wp = w, ev_tre = t,
     ev_data = map (\<lambda>i. memory env (buf + of_nat i)) [0..<min SZ_EV_DATA (unat ln)]\<rparr>"

lemma event_ok_of: "event_ok (event_of env ch w t buf ln ty)"
  by (simp add: event_ok_def event_of_def)

lemma event_taken:
  assumes "reader_ok rd"
  shows "mon_text_event env ch w t buf ln ty rd =
    (if length (e_list rd) < EVENT_MAX \<and> slab_memory env
     then (True, rd\<lparr>e_slab := Suc (e_slab rd), nevents := nevents rd + 1, e_list := e_list rd @ [event_of env ch w t buf ln ty]\<rparr>)
     else (False, rd))"
proof -
  have "(if SZ_EV_DATA < unat ln then SZ_EV_DATA else unat ln) = min SZ_EV_DATA (unat ln)" by (simp add: min_def)
  then show ?thesis using assms by (simp add: mon_text_event_def reader_ok_def event_of_def)
qed

lemma taken_ok:
  assumes "reader_ok rd" and "mon_text_event env ch w t buf ln ty rd = (kept, rd')"
  shows "reader_ok rd' \<and> unseen rd' = unseen rd @ (if kept then event_line (event_of env ch w t buf ln ty) else [])"
  using assms event_ok_of [of env ch w t buf ln ty] unfolding event_taken [OF assms(1)]
  by (auto simp: reader_ok_def unseen_def split: if_splits)

inductive reader_run :: "mon_reader_text \<Rightarrow> mon_event_text list \<Rightarrow> string \<Rightarrow> bool" where
  fresh: "length line = PRINTF_DFL \<Longrightarrow> reader_run (new_reader line) [] []"
| offered: "reader_run rd evs seen \<Longrightarrow> mon_text_event env ch w t buf ln ty rd = (kept, rd') \<Longrightarrow>
    reader_run rd' (if kept then evs @ [event_of env ch w t buf ln ty] else evs) seen"
| reads: "reader_run rd evs seen \<Longrightarrow> mon_text_read_u nonblock [] False n rd = (r, rd') \<Longrightarrow>
    reader_run rd' evs (seen @ (case r of Some (Inr s) \<Rightarrow> s | _ \<Rightarrow> []))"
| fails: "reader_run rd evs seen \<Longrightarrow> left_size rd \<noteq> 0 \<Longrightarrow> mon_text_read_u nonblock [] True n rd = (r, rd') \<Longrightarrow>
    reader_run rd' evs seen"

lemma read_takes:
  assumes "reader_ok rd" and "mon_text_read_u nb [] False n rd = (r, rd')"
  shows "reader_ok rd' \<and> (case r of Some (Inr s) \<Rightarrow> s | _ \<Rightarrow> []) @ unseen rd' = unseen rd
    \<and> (e_list rd' = e_list rd \<or> e_list rd' = tl (e_list rd))"
proof (cases "left_size rd = 0")
  case True
  have "unseen rd = concat (map event_line (e_list rd))" by (simp add: unseen_def True)
  then show ?thesis using read_fresh [OF assms(1) True assms(2)] by (cases "e_list rd") auto
next
  case False
  then show ?thesis using read_left [OF assms(1) False assms(2)] by auto
qed

lemma reader_run_ok:
  "reader_run rd evs seen \<Longrightarrow> reader_ok rd \<and> seen @ unseen rd = concat (map event_line evs) \<and> (\<exists>k. k \<le> length evs \<and> e_list rd = drop k evs)"
proof (induction rule: reader_run.induct)
  case (fresh line)
  then show ?case using new_reader_ok [OF fresh] by (simp add: new_reader_def)
next
  case (offered rd evs seen env ch w t buf ln ty kept rd')
  obtain k where k: "k \<le> length evs" "e_list rd = drop k evs" using offered.IH by blast
  have "e_list rd' = (if kept then e_list rd @ [event_of env ch w t buf ln ty] else e_list rd)"
    using offered.hyps(2) offered.IH unfolding event_taken [OF conjunct1 [OF offered.IH]] by (auto split: if_splits)
  then have "e_list rd' = drop k (if kept then evs @ [event_of env ch w t buf ln ty] else evs)" using k by simp
  then show ?case using k(1) taken_ok [OF _ offered.hyps(2)] offered.IH by (auto intro!: exI [of _ k])
next
  case (reads rd evs seen nonblock n r rd')
  obtain k where k: "k \<le> length evs" "e_list rd = drop k evs" using reads.IH by blast
  have t: "reader_ok rd'" "(case r of Some (Inr s) \<Rightarrow> s | _ \<Rightarrow> []) @ unseen rd' = unseen rd"
    "e_list rd' = e_list rd \<or> e_list rd' = tl (e_list rd)"
    using read_takes [OF _ reads.hyps(2)] reads.IH by blast+
  have "\<exists>k. k \<le> length evs \<and> e_list rd' = drop k evs"
  proof (cases "e_list rd' = e_list rd")
    case False
    then have "e_list rd' = drop (Suc k) evs" "e_list rd \<noteq> []" using t(3) k(2) by (auto simp: drop_Suc tl_drop)
    then show ?thesis using k by (intro exI [of _ "Suc k"]) (auto simp: not_less_eq_eq)
  qed (use k in auto)
  then show ?case using t(1,2) reads.IH by simp
next
  case (fails rd evs seen nonblock n r rd')
  then show ?case using read_left [OF _ fails.hyps(2,3)] by auto
qed

text \<open>
  C35: A reader of the monitor sees the line of every event it took, complete, in order and once,
  however small its reads are: what it has read and what it has still to see are together
  these lines. It holds at most as many events as fit, takes an event exactly if it holds fewer
  and there is memory, and every object of its slab belongs to an event it holds. The exception
  is a copy to the user that fails on a fresh line: the call reports an error, and yet the bytes
  the user had asked for are gone, so that the next read starts in the middle of the line, or
  with the next one.
\<close>

theorem monitor_stream:
  assumes "reader_run rd evs seen"
  shows "seen @ unseen rd = concat (map event_line evs)
    \<and> nevents rd = int (length (e_list rd)) \<and> length (e_list rd) \<le> EVENT_MAX \<and> e_slab rd = length (e_list rd)
    \<and> (\<exists>k. k \<le> length evs \<and> e_list rd = drop k evs)
    \<and> fst (mon_text_event env ch w t buf ln ty rd) = (length (e_list rd) < EVENT_MAX \<and> slab_memory env)
    \<and> (left_size rd = 0 \<and> e_list rd \<noteq> [] \<longrightarrow>
        (case mon_text_read_u nonblock [] True n rd of
           (r, rd') \<Rightarrow> r = Some (Inl EFAULT)
             \<and> unseen rd' = drop (min n (length (event_line (hd (e_list rd))))) (unseen rd)))"
proof -
  have o: "reader_ok rd" and r: "seen @ unseen rd = concat (map event_line evs)" "\<exists>k. k \<le> length evs \<and> e_list rd = drop k evs"
    using reader_run_ok [OF assms] by blast+
  have "r = Some (Inl EFAULT) \<and> unseen rd' = drop (min n (length (event_line (hd (e_list rd))))) (unseen rd)"
    if l: "left_size rd = 0" "e_list rd \<noteq> []" and x: "mon_text_read_u nonblock [] True n rd = (r, rd')" for r rd'
  proof -
    obtain ep es where e: "e_list rd = ep # es" using l(2) by (cases "e_list rd") auto
    have u: "unseen rd = event_line ep @ concat (map event_line es)" by (simp add: unseen_def e l(1))
    show ?thesis using read_fresh [OF o l(1) x] by (simp add: e u min_def)
  qed
  then show ?thesis using o r unfolding event_taken [OF o] by (auto simp: reader_ok_def split: prod.splits)
qed

theorem monitor_stream_witness:
  "case mon_text_event \<lparr>memory = (\<lambda>_. 0x5A), clock_sec = 7, clock_nsec = 2000, slab_memory = True\<rparr> 20 0x1000 zero_tre 0x8000 3
      CHR ''W'' (new_reader (replicate PRINTF_DFL CHR ''x'')) of
    (kept, rd) \<Rightarrow> kept \<and> e_slab rd = 1
      \<and> (case mon_text_read_u True [] True 5 rd of (r, rd') \<Rightarrow> r = Some (Inl EFAULT) \<and> unseen rd' = drop 5 (unseen rd))"
proof -
  let ?env = "\<lparr>memory = (\<lambda>_. 0x5A), clock_sec = 7, clock_nsec = 2000, slab_memory = True\<rparr>"
  let ?r0 = "new_reader (replicate PRINTF_DFL CHR ''x'')"
  have f: "reader_run ?r0 [] []" by (rule fresh) simp
  obtain kept rd where x: "mon_text_event ?env 20 0x1000 zero_tre 0x8000 3 CHR ''W'' ?r0 = (kept, rd)" by fastforce
  have k: "kept" using monitor_stream [OF f, of ?env 20 "0x1000" zero_tre "0x8000" 3 "CHR ''W''"] x
    by (simp add: new_reader_def EVENT_MAX_def)
  have o: "reader_ok ?r0" using new_reader_ok by simp
  have l: "left_size rd = 0" "e_list rd = [event_of ?env 20 0x1000 zero_tre 0x8000 3 CHR ''W'']" "e_slab rd = 1"
    using x k unfolding event_taken [OF o] by (auto simp: new_reader_def split: if_splits)
  have "5 \<le> length (event_line ep)" for ep by (simp add: event_line_def ev_header_def)
  then show ?thesis
    using monitor_stream [OF offered [OF f x], where n = 5 and nonblock = True] k l
    unfolding x prod.case by (auto simp: min_def)
qed

section \<open>The files of a controller\<close>

text \<open>The monitor's part of \<open>mhi_init_debugfs\<close>, which power up calls each time.\<close>

definition mon_init :: "mhi_mon \<Rightarrow> mhi_mon" where
  "mon_init m = m\<lparr>nreaders := 0, mon_ref := 1\<rparr>"

definition no_readers :: mhi_mon where
  "no_readers = \<lparr>nreaders = 0, mon_ref = 0, cnt_text_lost = 0, readers = (\<lambda>_. None), blocks = 0, slabs = 0\<rparr>"

text \<open>
  Files are opened, each as a reader of its own, read and closed while the controller works; its
  work does not touch the list of readers, and what it reports goes to them.
\<close>

inductive mon_run :: "mhi_mon \<Rightarrow> mhi_controller \<Rightarrow> bool" where
  powered: "mon_run (mon_init no_readers) (mhi_init_debugfs c)"
| opened: "mon_run m c \<Longrightarrow> readers m r = None \<Longrightarrow> \<forall>line. line_memory oo = Some line \<longrightarrow> length line = PRINTF_DFL \<Longrightarrow>
    mon_text_open oo r m c = (ret, m', c') \<Longrightarrow> mon_run m' c'"
| closed: "mon_run m c \<Longrightarrow> r \<in> set (r_list c) \<Longrightarrow> mon_text_release r m c = Some (m', c') \<Longrightarrow> mon_run m' c'"
| taken: "mon_run m c \<Longrightarrow> readers m r = Some rd \<Longrightarrow> mon_text_read_u nonblock [] fault n rd = (ret, rd') \<Longrightarrow>
    mon_run (m\<lparr>readers := (readers m)(r := Some rd')\<rparr>) c"
| worked: "mon_run m c \<Longrightarrow> r_list c' = r_list c \<Longrightarrow> mon_run (fold (mon_notify env) es m) c'"

definition mon_ok :: "mhi_mon \<Rightarrow> mhi_controller \<Rightarrow> bool" where
  "mon_ok m c \<longleftrightarrow> distinct (r_list c) \<and> (\<forall>r. readers m r \<noteq> None \<longleftrightarrow> r \<in> set (r_list c))
     \<and> nreaders m = int (length (r_list c)) \<and> mon_ref m = Suc (length (r_list c))
     \<and> blocks m = 2 * length (r_list c) \<and> slabs m = length (r_list c)
     \<and> (\<forall>r rd. readers m r = Some rd \<longrightarrow> reader_ok rd)"

lemma open_reader_iff: "mon_ok m c \<Longrightarrow> readers m r = None \<longleftrightarrow> r \<notin> set (r_list c)"
  unfolding mon_ok_def by metis

lemma read_keeps_ok: "reader_ok rd \<Longrightarrow> mon_text_read_u nb [] fault n rd = (ret, rd') \<Longrightarrow> reader_ok rd'"
  using read_left [of rd nb "[]" fault n ret rd'] read_fresh [of rd nb fault n ret rd'] by blast

lemma drop_events_empty:
  assumes "reader_ok rd"
  shows "e_slab (drop_events rd) = 0 \<and> e_list (drop_events rd) = []"
proof -
  have "e_slab (fold (\<lambda>_. drop_event) es x) = 0 \<and> e_list (fold (\<lambda>_. drop_event) es x) = []"
    if "e_slab x = length es" "e_list x = es" for es :: "mon_event_text list" and x
    using that by (induction es arbitrary: x) (simp_all add: drop_event_def)
  then show ?thesis using assms by (simp add: drop_events_def reader_ok_def)
qed

lemma notify_shape:
  obtains "mon_notify env e m = m" | f r where "mon_notify env e m = mon_to_reader f r m"
    "\<And>rd kept rd'. f rd = (kept, rd') \<Longrightarrow> reader_ok rd \<Longrightarrow> reader_ok rd'"
proof (cases e)
  case (Mon_submit r ch w t buf ln)
  then show ?thesis using that(2) [of "mon_text_event env ch w t buf ln CHR ''W''" r] taken_ok by (auto simp: mon_text_submit_def)
next
  case (Mon_receive r ch w t buf ln)
  then show ?thesis using that(2) [of "mon_text_event env ch w t buf ln CHR ''R''" r] taken_ok by (auto simp: mon_text_receive_def)
next
  case (Mon_complete r ch w t)
  then show ?thesis using that(2) [of "mon_text_event env ch w t 0 0 CHR ''E''" r] taken_ok by (auto simp: mon_text_complete_def)
qed (use that(1) in simp_all)

lemma to_reader_ok:
  assumes "mon_ok m c" and "\<And>rd kept rd'. f rd = (kept, rd') \<Longrightarrow> reader_ok rd \<Longrightarrow> reader_ok rd'"
  shows "mon_ok (mon_to_reader f r m) c"
proof (cases "readers m r")
  case (Some rd)
  obtain kept rd' where f: "f rd = (kept, rd')" by fastforce
  have "reader_ok rd'" using assms Some f by (auto simp: mon_ok_def)
  then show ?thesis using assms(1) by (auto simp: mon_ok_def mon_to_reader_def Some f split: if_splits)
qed (use assms(1) in \<open>simp add: mon_to_reader_def\<close>)

lemma notify_ok: "mon_ok m c \<Longrightarrow> mon_ok (fold (mon_notify env) es m) c"
proof (induction es arbitrary: m)
  case (Cons e es)
  have "mon_ok (mon_notify env e m) c"
    by (rule notify_shape [of env e m]) (use Cons.prems in \<open>auto intro: to_reader_ok\<close>)
  then show ?case using Cons.IH by simp
qed simp

lemma open_cases:
  assumes "mon_text_open oo r m c = (ret, m', c')"
  shows "ret = Inl ENOMEM \<and> m' = m \<and> c' = c
    \<or> ret = Inr r \<and> c' = c\<lparr>r_list := r_list c @ [r]\<rparr> \<and> (\<exists>line. line_memory oo = Some line
        \<and> m' = m\<lparr>blocks := Suc (Suc (blocks m)), slabs := Suc (slabs m), readers := (readers m)(r := Some (new_reader line)),
               nreaders := nreaders m + 1, mon_ref := Suc (mon_ref m)\<rparr>)"
  using assms by (auto simp: mon_text_open_def mon_reader_add_def new_reader_def Let_def split: if_splits option.splits)

lemma open_ok:
  assumes "mon_ok m c" and "readers m r = None" and "\<forall>line. line_memory oo = Some line \<longrightarrow> length line = PRINTF_DFL"
    and "mon_text_open oo r m c = (ret, m', c')"
  shows "mon_ok m' c'"
  using open_cases [OF assms(4)]
proof (elim disjE conjE exE)
  fix line
  assume c': "c' = c\<lparr>r_list := r_list c @ [r]\<rparr>" and l: "line_memory oo = Some line"
    and m': "m' = m\<lparr>blocks := Suc (Suc (blocks m)), slabs := Suc (slabs m), readers := (readers m)(r := Some (new_reader line)),
               nreaders := nreaders m + 1, mon_ref := Suc (mon_ref m)\<rparr>"
  have "reader_ok (new_reader line)" using new_reader_ok assms(3) l by blast
  moreover have "r \<notin> set (r_list c)" using open_reader_iff [OF assms(1)] assms(2) by blast
  ultimately show ?thesis using assms(1) by (auto simp: mon_ok_def c' m')
qed (use assms(1) in simp)

lemma release_ok:
  assumes "mon_ok m c" and "r \<in> set (r_list c)"
  shows "\<exists>m' c'. mon_text_release r m c = Some (m', c') \<and> mon_ok m' c' \<and> r_list c' = remove1 r (r_list c)"
proof -
  have "r_list c \<noteq> []" using assms(2) by auto
  then have l: "0 < length (r_list c)" "Suc 0 \<le> length (r_list c)" by (simp_all add: Suc_le_eq)
  then have n: "0 < nreaders m" "1 < mon_ref m" using assms(1) by (simp_all add: mon_ok_def)
  obtain rd where rd: "readers m r = Some rd" using open_reader_iff [OF assms(1), of r] assms(2) by auto
  then have z: "e_slab (drop_events rd) = 0" using assms(1) drop_events_empty by (auto simp: mon_ok_def)
  let ?m = "m\<lparr>nreaders := nreaders m - 1, mon_ref := mon_ref m - 1, slabs := slabs m - 1, blocks := blocks m - 1 - 1,
      readers := (readers m)(r := None)\<rparr>" and ?c = "c\<lparr>r_list := remove1 r (r_list c)\<rparr>"
  have "mon_text_release r m c = Some (?m, ?c)"
    using n assms(2) rd z by (simp add: mon_text_release_def mon_reader_del_def)
  moreover have "mon_ok ?m ?c"
    using assms n l by (auto simp: mon_ok_def length_remove1 of_nat_diff)
  ultimately show ?thesis by auto
qed

lemma mon_run_ok: "mon_run m c \<Longrightarrow> mon_ok m c"
proof (induction rule: mon_run.induct)
  case (powered c)
  then show ?case by (simp add: mon_ok_def mon_init_def no_readers_def mhi_init_debugfs_def)
next
  case (opened m c r oo ret m' c')
  then show ?case using open_ok by blast
next
  case (closed m c r m' c')
  then show ?case using release_ok by fastforce
next
  case (taken m c r rd nonblock fault n ret rd')
  show ?case using taken.IH read_keeps_ok [OF _ taken.hyps(3)] taken.hyps(2) by (auto simp: mon_ok_def)
next
  case (worked m c c' env es)
  then show ?case using notify_ok by (auto simp: mon_ok_def)
qed

text \<open>
  C36: The files of the monitor, in any order of opening, reading and closing while the controller
  works: the number of readers is the length of their list, so the queue functions report to the
  list exactly if it is not empty; each open file holds two blocks and a slab; each can be closed,
  and closing the last leaves nothing. When the link is powered up again with a file open, the
  list forgets its readers: closing the file then gives nothing back, or, once another file has
  been opened, unlinks it from a list it is not on.
\<close>

theorem monitor_files:
  assumes "mon_run m c"
  shows "nreaders m = int (length (r_list c)) \<and> blocks m = 2 * length (r_list c) \<and> slabs m = length (r_list c)
    \<and> (readers m r \<noteq> None \<longleftrightarrow> r \<in> set (r_list c))
    \<and> (r \<in> set (r_list c) \<longrightarrow> (case mon_text_release r m c of
          None \<Rightarrow> False
        | Some (m', c') \<Rightarrow> r_list c' = remove1 r (r_list c) \<and> r \<notin> set (r_list c') \<and> readers m' r = None
            \<and> blocks m' = 2 * length (r_list c') \<and> slabs m' = length (r_list c')))
    \<and> mon_text_release r (mon_init m) (mhi_init_debugfs c) = Some (mon_init m, mhi_init_debugfs c)
    \<and> (q \<noteq> r \<longrightarrow> (case mon_text_open oo q (mon_init m) (mhi_init_debugfs c) of
          (Inr _, m', c') \<Rightarrow> mon_text_release r m' c' = None
        | (Inl _, m', c') \<Rightarrow> m' = mon_init m \<and> c' = mhi_init_debugfs c))"
proof -
  have o: "mon_ok m c" by (rule mon_run_ok [OF assms])
  have rel: "case mon_text_release r m c of None \<Rightarrow> False
      | Some (m', c') \<Rightarrow> r_list c' = remove1 r (r_list c) \<and> r \<notin> set (r_list c') \<and> readers m' r = None
          \<and> blocks m' = 2 * length (r_list c') \<and> slabs m' = length (r_list c')" if mem: "r \<in> set (r_list c)"
  proof -
    obtain m' c' where x: "mon_text_release r m c = Some (m', c')" "mon_ok m' c'" "r_list c' = remove1 r (r_list c)"
      using release_ok [OF o mem] by blast
    then have "r \<notin> set (r_list c')" using o by (simp add: mon_ok_def)
    then show ?thesis using x by (auto simp: mon_ok_def)
  qed
  have stale: "case mon_text_open oo q (mon_init m) (mhi_init_debugfs c) of
      (Inr _, m', c') \<Rightarrow> mon_text_release r m' c' = None
    | (Inl _, m', c') \<Rightarrow> m' = mon_init m \<and> c' = mhi_init_debugfs c" if "q \<noteq> r"
  proof -
    obtain ret m' c' where x: "mon_text_open oo q (mon_init m) (mhi_init_debugfs c) = (ret, m', c')" by (metis prod_cases3)
    show ?thesis
      using open_cases [OF x] that unfolding x
      by (auto simp: mon_init_def mhi_init_debugfs_def mon_text_release_def mon_reader_del_def)
  qed
  show ?thesis using o rel stale by (auto simp: mon_ok_def mon_text_release_def mon_init_def)
qed

definition demo_open :: mon_open_os where
  "demo_open = \<lparr>reader_memory = True, line_memory = Some (replicate PRINTF_DFL CHR ''x''), slab_created = True\<rparr>"

lemma demo_opened:
  obtains m c where "mon_text_open demo_open 3 (mon_init no_readers) (mhi_init_debugfs demo_controller) = (Inr 3, m, c)"
    "mon_run m c" "c = demo_controller\<lparr>r_list := [3]\<rparr>" "readers m 3 = Some (new_reader (replicate PRINTF_DFL CHR ''x''))"
proof -
  let ?m = "mon_init no_readers" and ?c = "mhi_init_debugfs demo_controller"
  obtain ret m c where x: "mon_text_open demo_open 3 ?m ?c = (ret, m, c)" by (metis prod_cases3)
  have e: "readers ?m 3 = None" "r_list ?c = []" by (simp_all add: mon_init_def no_readers_def mhi_init_debugfs_def)
  have s: "ret = Inr 3" "c = demo_controller\<lparr>r_list := [3]\<rparr>" "readers m 3 = Some (new_reader (replicate PRINTF_DFL CHR ''x''))"
    using open_cases [OF x] x e(2) by (auto simp: mon_text_open_def mon_reader_add_def demo_open_def mhi_init_debugfs_def Let_def)
  have "mon_run m c" by (rule opened [OF powered e(1) _ x]) (simp add: demo_open_def)
  then show ?thesis using that x s by blast
qed

theorem monitor_files_witness:
  "case mon_text_open demo_open 3 (mon_init no_readers) (mhi_init_debugfs demo_controller) of
    (ret, m, c) \<Rightarrow> ret = Inr 3 \<and> blocks m = 2 \<and> r_list c = [3]
      \<and> (case mon_text_release 3 m c of None \<Rightarrow> False | Some (m', c') \<Rightarrow> blocks m' = 0 \<and> slabs m' = 0)
      \<and> mon_text_release 3 (mon_init m) (mhi_init_debugfs c) = Some (mon_init m, mhi_init_debugfs c)"
proof -
  obtain m c where x: "mon_text_open demo_open 3 (mon_init no_readers) (mhi_init_debugfs demo_controller) = (Inr 3, m, c)"
    "mon_run m c" "c = demo_controller\<lparr>r_list := [3]\<rparr>" by (rule demo_opened)
  from monitor_files [OF x(2), of 3] show ?thesis
    unfolding x(1) prod.case using x(3) by (cases "mon_text_release 3 m c") auto
qed

section \<open>What the monitor sees of a queue function\<close>

fun is_mon :: "obs \<Rightarrow> bool" where
  "is_mon (Mon_submit r ch w t buf ln) \<longleftrightarrow> True"
| "is_mon (Mon_receive r ch w t buf ln) \<longleftrightarrow> True"
| "is_mon (Mon_complete r ch w t) \<longleftrightarrow> True"
| "is_mon _ \<longleftrightarrow> False"

text \<open>A step that reports nothing to the monitor and leaves its readers alone.\<close>

definition quiet :: "mhi_controller \<Rightarrow> mhi_controller \<Rightarrow> bool" where
  "quiet c c' \<longleftrightarrow> r_list c' = r_list c \<and> (\<exists>es. trace c' = trace c @ es \<and> \<not> list_ex is_mon es)"

lemma quiet_refl [simp]: "quiet c c"
  by (simp add: quiet_def)

lemma quiet_trans: "quiet a b \<Longrightarrow> quiet b c \<Longrightarrow> quiet a c"
  by (fastforce simp: quiet_def)

lemma quiet_emit: "\<not> is_mon e \<Longrightarrow> quiet c (emit e c)"
  by (simp add: quiet_def emit_def)

lemma quiet_upd [simp]: "quiet c (upd_chan i f c)" "quiet c (c\<lparr>mmio := x\<rparr>)" "quiet c (c\<lparr>pending_pkts := p\<rparr>)" "quiet c (c\<lparr>alloc_size := a\<rparr>)"
    "quiet c (c\<lparr>n_alloc := n\<rparr>)"
  by (simp_all add: quiet_def upd_chan_def)

lemma quiet_write [simp]: "quiet c (mhi_write_reg b off v c)" "quiet c (mhi_write_db db w c)"
proof -
  show w: "quiet c (mhi_write_reg b off v c)" for b off v c
    unfolding mhi_write_reg_def using quiet_trans [OF quiet_upd(2) quiet_emit] by simp
  show "quiet c (mhi_write_db db w c)" unfolding mhi_write_db_def using quiet_trans [OF w w] .
qed

lemma quiet_process_db: "quiet c (snd (call_process_db d db w c))"
  by (simp add: call_process_db_def mhi_db_brstmode_def mhi_db_brstmode_disable_def split: process_db_fn.split)

lemma quiet_queue_steps:
  "quiet c (kick_suspended c)" "quiet c (wake_get_if b c)" "quiet c (count_pending d c)" "quiet c (advance_wp i c)"
  "quiet c (store_buf i bi c)" "quiet c (store_tre i t c)" "quiet c (ring_db_if_valid i c)"
proof -
  show "quiet c (kick_suspended c)" by (simp add: kick_suspended_def quiet_trans [OF quiet_emit quiet_emit])
  show "quiet c (wake_get_if b c)" by (simp add: wake_get_if_def mhi_assert_dev_wake_def)
  show "quiet c (count_pending d c)"
    by (simp add: count_pending_def Let_def quiet_def emit_def)
  show "quiet c (advance_wp i c)" "quiet c (store_buf i bi c)" "quiet c (store_tre i t c)"
    by (simp_all add: advance_wp_def store_buf_def store_tre_def)
  show "quiet c (ring_db_if_valid i c)"
    using quiet_trans [OF quiet_upd(1) quiet_trans [OF quiet_process_db quiet_upd(1)]]
    by (simp add: ring_db_if_valid_def mhi_ring_chan_db_def Let_def case_prod_beta)
qed

lemma quiet_map: "call_map_single os b c = (r, b', c') \<Longrightarrow> quiet c c' \<and> v_addr b' = v_addr b \<and> bi_len b' = bi_len b"
proof -
  have "quiet c (emit (Bounce_copy x y z) (c\<lparr>n_alloc := n, alloc_size := a\<rparr>))" "quiet c (c\<lparr>n_alloc := n, alloc_size := a\<rparr>)" for x y z n a
    by (simp_all add: quiet_def emit_def)
  then show "call_map_single os b c = (r, b', c') \<Longrightarrow> ?thesis"
    by (auto simp: call_map_single_def mhi_map_single_use_bb_def mhi_map_single_no_bb_def mhi_alloc_coherent_def Let_def
        split: if_splits option.splits prod.splits)
qed

lemma mon_submit_trace:
  "trace (mon_submit_chan i t b c) = trace c @ map (\<lambda>r. Mon_submit r (chan (mhi_chan c i))
       (mhi_to_physical (tre_ring (mhi_chan c i)) (wp (tre_ring (mhi_chan c i)))) t (v_addr b)
       (if chan (mhi_chan c i) AND 1 \<noteq> 0 then 0 else bi_len b)) (r_list c)
   \<and> r_list (mon_submit_chan i t b c) = r_list c"
proof -
  have f: "trace (fold (\<lambda>r. emit (g r)) rs x) = trace x @ map g rs \<and> r_list (fold (\<lambda>r. emit (g r)) rs x) = r_list x" for g rs x
    by (induction rs arbitrary: x) (simp_all add: emit_def)
  show ?thesis by (simp add: mon_submit_chan_def mon_bus_submit_def Let_def f)
qed

lemma quiet_notify: "\<not> list_ex is_mon es \<Longrightarrow> fold (mon_notify env) es m = m"
proof (induction es)
  case (Cons e es)
  then show ?case by (cases e) simp_all
qed simp

text \<open>The same event to every reader of a list.\<close>

lemma to_readers:
  assumes "distinct rs"
  shows "readers (fold (mon_to_reader f) rs m) = (\<lambda>r. if r \<in> set rs then map_option (\<lambda>rd. snd (f rd)) (readers m r) else readers m r)
    \<and> cnt_text_lost (fold (mon_to_reader f) rs m) = cnt_text_lost m
        + of_nat (length (filter (\<lambda>r. case readers m r of None \<Rightarrow> False | Some rd \<Rightarrow> \<not> fst (f rd)) rs))"
  using assms
proof (induction rs arbitrary: m)
  case (Cons r rs)
  have h: "readers (mon_to_reader f r m) = (\<lambda>x. if x = r then map_option (\<lambda>rd. snd (f rd)) (readers m r) else readers m x)"
    by (auto simp: mon_to_reader_def fun_eq_iff split: option.split prod.splits)
  have l: "cnt_text_lost (mon_to_reader f r m) = cnt_text_lost m
      + (case readers m r of None \<Rightarrow> 0 | Some rd \<Rightarrow> if fst (f rd) then 0 else 1)"
    by (auto simp: mon_to_reader_def split: option.split prod.splits)
  have "filter (\<lambda>x. case readers (mon_to_reader f r m) x of None \<Rightarrow> False | Some rd \<Rightarrow> \<not> fst (f rd)) rs
      = filter (\<lambda>x. case readers m x of None \<Rightarrow> False | Some rd \<Rightarrow> \<not> fst (f rd)) rs"
    using Cons.prems by (intro filter_cong) (auto simp: h)
  then show ?case using Cons.IH [of "mon_to_reader f r m"] Cons.prems by (auto simp: h l fun_eq_iff split: option.split)
qed simp

lemma skb_trace:
  assumes "mhi_queue_skb os i skb dat ln c = (ret, c')"
  shows "\<exists>es. trace c' = trace c @ es \<and> r_list c' = r_list c \<and>
    fold (mon_notify env) es m =
      (if ret \<noteq> Inr () then m
       else fold (mon_to_reader (mon_text_event env (chan (mhi_chan c i))
              (mhi_to_physical (tre_ring (mhi_chan c i)) (wp (tre_ring (mhi_chan c i))))
              (slots (tre_ring (mhi_chan c' i)) (wp (tre_ring (mhi_chan c i)))) dat
              (if chan (mhi_chan c i) AND 1 \<noteq> 0 then 0 else ln) CHR ''W'')) (r_list c) m)"
proof (cases "mhi_is_ring_full (tre_ring (mhi_chan c i)) \<or> MHI_PM_IN_ERROR_STATE (pm_state c)")
  case True
  then obtain e where "mhi_queue_skb os i skb dat ln c = (Inl e, c)"
    by (cases "mhi_is_ring_full (tre_ring (mhi_chan c i))") (auto simp: mhi_queue_skb_def)
  then show ?thesis using assms by simp
next
  case False
  let ?d = "dir (mhi_chan c i)"
  let ?c0 = "wake_get_if (wants_wake ?d (pm_state c)) (kick_suspended c)"
  let ?b0 = "(slots (buf_ring (mhi_chan c i)) (wp (buf_ring (mhi_chan c i))))\<lparr>v_addr := dat,
     cb_buf := skb, bi_wp := wp (tre_ring (mhi_chan c i)), bi_dir := ?d, bi_len := ln\<rparr>"
  obtain r b c1 where m: "call_map_single os ?b0 ?c0 = (r, b, c1)" by (metis prod_cases3)
  have c1: "mhi_chan c1 = mhi_chan c" using call_map_frame [of os ?b0 ?c0] unfolding m by simp
  have q1: "quiet c c1" and b: "v_addr b = dat" "bi_len b = ln"
    using quiet_map [OF m] quiet_trans [OF quiet_trans [OF quiet_queue_steps(1) quiet_queue_steps(2)]] by auto
  show ?thesis
  proof (cases r)
    case (Inl e)
    then have "ret = Inl e" "c' = store_buf i b c1" using assms False m by (auto simp: mhi_queue_skb_def Let_def split: if_splits)
    then show ?thesis using quiet_trans [OF q1 quiet_queue_steps(5) [of c1 i b]] quiet_notify by (auto simp: quiet_def)
  next
    case (Inr u)
    define t where "t = \<lparr>tre_ptr = p_addr b, dword0 = MHI_TRE_DATA_DWORD0 (bi_len b), dword1 = MHI_TRE_DATA_DWORD1 1 1 0 0\<rparr>"
    define c2 where "c2 = store_tre i t (store_buf i b c1)"
    define c3 where "c3 = mon_submit_chan i t b c2"
    have c': "ret = Inr ()" "c' = ring_db_if_valid i (advance_wp i (count_pending ?d c3))"
      using assms False m Inr by (auto simp: mhi_queue_skb_def Let_def t_def c2_def c3_def)
    have q2: "quiet c c2"
      unfolding c2_def using quiet_trans [OF q1 quiet_trans [OF quiet_queue_steps(5) quiet_queue_steps(6)]] .
    have q3: "quiet c3 c'"
      unfolding c'(2) using quiet_trans [OF quiet_queue_steps(3) quiet_trans [OF quiet_queue_steps(4) quiet_queue_steps(7)]] .
    have ch2: "mhi_chan c2 i = (mhi_chan c i)\<lparr>buf_ring := ring_write (buf_ring (mhi_chan c i)) b,
        tre_ring := ring_write (tre_ring (mhi_chan c i)) t\<rparr>"
      by (simp add: c2_def store_tre_def store_buf_def upd_chan_def c1)
    have s: "slots (tre_ring (mhi_chan c' i)) (wp (tre_ring (mhi_chan c i))) = t"
    proof -
      have "mhi_chan (count_pending ?d c3) = mhi_chan c2" by (simp add: c3_def count_pending_def Let_def emit_def)
      then show ?thesis
        using ring_db_chan [of i "advance_wp i (count_pending ?d c3)"] ch2
        by (auto simp: c'(2) advance_wp_def upd_chan_def mhi_add_ring_element_def ring_write_def Let_def)
    qed
    let ?W = "\<lambda>r. Mon_submit r (chan (mhi_chan c i)) (mhi_to_physical (tre_ring (mhi_chan c i)) (wp (tre_ring (mhi_chan c i)))) t dat
        (if chan (mhi_chan c i) AND 1 \<noteq> 0 then 0 else ln)"
    have w: "trace c3 = trace c2 @ map ?W (r_list c)" "r_list c3 = r_list c2"
      using mon_submit_trace [of i t b c2] q2 b unfolding c3_def
      by (simp_all add: ch2 ring_write_def mhi_to_physical_def quiet_def)
    obtain es1 es2 where es: "trace c2 = trace c @ es1" "\<not> list_ex is_mon es1" "trace c' = trace c3 @ es2" "\<not> list_ex is_mon es2"
      using q2 q3 by (auto simp: quiet_def)
    have "trace c' = trace c @ (es1 @ map ?W (r_list c) @ es2)" using es w by simp
    moreover have "fold (mon_notify env) (es1 @ map ?W (r_list c) @ es2) m
        = fold (\<lambda>r. mon_notify env (?W r)) (r_list c) m"
      using quiet_notify [OF es(2)] quiet_notify [OF es(4)] by (simp add: fold_map comp_def)
    moreover have "r_list c' = r_list c" using q2 q3 w(2) by (simp add: quiet_def)
    moreover have "(\<lambda>r. mon_notify env (Mon_submit r k w' t' a n)) = mon_to_reader (mon_text_event env k w' t' a n CHR ''W'')"
      for k w' t' a n by (simp add: fun_eq_iff mon_text_submit_def)
    ultimately show ?thesis using c'(1) s by (intro exI [of _ "es1 @ map ?W (r_list c) @ es2"]) simp
  qed
qed

text \<open>
  C34: What is queued while files of the monitor are open is seen by each of them. After
  \<open>mhi_queue_skb\<close> has queued a buffer every reader has one more line to see, the same for all:
  the descriptor that was written, the bus address of its slot, and, on a channel to the device,
  the first 32 bytes of the buffer; a reader that is full, or for whose event there is no memory,
  has nothing more and is counted once. When the function fails no reader sees anything, and no
  other step of it is reported.
\<close>

theorem queue_monitored:
  assumes "mon_run m c"
  shows "case mhi_queue_skb os i skb dat ln c of (ret, c') \<Rightarrow>
    \<exists>es. trace c' = trace c @ es \<and> r_list c' = r_list c
      \<and> (case fold (mon_notify env) es m of m' \<Rightarrow>
          if ret \<noteq> Inr () then m' = m
          else
            (\<forall>r. case readers m r of
                None \<Rightarrow> readers m' r = None
              | Some rd \<Rightarrow> \<exists>rd'. readers m' r = Some rd' \<and> unseen rd' = unseen rd @
                  (if length (e_list rd) < EVENT_MAX \<and> slab_memory env
                   then event_line (event_of env (chan (mhi_chan c i))
                      (mhi_to_physical (tre_ring (mhi_chan c i)) (wp (tre_ring (mhi_chan c i))))
                      (slots (tre_ring (mhi_chan c' i)) (wp (tre_ring (mhi_chan c i))))
                      dat (if chan (mhi_chan c i) AND 1 \<noteq> 0 then 0 else ln) CHR ''W'') else []))
            \<and> cnt_text_lost m' = cnt_text_lost m + of_nat (length (filter
                (\<lambda>r. case readers m r of None \<Rightarrow> False | Some rd \<Rightarrow> \<not> (length (e_list rd) < EVENT_MAX \<and> slab_memory env)) (r_list c))))"
proof -
  have o: "mon_ok m c" by (rule mon_run_ok [OF assms])
  have ok: "reader_ok rd" if "readers m r = Some rd" for r rd using o that by (auto simp: mon_ok_def)
  obtain ret c' where x: "mhi_queue_skb os i skb dat ln c = (ret, c')" by fastforce
  define f where "f = mon_text_event env (chan (mhi_chan c i))
      (mhi_to_physical (tre_ring (mhi_chan c i)) (wp (tre_ring (mhi_chan c i))))
      (slots (tre_ring (mhi_chan c' i)) (wp (tre_ring (mhi_chan c i)))) dat
      (if chan (mhi_chan c i) AND 1 \<noteq> 0 then 0 else ln) CHR ''W''"
  define ev where "ev = event_of env (chan (mhi_chan c i))
      (mhi_to_physical (tre_ring (mhi_chan c i)) (wp (tre_ring (mhi_chan c i))))
      (slots (tre_ring (mhi_chan c' i)) (wp (tre_ring (mhi_chan c i)))) dat
      (if chan (mhi_chan c i) AND 1 \<noteq> 0 then 0 else ln) CHR ''W''"
  have f: "fst (f rd) = (length (e_list rd) < EVENT_MAX \<and> slab_memory env)"
    "unseen (snd (f rd)) = unseen rd @ (if length (e_list rd) < EVENT_MAX \<and> slab_memory env then event_line ev else [])"
    if "readers m r = Some rd" for r rd
    unfolding f_def ev_def event_taken [OF ok [OF that]] by (simp_all add: unseen_def)
  have d: "distinct (r_list c)" using o by (simp add: mon_ok_def)
  have lost: "filter (\<lambda>r. case readers m r of None \<Rightarrow> False | Some rd \<Rightarrow> \<not> fst (f rd)) (r_list c)
      = filter (\<lambda>r. case readers m r of None \<Rightarrow> False | Some rd \<Rightarrow> \<not> (length (e_list rd) < EVENT_MAX \<and> slab_memory env)) (r_list c)"
    by (rule filter_cong) (auto simp: f split: option.split)
  have all_lost: "cnt_text_lost (fold (mon_to_reader f) (r_list c) m) = cnt_text_lost m + of_nat (length (filter
      (\<lambda>r. case readers m r of None \<Rightarrow> False | Some rd \<Rightarrow> \<not> (length (e_list rd) < EVENT_MAX \<and> slab_memory env)) (r_list c)))"
    using to_readers [OF d, of f m] unfolding lost by blast
  have all: "case readers m r of None \<Rightarrow> readers (fold (mon_to_reader f) (r_list c) m) r = None
      | Some rd \<Rightarrow> \<exists>rd'. readers (fold (mon_to_reader f) (r_list c) m) r = Some rd' \<and> unseen rd' = unseen rd @
          (if length (e_list rd) < EVENT_MAX \<and> slab_memory env then event_line ev else [])" for r
    using to_readers [OF d, of f m] open_reader_iff [OF o, of r] f by (auto split: option.split)
  obtain es where es: "trace c' = trace c @ es" "r_list c' = r_list c"
    "fold (mon_notify env) es m = (if ret \<noteq> Inr () then m else fold (mon_to_reader f) (r_list c) m)"
    using skb_trace [OF x, of env m] unfolding f_def by blast
  show ?thesis
    unfolding x prod.case ev_def [symmetric]
    by (rule exI [of _ es], rule conjI [OF es(1)], rule conjI [OF es(2)], cases "ret = Inr ()")
      (simp_all only: es(3) all all_lost not_True_eq_False not_False_eq_True if_True if_False simp_thms)
qed

definition demo_env :: mon_env where
  "demo_env = \<lparr>memory = (\<lambda>_. 0x5A), clock_sec = 7, clock_nsec = 2000, slab_memory = True\<rparr>"

theorem queue_monitored_witness:
  "case mon_text_open demo_open 3 (mon_init no_readers) (mhi_init_debugfs demo_controller) of
    (_, m, c) \<Rightarrow>
      (case mhi_queue_skb link_up 0 0x77 0x7000 1500 c of
         (ret, c') \<Rightarrow> ret = Inr () \<and> (\<exists>es rd ep. trace c' = trace c @ es \<and> readers (fold (mon_notify demo_env) es m) 3 = Some rd
           \<and> unseen rd = event_line ep \<and> length (ev_data ep) = 32 \<and> ev_chan ep = 0))"
proof -
  obtain m c where x: "mon_text_open demo_open 3 (mon_init no_readers) (mhi_init_debugfs demo_controller) = (Inr 3, m, c)"
    "mon_run m c" "c = demo_controller\<lparr>r_list := [3]\<rparr>" "readers m 3 = Some (new_reader (replicate PRINTF_DFL CHR ''x''))"
    by (rule demo_opened)
  obtain ret c' where q: "mhi_queue_skb link_up 0 0x77 0x7000 1500 c = (ret, c')" by fastforce
  have "fst (mhi_queue_skb link_up 0 0x77 0x7000 1500 c) = Inr ()"
    by (simp add: x(3) mhi_queue_skb_def demo_controller_def demo_chan_def zero_defs mhi_is_ring_full_def
      MHI_PM_IN_ERROR_STATE_def pm_state_defs kick_suspended_def MHI_PM_IN_SUSPEND_STATE_def
      wants_wake_def wake_get_if_def mhi_assert_dev_wake_def call_map_single_def
      mhi_map_single_no_bb_def link_up_def Let_def)
  then have r: "ret = Inr ()" by (simp add: q)
  have n: "unseen (new_reader l) = []" "e_list (new_reader l) = []" for l by (simp_all add: new_reader_def unseen_def)
  have c: "chan (mhi_chan c 0) = 0" by (simp add: x(3) demo_controller_def demo_chan_def zero_defs)
  obtain es where es: "trace c' = trace c @ es" "\<forall>r. case readers m r of
      None \<Rightarrow> readers (fold (mon_notify demo_env) es m) r = None
    | Some rd \<Rightarrow> \<exists>rd'. readers (fold (mon_notify demo_env) es m) r = Some rd' \<and> unseen rd' = unseen rd @
        (if length (e_list rd) < EVENT_MAX \<and> slab_memory demo_env
         then event_line (event_of demo_env (chan (mhi_chan c 0))
            (mhi_to_physical (tre_ring (mhi_chan c 0)) (wp (tre_ring (mhi_chan c 0))))
            (slots (tre_ring (mhi_chan c' 0)) (wp (tre_ring (mhi_chan c 0))))
            0x7000 (if chan (mhi_chan c 0) AND 1 \<noteq> 0 then 0 else 1500) CHR ''W'') else [])"
    using queue_monitored [OF x(2), where os = link_up and i = 0 and skb = "0x77" and dat = "0x7000" and ln = 1500 and env = demo_env] r unfolding q prod.case by auto
  from es(2) [THEN spec, of 3] obtain rd where
    "readers (fold (mon_notify demo_env) es m) 3 = Some rd" "unseen rd =
        event_line (event_of demo_env 0 (mhi_to_physical (tre_ring (mhi_chan c 0)) (wp (tre_ring (mhi_chan c 0))))
            (slots (tre_ring (mhi_chan c' 0)) (wp (tre_ring (mhi_chan c 0)))) 0x7000 1500 CHR ''W'')"
    unfolding x(4) option.case c by (auto simp: n EVENT_MAX_def demo_env_def)
  moreover have "length (ev_data (event_of demo_env 0 w t 0x7000 1500 ty)) = 32" "ev_chan (event_of demo_env 0 w t 0x7000 1500 ty) = 0" for w t ty
    by (simp_all add: event_of_def SZ_EV_DATA_def)
  ultimately show ?thesis unfolding x(1) prod.case q using r es(1) by blast
qed

end
