(* ===== verification/Mhi_Sat.thy ===== *)
theory Mhi_Sat
  imports Mhi_Chan
begin

text \<open>
  The satellite driver (\<open>devices/mhi_satellite.c\<close>), which the Makefile of this tree does not build:
  another processor of the system owns the data of some channels, and the driver does for it,
  on command, what only the host can do: map memory for the device, describe rings to it, start
  and reset channels. Commands and events travel in messages of an RPMSG link. Then: what a
  message of commands is answered with, and what is left when the link or the devices go.
\<close>

section \<open>Messages\<close>

record sat_tre =
  sat_ptr :: u64
  sat_dw0 :: u32
  sat_dw1 :: u32

record sat_header =
  major_ver :: u16
  minor_ver :: u16
  msg_id :: u16
  hdr_seq :: u16
  reply_seq :: u16
  payload_size :: u16
  hdr_dev_id :: u32

text \<open>A message: the header and the elements that lie in it completely.\<close>

record sat_msg =
  sat_hdr :: sat_header
  sat_pkts :: "sat_tre list"

definition SAT_MAJOR_VERSION :: u16 where "SAT_MAJOR_VERSION = 1"
definition SAT_MINOR_VERSION :: u16 where "SAT_MINOR_VERSION = 0"
definition SAT_RESERVED_SEQ_NUM :: u16 where "SAT_RESERVED_SEQ_NUM = 0xFFFF"
definition SAT_MSG_ID_CMD :: u16 where "SAT_MSG_ID_CMD = 0xC"
definition SAT_MSG_ID_EVT :: u16 where "SAT_MSG_ID_EVT = 0xE"

definition sizeof_sat_header :: nat where "sizeof_sat_header = 24"
definition sizeof_sat_tre :: nat where "sizeof_sat_tre = 16"

definition SAT_MSG_SIZE :: "nat \<Rightarrow> nat" where "SAT_MSG_SIZE n = sizeof_sat_header + n * sizeof_sat_tre"
definition SAT_TRE_SIZE :: "nat \<Rightarrow> nat" where "SAT_TRE_SIZE n = n - sizeof_sat_header"
definition SAT_TRE_NUM_PKTS :: "nat \<Rightarrow> nat" where "SAT_TRE_NUM_PKTS n = n div sizeof_sat_tre"

definition MHI_PKT_TYPE_RESET_CHAN_CMD :: u32 where "MHI_PKT_TYPE_RESET_CHAN_CMD = 0x10"
definition MHI_PKT_TYPE_START_CHAN_CMD :: u32 where "MHI_PKT_TYPE_START_CHAN_CMD = 0x12"
definition MHI_PKT_TYPE_STATE_CHANGE_EVENT :: u32 where "MHI_PKT_TYPE_STATE_CHANGE_EVENT = 0x20"
definition MHI_PKT_TYPE_CMD_COMPLETION_EVENT :: u32 where "MHI_PKT_TYPE_CMD_COMPLETION_EVENT = 0x21"
definition MHI_PKT_TYPE_EE_EVENT :: u32 where "MHI_PKT_TYPE_EE_EVENT = 0x40"
definition MHI_PKT_TYPE_CTXT_UPDATE_CMD :: u32 where "MHI_PKT_TYPE_CTXT_UPDATE_CMD = 0x64"
definition MHI_PKT_TYPE_IOMMU_MAP_CMD :: u32 where "MHI_PKT_TYPE_IOMMU_MAP_CMD = 0x65"
definition MHI_PKT_TYPE_CFG_EVENT :: u32 where "MHI_PKT_TYPE_CFG_EVENT = 0x6E"
definition MHI_PKT_TYPE_SYS_ERR_CMD :: u32 where "MHI_PKT_TYPE_SYS_ERR_CMD = 0xFF"

definition SAT_CC_INVALID :: u32 where "SAT_CC_INVALID = 0"
definition SAT_CC_SUCCESS :: u32 where "SAT_CC_SUCCESS = 1"

definition SAT_TRE_GET_CCS :: "sat_tre \<Rightarrow> u32" where "SAT_TRE_GET_CCS t = drop_bit 24 (sat_dw0 t) AND 0xFF"
definition SAT_TRE_GET_ID :: "sat_tre \<Rightarrow> int" where "SAT_TRE_GET_ID t = uint (drop_bit 24 (sat_dw1 t) AND 0xFF)"
definition SAT_TRE_GET_TYPE :: "sat_tre \<Rightarrow> u32" where "SAT_TRE_GET_TYPE t = drop_bit 16 (sat_dw1 t) AND 0xFF"
definition SAT_TRE_IS_ER_CTXT_TYPE :: "sat_tre \<Rightarrow> bool" where "SAT_TRE_IS_ER_CTXT_TYPE t \<longleftrightarrow> sat_dw1 t AND 1 = 1"

text \<open>The elements the driver makes.\<close>

definition sat_completion :: "u64 \<Rightarrow> u32 \<Rightarrow> sat_tre" where
  "sat_completion p code = \<lparr>sat_ptr = p, sat_dw0 = push_bit 24 code, sat_dw1 = push_bit 16 MHI_PKT_TYPE_CMD_COMPLETION_EVENT\<rparr>"

definition sat_sys_err :: sat_tre where
  "sat_sys_err = \<lparr>sat_ptr = 0, sat_dw0 = 0, sat_dw1 = push_bit 16 MHI_PKT_TYPE_SYS_ERR_CMD\<rparr>"

definition sat_state_event :: "mhi_dev_state \<Rightarrow> sat_tre" where
  "sat_state_event st = \<lparr>sat_ptr = 0, sat_dw0 = push_bit 24 (dev_state_val st), sat_dw1 = push_bit 16 MHI_PKT_TYPE_STATE_CHANGE_EVENT\<rparr>"

definition sat_ee_event :: "mhi_ee \<Rightarrow> sat_tre" where
  "sat_ee_event e = \<lparr>sat_ptr = 0, sat_dw0 = push_bit 24 (ee_val e), sat_dw1 = push_bit 16 MHI_PKT_TYPE_EE_EVENT\<rparr>"

definition sat_cfg_event :: "u64 \<Rightarrow> int \<Rightarrow> int \<Rightarrow> sat_tre" where
  "sat_cfg_event a er n = \<lparr>sat_ptr = a, sat_dw0 = push_bit 16 (of_int er) OR (of_int n AND 0xFFFF), sat_dw1 = push_bit 16 MHI_PKT_TYPE_CFG_EVENT\<rparr>"

text \<open>The parts of a place on the bus are cut to 16, 4, 8 and 4 bits.\<close>

definition MHI_SAT_CREATE_DEVICE_ID :: "u32 \<Rightarrow> u32 \<Rightarrow> u32 \<Rightarrow> u32 \<Rightarrow> u32" where
  "MHI_SAT_CREATE_DEVICE_ID dev domain bus slot =
     push_bit 16 (dev AND 0xFFFF) OR push_bit 12 (domain AND 0xF) OR push_bit 4 (bus AND 0xFF) OR (slot AND 0xF)"

section \<open>State\<close>

record mhi_sat_device =
  sat_mhi_dev :: mhi_device
  chan_started :: bool

text \<open>Memory that has been mapped for the device.\<close>

record sat_map =
  map_phys :: u64
  map_iova :: u64
  map_len :: u64

datatype sat_obs =
    Rpmsg_send sat_msg
  | Map_resource u64 u64
  | Unmap_resource u64 u64

text \<open>
  A satellite controller with the MHI controller it works on. \<open>connect_pending\<close> and
  \<open>process_pending\<close>: the work has been scheduled and has not run; \<open>sat_calls\<close> counts the
  questions asked of the kernel. A subsystem keeps its controllers, and, for what is said of
  them, the ones that have been freed as they were then.
\<close>

record mhi_sat_cntrl =
  sat_core :: mhi_controller
  sat_base_addr :: u64
  dev_list :: "mhi_sat_device list"
  addr_map_list :: "sat_map list"
  packet_list :: "sat_msg list"
  connect_pending :: bool
  process_pending :: bool
  sat_dev_id :: u32
  er_base :: int
  er_max :: int
  num_er :: int
  num_devices :: int
  max_devices :: int
  sat_seq :: u16
  sat_active :: bool
  last_cmd_seq :: u16
  last_cmd_ccs :: u32
  cmd_completed :: bool
  sat_calls :: nat
  sat_trace :: "sat_obs list"

record mhi_sat_subsys =
  rpdev :: bool
  cntrl_list :: "mhi_sat_cntrl list"
  freed :: "mhi_sat_cntrl list"

text \<open>The answers of the kernel, by the number of the question.\<close>

record sat_os =
  sat_memory :: "nat \<Rightarrow> bool"
  map_resource :: "nat \<Rightarrow> u64 \<Rightarrow> u64 \<Rightarrow> u64 option"
  rpmsg_ret :: "nat \<Rightarrow> errno option"

definition asked :: "mhi_sat_cntrl \<Rightarrow> mhi_sat_cntrl" where
  "asked s = s\<lparr>sat_calls := Suc (sat_calls s)\<rparr>"

definition DMA_ERROR_CODE :: u64 where "DMA_ERROR_CODE = - 1"

section \<open>Messages in and out\<close>

definition find_sat_cntrl_by_id :: "u32 \<Rightarrow> mhi_sat_subsys \<Rightarrow> nat option" where
  "find_sat_cntrl_by_id i b = find (\<lambda>k. sat_dev_id (cntrl_list b ! k) = i) [0..<length (cntrl_list b)]"

definition find_sat_dev_by_id :: "mhi_sat_cntrl \<Rightarrow> int \<Rightarrow> bool \<Rightarrow> nat option" where
  "find_sat_dev_by_id s i evt =
     find (\<lambda>k. (if evt then dl_event_id (sat_mhi_dev (dev_list s ! k)) else dl_chan_id (sat_mhi_dev (dev_list s ! k))) = i)
       [0..<length (dev_list s)]"

definition mhi_sat_isvalid_header :: "sat_header \<Rightarrow> nat \<Rightarrow> bool" where
  "mhi_sat_isvalid_header h len \<longleftrightarrow>
     \<not> (sizeof_sat_header \<le> len \<and> len \<noteq> unat (payload_size h) + sizeof_sat_header)
     \<and> \<not> (major_ver h \<noteq> SAT_MAJOR_VERSION \<and> minor_ver h \<noteq> SAT_MINOR_VERSION)
     \<and> \<not> (msg_id h \<noteq> SAT_MSG_ID_CMD \<and> msg_id h \<noteq> SAT_MSG_ID_EVT)"

text \<open>What happens before the completion is made ready again is lost; then the system runs.\<close>

definition mhi_sat_wait_cmd_completion ::
  "(mhi_sat_cntrl \<Rightarrow> mhi_sat_cntrl) \<Rightarrow> (mhi_sat_cntrl \<Rightarrow> mhi_sat_cntrl) \<Rightarrow> mhi_sat_cntrl \<Rightarrow> unit res \<times> mhi_sat_cntrl" where
  "mhi_sat_wait_cmd_completion early env s =
     (let s = early s;
          s = s\<lparr>cmd_completed := False\<rparr>;
          s = env s;
          done = cmd_completed s;
          s = s\<lparr>cmd_completed := False\<rparr>
      in (if \<not> done \<or> last_cmd_ccs s \<noteq> SAT_CC_SUCCESS then Inl EIO else Inr (), s))"

text \<open>
  No result when there is no link to send over. The size of the message is passed in 16 bits; of
  a longer message only the beginning is sent (and when that is not even the header, no element).
\<close>

definition msg_elements :: "u16 \<Rightarrow> nat" where
  "msg_elements msg_size = SAT_TRE_NUM_PKTS (SAT_TRE_SIZE (unat msg_size))"

definition mhi_sat_send_msg ::
  "sat_os \<Rightarrow> bool \<Rightarrow> u16 \<Rightarrow> u16 \<Rightarrow> sat_tre list \<Rightarrow> mhi_sat_cntrl \<Rightarrow> (unit res \<times> mhi_sat_cntrl) option" where
  "mhi_sat_send_msg so link ty reply pkts s =
     (let msg_size = of_nat (SAT_MSG_SIZE (length pkts));
          s = s\<lparr>sat_seq := sat_seq s + 1\<rparr>;
          s = (if sat_seq s = SAT_RESERVED_SEQ_NUM then s\<lparr>sat_seq := 0\<rparr> else s);
          h = \<lparr>major_ver = SAT_MAJOR_VERSION, minor_ver = SAT_MINOR_VERSION, msg_id = ty, hdr_seq = sat_seq s, reply_seq = reply,
               payload_size = msg_size - of_nat sizeof_sat_header, hdr_dev_id = sat_dev_id s\<rparr>;
          s = (if ty = SAT_MSG_ID_CMD then s\<lparr>last_cmd_seq := sat_seq s\<rparr> else s)
      in if \<not> link then None
         else Some (case rpmsg_ret so (sat_calls s) of
                      Some e \<Rightarrow> (Inl e, asked s)
                    | None \<Rightarrow> (Inr (), (asked s)\<lparr>sat_trace := sat_trace s @ [Rpmsg_send \<lparr>sat_hdr = h, sat_pkts = take (msg_elements msg_size) pkts\<rparr>]\<rparr>)))"

section \<open>Contexts\<close>

text \<open>
  A context as the other side describes it: the words of an event ring context or of a channel
  context without their meaning, of which the last two are its read and write pointers. All three
  structures have 44 bytes.
\<close>

record mhi_generic_ctxt =
  gen_reserved0 :: u32
  gen_type :: u32
  gen_reserved1 :: u32
  ctxt_base :: u64
  ctxt_size :: u64
  gen_rp :: u64
  gen_wp :: u64

definition MHI_CTXT_TYPE_GENERIC :: u32 where "MHI_CTXT_TYPE_GENERIC = 0xA"
definition sizeof_ctxt :: nat where "sizeof_ctxt = 44"

record mhi_cfg =
  cfg_name :: string
  cfg_len :: nat
  cfg_buf :: mhi_generic_ctxt

definition as_event_ctxt :: "mhi_generic_ctxt \<Rightarrow> mhi_event_ctxt" where
  "as_event_ctxt g = \<lparr>intmodc = drop_bit 8 (gen_reserved0 g) AND 0xFF, intmodt = drop_bit 16 (gen_reserved0 g), ertype = gen_type g,
     msivec = gen_reserved1 g, er_rbase = ctxt_base g, er_rlen = ctxt_size g, er_rp = gen_rp g\<rparr>"

definition as_chan_ctxt :: "mhi_generic_ctxt \<Rightarrow> mhi_chan_ctxt" where
  "as_chan_ctxt g = \<lparr>chstate = gen_reserved0 g AND 0xFF, ctxt_brstmode = drop_bit 8 (gen_reserved0 g) AND 0x3,
     ctxt_pollcfg = drop_bit 10 (gen_reserved0 g) AND 0x3F, chtype = gen_type g, erindex = gen_reserved1 g, cc_rbase = ctxt_base g,
     cc_rlen = ctxt_size g, cc_rp = gen_rp g\<rparr>"

text \<open>
  \<open>mhi_device_configure\<close> of the core: each entry of the table is copied over the context of the
  event ring or of the channel. An entry of an unknown name or of another size is an error, with
  the entries before it copied. Without contexts or without a channel there is no result.
\<close>

fun configure_elements :: "nat \<Rightarrow> nat \<Rightarrow> mhi_cfg list \<Rightarrow> mhi_controller \<Rightarrow> (unit res \<times> mhi_controller) option" where
  "configure_elements e i [] c = Some (Inr (), c)"
| "configure_elements e i (b # bs) c =
     (if cfg_name b = ''ECA'' then
        (if mhi_ctxt c = None then None
         else if cfg_len b \<noteq> sizeof_ctxt then Some (Inl EINVAL, c)
         else configure_elements e i bs
           (upd_event e (\<lambda>ev. ev\<lparr>ev_ring := (ev_ring ev)\<lparr>ctxt_wp := gen_wp (cfg_buf b)\<rparr>\<rparr>)
             (c\<lparr>er_ctxt := (er_ctxt c)(e := as_event_ctxt (cfg_buf b))\<rparr>)))
      else if cfg_name b = ''CCA'' then
        (if mhi_ctxt c = None then None
         else if cfg_len b \<noteq> sizeof_ctxt then Some (Inl EINVAL, c)
         else configure_elements e i bs
           (upd_chan i (\<lambda>ch. ch\<lparr>tre_ring := (tre_ring ch)\<lparr>ctxt_wp := gen_wp (cfg_buf b)\<rparr>\<rparr>)
             (c\<lparr>chan_ctxt := (chan_ctxt c)(i := as_chan_ctxt (cfg_buf b))\<rparr>)))
      else Some (Inl EINVAL, c))"

definition mhi_device_configure ::
  "mhi_device \<Rightarrow> dma_data_direction \<Rightarrow> mhi_cfg list \<Rightarrow> mhi_controller \<Rightarrow> (unit res \<times> mhi_controller) option" where
  "mhi_device_configure d direction cfg_tbl c =
     (case (if direction = DMA_TO_DEVICE then ul_chan d else dl_chan d) of
        None \<Rightarrow> None
      | Some i \<Rightarrow> configure_elements (ch_er_index (mhi_chan c i)) (unat (chan (mhi_chan c i))) cfg_tbl c)"

section \<open>Commands\<close>

text \<open>One command each: the element that answers it. No result is a panic.\<close>

definition sat_iommu_map :: "sat_os \<Rightarrow> sat_tre \<Rightarrow> mhi_sat_cntrl \<Rightarrow> sat_tre \<times> mhi_sat_cntrl" where
  "sat_iommu_map so t s =
     (if \<not> sat_memory so (sat_calls s) then (sat_completion DMA_ERROR_CODE SAT_CC_INVALID, asked s)
      else
        let s = asked s; n = ucast (sat_dw0 t)
        in case map_resource so (sat_calls s) (sat_ptr t) n of
             None \<Rightarrow> (sat_completion DMA_ERROR_CODE SAT_CC_INVALID, asked s)
           | Some a \<Rightarrow>
               (sat_completion a SAT_CC_SUCCESS,
                (asked s)\<lparr>addr_map_list := addr_map_list s @ [\<lparr>map_phys = sat_ptr t, map_iova = a, map_len = n\<rparr>],
                  sat_trace := sat_trace s @ [Map_resource a n]\<rparr>))"

definition sat_ctxt_update :: "sat_tre \<Rightarrow> mhi_sat_cntrl \<Rightarrow> (sat_tre \<times> mhi_sat_cntrl) option" where
  "sat_ctxt_update t s =
     (let evt = SAT_TRE_IS_ER_CTXT_TYPE t;
          gen = \<lparr>gen_reserved0 = 0, gen_type = MHI_CTXT_TYPE_GENERIC, gen_reserved1 = 0, ctxt_base = sat_ptr t,
                 ctxt_size = ucast (sat_dw0 t), gen_rp = 0, gen_wp = 0\<rparr>;
          b = \<lparr>cfg_name = (if evt then ''ECA'' else ''CCA''), cfg_len = sizeof_ctxt, cfg_buf = gen\<rparr>
      in case find_sat_dev_by_id s (SAT_TRE_GET_ID t) evt of
           None \<Rightarrow> None
         | Some k \<Rightarrow>
             (case mhi_device_configure (sat_mhi_dev (dev_list s ! k)) DMA_BIDIRECTIONAL [b] (sat_core s) of
                None \<Rightarrow> None
              | Some (Inl e, c) \<Rightarrow> Some (sat_completion 0 SAT_CC_INVALID, s\<lparr>sat_core := c\<rparr>)
              | Some (Inr _, c) \<Rightarrow> Some (sat_completion 0 SAT_CC_SUCCESS, s\<lparr>sat_core := c\<rparr>)))"

text \<open>The context the other side asks for is the place and the length it names, and nothing is refused.\<close>

lemma ctxt_update_asked:
  assumes "sat_ctxt_update t s = Some (r, s')"
  obtains k i where "find_sat_dev_by_id s (SAT_TRE_GET_ID t) (SAT_TRE_IS_ER_CTXT_TYPE t) = Some k"
    and "dl_chan (sat_mhi_dev (dev_list s ! k)) = Some i" and "r = sat_completion 0 SAT_CC_SUCCESS"
    and "if SAT_TRE_IS_ER_CTXT_TYPE t
      then (case er_ctxt (sat_core s') (ch_er_index (mhi_chan (sat_core s) i)) of
              x \<Rightarrow> er_rbase x = sat_ptr t \<and> er_rlen x = ucast (sat_dw0 t) \<and> ertype x = 0xA \<and> msivec x = 0)
      else (case chan_ctxt (sat_core s') (unat (chan (mhi_chan (sat_core s) i))) of
              x \<Rightarrow> cc_rbase x = sat_ptr t \<and> cc_rlen x = ucast (sat_dw0 t) \<and> chtype x = 0xA \<and> chstate x = 0)"
  using assms
  by (auto simp: sat_ctxt_update_def Let_def mhi_device_configure_def as_event_ctxt_def as_chan_ctxt_def upd_event_def
      MHI_CTXT_TYPE_GENERIC_def split: option.splits if_splits)

definition sat_start_chan ::
  "mhi_os \<Rightarrow> (nat \<Rightarrow> mhi_controller \<Rightarrow> mhi_controller) \<Rightarrow> sat_tre \<Rightarrow> mhi_sat_cntrl \<Rightarrow> (sat_tre \<times> mhi_sat_cntrl) option" where
  "sat_start_chan os envs t s =
     (case find_sat_dev_by_id s (SAT_TRE_GET_ID t) False of
        None \<Rightarrow> None
      | Some k \<Rightarrow>
          let d = dev_list s ! k in
          if chan_started d then None
          else (case mhi_prepare_for_transfer os envs (sat_mhi_dev d) (sat_core s) of
                  None \<Rightarrow> None
                | Some (Inl e, c) \<Rightarrow> Some (sat_completion 0 SAT_CC_INVALID, s\<lparr>sat_core := c\<rparr>)
                | Some (Inr _, c) \<Rightarrow>
                    Some (sat_completion 0 SAT_CC_SUCCESS,
                          s\<lparr>sat_core := c, dev_list := (dev_list s)[k := d\<lparr>chan_started := True\<rparr>]\<rparr>)))"

definition sat_reset_chan ::
  "mhi_os \<Rightarrow> (nat \<Rightarrow> mhi_controller \<Rightarrow> mhi_controller) \<Rightarrow> sat_tre \<Rightarrow> mhi_sat_cntrl \<Rightarrow> (sat_tre \<times> mhi_sat_cntrl) option" where
  "sat_reset_chan os envs t s =
     (case find_sat_dev_by_id s (SAT_TRE_GET_ID t) False of
        None \<Rightarrow> None
      | Some k \<Rightarrow>
          let d = dev_list s ! k in
          if \<not> chan_started d then None
          else map_option (\<lambda>c. (sat_completion 0 SAT_CC_SUCCESS,
                                s\<lparr>sat_core := c, dev_list := (dev_list s)[k := d\<lparr>chan_started := False\<rparr>]\<rparr>))
                 (mhi_unprepare_from_transfer os envs (sat_mhi_dev d) (sat_core s)))"

definition sat_command ::
  "sat_os \<Rightarrow> mhi_os \<Rightarrow> (nat \<Rightarrow> mhi_controller \<Rightarrow> mhi_controller) \<Rightarrow> sat_tre \<Rightarrow> mhi_sat_cntrl \<Rightarrow> (sat_tre \<times> mhi_sat_cntrl) option" where
  "sat_command so os envs t s =
     (if SAT_TRE_GET_TYPE t = MHI_PKT_TYPE_IOMMU_MAP_CMD then Some (sat_iommu_map so t s)
      else if SAT_TRE_GET_TYPE t = MHI_PKT_TYPE_CTXT_UPDATE_CMD then sat_ctxt_update t s
      else if SAT_TRE_GET_TYPE t = MHI_PKT_TYPE_START_CHAN_CMD then sat_start_chan os envs t s
      else if SAT_TRE_GET_TYPE t = MHI_PKT_TYPE_RESET_CHAN_CMD then sat_reset_chan os envs t s
      else None)"

fun mhi_sat_process_cmds ::
  "sat_os \<Rightarrow> mhi_os \<Rightarrow> (nat \<Rightarrow> mhi_controller \<Rightarrow> mhi_controller) \<Rightarrow> sat_tre list \<Rightarrow> mhi_sat_cntrl \<Rightarrow>
   (sat_tre list \<times> mhi_sat_cntrl) option" where
  "mhi_sat_process_cmds so os envs [] s = Some ([], s)"
| "mhi_sat_process_cmds so os envs (t # ts) s =
     Option.bind (sat_command so os envs t s)
       (\<lambda>(t, s). map_option (\<lambda>(ts, s). (t # ts, s)) (mhi_sat_process_cmds so os envs ts s))"

section \<open>The workers\<close>

definition sat_answer ::
  "sat_os \<Rightarrow> mhi_os \<Rightarrow> (nat \<Rightarrow> mhi_controller \<Rightarrow> mhi_controller) \<Rightarrow> bool \<Rightarrow> sat_msg \<Rightarrow> mhi_sat_cntrl \<Rightarrow> mhi_sat_cntrl option" where
  "sat_answer so os envs link p s =
     Option.bind (mhi_sat_process_cmds so os envs (take (SAT_TRE_NUM_PKTS (unat (payload_size (sat_hdr p)))) (sat_pkts p)) s)
       (\<lambda>(ts, s). map_option snd (mhi_sat_send_msg so link SAT_MSG_ID_EVT (hdr_seq (sat_hdr p)) ts s))"

fun sat_answer_all ::
  "sat_os \<Rightarrow> mhi_os \<Rightarrow> (nat \<Rightarrow> mhi_controller \<Rightarrow> mhi_controller) \<Rightarrow> bool \<Rightarrow> sat_msg list \<Rightarrow> mhi_sat_cntrl \<Rightarrow> mhi_sat_cntrl option" where
  "sat_answer_all so os envs link [] s = Some s"
| "sat_answer_all so os envs link (p # ps) s = Option.bind (sat_answer so os envs link p s) (sat_answer_all so os envs link ps)"

definition mhi_sat_process_worker ::
  "sat_os \<Rightarrow> mhi_os \<Rightarrow> (nat \<Rightarrow> mhi_controller \<Rightarrow> mhi_controller) \<Rightarrow> bool \<Rightarrow> mhi_sat_cntrl \<Rightarrow> mhi_sat_cntrl option" where
  "mhi_sat_process_worker so os envs link s =
     (let s = s\<lparr>process_pending := False\<rparr>
      in sat_answer_all so os envs link (packet_list s) (s\<lparr>packet_list := []\<rparr>))"

definition mhi_sat_connect_worker :: "sat_os \<Rightarrow> bool \<Rightarrow> mhi_sat_cntrl \<Rightarrow> mhi_sat_cntrl option" where
  "mhi_sat_connect_worker so link s =
     (let s = s\<lparr>connect_pending := False\<rparr>
      in if \<not> link \<or> max_devices s \<noteq> num_devices s \<or> sat_active s then Some s
         else if \<not> sat_memory so (sat_calls s) then Some (asked s)
         else
           let s = (asked s)\<lparr>sat_active := True\<rparr>
           in case mhi_sat_send_msg so link SAT_MSG_ID_EVT SAT_RESERVED_SEQ_NUM
                     [sat_cfg_event (sat_base_addr s) (er_base s) (num_er s), sat_state_event MHI_STATE_M0, sat_ee_event MHI_EE_AMSS] s of
                None \<Rightarrow> None
              | Some (Inl e, s) \<Rightarrow> Some (s\<lparr>sat_active := False\<rparr>)
              | Some (Inr _, s) \<Rightarrow> Some s)"

text \<open>Waiting for a work that has been scheduled is having it run.\<close>

definition flush_connect :: "sat_os \<Rightarrow> bool \<Rightarrow> mhi_sat_cntrl \<Rightarrow> mhi_sat_cntrl option" where
  "flush_connect so link s = (if connect_pending s then mhi_sat_connect_worker so link s else Some s)"

definition flush_process ::
  "sat_os \<Rightarrow> mhi_os \<Rightarrow> (nat \<Rightarrow> mhi_controller \<Rightarrow> mhi_controller) \<Rightarrow> bool \<Rightarrow> mhi_sat_cntrl \<Rightarrow> mhi_sat_cntrl option" where
  "flush_process so os envs link s = (if process_pending s then mhi_sat_process_worker so os envs link s else Some s)"

section \<open>The link\<close>

fun mhi_sat_process_events :: "u16 \<Rightarrow> sat_tre list \<Rightarrow> mhi_sat_cntrl \<Rightarrow> mhi_sat_cntrl" where
  "mhi_sat_process_events reply [] s = s"
| "mhi_sat_process_events reply (t # ts) s =
     mhi_sat_process_events reply ts
       (if SAT_TRE_GET_TYPE t = MHI_PKT_TYPE_CMD_COMPLETION_EVENT \<and> reply = last_cmd_seq s
        then s\<lparr>last_cmd_ccs := SAT_TRE_GET_CCS t, cmd_completed := True\<rparr> else s)"

text \<open>
  A message of \<open>len\<close> bytes. An invalid header and a controller nobody knows are panics; of a
  message shorter than a header what is read is not its own.
\<close>

definition mhi_sat_rpmsg_cb :: "sat_os \<Rightarrow> sat_msg \<Rightarrow> nat \<Rightarrow> mhi_sat_subsys \<Rightarrow> mhi_sat_subsys option" where
  "mhi_sat_rpmsg_cb so p len b =
     (if len < sizeof_sat_header \<or> \<not> mhi_sat_isvalid_header (sat_hdr p) len then None
      else case find_sat_cntrl_by_id (hdr_dev_id (sat_hdr p)) b of
             None \<Rightarrow> None
           | Some k \<Rightarrow>
               let s = cntrl_list b ! k in
               if msg_id (sat_hdr p) = SAT_MSG_ID_EVT
               then Some (b\<lparr>cntrl_list := (cntrl_list b)[k := mhi_sat_process_events (reply_seq (sat_hdr p))
                            (take (SAT_TRE_NUM_PKTS (unat (payload_size (sat_hdr p)))) (sat_pkts p)) s]\<rparr>)
               else if \<not> sat_active s then Some b
               else if \<not> sat_memory so (sat_calls s) then Some (b\<lparr>cntrl_list := (cntrl_list b)[k := asked s]\<rparr>)
               else Some (b\<lparr>cntrl_list := (cntrl_list b)[k := (asked s)\<lparr>packet_list := packet_list s @ [p], process_pending := True\<rparr>]\<rparr>))"

fun sat_unprepare_all ::
  "mhi_os \<Rightarrow> (nat \<Rightarrow> mhi_controller \<Rightarrow> mhi_controller) \<Rightarrow> mhi_sat_device list \<Rightarrow> mhi_controller \<Rightarrow>
   (mhi_sat_device list \<times> mhi_controller) option" where
  "sat_unprepare_all os envs [] c = Some ([], c)"
| "sat_unprepare_all os envs (d # ds) c =
     Option.bind (if chan_started d
                  then map_option (\<lambda>c. (d\<lparr>chan_started := False\<rparr>, c)) (mhi_unprepare_from_transfer os envs (sat_mhi_dev d) c)
                  else Some (d, c))
       (\<lambda>(d, c). map_option (\<lambda>(ds, c). (d # ds, c)) (sat_unprepare_all os envs ds c))"

definition sat_unmap_all :: "mhi_sat_cntrl \<Rightarrow> mhi_sat_cntrl" where
  "sat_unmap_all s = s\<lparr>addr_map_list := [],
     sat_trace := sat_trace s @ map (\<lambda>m. Unmap_resource (map_iova m) (map_len m)) (addr_map_list s)\<rparr>"

text \<open>One controller when the link goes; the link is still there for the work that is waited for.\<close>

definition sat_link_lost ::
  "sat_os \<Rightarrow> mhi_os \<Rightarrow> (nat \<Rightarrow> mhi_controller \<Rightarrow> mhi_controller) \<Rightarrow> bool \<Rightarrow> mhi_sat_cntrl \<Rightarrow> mhi_sat_cntrl option" where
  "sat_link_lost so os envs link s =
     Option.bind (flush_connect so link (s\<lparr>sat_active := False\<rparr>))
       (\<lambda>s. Option.bind (flush_process so os envs link s)
         (\<lambda>s. map_option (\<lambda>(ds, c). sat_unmap_all (s\<lparr>dev_list := ds, sat_core := c\<rparr>))
            (sat_unprepare_all os envs (dev_list s) (sat_core s))))"

fun sat_all_lost ::
  "sat_os \<Rightarrow> mhi_os \<Rightarrow> (nat \<Rightarrow> mhi_controller \<Rightarrow> mhi_controller) \<Rightarrow> bool \<Rightarrow> mhi_sat_cntrl list \<Rightarrow> mhi_sat_cntrl list option" where
  "sat_all_lost so os envs link [] = Some []"
| "sat_all_lost so os envs link (s # ss) =
     Option.bind (sat_link_lost so os envs link s) (\<lambda>s. map_option (\<lambda>ss. s # ss) (sat_all_lost so os envs link ss))"

definition mhi_sat_rpmsg_remove ::
  "sat_os \<Rightarrow> mhi_os \<Rightarrow> (nat \<Rightarrow> mhi_controller \<Rightarrow> mhi_controller) \<Rightarrow> mhi_sat_subsys \<Rightarrow> mhi_sat_subsys option" where
  "mhi_sat_rpmsg_remove so os envs b =
     map_option (\<lambda>ss. b\<lparr>cntrl_list := ss, rpdev := False\<rparr>) (sat_all_lost so os envs (rpdev b) (cntrl_list b))"

text \<open>The subsystem the label of the link names, if there is a label and a subsystem.\<close>

definition subsys_names :: "string list" where
  "subsys_names = [''adsp'', ''cdsp'', ''slpi'', ''modem'']"

definition find_subsys_by_name :: "string \<Rightarrow> nat option" where
  "find_subsys_by_name n = find (\<lambda>i. n = subsys_names ! i) [0..<length subsys_names]"

definition mhi_sat_rpmsg_probe :: "errno + string \<Rightarrow> mhi_sat_subsys list \<Rightarrow> unit res \<times> mhi_sat_subsys list" where
  "mhi_sat_rpmsg_probe label bs =
     (case label of
        Inl e \<Rightarrow> (Inl e, bs)
      | Inr n \<Rightarrow>
          (case find_subsys_by_name n of
             None \<Rightarrow> (Inl EINVAL, bs)
           | Some i \<Rightarrow>
               (Inr (), bs[i := (bs ! i)\<lparr>rpdev := True, cntrl_list := map (\<lambda>s. s\<lparr>connect_pending := True\<rparr>) (cntrl_list (bs ! i))\<rparr>])))"

section \<open>The devices\<close>

text \<open>A new device and its place on the bus; \<open>max_dt\<close> is what the device tree says, if the device is in it.\<close>

definition new_sat_cntrl :: "mhi_controller \<Rightarrow> u64 \<Rightarrow> u32 \<Rightarrow> mhi_device \<Rightarrow> mhi_sat_cntrl" where
  "new_sat_cntrl c a i d =
     \<lparr>sat_core = c, sat_base_addr = a, dev_list = [], addr_map_list = [], packet_list = [], connect_pending = False,
      process_pending = False, sat_dev_id = i, er_base = dl_event_id d, er_max = 0, num_er = 0, num_devices = 0,
      max_devices = -1, sat_seq = 0, sat_active = False, last_cmd_seq = SAT_RESERVED_SEQ_NUM, last_cmd_ccs = 0,
      cmd_completed = False, sat_calls = 0, sat_trace = []\<rparr>"

definition sat_add_device :: "mhi_device \<Rightarrow> mhi_sat_cntrl \<Rightarrow> mhi_sat_cntrl" where
  "sat_add_device d s =
     (let s = s\<lparr>dev_list := \<lparr>sat_mhi_dev = d, chan_started = False\<rparr> # dev_list s, num_devices := num_devices s + 1\<rparr>
      in if num_devices s = max_devices s
         then s\<lparr>num_er := er_max s - er_base s + 1, connect_pending := True\<rparr> else s)"

definition sat_count_rings :: "mhi_device \<Rightarrow> mhi_sat_cntrl \<Rightarrow> mhi_sat_cntrl" where
  "sat_count_rings d s =
     (let s = s\<lparr>er_base := min (er_base s) (dl_event_id d)\<rparr>
      in s\<lparr>er_max := max (er_base s) (dl_event_id d)\<rparr>)"

definition mhi_sat_dev_probe ::
  "bool \<Rightarrow> bool \<Rightarrow> (errno + int) option \<Rightarrow> u32 \<Rightarrow> mhi_controller \<Rightarrow> u64 \<Rightarrow> mhi_device \<Rightarrow> mhi_sat_subsys \<Rightarrow>
   unit res \<times> mhi_sat_subsys" where
  "mhi_sat_dev_probe cntrl_memory dev_memory max_dt i c a d b =
     (let known = find_sat_cntrl_by_id i b
      in if known = None \<and> \<not> cntrl_memory then (Inl ENOMEM, b)
         else
           let (k, b) = (case known of
                           Some k \<Rightarrow> (k, b)
                         | None \<Rightarrow> (0, b\<lparr>cntrl_list := new_sat_cntrl c a i d # cntrl_list b\<rparr>));
               s = cntrl_list b ! k
           in case max_dt of
                Some (Inl e) \<Rightarrow> (Inl EINVAL, b)
              | _ \<Rightarrow>
                  let s = (case max_dt of Some (Inr n) \<Rightarrow> s\<lparr>max_devices := n\<rparr> | _ \<Rightarrow> s);
                      s = sat_count_rings d s
                  in if \<not> dev_memory then (Inl ENOMEM, b\<lparr>cntrl_list := (cntrl_list b)[k := s]\<rparr>)
                     else (Inr (), b\<lparr>cntrl_list := (cntrl_list b)[k := sat_add_device d s]\<rparr>))"

text \<open>
  The first device to go tells the other side, and waits for its answer; the last one takes the
  mappings and the controller along. \<open>k\<close> is the controller, \<open>j\<close> the device in its list.
\<close>

definition sat_tell_removal ::
  "sat_os \<Rightarrow> mhi_os \<Rightarrow> (nat \<Rightarrow> mhi_controller \<Rightarrow> mhi_controller) \<Rightarrow> (mhi_sat_cntrl \<Rightarrow> mhi_sat_cntrl) \<Rightarrow>
   (mhi_sat_cntrl \<Rightarrow> mhi_sat_cntrl) \<Rightarrow> bool \<Rightarrow> mhi_sat_cntrl \<Rightarrow> mhi_sat_cntrl option" where
  "sat_tell_removal so os envs early env link s =
     Option.bind (flush_connect so link (s\<lparr>sat_active := False\<rparr>))
       (\<lambda>s. Option.bind (flush_process so os envs link s)
         (\<lambda>s. if \<not> sat_memory so (sat_calls s) then None
              else Option.bind (mhi_sat_send_msg so link SAT_MSG_ID_CMD SAT_RESERVED_SEQ_NUM [sat_sys_err] (asked s))
                (\<lambda>(ret, s). Some (case ret of
                    Inl e \<Rightarrow> s
                  | Inr _ \<Rightarrow> snd (mhi_sat_wait_cmd_completion early env s)))))"

definition mhi_sat_dev_remove ::
  "sat_os \<Rightarrow> mhi_os \<Rightarrow> (nat \<Rightarrow> mhi_controller \<Rightarrow> mhi_controller) \<Rightarrow> (mhi_sat_cntrl \<Rightarrow> mhi_sat_cntrl) \<Rightarrow>
   (mhi_sat_cntrl \<Rightarrow> mhi_sat_cntrl) \<Rightarrow> nat \<Rightarrow> nat \<Rightarrow> mhi_sat_subsys \<Rightarrow> mhi_sat_subsys option" where
  "mhi_sat_dev_remove so os envs early env k j b =
     (let s = cntrl_list b ! k;
          s = s\<lparr>dev_list := take j (dev_list s) @ drop (Suc j) (dev_list s), num_devices := num_devices s - 1\<rparr>
      in map_option
           (\<lambda>s. if num_devices s \<noteq> 0 then b\<lparr>cntrl_list := (cntrl_list b)[k := s]\<rparr>
                else b\<lparr>cntrl_list := take k (cntrl_list b) @ drop (Suc k) (cntrl_list b), freed := freed b @ [sat_unmap_all s]\<rparr>)
           (if sat_active s then sat_tell_removal so os envs early env (rpdev b) s else Some s))"

section \<open>Loading\<close>

record mhi_sat_driver =
  subsys_array :: "mhi_sat_subsys list option"
  rpmsg_registered :: bool
  driver_registered :: bool
  debugfs_made :: bool
  deferred_init_done :: bool

record sat_init_os =
  array_memory :: bool
  dir_made :: bool
  rpmsg_reg_ret :: "errno option"
  driver_reg_ret :: "errno option"

text \<open>Taking the subsystems down walks their array; when it has been freed there is no result.\<close>

definition sat_drop_subsys :: "errno \<Rightarrow> mhi_sat_driver \<Rightarrow> (unit res \<times> mhi_sat_driver) option" where
  "sat_drop_subsys e D = (if subsys_array D = None then None else Some (Inl e, D\<lparr>subsys_array := None\<rparr>))"

definition sat_register_both :: "sat_init_os \<Rightarrow> mhi_sat_driver \<Rightarrow> (unit res \<times> mhi_sat_driver) option" where
  "sat_register_both io D =
     (case rpmsg_reg_ret io of
        Some e \<Rightarrow> sat_drop_subsys e D
      | None \<Rightarrow>
          (case driver_reg_ret io of
             Some e \<Rightarrow> sat_drop_subsys e D
           | None \<Rightarrow> Some (Inr (), D\<lparr>rpmsg_registered := True, driver_registered := True\<rparr>)))"

definition mhi_sat_trigger_init :: "sat_init_os \<Rightarrow> mhi_sat_driver \<Rightarrow> (unit res \<times> mhi_sat_driver) option" where
  "mhi_sat_trigger_init io D =
     (if deferred_init_done D then Some (Inl EIO, D)
      else map_option (\<lambda>(ret, D). (ret, if ret = Inr () then D\<lparr>deferred_init_done := True\<rparr> else D)) (sat_register_both io D))"

definition mhi_sat_init :: "bool \<Rightarrow> sat_init_os \<Rightarrow> mhi_sat_driver \<Rightarrow> (unit res \<times> mhi_sat_driver) option" where
  "mhi_sat_init defer_init io D =
     (if \<not> array_memory io then Some (Inl ENOMEM, D)
      else
        let D = D\<lparr>subsys_array := Some (replicate (length subsys_names) \<lparr>rpdev = False, cntrl_list = [], freed = []\<rparr>)\<rparr>
        in if defer_init
           then (if \<not> dir_made io then sat_drop_subsys ENODEV D else Some (Inr (), D\<lparr>debugfs_made := True\<rparr>))
           else sat_register_both io D)"

text \<open>
  The file in debugfs stays when the registration it triggers fails: writing to it again walks
  the array that has been freed, or registers drivers that have none.
\<close>

lemma trigger_twice:
  assumes "mhi_sat_trigger_init io D = Some (Inl e, D')" and "\<not> deferred_init_done D"
  shows "subsys_array D' = None \<and>
    (case mhi_sat_trigger_init io' D' of None \<Rightarrow> rpmsg_reg_ret io' \<noteq> None \<or> driver_reg_ret io' \<noteq> None
     | Some (ret, D'') \<Rightarrow> ret = Inr () \<and> driver_registered D'' \<and> subsys_array D'' = None)"
  using assms
  by (auto simp: mhi_sat_trigger_init_def sat_register_both_def sat_drop_subsys_def split: option.splits if_splits)

section \<open>What commands are answered with\<close>

text \<open>What no command changes.\<close>

definition sat_frame :: "mhi_sat_cntrl \<Rightarrow> mhi_sat_cntrl \<Rightarrow> bool" where
  "sat_frame s s' \<longleftrightarrow> sat_active s' = sat_active s
     \<and> connect_pending s' = connect_pending s \<and> process_pending s' = process_pending s \<and> sat_dev_id s' = sat_dev_id s
     \<and> num_devices s' = num_devices s \<and> max_devices s' = max_devices s \<and> length (dev_list s') = length (dev_list s)"

lemma sat_frame_refl [simp]: "sat_frame s s"
  by (simp add: sat_frame_def)

lemma sat_frame_trans: "sat_frame a b \<Longrightarrow> sat_frame b c \<Longrightarrow> sat_frame a c"
  by (simp add: sat_frame_def)

text \<open>The mapping a command and its answer stand for.\<close>

definition new_map :: "sat_tre \<Rightarrow> sat_tre \<Rightarrow> sat_map list" where
  "new_map t r =
     (if SAT_TRE_GET_TYPE t = MHI_PKT_TYPE_IOMMU_MAP_CMD \<and> SAT_TRE_GET_CCS r = SAT_CC_SUCCESS
      then [\<lparr>map_phys = sat_ptr t, map_iova = sat_ptr r, map_len = ucast (sat_dw0 t)\<rparr>] else [])"

definition map_obs :: "sat_map \<Rightarrow> sat_obs" where
  "map_obs m = Map_resource (map_iova m) (map_len m)"

definition answers_cmd :: "sat_tre \<Rightarrow> bool" where
  "answers_cmd r \<longleftrightarrow> SAT_TRE_GET_TYPE r = MHI_PKT_TYPE_CMD_COMPLETION_EVENT
     \<and> (SAT_TRE_GET_CCS r = SAT_CC_SUCCESS \<or> SAT_TRE_GET_CCS r = SAT_CC_INVALID)"

lemma completion_answers_cmd [simp]:
  "sat_ptr (sat_completion p code) = p" "answers_cmd (sat_completion p SAT_CC_SUCCESS)" "answers_cmd (sat_completion p SAT_CC_INVALID)"
  "SAT_TRE_GET_CCS (sat_completion p SAT_CC_SUCCESS) = SAT_CC_SUCCESS" "SAT_TRE_GET_CCS (sat_completion p SAT_CC_INVALID) \<noteq> SAT_CC_SUCCESS"
  by (simp_all add: answers_cmd_def sat_completion_def SAT_TRE_GET_TYPE_def SAT_TRE_GET_CCS_def SAT_CC_SUCCESS_def SAT_CC_INVALID_def
      MHI_PKT_TYPE_CMD_COMPLETION_EVENT_def)

lemma command_answered:
  assumes "sat_command so os envs t s = Some (r, s')"
  shows "answers_cmd r \<and> sat_frame s s' \<and> packet_list s' = packet_list s \<and> sat_seq s' = sat_seq s \<and> addr_map_list s' = addr_map_list s @ new_map t r
    \<and> sat_trace s' = sat_trace s @ map map_obs (new_map t r)"
proof (cases "SAT_TRE_GET_TYPE t = MHI_PKT_TYPE_IOMMU_MAP_CMD")
  case True
  then have "(r, s') = sat_iommu_map so t s" using assms by (simp add: sat_command_def)
  then show ?thesis using True
    by (auto simp: sat_iommu_map_def asked_def Let_def new_map_def map_obs_def sat_frame_def split: if_splits option.splits)
next
  case False
  then have n: "new_map t r = []" by (simp add: new_map_def)
  show ?thesis
    using assms False unfolding n
    by (auto simp: sat_command_def sat_ctxt_update_def sat_start_chan_def sat_reset_chan_def Let_def sat_frame_def
        split: if_splits option.splits prod.splits sum.splits)
qed

lemma cmds_answered:
  "mhi_sat_process_cmds so os envs ts s = Some (rs, s') \<Longrightarrow>
    length rs = length ts \<and> list_all answers_cmd rs \<and> sat_frame s s' \<and> packet_list s' = packet_list s \<and> sat_seq s' = sat_seq s
    \<and> addr_map_list s' = addr_map_list s @ concat (map2 new_map ts rs)
    \<and> sat_trace s' = sat_trace s @ map map_obs (concat (map2 new_map ts rs))"
proof (induction ts arbitrary: s rs)
  case (Cons t ts)
  obtain r s1 where 1: "sat_command so os envs t s = Some (r, s1)"
    using Cons.prems by (auto simp: bind_eq_Some_conv)
  then obtain rs' where 2: "mhi_sat_process_cmds so os envs ts s1 = Some (rs', s')" "rs = r # rs'"
    using Cons.prems by auto
  show ?case using command_answered [OF 1] Cons.IH [OF 2(1)] sat_frame_trans by (auto simp: 2(2))
qed simp

definition next_seq :: "u16 \<Rightarrow> u16" where
  "next_seq q = (if q + 1 = SAT_RESERVED_SEQ_NUM then 0 else q + 1)"

lemma next_seq_counts: "q \<noteq> SAT_RESERVED_SEQ_NUM \<Longrightarrow> unat (next_seq q) = (unat q + 1) mod 65535 \<and> next_seq q \<noteq> SAT_RESERVED_SEQ_NUM"
proof -
  assume q: "q \<noteq> SAT_RESERVED_SEQ_NUM"
  have e: "x = SAT_RESERVED_SEQ_NUM \<longleftrightarrow> unat x = 65535" for x :: u16
    by (auto simp: SAT_RESERVED_SEQ_NUM_def intro!: unsigned_word_eqI [where ?'a = nat])
  have "unat q < 65536" using unsigned_less [of q, where ?'a = nat] by simp
  then have l: "unat q < 65535" using q e by (simp add: nat_neq_iff)
  then have a: "unat (q + 1) = unat q + 1" by (simp add: unat_word_ariths)
  show ?thesis
  proof (cases "unat q = 65534")
    case True
    then have "q + 1 = SAT_RESERVED_SEQ_NUM" using a e by simp
    then show ?thesis using True by (simp add: next_seq_def SAT_RESERVED_SEQ_NUM_def)
  next
    case False
    then have "q + 1 \<noteq> SAT_RESERVED_SEQ_NUM" using a l e by simp
    then show ?thesis using a l False by (simp add: next_seq_def)
  qed
qed

text \<open>The messages of a trace.\<close>

definition sent :: "mhi_sat_cntrl \<Rightarrow> sat_msg list" where
  "sent s = concat (map (\<lambda>e. case e of Rpmsg_send m \<Rightarrow> [m] | _ \<Rightarrow> []) (sat_trace s))"

lemma sent_maps: "concat (map (\<lambda>e. case e of Rpmsg_send m \<Rightarrow> [m] | _ \<Rightarrow> []) (map map_obs ms)) = []"
  by (induction ms) (simp_all add: map_obs_def)

definition commands_of :: "sat_msg \<Rightarrow> sat_tre list" where
  "commands_of p = take (SAT_TRE_NUM_PKTS (unat (payload_size (sat_hdr p)))) (sat_pkts p)"

definition reply_to :: "u32 \<Rightarrow> sat_msg \<Rightarrow> sat_msg \<Rightarrow> bool" where
  "reply_to i p m \<longleftrightarrow> msg_id (sat_hdr m) = SAT_MSG_ID_EVT \<and> reply_seq (sat_hdr m) = hdr_seq (sat_hdr p) \<and> hdr_dev_id (sat_hdr m) = i
     \<and> length (sat_pkts m) = length (commands_of p) \<and> payload_size (sat_hdr m) = of_nat (16 * length (commands_of p))
     \<and> list_all answers_cmd (sat_pkts m)"

definition maps_made :: "sat_msg \<Rightarrow> sat_msg \<Rightarrow> sat_map list" where
  "maps_made p m = concat (map2 new_map (commands_of p) (sat_pkts m))"

definition sent_part :: "sat_tre list \<Rightarrow> sat_tre list" where
  "sent_part ts = take (msg_elements (of_nat (SAT_MSG_SIZE (length ts)))) ts"

lemma sent_whole:
  assumes "length ts < 4095"
  shows "sent_part ts = ts"
proof -
  have "unat (of_nat (24 + length ts * 16) :: u16) = 24 + length ts * 16"
    using assms unfolding unat_of_nat by simp
  then show ?thesis
    by (simp add: sent_part_def msg_elements_def SAT_MSG_SIZE_def SAT_TRE_SIZE_def SAT_TRE_NUM_PKTS_def sizeof_sat_header_def
        sizeof_sat_tre_def)
qed

text \<open>The answer to 4095 commands is 8 bytes, its header says 65520 bytes of elements.\<close>

lemma longest_answer_cut: "length ts = 4095 \<Longrightarrow> sent_part ts = []"
  by (simp add: sent_part_def msg_elements_def SAT_MSG_SIZE_def SAT_TRE_SIZE_def SAT_TRE_NUM_PKTS_def sizeof_sat_header_def
      sizeof_sat_tre_def)

lemma send_msg_cases:
  assumes "mhi_sat_send_msg so link ty reply pkts s = Some (ret, s')"
  shows "link \<and> sat_frame s s' \<and> packet_list s' = packet_list s \<and> sat_seq s' = next_seq (sat_seq s) \<and> addr_map_list s' = addr_map_list s
    \<and> dev_list s' = dev_list s \<and> sat_core s' = sat_core s \<and> sat_calls s' = Suc (sat_calls s)
    \<and> (case rpmsg_ret so (sat_calls s) of
          Some e \<Rightarrow> ret = Inl e \<and> sat_trace s' = sat_trace s
        | None \<Rightarrow> ret = Inr () \<and> (\<exists>h. sat_trace s' = sat_trace s @ [Rpmsg_send \<lparr>sat_hdr = h, sat_pkts = sent_part pkts\<rparr>]
            \<and> msg_id h = ty \<and> reply_seq h = reply \<and> hdr_seq h = next_seq (sat_seq s) \<and> hdr_dev_id h = sat_dev_id s
            \<and> payload_size h = of_nat (16 * length pkts)))"
  using assms
  by (auto simp: mhi_sat_send_msg_def Let_def sat_frame_def next_seq_def asked_def sent_part_def SAT_MSG_SIZE_def sizeof_sat_header_def
      sizeof_sat_tre_def mult.commute split: if_splits option.splits)

text \<open>What has been mapped is what has been unmapped and what is held, in this order.\<close>

definition mapped_so_far :: "mhi_sat_cntrl \<Rightarrow> (u64 \<times> u64) list" where
  "mapped_so_far s = concat (map (\<lambda>e. case e of Map_resource a n \<Rightarrow> [(a, n)] | _ \<Rightarrow> []) (sat_trace s))"

definition unmapped_so_far :: "mhi_sat_cntrl \<Rightarrow> (u64 \<times> u64) list" where
  "unmapped_so_far s = concat (map (\<lambda>e. case e of Unmap_resource a n \<Rightarrow> [(a, n)] | _ \<Rightarrow> []) (sat_trace s))"

definition held_maps :: "mhi_sat_cntrl \<Rightarrow> (u64 \<times> u64) list" where
  "held_maps s = map (\<lambda>m. (map_iova m, map_len m)) (addr_map_list s)"

definition maps_balanced :: "mhi_sat_cntrl \<Rightarrow> bool" where
  "maps_balanced s \<longleftrightarrow> mapped_so_far s = unmapped_so_far s @ held_maps s"

lemma map_obs_pairs:
  "concat (map (\<lambda>e. case e of Map_resource a n \<Rightarrow> [(a, n)] | _ \<Rightarrow> []) (map map_obs ms)) = map (\<lambda>m. (map_iova m, map_len m)) ms"
  "concat (map (\<lambda>e. case e of Unmap_resource a n \<Rightarrow> [(a, n)] | _ \<Rightarrow> []) (map map_obs ms)) = []"
  by (induction ms) (simp_all add: map_obs_def)

lemma answered:
  assumes "sat_answer so os envs link p s = Some s'"
  obtains ts ret s1 where "mhi_sat_process_cmds so os envs (commands_of p) s = Some (ts, s1)"
    "mhi_sat_send_msg so link SAT_MSG_ID_EVT (hdr_seq (sat_hdr p)) ts s1 = Some (ret, s')"
  using assms by (auto simp: sat_answer_def commands_of_def bind_eq_Some_conv)

lemma answer_frame:
  assumes "sat_answer so os envs link p s = Some s'"
  shows "sat_frame s s' \<and> packet_list s' = packet_list s \<and> (maps_balanced s \<longrightarrow> maps_balanced s')"
proof -
  obtain ts ret s1 where 1: "mhi_sat_process_cmds so os envs (commands_of p) s = Some (ts, s1)"
    and 2: "mhi_sat_send_msg so link SAT_MSG_ID_EVT (hdr_seq (sat_hdr p)) ts s1 = Some (ret, s')"
    by (rule answered [OF assms])
  note c = cmds_answered [OF 1] and m = send_msg_cases [OF 2]
  have "maps_balanced s1" if "maps_balanced s"
    using that c by (simp add: maps_balanced_def mapped_so_far_def unmapped_so_far_def held_maps_def map_obs_pairs del: map_map map_concat)
  moreover have "maps_balanced s'" if "maps_balanced s1"
    using that m by (auto simp: maps_balanced_def mapped_so_far_def unmapped_so_far_def held_maps_def split: option.splits)
  ultimately show ?thesis using c m sat_frame_trans by fastforce
qed

lemma answer_reply:
  assumes "sat_answer so os envs True p s = Some s'" and "\<forall>n. rpmsg_ret so n = None" and "payload_size (sat_hdr p) < 65520"
  shows "\<exists>m. sent s' = sent s @ [m] \<and> reply_to (sat_dev_id s) p m \<and> hdr_seq (sat_hdr m) = next_seq (sat_seq s)
    \<and> sat_seq s' = next_seq (sat_seq s) \<and> addr_map_list s' = addr_map_list s @ maps_made p m"
proof -
  obtain ts ret s1 where 1: "mhi_sat_process_cmds so os envs (commands_of p) s = Some (ts, s1)"
    and 2: "mhi_sat_send_msg so True SAT_MSG_ID_EVT (hdr_seq (sat_hdr p)) ts s1 = Some (ret, s')"
    by (rule answered [OF assms(1)])
  note c = cmds_answered [OF 1]
  have "unat (payload_size (sat_hdr p)) < 65520" using assms(3) by (simp add: word_less_nat_alt)
  then have "unat (payload_size (sat_hdr p)) div 16 < 4095" by linarith
  then have "length (commands_of p) < 4095"
    by (simp add: commands_of_def SAT_TRE_NUM_PKTS_def sizeof_sat_tre_def)
  then have w: "sent_part ts = ts" using c by (simp add: sent_whole)
  obtain h where h: "sat_trace s' = sat_trace s1 @ [Rpmsg_send \<lparr>sat_hdr = h, sat_pkts = ts\<rparr>]" "msg_id h = SAT_MSG_ID_EVT"
    "reply_seq h = hdr_seq (sat_hdr p)" "hdr_seq h = next_seq (sat_seq s1)" "hdr_dev_id h = sat_dev_id s1"
    "payload_size h = of_nat (16 * length ts)" "sat_seq s' = next_seq (sat_seq s1)" "addr_map_list s' = addr_map_list s1"
    using send_msg_cases [OF 2] assms(2) unfolding w by (auto split: option.splits)
  have "sent s' = sent s @ [\<lparr>sat_hdr = h, sat_pkts = ts\<rparr>]"
  proof -
    have t: "sat_trace s1 = sat_trace s @ map map_obs (concat (map2 new_map (commands_of p) ts))" using c by blast
    show ?thesis unfolding sent_def h(1) t map_append concat_append sent_maps by simp
  qed
  then show ?thesis using h c by (auto simp: reply_to_def maps_made_def sat_frame_def)
qed

lemma all_answered:
  assumes "sat_answer_all so os envs True ps s = Some s'" and "\<forall>n. rpmsg_ret so n = None"
    and "\<forall>p \<in> set ps. payload_size (sat_hdr p) < 65520"
  shows "\<exists>ms. sent s' = sent s @ ms \<and> list_all2 (reply_to (sat_dev_id s)) ps ms
    \<and> (\<forall>k < length ms. hdr_seq (sat_hdr (ms ! k)) = (next_seq ^^ Suc k) (sat_seq s))
    \<and> packet_list s' = packet_list s \<and> addr_map_list s' = addr_map_list s @ concat (map2 maps_made ps ms)"
  using assms(1,3)
proof (induction ps arbitrary: s)
  case (Cons p ps)
  obtain s1 where 1: "sat_answer so os envs True p s = Some s1" "sat_answer_all so os envs True ps s1 = Some s'"
    using Cons.prems(1) by (auto simp: bind_eq_Some_conv)
  obtain m where m: "sent s1 = sent s @ [m]" "reply_to (sat_dev_id s) p m" "hdr_seq (sat_hdr m) = next_seq (sat_seq s)"
    "sat_seq s1 = next_seq (sat_seq s)" "addr_map_list s1 = addr_map_list s @ maps_made p m"
    using answer_reply [OF 1(1) assms(2)] Cons.prems(2) by auto
  have f: "sat_dev_id s1 = sat_dev_id s" "packet_list s1 = packet_list s"
    using answer_frame [OF 1(1)] by (simp_all add: sat_frame_def)
  obtain ms where ms: "sent s' = sent s1 @ ms" "list_all2 (reply_to (sat_dev_id s1)) ps ms"
    "\<forall>k < length ms. hdr_seq (sat_hdr (ms ! k)) = (next_seq ^^ Suc k) (sat_seq s1)"
    "packet_list s' = packet_list s1" "addr_map_list s' = addr_map_list s1 @ concat (map2 maps_made ps ms)"
    using Cons.IH [OF 1(2)] Cons.prems(2) by auto
  have "\<forall>k < length (m # ms). hdr_seq (sat_hdr ((m # ms) ! k)) = (next_seq ^^ Suc k) (sat_seq s)"
    using ms(3) m(3,4) by (auto simp: nth_Cons funpow_swap1 split: nat.split)
  then show ?case using m ms f by (intro exI [of _ "m # ms"]) simp
qed (auto intro: exI [of _ "[]"])

lemma next_seq_iterates:
  "q \<noteq> SAT_RESERVED_SEQ_NUM \<Longrightarrow> unat ((next_seq ^^ k) q) = (unat q + k) mod 65535 \<and> (next_seq ^^ k) q \<noteq> SAT_RESERVED_SEQ_NUM"
proof (induction k)
  case 0
  have "unat q \<noteq> 65535" using 0 by (auto simp: SAT_RESERVED_SEQ_NUM_def intro!: unsigned_word_eqI [where ?'a = nat])
  moreover have "unat q < 65536" using unsigned_less [of q, where ?'a = nat] by simp
  ultimately show ?case using 0 by simp
next
  case (Suc k)
  have "unat (next_seq ((next_seq ^^ k) q)) = (unat q + Suc k) mod 65535" "next_seq ((next_seq ^^ k) q) \<noteq> SAT_RESERVED_SEQ_NUM"
    using next_seq_counts [of "(next_seq ^^ k) q"] Suc by (simp_all add: mod_Suc_eq)
  then show ?case by simp
qed

text \<open>
  C38: Every message of commands the worker finds is answered with one event message, in order:
  it names the sequence number of the message it answers, has one element for each command, each
  the completion of the command with success or failure, and numbers of its own, which count on
  from the last one and never become the reserved number. What is held mapped for the device
  grows by exactly the commands to map that were answered with success, at the addresses the
  answers give; nothing is mapped that the other side does not know of. The bound on the payload is
  needed: the size of a longer answer does not fit into the 16 bits it is passed in.
\<close>

theorem sat_replies:
  assumes "mhi_sat_process_worker so os envs True s = Some s'" and "\<forall>n. rpmsg_ret so n = None"
    and "sat_seq s \<noteq> SAT_RESERVED_SEQ_NUM" and "\<forall>p \<in> set (packet_list s). payload_size (sat_hdr p) < 65520"
  shows "packet_list s' = [] \<and> (\<exists>ms. sent s' = sent s @ ms \<and> length ms = length (packet_list s)
    \<and> addr_map_list s' = addr_map_list s @ concat (map2 maps_made (packet_list s) ms)
    \<and> (\<forall>k < length ms. reply_to (sat_dev_id s) (packet_list s ! k) (ms ! k)
         \<and> unat (hdr_seq (sat_hdr (ms ! k))) = (unat (sat_seq s) + Suc k) mod 65535
         \<and> hdr_seq (sat_hdr (ms ! k)) \<noteq> SAT_RESERVED_SEQ_NUM))"
proof -
  let ?s = "s\<lparr>process_pending := False, packet_list := []\<rparr>"
  have run: "sat_answer_all so os envs True (packet_list s) ?s = Some s'"
    using assms(1) by (simp add: mhi_sat_process_worker_def Let_def)
  obtain ms where ms: "sent s' = sent ?s @ ms" "list_all2 (reply_to (sat_dev_id ?s)) (packet_list s) ms"
    "\<forall>k < length ms. hdr_seq (sat_hdr (ms ! k)) = (next_seq ^^ Suc k) (sat_seq ?s)"
    "packet_list s' = packet_list ?s" "addr_map_list s' = addr_map_list ?s @ concat (map2 maps_made (packet_list s) ms)"
    using all_answered [OF run assms(2,4)] by blast
  have "sent ?s = sent s" by (simp add: sent_def)
  moreover have "unat (hdr_seq (sat_hdr (ms ! k))) = (unat (sat_seq s) + Suc k) mod 65535 \<and> hdr_seq (sat_hdr (ms ! k)) \<noteq> SAT_RESERVED_SEQ_NUM"
    if "k < length ms" for k
    using ms(3) that next_seq_iterates [OF assms(3), of "Suc k"] by simp
  ultimately show ?thesis using ms by (auto simp: list_all2_conv_all_nth)
qed

definition sat_demo_os :: sat_os where
  "sat_demo_os = \<lparr>sat_memory = (\<lambda>_. True), map_resource = (\<lambda>_ p n. Some (p + 0x1000)), rpmsg_ret = (\<lambda>_. None)\<rparr>"

definition sat_demo :: mhi_sat_cntrl where
  "sat_demo = new_sat_cntrl zero_controller 0 7 zero_device"

theorem sat_replies_witness:
  "let p = \<lparr>sat_hdr = \<lparr>major_ver = 1, minor_ver = 0, msg_id = SAT_MSG_ID_CMD, hdr_seq = 5, reply_seq = 0xFFFF, payload_size = 16,
        hdr_dev_id = 7\<rparr>, sat_pkts = [\<lparr>sat_ptr = 0x8000, sat_dw0 = 64, sat_dw1 = 0x650000\<rparr>]\<rparr>
   in case mhi_sat_process_worker sat_demo_os link_up (\<lambda>_ x. x) True (sat_demo\<lparr>packet_list := [p]\<rparr>) of
        None \<Rightarrow> False
      | Some s' \<Rightarrow> (\<exists>m. sent s' = [m] \<and> reply_to 7 p m \<and> unat (hdr_seq (sat_hdr m)) = 1)
          \<and> addr_map_list s' = [\<lparr>map_phys = 0x8000, map_iova = 0x9000, map_len = 64\<rparr>]"
proof -
  let ?t = "\<lparr>sat_ptr = 0x8000, sat_dw0 = 64, sat_dw1 = 0x650000\<rparr>"
  let ?p = "\<lparr>sat_hdr = \<lparr>major_ver = 1, minor_ver = 0, msg_id = SAT_MSG_ID_CMD, hdr_seq = 5, reply_seq = 0xFFFF, payload_size = 16,
        hdr_dev_id = 7\<rparr>, sat_pkts = [?t]\<rparr>"
  let ?s = "sat_demo\<lparr>packet_list := [?p]\<rparr>"
  have t: "SAT_TRE_GET_TYPE ?t = MHI_PKT_TYPE_IOMMU_MAP_CMD" by (simp add: SAT_TRE_GET_TYPE_def MHI_PKT_TYPE_IOMMU_MAP_CMD_def)
  have n: "SAT_TRE_NUM_PKTS 16 = 1" by (simp add: SAT_TRE_NUM_PKTS_def sizeof_sat_tre_def)
  have f: "sent ?s = []" "addr_map_list ?s = []" "sat_seq ?s = 0" "packet_list ?s = [?p]" "sat_dev_id ?s = 7"
    by (simp_all add: sent_def sat_demo_def new_sat_cntrl_def)
  obtain s' where s': "mhi_sat_process_worker sat_demo_os link_up (\<lambda>_ x. x) True ?s = Some s'"
    "addr_map_list s' = [\<lparr>map_phys = 0x8000, map_iova = 0x9000, map_len = 64\<rparr>]"
    by (simp add: mhi_sat_process_worker_def Let_def sat_answer_def n sat_command_def t sat_iommu_map_def asked_def sat_demo_os_def
        mhi_sat_send_msg_def sat_demo_def new_sat_cntrl_def)
  have "\<forall>n. rpmsg_ret sat_demo_os n = None" "sat_seq ?s \<noteq> SAT_RESERVED_SEQ_NUM" "\<forall>p \<in> set (packet_list ?s). payload_size (sat_hdr p) < 65520"
    by (simp_all add: sat_demo_os_def f SAT_RESERVED_SEQ_NUM_def)
  from sat_replies [OF s'(1) this] obtain ms where ms: "sent s' = ms" "length ms = 1" "reply_to 7 ?p (ms ! 0)"
    "unat (hdr_seq (sat_hdr (ms ! 0))) = 1"
    unfolding f by auto
  then obtain m where "ms = [m]" by (cases ms) auto
  then show ?thesis using ms s' by (simp add: Let_def)
qed

section \<open>What is left when the link goes\<close>

lemma all_answered_frame:
  "sat_answer_all so os envs link ps s = Some s' \<Longrightarrow>
    sat_frame s s' \<and> packet_list s' = packet_list s \<and> (maps_balanced s \<longrightarrow> maps_balanced s')"
proof (induction ps arbitrary: s)
  case (Cons p ps)
  obtain s1 where 1: "sat_answer so os envs link p s = Some s1" "sat_answer_all so os envs link ps s1 = Some s'"
    using Cons.prems by (auto simp: bind_eq_Some_conv)
  show ?case using answer_frame [OF 1(1)] Cons.IH [OF 1(2)] sat_frame_trans by fastforce
qed simp

lemma flushed_process:
  assumes "flush_process so os envs link s = Some s'"
  shows "sat_active s' = sat_active s \<and> connect_pending s' = connect_pending s \<and> \<not> process_pending s'
    \<and> num_devices s' = num_devices s \<and> length (dev_list s') = length (dev_list s) \<and> (maps_balanced s \<longrightarrow> maps_balanced s')"
proof (cases "process_pending s")
  case True
  then have "sat_answer_all so os envs link (packet_list s) (s\<lparr>process_pending := False, packet_list := []\<rparr>) = Some s'"
    using assms by (simp add: flush_process_def mhi_sat_process_worker_def Let_def)
  note f = all_answered_frame [OF this]
  have "maps_balanced (s\<lparr>process_pending := False, packet_list := []\<rparr>) = maps_balanced s"
    by (simp add: maps_balanced_def mapped_so_far_def unmapped_so_far_def held_maps_def)
  then show ?thesis using f by (simp add: sat_frame_def)
qed (use assms in \<open>simp add: flush_process_def\<close>)

text \<open>The greeting is sent exactly if the link is there, all devices are, and nobody has sent it.\<close>

definition greets :: "sat_os \<Rightarrow> bool \<Rightarrow> mhi_sat_cntrl \<Rightarrow> bool" where
  "greets so link s \<longleftrightarrow> connect_pending s \<and> link \<and> max_devices s = num_devices s \<and> sat_memory so (sat_calls s)
     \<and> rpmsg_ret so (Suc (sat_calls s)) = None"

lemma flushed_connect:
  assumes "\<not> sat_active s"
  obtains s' where "flush_connect so link s = Some s'" "sat_active s' \<longleftrightarrow> greets so link s" "\<not> connect_pending s'"
    "process_pending s' = process_pending s" "num_devices s' = num_devices s" "dev_list s' = dev_list s"
    "maps_balanced s \<longrightarrow> maps_balanced s'"
proof -
  have b: "maps_balanced (x\<lparr>sat_trace := sat_trace x @ [Rpmsg_send m]\<rparr>) = maps_balanced x" for x m
    by (simp add: maps_balanced_def mapped_so_far_def unmapped_so_far_def held_maps_def)
  have e: "maps_balanced (x\<lparr>connect_pending := p\<rparr>) = maps_balanced x" "maps_balanced (x\<lparr>sat_active := p\<rparr>) = maps_balanced x"
    "maps_balanced (x\<lparr>sat_calls := n\<rparr>) = maps_balanced x" "maps_balanced (x\<lparr>sat_seq := q\<rparr>) = maps_balanced x" for x p n q
    by (simp_all add: maps_balanced_def mapped_so_far_def unmapped_so_far_def held_maps_def)
  define s0 where "s0 = s\<lparr>connect_pending := False\<rparr>"
  have s0: "sat_active s0 = sat_active s" "max_devices s0 = max_devices s" "num_devices s0 = num_devices s" "sat_calls s0 = sat_calls s"
    "process_pending s0 = process_pending s" "dev_list s0 = dev_list s" "\<not> connect_pending s0" "maps_balanced s0 = maps_balanced s"
    by (simp_all add: s0_def e)
  show ?thesis
  proof (cases "connect_pending s \<and> link \<and> max_devices s = num_devices s \<and> sat_memory so (sat_calls s)")
    case False
    then show ?thesis
      using that [of "if connect_pending s then (if link \<and> max_devices s = num_devices s then asked s0 else s0) else s"] assms s0
      by (auto simp: flush_connect_def mhi_sat_connect_worker_def s0_def [symmetric] greets_def asked_def e)
  next
    case True
    let ?s1 = "(asked s0)\<lparr>sat_active := True\<rparr>"
    let ?hello = "[sat_cfg_event (sat_base_addr ?s1) (er_base ?s1) (num_er ?s1), sat_state_event MHI_STATE_M0, sat_ee_event MHI_EE_AMSS]"
    have "mhi_sat_send_msg so link SAT_MSG_ID_EVT SAT_RESERVED_SEQ_NUM ?hello ?s1 \<noteq> None"
      using True by (simp add: mhi_sat_send_msg_def Let_def)
    then obtain ret s2 where m: "mhi_sat_send_msg so link SAT_MSG_ID_EVT SAT_RESERVED_SEQ_NUM ?hello ?s1 = Some (ret, s2)"
      by auto
    have f: "flush_connect so link s = Some (case ret of Inl e \<Rightarrow> s2\<lparr>sat_active := False\<rparr> | Inr _ \<Rightarrow> s2)"
      using True assms m s0 by (simp add: flush_connect_def mhi_sat_connect_worker_def s0_def [symmetric] split: sum.split)
    note c = send_msg_cases [OF m]
    have k: "maps_balanced s \<longrightarrow> maps_balanced s2"
      using c s0(8) by (auto simp: maps_balanced_def mapped_so_far_def unmapped_so_far_def held_maps_def asked_def split: option.splits)
    show ?thesis
      by (rule that [OF f]) (use c k s0 True in \<open>auto simp: greets_def sat_frame_def asked_def e split: option.splits\<close>)
  qed
qed

lemma unprepared_all:
  "sat_unprepare_all os envs ds c = Some (ds', c') \<Longrightarrow>
    list_all (\<lambda>d. \<not> chan_started d) ds' \<and> map sat_mhi_dev ds' = map sat_mhi_dev ds"
  by (induction ds arbitrary: c ds') (auto simp: bind_eq_Some_conv split: if_splits)

lemma unmapped_all:
  "addr_map_list (sat_unmap_all s) = [] \<and> (maps_balanced s \<longrightarrow> mapped_so_far (sat_unmap_all s) = unmapped_so_far (sat_unmap_all s))"
proof -
  have e: "concat (map (\<lambda>e. case e of Map_resource a n \<Rightarrow> [(a, n)] | _ \<Rightarrow> []) (map (\<lambda>m. Unmap_resource (map_iova m) (map_len m)) ms)) = []"
    "concat (map (\<lambda>e. case e of Unmap_resource a n \<Rightarrow> [(a, n)] | _ \<Rightarrow> []) (map (\<lambda>m. Unmap_resource (map_iova m) (map_len m)) ms))
      = map (\<lambda>m. (map_iova m, map_len m)) ms" for ms
    by (induction ms) simp_all
  show ?thesis
    by (simp add: e sat_unmap_all_def maps_balanced_def mapped_so_far_def unmapped_so_far_def held_maps_def del: map_map)
qed

text \<open>A controller when its link is gone.\<close>

definition cut_off :: "sat_os \<Rightarrow> bool \<Rightarrow> mhi_sat_cntrl \<Rightarrow> mhi_sat_cntrl \<Rightarrow> bool" where
  "cut_off so link s s' \<longleftrightarrow> list_all (\<lambda>d. \<not> chan_started d) (dev_list s') \<and> length (dev_list s') = length (dev_list s)
     \<and> addr_map_list s' = [] \<and> (maps_balanced s \<longrightarrow> mapped_so_far s' = unmapped_so_far s')
     \<and> \<not> connect_pending s' \<and> \<not> process_pending s' \<and> (sat_active s' \<longleftrightarrow> greets so link s)"

lemma link_lost:
  assumes "sat_link_lost so os envs link s = Some s'"
  shows "cut_off so link s s'"
proof -
  let ?s = "s\<lparr>sat_active := False\<rparr>"
  have g: "greets so link ?s = greets so link s" "maps_balanced ?s = maps_balanced s"
    by (simp_all add: greets_def maps_balanced_def mapped_so_far_def unmapped_so_far_def held_maps_def)
  obtain s1 where 1: "flush_connect so link ?s = Some s1" "sat_active s1 \<longleftrightarrow> greets so link s" "\<not> connect_pending s1"
    "dev_list s1 = dev_list s" "maps_balanced s \<longrightarrow> maps_balanced s1"
    using flushed_connect [of ?s so link] unfolding g by auto
  obtain s2 ds c where 2: "flush_process so os envs link s1 = Some s2" "sat_unprepare_all os envs (dev_list s2) (sat_core s2) = Some (ds, c)"
    "s' = sat_unmap_all (s2\<lparr>dev_list := ds, sat_core := c\<rparr>)"
    using assms 1(1) by (auto simp: sat_link_lost_def bind_eq_Some_conv)
  note f = flushed_process [OF 2(1)] and u = unprepared_all [OF 2(2)]
  have b: "maps_balanced (s2\<lparr>dev_list := ds, sat_core := c\<rparr>) = maps_balanced s2"
    by (simp add: maps_balanced_def mapped_so_far_def unmapped_so_far_def held_maps_def)
  have "length ds = length (dev_list s)" using f u 1(4) by (metis length_map)
  moreover have "sat_active s' = sat_active s2" "connect_pending s' = connect_pending s2" "process_pending s' = process_pending s2"
    "dev_list s' = ds" by (simp_all add: 2(3) sat_unmap_all_def)
  ultimately show ?thesis
    using f u 1 unmapped_all [of "s2\<lparr>dev_list := ds, sat_core := c\<rparr>"] unfolding b 2(3) [symmetric] by (simp add: cut_off_def)
qed

lemma all_lost: "sat_all_lost so os envs link ss = Some ss' \<Longrightarrow> list_all2 (cut_off so link) ss ss'"
  by (induction ss arbitrary: ss') (auto simp: bind_eq_Some_conv link_lost)

text \<open>
  C39: When the link of a subsystem goes, each of its controllers is left with no channel started,
  every mapping it ever made taken back once and in order, and no work scheduled. It is inactive,
  with one exception: the work that greets the other side is waited for after the controller has
  been marked inactive, so if it is scheduled and all devices are there it sends the greeting and
  marks the controller active again; and then the removal of any of its devices follows the link
  that is gone.
\<close>

theorem sat_link_down:
  assumes "mhi_sat_rpmsg_remove so os envs b = Some b'"
  shows "\<not> rpdev b' \<and> length (cntrl_list b') = length (cntrl_list b)
    \<and> (k < length (cntrl_list b) \<longrightarrow>
        (case (cntrl_list b ! k, cntrl_list b' ! k) of
           (s, s') \<Rightarrow> list_all (\<lambda>d. \<not> chan_started d) (dev_list s') \<and> length (dev_list s') = length (dev_list s)
             \<and> addr_map_list s' = [] \<and> (maps_balanced s \<longrightarrow> mapped_so_far s' = unmapped_so_far s')
             \<and> \<not> connect_pending s' \<and> \<not> process_pending s'
             \<and> (sat_active s' \<longleftrightarrow> connect_pending s \<and> rpdev b \<and> max_devices s = num_devices s
                  \<and> sat_memory so (sat_calls s) \<and> rpmsg_ret so (Suc (sat_calls s)) = None)
             \<and> (sat_active s' \<longrightarrow> mhi_sat_dev_remove so' os' envs' early env k j b' = None)))"
proof -
  obtain ss where ss: "sat_all_lost so os envs (rpdev b) (cntrl_list b) = Some ss" "b' = b\<lparr>cntrl_list := ss, rpdev := False\<rparr>"
    using assms by (auto simp: mhi_sat_rpmsg_remove_def)
  note l = all_lost [OF ss(1)]
  have "mhi_sat_dev_remove so' os' envs' early env k j b' = None" if a: "sat_active (ss ! k)"
  proof -
    let ?s = "(ss ! k)\<lparr>dev_list := take j (dev_list (ss ! k)) @ drop (Suc j) (dev_list (ss ! k)), num_devices := num_devices (ss ! k) - 1\<rparr>"
    have "sat_tell_removal so' os' envs' early env False ?s = None"
      by (simp add: sat_tell_removal_def mhi_sat_send_msg_def Let_def bind_eq_None_conv split: bind_splits)
    then show ?thesis using a by (simp add: mhi_sat_dev_remove_def Let_def ss(2))
  qed
  then show ?thesis using l by (auto simp: ss(2) list_all2_conv_all_nth cut_off_def greets_def)
qed

theorem sat_link_down_witness:
  "let s = sat_demo\<lparr>dev_list := [\<lparr>sat_mhi_dev = zero_device, chan_started = True\<rparr>], num_devices := 1, max_devices := 1, connect_pending := True\<rparr>;
       b = \<lparr>rpdev = True, cntrl_list = [s], freed = []\<rparr>
   in case mhi_sat_rpmsg_remove sat_demo_os link_up (\<lambda>_ x. x) b of
        None \<Rightarrow> False
      | Some b' \<Rightarrow> sat_active (cntrl_list b' ! 0) \<and> \<not> rpdev b'
          \<and> mhi_sat_dev_remove sat_demo_os link_up (\<lambda>_ x. x) id id 0 0 b' = None"
proof -
  let ?s = "sat_demo\<lparr>dev_list := [\<lparr>sat_mhi_dev = zero_device, chan_started = True\<rparr>], num_devices := 1, max_devices := 1, connect_pending := True\<rparr>"
  let ?b = "\<lparr>rpdev = True, cntrl_list = [?s], freed = []\<rparr>"
  have u: "mhi_unprepare_from_transfer os envs zero_device c = Some c" for os envs c
    by (simp add: mhi_unprepare_from_transfer_def zero_device_def)
  have f: "\<not> sat_active (?s\<lparr>sat_active := False\<rparr>)" by simp
  obtain s1 where 1: "flush_connect sat_demo_os True (?s\<lparr>sat_active := False\<rparr>) = Some s1" "\<not> process_pending s1" "dev_list s1 = dev_list ?s"
    using flushed_connect [OF f, of sat_demo_os True] by (auto simp: sat_demo_def new_sat_cntrl_def)
  obtain b' where r: "mhi_sat_rpmsg_remove sat_demo_os link_up (\<lambda>_ x. x) ?b = Some b'"
    using 1 u by (simp add: mhi_sat_rpmsg_remove_def sat_link_lost_def flush_process_def)
  have "max_devices ?s = num_devices ?s \<and> sat_memory sat_demo_os (sat_calls ?s) \<and> rpmsg_ret sat_demo_os (Suc (sat_calls ?s)) = None"
    by (simp add: sat_demo_os_def)
  then show ?thesis
    using sat_link_down [OF r, where k = 0 and so' = sat_demo_os and os' = link_up and envs' = "\<lambda>_ x. x" and early = id and env = id and j = 0] r
    by (simp add: Let_def)
qed

section \<open>Devices that come and go\<close>

text \<open>
  A controller whose only device is removed before it has been greeted is freed with the work
  that greets still scheduled.
\<close>

lemma freed_with_work:
  assumes "k < length (cntrl_list b)" and "s = cntrl_list b ! k" and "num_devices s = 1" and "\<not> sat_active s" and "connect_pending s"
  shows "\<exists>b' s'. mhi_sat_dev_remove so os envs early env k j b = Some b' \<and> freed b' = freed b @ [s'] \<and> connect_pending s'"
  using assms by (simp add: mhi_sat_dev_remove_def Let_def sat_unmap_all_def)

text \<open>The number of event rings is counted up to the ring of the device that came last.\<close>

lemma rings_of_last:
  assumes "num_devices s + 1 = max_devices s"
  shows "num_er (sat_add_device d (sat_count_rings d s)) = dl_event_id d - min (er_base s) (dl_event_id d) + 1"
  using assms by (simp add: sat_add_device_def sat_count_rings_def Let_def)

text \<open>An answer that arrives before the command is waited for is lost.\<close>

lemma early_answer_lost: "fst (mhi_sat_wait_cmd_completion early id s) = Inl EIO"
  by (simp add: mhi_sat_wait_cmd_completion_def Let_def)

text \<open>Two devices of one kind whose slots differ by 16 are one controller to the driver.\<close>

lemma same_id: "slot' AND 0xF = slot AND 0xF \<Longrightarrow> MHI_SAT_CREATE_DEVICE_ID dv dm bus slot' = MHI_SAT_CREATE_DEVICE_ID dv dm bus slot"
  by (simp add: MHI_SAT_CREATE_DEVICE_ID_def)

end
