(* ===== verification/Spec2Isabelle.thy ===== *)
theory Spec2Isabelle
  imports Mhi_Cntrl Mhi_Netdev Mhi_Mon Mhi_Sat
begin

text \<open>
  A verification development of the MHI modem driver
  (\<open>src/boards/rk3588-muse/pcie-mhi-driver\<close>), the only program of the repository that is built
  from its own sources; the rest are scripts and configurations of board images.

  The program. A modem on PCIe shares descriptor rings with the host. \<open>core/\<close> is the bus
  driver: it sets the rings and their contexts up, loads the firmware, moves the link through
  its power states, queues buffers of its clients and hands completed ones back. \<open>devices/\<close> are
  the clients: the network device, which carries IP packets in QMAP or MBIM frames, and the
  character devices. The control lines of the modem's serial ports are a third client, in
  \<open>core/mhi_dtr.c\<close>.

  How code becomes definitions. A C structure is a record, an enumeration a datatype, an
  unsigned integer a word of its width. A function that changes the controller takes it and
  returns it; \<open>unit res\<close> is a return value of 0 or a negative error number. What the kernel and
  the device answer is an argument: \<open>mhi_os\<close> (DMA mappings, allocations, register reads),
  \<open>net_os\<close> and \<open>build_os\<close> for the network device, and \<open>env\<close> functions for what happens while the
  code waits. Effects on the outside (callbacks, register writes, frees, wake-ups) are appended
  to a trace. An array is a function with a flag, \<open>ub\<close>, that is set by every access the code
  makes without having checked it; a null pointer that is followed is \<open>None\<close>. A loop that only
  the device can end is a \<open>partial_function (option)\<close>, so that running for ever is \<open>None\<close>, and
  what is claimed of it says when it returns. No fuel is used anywhere.

  The theories, in the order in which they build on each other:

  \<^item> \<open>Mhi_Prelude\<close>: words, errors, collections of simplification rules, general lemmas.
  \<^item> \<open>Mhi_Types\<close>: the constants of \<open>core/mhi.h\<close> and \<open>core/mhi_internal.h\<close>, the transfer ring
    element and its fields.
  \<^item> \<open>Mhi_Ring\<close>: descriptor rings (\<open>mhi_add_ring_element\<close> and its kin in \<open>core/mhi_main.c\<close>), their
    invariant \<open>ring_wf\<close>, and the locale \<open>bounded_fifo\<close>, of which a ring is an interpretation.
  \<^item> \<open>Mhi_Ctrl\<close>: the controller, channels, event rings and contexts as records.
  \<^item> \<open>Mhi_Reg\<close>: registers, doorbells, wake votes. \<open>Mhi_PmTable\<close>: the power states as a step
    relation, \<open>mhi_tryset_pm_state\<close> and the documented transitions.
  \<^item> \<open>Mhi_Queue\<close>: queueing of socket buffers, plain buffers and premapped buffers; one
    specification, \<open>queue_spec\<close>, for the three. \<open>Mhi_Xfer\<close>: completions, \<open>parse_xfer_event\<close> and
    \<open>parse_rsc_event\<close>. \<open>Mhi_Event\<close>: the event ring handlers and the interrupt handlers.
  \<^item> \<open>Mhi_PmCore\<close>: the reactions to M0, M1 and M3, suspend and resume.
  \<^item> \<open>Mhi_Init\<close>: the channel table, the control segment, contexts, interrupt lines, device
    registers (\<open>core/mhi_init.c\<close>).
  \<^item> \<open>Mhi_Chan\<close>: commands, starting, resetting and stopping channels, clients bound and unbound.
  \<^item> \<open>Mhi_Boot\<close>: the transition to READY and firmware (\<open>core/mhi_boot.c\<close>). \<open>Mhi_Pm\<close>: the workers,
    power up and down, the devices on the bus, time sync (\<open>core/mhi_pm.c\<close>, \<open>core/mhi_init.c\<close>).
  \<^item> \<open>Mhi_Qti\<close>: the PCIe glue (\<open>controllers/mhi_qti.c\<close>): resources, probe and remove, suspend and
    resume as the kernel calls them, and the registration of controllers.
  \<^item> \<open>Mhi_Bus\<close>: loading and unloading the module (\<open>mhi_init\<close>, \<open>mhi_exit\<close> and the parts they
    call), the drivers with their tables, and \<open>mhi_match\<close>. \<open>Mhi_Cntrl\<close>: the list of the controllers,
    the locale \<open>registry\<close> with its interpretations for the two ways to find one (the place on the
    PCI bus, the number of the character device), and the character device of a controller.
  \<^item> \<open>Mhi_Mon\<close>: the monitor, a debugfs file that shows the transfers: what the queue functions
    report, the readers, how an event is printed and read.
  \<^item> \<open>Mhi_Client\<close>: the contract between the bus and its clients, the locale \<open>client_queue\<close>,
    interpreted on the queue functions.
  \<^item> \<open>Mhi_Qmap\<close>: QMAP and MBIM framing, the locale \<open>qmap_format\<close> for the two header formats.
    \<open>Mhi_Netdev\<close>: the network device around it (\<open>devices/mhi_netdev_quectel.c\<close>).
  \<^item> \<open>Mhi_Uci\<close>: the character devices (\<open>devices/mhi_uci.c\<close>). \<open>Mhi_Dtr\<close>: the control lines
    (\<open>core/mhi_dtr.c\<close>) and the character devices' \<open>ioctl\<close>.
  \<^item> \<open>Mhi_Sat\<close>: the satellite driver (\<open>devices/mhi_satellite.c\<close>), through which another processor
    has the host map memory and start and reset the channels it serves itself. The driver is in
    the tree, but the Makefile does not build it.
\<close>

text \<open>
  What the properties show.

  \<^item> Rings and queueing: a ring is a bounded queue whatever its address; a queue function
    appends one descriptor and one record or changes nothing; a completion hands the oldest
    buffers back, in order, once each, up to the one the event names, and returns exactly if the
    device named one that is queued.
  \<^item> Power: the state moves along the documented transitions only; errors are left only for
    the states that may follow them; suspend and resume are inverse to each other and every
    failure of them gives its votes back; powering up leaves nothing behind or a controller that
    will come up; powering down reaches the disabled state from everywhere.
  \<^item> Set-up: a PCI device is set up with every resource held once or, with three faults that
    are stated, none; a controller keeps its number; the control segment gives every ring its own part; the registers name the
    structures; contexts are built completely or not at all.
  \<^item> Channels: preparing, resetting and stopping a channel, with all outcomes; commands find
    their channel again.
  \<^item> Firmware: an image is the pieces its table lists.
  \<^item> The bus: what loading the module leaves registered in every case, and what unloading takes
    away; every device on the bus but one kind has exactly one driver, whose probe is called;
    a controller is found by its own keys from its first probe to its removal, and never after.
    Power down takes every device of the clients off the bus and leaves the controller's own.
  \<^item> Clients: packets framed by the transmit path come out of the receive path as they were;
    the receive handlers return on every frame but those described, on which they never do; a
    receive buffer is never in two places; a reader of a character device sees the bytes the
    modem sent, in order.
  \<^item> The monitor: every buffer queued while a file is open becomes a line for each reader, or is
    counted as lost; a line fits its buffer; a reader sees its lines whole and in order, except
    after a copy that failed; files are opened and closed in balance, except across a power up.
  \<^item> The other processor: each message of its commands is answered once, element for element, and
    the memory held mapped is what the answers told it of; when its link goes no channel runs and
    nothing is mapped, but a greeting that was due makes a controller active without a link.

  What is not modelled. Locks, and with them interleavings inside a function: each operation is
  one step, and what may happen while it waits is its \<open>env\<close> argument. Messages to the log, the
  text shown in sysfs and debugfs (but for the monitor), what the driver core does behind
  a registration (its answers are parameters), wake sources and jiffies. \<open>devices/mhi_netdev.c\<close>, \<open>controllers/mhi_qcom.c\<close>
  and \<open>controllers/mhi_arch_qti.c\<close>, which the Makefile does not build, and the branches of the other
  files that the configuration leaves out (one network card for all links, packets without a
  copy, the NSS offload, the power management of QCOM platforms). The kernel's network stack behind \<open>netif_receive_skb\<close> is left out of
  the state; what is handed to it is in the trace.
\<close>

end
